(* ===== verification/Prelude.thy ===== *)
theory Prelude
  imports Main "HOL-Library.Word" "HOL-Library.Monad_Syntax" "HOL-Library.Code_Target_Nat"
begin

text \<open>
  Shared vocabulary of the development: the C integer types as words, byte buffers with
  checked accesses, the little-endian view of integers, white space, and the generic lemmas on lists,
  options and words that the component theories use.

  Conventions of the whole development.
  \<^item> C's undefined behaviour (an access outside an object, a null dereference, a call that
    does not return) is the value \<^term>\<open>None\<close>; a function of the source that cannot run
    into it has a plain result type. Negative return codes are ordinary values: the
    \<open>int\<close> the source returns.
  \<^item> The machine is the little-endian LP64 target of the repository (arm64), so
    \<open>cpu_to_le32\<close> and \<open>le32_to_cpu\<close> are the identity on values.
\<close>

section \<open>Integer types and error numbers\<close>

type_synonym u8 = "8 word"
type_synonym u16 = "16 word"
type_synonym u32 = "32 word"
type_synonym u64 = "64 word"
type_synonym bytes = "u8 list"

abbreviation (input) ENOENT :: int where "ENOENT \<equiv> 2"
abbreviation (input) ENOMEM :: int where "ENOMEM \<equiv> 12"
abbreviation (input) EFAULT :: int where "EFAULT \<equiv> 14"
abbreviation (input) EINVAL :: int where "EINVAL \<equiv> 22"
abbreviation (input) EMSGSIZE :: int where "EMSGSIZE \<equiv> 90"

named_theorems mem_simps \<open>facts on checked buffer accesses\<close>

section \<open>Checked buffer accesses\<close>

text \<open>\<open>mem_read buf i n\<close> is what \<open>memcpy(dst, buf + i, n)\<close> reads,
  \<open>mem_write buf i bs\<close> the buffer after \<open>memcpy(buf + i, bs, length bs)\<close>;
  both are \<^term>\<open>None\<close> when the access leaves the object.\<close>

definition mem_read :: "bytes \<Rightarrow> nat \<Rightarrow> nat \<Rightarrow> bytes option" where
  "mem_read buf i n = (if i + n \<le> length buf then Some (take n (drop i buf)) else None)"

definition mem_write :: "bytes \<Rightarrow> nat \<Rightarrow> bytes \<Rightarrow> bytes option" where
  "mem_write buf i bs =
     (if i + length bs \<le> length buf
      then Some (take i buf @ bs @ drop (i + length bs) buf) else None)"

lemma mem_read_Some_iff [mem_simps]:
  "mem_read buf i n = Some bs \<longleftrightarrow> i + n \<le> length buf \<and> bs = take n (drop i buf)"
  by (auto simp: mem_read_def)

lemma mem_read_length: "mem_read buf i n = Some bs \<Longrightarrow> length bs = n"
  by (auto simp: mem_read_def split: if_splits)

lemma mem_write_Some_iff [mem_simps]:
  "mem_write buf i bs = Some buf' \<longleftrightarrow>
     i + length bs \<le> length buf \<and> buf' = take i buf @ bs @ drop (i + length bs) buf"
  by (auto simp: mem_write_def)

lemma mem_write_length: "mem_write buf i bs = Some buf' \<Longrightarrow> length buf' = length buf"
  by (auto simp: mem_write_def split: if_splits)

lemma mem_read_write_same:
  "mem_write buf i bs = Some buf' \<Longrightarrow> n = length bs \<Longrightarrow> mem_read buf' i n = Some bs"
  by (auto simp: mem_write_def mem_read_def split: if_splits)

lemma mem_read_write_before:
  assumes "mem_write buf i bs = Some buf'" and "j + n \<le> i"
  shows "mem_read buf' j n = mem_read buf j n"
  using assms by (auto simp: mem_write_def mem_read_def drop_take split: if_splits)

lemma mem_read_write_after:
  assumes "mem_write buf i bs = Some buf'" and "i + length bs \<le> j"
  shows "mem_read buf' j n = mem_read buf j n"
proof -
  have "drop j buf' = drop j buf"
    using assms by (auto simp: mem_write_def split: if_splits)
  then show ?thesis
    using mem_write_length [OF assms(1)] by (simp add: mem_read_def)
qed

section \<open>The first element with a property\<close>

lemma find_SomeD:
  "find P xs = Some x \<Longrightarrow> \<exists>pre post. xs = pre @ x # post \<and> P x \<and> (\<forall>y \<in> set pre. \<not> P y)"
proof (induction xs)
  case Nil
  then show ?case by simp
next
  case (Cons a xs)
  show ?case
  proof (cases "P a")
    case True
    with Cons.prems show ?thesis by (intro exI [of _ "[]"] exI [of _ xs]) simp
  next
    case False
    with Cons obtain pre post where "xs = pre @ x # post" and "P x" and "\<forall>y \<in> set pre. \<not> P y"
      by auto
    with False show ?thesis by (intro exI [of _ "a # pre"] exI [of _ post]) simp
  qed
qed

lemma find_SomeI: "\<forall>y \<in> set pre. \<not> P y \<Longrightarrow> P x \<Longrightarrow> find P (pre @ x # post) = Some x"
  by (induction pre) auto

lemma find_append:
  "find P (xs @ ys) = (case find P xs of None \<Rightarrow> find P ys | Some x \<Rightarrow> Some x)"
  by (induction xs) auto

lemma find_cong_set: "(\<And>x. x \<in> set xs \<Longrightarrow> P x = Q x) \<Longrightarrow> find P xs = find Q xs"
  by (induction xs) auto

section \<open>Little-endian integers\<close>

text \<open>\<open>le_bytes n v\<close> is the \<open>n\<close>-byte object representation of \<open>v\<close> (truncated to
  \<open>n\<close> bytes, as a conversion to the narrower type truncates); \<open>le_val\<close> reads it back.\<close>

fun le_bytes :: "nat \<Rightarrow> nat \<Rightarrow> bytes" where
  "le_bytes 0 v = []"
| "le_bytes (Suc n) v = of_nat (v mod 256) # le_bytes n (v div 256)"

fun le_val :: "bytes \<Rightarrow> nat" where
  "le_val [] = 0"
| "le_val (b # bs) = unat b + 256 * le_val bs"

lemma length_le_bytes [simp]: "length (le_bytes n v) = n"
  by (induction n arbitrary: v) auto

lemma unat_byte_less: "unat (b :: u8) < 256"
  using unsigned_less [of b, where ?'a = nat] by simp

lemma unat_u16_less: "unat (w :: u16) < 65536"
  using unsigned_less [of w, where ?'a = nat] by simp

lemma unat_u32_less: "unat (w :: u32) < 4294967296"
  using unsigned_less [of w, where ?'a = nat] by simp

lemma unat_of_nat_byte [simp]: "unat (of_nat (v mod 256) :: u8) = v mod 256"
  by (simp add: unat_of_nat)

lemma le_val_le_bytes: "le_val (le_bytes n v) = v mod 256 ^ n"
proof (induction n arbitrary: v)
  case 0
  then show ?case by simp
next
  case (Suc n)
  have "v mod 256 + 256 * (v div 256 mod 256 ^ n) = v mod (256 * 256 ^ n)"
    by (simp add: mod_mult2_eq)
  then show ?case using Suc by simp
qed

lemma le_val_le_bytes_id [simp]: "v < 256 ^ n \<Longrightarrow> le_val (le_bytes n v) = v"
  by (simp add: le_val_le_bytes)

lemma le_val_bound: "le_val bs < 256 ^ length bs"
proof (induction bs)
  case Nil
  then show ?case by simp
next
  case (Cons b bs)
  have "unat b < 256" by (rule unat_byte_less)
  with Cons show ?case by simp
qed

lemma le_bytes_le_val [simp]: "le_bytes (length bs) (le_val bs) = bs"
proof (induction bs)
  case Nil
  then show ?case by simp
next
  case (Cons b bs)
  have "unat b < 256" by (rule unat_byte_less)
  then show ?case using Cons by simp
qed

lemma le_val_inj: "length xs = length ys \<Longrightarrow> le_val xs = le_val ys \<Longrightarrow> xs = ys"
  by (metis le_bytes_le_val)

section \<open>Characters\<close>

text \<open>\<open>isspace\<close> in the C locale, which \<open>strtol\<close> and its relatives skip.\<close>

definition is_space :: "char \<Rightarrow> bool" where
  "is_space c \<longleftrightarrow> c \<in> {CHR 0x20, CHR 0x09, CHR 0x0a, CHR 0x0b, CHR 0x0c, CHR 0x0d}"

end
