(* ===== verification/Hash.thy ===== *)
theory Hash
  imports Prelude
begin

unbundle bit_operations_syntax

text \<open>
  The hash functions of \<^verbatim>\<open>qcom/qrtr/src/hash.c\<close>. The name service keys its tables by
  \<open>hash_u32\<close> of a node or port number, and never compares the number itself: two numbers
  with one hash would be one entry. \<open>hash_u32\<close> multiplies by an odd constant, so it is a
  bijection and the tables are keyed as if by the number.
\<close>

text \<open>\<open>hash_mem\<close>: the loop over the \<open>len\<close> bytes of \<open>data\<close>, which starts with
  \<open>h = len\<close>.\<close>

fun hash_mem_loop :: "u32 \<Rightarrow> bytes \<Rightarrow> u32" where
  "hash_mem_loop h [] = h"
| "hash_mem_loop h (b # bs) =
     hash_mem_loop ((drop_bit 27 h XOR push_bit 5 h) XOR ucast b) bs"

definition hash_mem :: "bytes \<Rightarrow> u32" where
  "hash_mem data = hash_mem_loop (of_nat (length data)) data"

text \<open>\<open>strlen\<close> stops at the first zero byte; a buffer without one is read past its end.\<close>

definition hash_string :: "bytes \<Rightarrow> u32 option" where
  "hash_string value =
     (if 0 \<in> set value then Some (hash_mem (takeWhile (\<lambda>b. b \<noteq> 0) value)) else None)"

text \<open>\<open>value * 2654435761UL\<close> is a 64-bit product, truncated by the return type.\<close>

definition hash_u32 :: "u32 \<Rightarrow> u32" where
  "hash_u32 value = ucast ((ucast value :: u64) * 2654435761)"

definition hash_u64 :: "u64 \<Rightarrow> u32" where
  "hash_u64 value = hash_u32 (ucast (value AND 0xffffffff)) XOR hash_u32 (ucast (drop_bit 32 value))"

text \<open>On the LP64 target \<open>sizeof(value) == sizeof(uint64_t)\<close>, so the first branch is taken.\<close>

definition hash_pointer :: "u64 \<Rightarrow> u32" where
  "hash_pointer value = hash_u64 value"

lemma hash_u32_eq: "hash_u32 v = v * 2654435761"
proof -
  have "unat v < 18446744073709551616"
    using unat_u32_less [of v] by simp
  then have "unat (hash_u32 v) = unat (v * 2654435761)"
    by (simp add: hash_u32_def unat_word_ariths unsigned_ucast_eq take_bit_eq_mod mod_mod_cancel)
  then show ?thesis by (rule word_unat_eq_iff [THEN iffD2])
qed

text \<open>The multiplicative inverse of the constant modulo 2 to the 32.\<close>

lemma hash_u32_inverse: "hash_u32 v * 244002641 = v"
proof -
  have "(2654435761 :: u32) * 244002641 = 1" by simp
  then have "v * (2654435761 * 244002641) = v" by (simp only: mult_1_right)
  then show ?thesis by (simp only: hash_u32_eq mult.assoc)
qed

lemma hash_u32_inj: "hash_u32 a = hash_u32 b \<longleftrightarrow> a = b"
  by (metis hash_u32_inverse)

text \<open>\<open>hash_u32\<close> is a bijection of the 32-bit numbers, so tables keyed by the hash of a
  node or port number never confuse two of them.\<close>

lemma hash_u32_bij: "bij hash_u32"
proof (rule bijI)
  show "inj hash_u32" by (rule injI) (simp add: hash_u32_inj)
  then show "surj hash_u32" by (rule finite_UNIV_inj_surj [OF finite])
qed

end
