(* ===== verification/Qmap.thy ===== *)
theory Qmap
  imports Hash
begin

text \<open>
  The open-addressing hash table of \<^verbatim>\<open>qcom/qrtr/src/map.c\<close>: linear probing, a marker for
  deleted entries, growth by 256 slots. First the operations as the source has them, then
  the table invariant, the lookup laws, and the contract the name service relies on.
\<close>

section \<open>The table\<close>

text \<open>
  A \<open>struct map_entry\<close> holds a pointer to a \<open>struct map_item\<close>: \<open>NULL\<close>, the address of the
  static marker \<open>deleted\<close>, or an item with its key. The item is embedded in its container
  (\<open>container_of\<close>), which is the value \<open>'v\<close> here. Sizes and counts are \<open>nat\<close>: a table of
  \<open>2 ^ 31\<close> entries, where the source's \<open>int\<close> index would overflow, is an allocation of
  16 GiB.
\<close>

datatype 'v slot = NoItem | Deleted | Item u32 'v

record 'v qmap =
  msize :: nat
  mcount :: nat
  mdata :: "'v slot list"

definition map_create :: "'v qmap" where
  "map_create = \<lparr>msize = 0, mcount = 0, mdata = []\<rparr>"

text \<open>\<open>map_clear\<close> calls \<open>release\<close> on every live item, in index order: the list of released
  values is the first component.\<close>

fun slot_items :: "'v slot list \<Rightarrow> (u32 \<times> 'v) list" where
  "slot_items [] = []"
| "slot_items (Item k v # ss) = (k, v) # slot_items ss"
| "slot_items (s # ss) = slot_items ss"

definition map_clear :: "'v qmap \<Rightarrow> 'v list \<times> 'v qmap" where
  "map_clear m =
     (map snd (slot_items (mdata m)),
      m\<lparr>mdata := map (\<lambda>_. NoItem) (mdata m), mcount := 0\<rparr>)"

text \<open>\<open>map_hash\<close>: the slot an insertion of \<open>key\<close> uses. The loop counts \<open>i\<close> up to the
  size; the argument is the number of iterations left.\<close>

fun map_hash_loop :: "nat \<Rightarrow> 'v qmap \<Rightarrow> u32 \<Rightarrow> nat \<Rightarrow> int \<times> 'v qmap" where
  "map_hash_loop 0 m key idx = (-2, m)"
| "map_hash_loop (Suc n) m key idx =
     (case mdata m ! idx of
        NoItem \<Rightarrow> (int idx, m\<lparr>mcount := mcount m + 1\<rparr>)
      | Deleted \<Rightarrow> (int idx, m\<lparr>mcount := mcount m + 1\<rparr>)
      | Item k v \<Rightarrow>
          if k = key then (int idx, m)
          else map_hash_loop n m key ((idx + 1) mod msize m))"

definition map_hash :: "'v qmap \<Rightarrow> u32 \<Rightarrow> int \<times> 'v qmap" where
  "map_hash m key =
     (if mcount m = msize m then (-1, m)
      else map_hash_loop (msize m) m key (unat key mod msize m))"

text \<open>
  \<open>map_reput\<close> and \<open>map_rehash\<close> call each other; the first argument is fuel, and running out
  of it is \<^term>\<open>None\<close>. \<open>ok n\<close> says whether \<open>calloc\<close> can serve a table of \<open>n\<close> entries.
  The old item is the third result of \<open>map_reput\<close> (the out parameter \<open>old\<close>). When an
  insertion fails half way through \<open>map_rehash\<close>, the partly filled new table stays.
\<close>

fun map_reput_fuel ::
    "nat \<Rightarrow> (nat \<Rightarrow> bool) \<Rightarrow> 'v qmap \<Rightarrow> u32 \<Rightarrow> 'v \<Rightarrow> (int \<times> 'v qmap \<times> 'v option) option"
  and map_rehash_fuel :: "nat \<Rightarrow> (nat \<Rightarrow> bool) \<Rightarrow> 'v qmap \<Rightarrow> (int \<times> 'v qmap) option"
  and rehash_loop ::
    "nat \<Rightarrow> (nat \<Rightarrow> bool) \<Rightarrow> 'v slot list \<Rightarrow> 'v qmap \<Rightarrow> (int \<times> 'v qmap) option" where
  "map_reput_fuel 0 ok m key v = None"
| "map_reput_fuel (Suc f) ok m key v =
     (let (rc, m1) = map_hash m key in
      if rc < 0 then
        (case map_rehash_fuel f ok m1 of
           None \<Rightarrow> None
         | Some (rc', m2) \<Rightarrow>
             if rc' < 0 then Some (rc', m2, None) else map_reput_fuel f ok m2 key v)
      else
        let old = (case mdata m1 ! nat rc of Item k w \<Rightarrow> Some w | _ \<Rightarrow> None) in
        Some (0, m1\<lparr>mdata := (mdata m1)[nat rc := Item key v]\<rparr>, old))"
| "map_rehash_fuel 0 ok m = None"
| "map_rehash_fuel (Suc f) ok m =
     (if \<not> ok (msize m + 256) then Some (-1, m)
      else rehash_loop f ok (mdata m)
             (m\<lparr>mdata := replicate (msize m + 256) NoItem, msize := msize m + 256, mcount := 0\<rparr>))"
| "rehash_loop f ok [] m = Some (0, m)"
| "rehash_loop f ok (s # ss) m =
     (case s of
        Item k w \<Rightarrow>
          (case map_reput_fuel f ok m k w of
             None \<Rightarrow> None
           | Some (rc, m', _) \<Rightarrow> if rc < 0 then Some (rc, m') else rehash_loop f ok ss m')
      | _ \<Rightarrow> rehash_loop f ok ss m)"

text \<open>Four units of fuel are enough: one for the insertion that grows the table, one for
  the growth, one for an insertion into the new table, one for the repeated insertion.\<close>

definition map_reput ::
    "(nat \<Rightarrow> bool) \<Rightarrow> 'v qmap \<Rightarrow> u32 \<Rightarrow> 'v \<Rightarrow> (int \<times> 'v qmap \<times> 'v option) option" where
  "map_reput ok m key v = map_reput_fuel 4 ok m key v"

definition map_put :: "(nat \<Rightarrow> bool) \<Rightarrow> 'v qmap \<Rightarrow> u32 \<Rightarrow> 'v \<Rightarrow> (int \<times> 'v qmap) option" where
  "map_put ok m key v = map_option (\<lambda>(rc, m', _). (rc, m')) (map_reput ok m key v)"

definition map_rehash :: "(nat \<Rightarrow> bool) \<Rightarrow> 'v qmap \<Rightarrow> (int \<times> 'v qmap) option" where
  "map_rehash ok m = map_rehash_fuel 4 ok m"

fun map_find_loop :: "nat \<Rightarrow> 'v qmap \<Rightarrow> u32 \<Rightarrow> nat \<Rightarrow> nat option" where
  "map_find_loop 0 m key idx = None"
| "map_find_loop (Suc n) m key idx =
     (case mdata m ! idx of
        NoItem \<Rightarrow> None
      | Deleted \<Rightarrow> map_find_loop n m key ((idx + 1) mod msize m)
      | Item k v \<Rightarrow>
          if k = key then Some idx else map_find_loop n m key ((idx + 1) mod msize m))"

definition map_find :: "'v qmap \<Rightarrow> u32 \<Rightarrow> nat option" where
  "map_find m key =
     (if msize m = 0 then None
      else map_find_loop (msize m) m key (unat key mod msize m))"

definition map_contains :: "'v qmap \<Rightarrow> u32 \<Rightarrow> bool" where
  "map_contains m key = (map_find m key \<noteq> None)"

definition map_get :: "'v qmap \<Rightarrow> u32 \<Rightarrow> 'v option" where
  "map_get m key =
     (case map_find m key of
        None \<Rightarrow> None
      | Some i \<Rightarrow> (case mdata m ! i of Item k v \<Rightarrow> Some v | _ \<Rightarrow> None))"

text \<open>\<open>map_remove\<close> returns \<open>!e\<close>: 0 when an entry was removed, 1 otherwise.\<close>

definition map_remove :: "'v qmap \<Rightarrow> u32 \<Rightarrow> int \<times> 'v qmap" where
  "map_remove m key =
     (case map_find m key of
        None \<Rightarrow> (1, m)
      | Some i \<Rightarrow> (0, m\<lparr>mdata := (mdata m)[i := Deleted], mcount := mcount m - 1\<rparr>))"

definition map_length :: "'v qmap option \<Rightarrow> nat" where
  "map_length mo = (case mo of None \<Rightarrow> 0 | Some m \<Rightarrow> mcount m)"

text \<open>Iteration: the iterator is the index of the current entry.\<close>

function map_iter_from :: "'v qmap \<Rightarrow> nat \<Rightarrow> nat option" where
  "map_iter_from m i =
     (if i < msize m then
        (case mdata m ! i of Item k v \<Rightarrow> Some i | _ \<Rightarrow> map_iter_from m (i + 1))
      else None)"
  by pat_completeness auto
termination
  by (relation "measure (\<lambda>(m, i). msize m - i)") auto

declare map_iter_from.simps [simp del]

definition map_iter_first :: "'v qmap \<Rightarrow> nat option" where
  "map_iter_first m = map_iter_from m 0"

definition map_iter_next :: "'v qmap \<Rightarrow> nat option \<Rightarrow> nat option" where
  "map_iter_next m iter =
     (case iter of None \<Rightarrow> None | Some i \<Rightarrow> map_iter_from m (i + 1))"

definition map_iter_item :: "'v qmap \<Rightarrow> nat \<Rightarrow> 'v option" where
  "map_iter_item m i = (case mdata m ! i of Item k v \<Rightarrow> Some v | _ \<Rightarrow> None)"

text \<open>A client that holds the pointer a search returned writes the container through it; the
  entry stays where it is. The value of the model is replaced in its slot.\<close>

definition map_write :: "'v qmap \<Rightarrow> u32 \<Rightarrow> 'v \<Rightarrow> 'v qmap" where
  "map_write m key v =
     (case map_find m key of
        None \<Rightarrow> m
      | Some i \<Rightarrow> m\<lparr>mdata := (mdata m)[i := Item key v]\<rparr>)"

section \<open>Probe sequences\<close>

text \<open>The slots a search visits, in order; both loops take the first slot of the sequence
  that stops them.\<close>

fun probe_seq :: "nat \<Rightarrow> nat \<Rightarrow> nat \<Rightarrow> nat list" where
  "probe_seq sz 0 idx = []"
| "probe_seq sz (Suc n) idx = idx # probe_seq sz n ((idx + 1) mod sz)"

definition path :: "'v qmap \<Rightarrow> u32 \<Rightarrow> nat list" where
  "path m key = probe_seq (msize m) (msize m) (unat key mod msize m)"

fun holds_key :: "u32 \<Rightarrow> 'v slot \<Rightarrow> bool" where
  "holds_key key (Item k v) = (k = key)"
| "holds_key key s = False"

definition stops_find :: "'v qmap \<Rightarrow> u32 \<Rightarrow> nat \<Rightarrow> bool" where
  "stops_find m key i \<longleftrightarrow> mdata m ! i = NoItem \<or> holds_key key (mdata m ! i)"

definition stops_hash :: "'v qmap \<Rightarrow> u32 \<Rightarrow> nat \<Rightarrow> bool" where
  "stops_hash m key i \<longleftrightarrow>
     mdata m ! i = NoItem \<or> mdata m ! i = Deleted \<or> holds_key key (mdata m ! i)"

lemma probe_seq_nth: "i < n \<Longrightarrow> idx < sz \<Longrightarrow> probe_seq sz n idx ! i = (idx + i) mod sz"
proof (induction n arbitrary: idx i)
  case 0
  then show ?case by simp
next
  case (Suc n)
  then show ?case
    by (cases i) (auto simp: mod_add_left_eq)
qed

lemma length_probe_seq [simp]: "length (probe_seq sz n idx) = n"
  by (induction n arbitrary: idx) auto

lemma mod_add_cancel_le:
  fixes i j idx sz :: nat
  assumes "i \<le> j" and "j < sz" and "(idx + i) mod sz = (idx + j) mod sz"
  shows "i = j"
proof -
  have "sz dvd (idx + j) - (idx + i)"
    using assms by (metis add_le_cancel_left mod_eq_dvd_iff_nat)
  then have "sz dvd j - i" by simp
  then show ?thesis using assms(1,2) by (auto dest!: dvd_imp_le)
qed

lemma distinct_probe_seq: "idx < sz \<Longrightarrow> distinct (probe_seq sz sz idx)"
  unfolding distinct_conv_nth
  by (metis length_probe_seq linear mod_add_cancel_le probe_seq_nth)

lemma set_probe_seq_subset: "idx < sz \<Longrightarrow> set (probe_seq sz n idx) \<subseteq> {..<sz}"
proof (induction n arbitrary: idx)
  case 0
  then show ?case by simp
next
  case (Suc n)
  then have "(idx + 1) mod sz < sz" by simp
  with Suc show ?case by auto
qed

lemma set_probe_seq: "idx < sz \<Longrightarrow> set (probe_seq sz sz idx) = {..<sz}"
proof -
  assume idx: "idx < sz"
  have "card (set (probe_seq sz sz idx)) = sz"
    using distinct_card [OF distinct_probe_seq [OF idx]] by simp
  with set_probe_seq_subset [OF idx] show ?thesis
    by (metis card_lessThan card_subset_eq finite_lessThan)
qed

lemma set_path: "0 < msize m \<Longrightarrow> set (path m key) = {..<msize m}"
  by (simp add: path_def set_probe_seq)

lemma distinct_path: "0 < msize m \<Longrightarrow> distinct (path m key)"
  by (simp add: path_def distinct_probe_seq)

lemma map_find_loop_eq:
  "map_find_loop n m key idx =
     (case find (stops_find m key) (probe_seq (msize m) n idx) of
        None \<Rightarrow> None
      | Some i \<Rightarrow> if mdata m ! i = NoItem then None else Some i)"
proof (induction n arbitrary: idx)
  case 0
  then show ?case by simp
next
  case (Suc n)
  then show ?case
    by (cases "mdata m ! idx") (simp_all add: stops_find_def)
qed

lemma map_find_eq:
  "map_find m key =
     (case find (stops_find m key) (path m key) of
        None \<Rightarrow> None
      | Some i \<Rightarrow> if mdata m ! i = NoItem then None else Some i)"
  by (simp add: map_find_def map_find_loop_eq path_def)

lemma map_hash_loop_eq:
  "map_hash_loop n m key idx =
     (case find (stops_hash m key) (probe_seq (msize m) n idx) of
        None \<Rightarrow> (-2, m)
      | Some i \<Rightarrow>
          (int i, if holds_key key (mdata m ! i) then m else m\<lparr>mcount := mcount m + 1\<rparr>))"
proof (induction n arbitrary: idx)
  case 0
  then show ?case by simp
next
  case (Suc n)
  then show ?case
    by (cases "mdata m ! idx") (simp_all add: stops_hash_def)
qed

lemma map_hash_eq:
  "map_hash m key =
     (if mcount m = msize m then (-1, m)
      else (case find (stops_hash m key) (path m key) of
        None \<Rightarrow> (-2, m)
      | Some i \<Rightarrow>
          (int i, if holds_key key (mdata m ! i) then m else m\<lparr>mcount := mcount m + 1\<rparr>)))"
  by (simp add: map_hash_def map_hash_loop_eq path_def)

section \<open>The table invariant\<close>

text \<open>The array has the size the map says, the count is the number of live items, and no
  empty slot precedes a live item on its key's probe sequence.\<close>

definition unbroken :: "'v qmap \<Rightarrow> bool" where
  "unbroken m \<longleftrightarrow>
     (\<forall>key v pre j post. path m key = pre @ j # post \<longrightarrow> mdata m ! j = Item key v \<longrightarrow>
        (\<forall>i \<in> set pre. mdata m ! i \<noteq> NoItem))"

definition wf_map :: "'v qmap \<Rightarrow> bool" where
  "wf_map m \<longleftrightarrow>
     length (mdata m) = msize m \<and> mcount m = length (slot_items (mdata m)) \<and> unbroken m"

text \<open>No two live items have one key.\<close>

definition uniq_keys :: "'v qmap \<Rightarrow> bool" where
  "uniq_keys m \<longleftrightarrow> distinct (map fst (slot_items (mdata m)))"

text \<open>No entry has been removed since the table was last grown.\<close>

definition no_deleted :: "'v qmap \<Rightarrow> bool" where
  "no_deleted m \<longleftrightarrow> Deleted \<notin> set (mdata m)"

lemma slot_items_append [simp]: "slot_items (xs @ ys) = slot_items xs @ slot_items ys"
  by (induction xs rule: slot_items.induct) auto

lemma set_slot_items: "(k, v) \<in> set (slot_items ss) \<longleftrightarrow> Item k v \<in> set ss"
  by (induction ss rule: slot_items.induct) auto

lemma slot_items_replicate [simp]: "slot_items (replicate n NoItem) = []"
  by (induction n) auto

lemma length_slot_items_le: "length (slot_items ss) \<le> length ss"
  by (induction ss rule: slot_items.induct) auto

lemma count_notin_full:
  "length (slot_items ss) < length ss \<Longrightarrow> \<exists>s \<in> set ss. s = NoItem \<or> s = Deleted"
  by (induction ss rule: slot_items.induct) auto

lemma slot_items_update:
  assumes "i < length ss"
  shows "slot_items (ss[i := s]) = slot_items (take i ss) @ slot_items [s] @ slot_items (drop (Suc i) ss)"
    and "slot_items ss = slot_items (take i ss) @ slot_items [ss ! i] @ slot_items (drop (Suc i) ss)"
proof -
  have "ss[i := s] = take i ss @ [s] @ drop (Suc i) ss"
    using assms by (simp add: upd_conv_take_nth_drop)
  then show "slot_items (ss[i := s]) = slot_items (take i ss) @ slot_items [s] @ slot_items (drop (Suc i) ss)"
    by (metis slot_items_append)
  have "ss = take i ss @ [ss ! i] @ drop (Suc i) ss"
    using assms by (simp add: id_take_nth_drop)
  then show "slot_items ss = slot_items (take i ss) @ slot_items [ss ! i] @ slot_items (drop (Suc i) ss)"
    by (metis slot_items_append)
qed

section \<open>Insertion into a given slot\<close>

definition insert_at :: "'v qmap \<Rightarrow> nat \<Rightarrow> u32 \<Rightarrow> 'v \<Rightarrow> 'v qmap" where
  "insert_at m i key v =
     m\<lparr>mdata := (mdata m)[i := Item key v],
       mcount := mcount m + (if holds_key key (mdata m ! i) then 0 else 1)\<rparr>"

definition slot_value :: "'v slot \<Rightarrow> 'v option" where
  "slot_value s = (case s of Item k v \<Rightarrow> Some v | _ \<Rightarrow> None)"

lemma insert_at_sel [simp]:
  "msize (insert_at m i key v) = msize m"
  "mdata (insert_at m i key v) = (mdata m)[i := Item key v]"
  "path (insert_at m i key v) k = path m k"
  by (simp_all add: insert_at_def path_def)

lemma map_reput_direct:
  assumes "mcount m \<noteq> msize m" and "find (stops_hash m key) (path m key) = Some i"
  shows "map_reput_fuel (Suc f) ok m key v =
    Some (0, insert_at m i key v, slot_value (mdata m ! i))"
  using assms by (auto simp: map_hash_eq insert_at_def slot_value_def Let_def)

lemma wf_map_size: "wf_map m \<Longrightarrow> mcount m \<le> msize m"
  by (metis length_slot_items_le wf_map_def)

lemma hash_slot_exists:
  assumes "wf_map m" and "mcount m < msize m"
  obtains i where "find (stops_hash m key) (path m key) = Some i" and "i < msize m"
proof -
  from assms obtain s where s: "s \<in> set (mdata m)" and free: "s = NoItem \<or> s = Deleted"
    using count_notin_full [of "mdata m"] by (auto simp: wf_map_def)
  from s assms(1) obtain j where j: "j < msize m" "mdata m ! j = s"
    by (metis in_set_conv_nth wf_map_def)
  with assms(2) have "j \<in> set (path m key)" by (simp add: set_path)
  with j free have "find (stops_hash m key) (path m key) \<noteq> None"
    by (auto simp: find_None_iff stops_hash_def)
  then obtain i where i: "find (stops_hash m key) (path m key) = Some i" by auto
  then have "i \<in> set (path m key)" by (auto dest: find_SomeD)
  then have "i < msize m" using assms(2) by (simp add: set_path)
  with i that show ?thesis by blast
qed

text \<open>The slot an insertion chooses: every slot before it holds another key.\<close>

lemma hash_slotD:
  assumes "find (stops_hash m key) (path m key) = Some i"
  obtains pre post where "path m key = pre @ i # post"
    and "stops_hash m key i"
    and "\<And>j. j \<in> set pre \<Longrightarrow> \<exists>k v. mdata m ! j = Item k v \<and> k \<noteq> key"
proof -
  from find_SomeD [OF assms] obtain pre post where
    p: "path m key = pre @ i # post" "stops_hash m key i"
    and n: "\<forall>j \<in> set pre. \<not> stops_hash m key j" by blast
  have "\<exists>k v. mdata m ! j = Item k v \<and> k \<noteq> key" if "j \<in> set pre" for j
    using n that by (cases "mdata m ! j") (auto simp: stops_hash_def)
  with p that show ?thesis by blast
qed

lemma path_split_unique:
  assumes "0 < msize m" and "path m key = pre @ i # post" and "path m key = pre' @ i # post'"
  shows "pre' = pre" and "post' = post"
proof -
  have "i \<notin> set pre" and "i \<notin> set post"
    using distinct_path [OF assms(1), of key] assms(2) by auto
  then show "pre' = pre" and "post' = post"
    using append_Cons_eq_iff [of i pre post pre' post'] assms(2,3) by auto
qed

lemma path_bound: "path m key = pre @ i # post \<Longrightarrow> i < msize m"
proof (cases "msize m")
  case (Suc n)
  assume "path m key = pre @ i # post"
  then have "i \<in> set (path m key)" by simp
  with Suc show ?thesis by (simp add: set_path)
qed (simp add: path_def)

lemma map_get_eq:
  "map_get m key =
     (case find (stops_find m key) (path m key) of
        None \<Rightarrow> None | Some i \<Rightarrow> slot_value (mdata m ! i))"
  by (auto simp: map_get_def map_find_eq slot_value_def split: option.splits)

lemma unbrokenD:
  "unbroken m \<Longrightarrow> path m key = pre @ j # post \<Longrightarrow> mdata m ! j = Item key v \<Longrightarrow>
     i \<in> set pre \<Longrightarrow> mdata m ! i \<noteq> NoItem"
  unfolding unbroken_def by blast

lemma stops_find_insert_other:
  "x \<noteq> i \<Longrightarrow> stops_find (insert_at m i key v) k x = stops_find m k x"
  by (simp add: stops_find_def)

lemma insert_at_count:
  assumes "wf_map m" and "i < msize m" and "stops_hash m key i"
  shows "mcount (insert_at m i key v) = length (slot_items (mdata (insert_at m i key v)))"
proof -
  have i: "i < length (mdata m)" using assms(1,2) by (simp add: wf_map_def)
  have "length (slot_items [mdata m ! i]) = (if holds_key key (mdata m ! i) then 1 else 0)"
    using assms(3) by (cases "mdata m ! i") (auto simp: stops_hash_def)
  moreover have "mcount m = length (slot_items (mdata m))" using assms(1) by (simp add: wf_map_def)
  ultimately show ?thesis
    using slot_items_update(1) [OF i, of "Item key v"] slot_items_update(2) [OF i]
    by (simp add: insert_at_def)
qed

lemma insert_at_unbroken:
  assumes wf: "wf_map m" and sel: "find (stops_hash m key) (path m key) = Some i"
  shows "unbroken (insert_at m i key v)"
  unfolding unbroken_def
proof (intro allI impI ballI)
  fix k w pre j post x
  assume p: "path (insert_at m i key v) k = pre @ j # post"
    and it: "mdata (insert_at m i key v) ! j = Item k w" and x: "x \<in> set pre"
  obtain pre0 post0 where h: "path m key = pre0 @ i # post0"
    "\<And>y. y \<in> set pre0 \<Longrightarrow> \<exists>k' v'. mdata m ! y = Item k' v' \<and> k' \<noteq> key"
    using hash_slotD [OF sel] by metis
  have sz: "0 < msize m" and il: "i < length (mdata m)"
    using path_bound [OF h(1)] wf by (auto simp: wf_map_def)
  show "mdata (insert_at m i key v) ! x \<noteq> NoItem"
  proof (cases "j = i")
    case True
    then have "k = key" using it il by simp
    then have "pre = pre0" using path_split_unique(1) [OF sz h(1)] p True by simp
    then show ?thesis using h(2) [of x] x il by (cases "x = i") auto
  next
    case False
    then have "mdata m ! x \<noteq> NoItem"
      using unbrokenD [of m k pre j post w x] wf p it x by (simp add: wf_map_def)
    then show ?thesis using il by (cases "x = i") auto
  qed
qed

lemma insert_at_wf:
  assumes "wf_map m" and "find (stops_hash m key) (path m key) = Some i"
  shows "wf_map (insert_at m i key v)"
proof -
  obtain pre post where h: "path m key = pre @ i # post" "stops_hash m key i"
    using hash_slotD [OF assms(2)] by metis
  then show ?thesis
    using insert_at_count [OF assms(1) path_bound [OF h(1)] h(2)] insert_at_unbroken [OF assms]
      assms(1) by (simp add: wf_map_def)
qed

lemma map_get_insert_same:
  assumes "wf_map m" and "find (stops_hash m key) (path m key) = Some i"
  shows "map_get (insert_at m i key v) key = Some v"
proof -
  let ?m = "insert_at m i key v"
  obtain pre post where h: "path m key = pre @ i # post"
    "\<And>y. y \<in> set pre \<Longrightarrow> \<exists>k' v'. mdata m ! y = Item k' v' \<and> k' \<noteq> key"
    using hash_slotD [OF assms(2)] by metis
  have il: "i < length (mdata m)" and ni: "i \<notin> set pre"
    using path_bound [OF h(1)] assms(1) distinct_path [of m key] h(1) by (auto simp: wf_map_def)
  have "\<forall>y \<in> set pre. \<not> stops_find ?m key y"
  proof
    fix y
    assume y: "y \<in> set pre"
    then have "y \<noteq> i" using ni by auto
    then show "\<not> stops_find ?m key y"
      using h(2) [OF y] by (auto simp: stops_find_insert_other) (auto simp: stops_find_def)
  qed
  moreover have "stops_find ?m key i" using il by (simp add: stops_find_def)
  ultimately have "find (stops_find ?m key) (path m key) = Some i"
    unfolding h(1) by (rule find_SomeI)
  then show ?thesis using il by (simp add: map_get_eq slot_value_def)
qed

text \<open>An insertion never changes what a search for another key returns: a slot it fills was
  free or held its own key, and behind a free slot no other key is found.\<close>

lemma map_get_insert_other:
  assumes wf: "wf_map m" and sel: "find (stops_hash m key) (path m key) = Some i" and ne: "k \<noteq> key"
  shows "map_get (insert_at m i key v) k = map_get m k"
proof -
  let ?m = "insert_at m i key v"
  obtain pre0 post0 where h: "path m key = pre0 @ i # post0" "stops_hash m key i"
    using hash_slotD [OF sel] by metis
  have il: "i < length (mdata m)" and sz: "0 < msize m"
    using path_bound [OF h(1)] wf by (auto simp: wf_map_def)
  have "i \<in> set (path m k)" using path_bound [OF h(1)] set_path [OF sz, of k] by simp
  then obtain pre post where p: "path m k = pre @ i # post" by (meson split_list)
  have ni: "i \<notin> set pre" "i \<notin> set post" using distinct_path [OF sz, of k] p by auto
  have same: "find (stops_find ?m k) xs = find (stops_find m k) xs" if "i \<notin> set xs" for xs
    using that by (intro find_cong_set stops_find_insert_other) auto
  have new_i: "\<not> stops_find ?m k i" using il ne by (simp add: stops_find_def)
  have val: "mdata ?m ! j = mdata m ! j" if "j \<noteq> i" for j using that by simp
  show ?thesis
  proof (cases "mdata m ! i = NoItem")
    case False
    then have "\<not> stops_find m k i"
      using h(2) ne by (cases "mdata m ! i") (auto simp: stops_find_def stops_hash_def)
    then have f: "find (stops_find ?m k) (path m k) = find (stops_find m k) (path m k)"
      using new_i same ni by (simp add: p find_append split: option.split)
    have "find (stops_find m k) (path m k) \<noteq> Some i"
      using \<open>\<not> stops_find m k i\<close> by (auto dest: find_SomeD)
    then show ?thesis using f val by (auto simp: map_get_eq split: option.splits)
  next
    case True
    have none: "slot_value (mdata m ! j) = None" if fj: "find (stops_find m k) post = Some j" for j
    proof -
      obtain a b where ab: "post = a @ j # b" "stops_find m k j"
        using find_SomeD [OF fj] by metis
      have "mdata m ! j \<noteq> Item k w" for w
        using wf True p ab(1) unfolding wf_map_def unbroken_def
        by (metis append.assoc append_Cons in_set_conv_decomp)
      then show ?thesis using ab(2) by (cases "mdata m ! j") (auto simp: stops_find_def slot_value_def)
    qed
    have st: "stops_find m k i" using True by (simp add: stops_find_def)
    show ?thesis
    proof (cases "find (stops_find m k) pre")
      case None
      then have old: "map_get m k = None"
        using p st True by (simp add: map_get_eq find_append slot_value_def)
      have "find (stops_find ?m k) (path m k) = find (stops_find m k) post"
        using None p new_i same ni by (simp add: find_append)
      moreover have "find (stops_find m k) post \<noteq> Some i" using ni(2) by (auto dest: find_SomeD)
      ultimately show ?thesis
        using old none val by (auto simp: map_get_eq split: option.splits)
    next
      case (Some j)
      then have "j \<noteq> i" using ni(1) by (auto dest: find_SomeD)
      with Some show ?thesis using p same ni by (simp add: map_get_eq find_append)
    qed
  qed
qed

section \<open>Live items and uniqueness of keys\<close>

lemma map_get_SomeD: "wf_map m \<Longrightarrow> map_get m k = Some v \<Longrightarrow> Item k v \<in> set (mdata m)"
proof -
  assume wf: "wf_map m" and g: "map_get m k = Some v"
  then obtain i where i: "find (stops_find m k) (path m k) = Some i"
    and v: "slot_value (mdata m ! i) = Some v"
    by (auto simp: map_get_eq split: option.splits)
  from find_SomeD [OF i] obtain pre post where p: "path m k = pre @ i # post" and st: "stops_find m k i"
    by metis
  from st v have "mdata m ! i = Item k v"
    by (cases "mdata m ! i") (auto simp: stops_find_def slot_value_def)
  moreover have "i < length (mdata m)" using path_bound [OF p] wf by (simp add: wf_map_def)
  ultimately show ?thesis by (metis nth_mem)
qed

lemma map_get_NoneD:
  assumes wf: "wf_map m" and it: "Item k v \<in> set (mdata m)"
  shows "map_get m k \<noteq> None"
proof -
  from it wf obtain j where j: "j < msize m" "mdata m ! j = Item k v"
    by (metis in_set_conv_nth wf_map_def)
  then have sz: "0 < msize m" by simp
  with j have "j \<in> set (path m k)" using set_path [OF sz] by simp
  then obtain pre post where p: "path m k = pre @ j # post" by (meson split_list)
  have "stops_find m k j" using j by (simp add: stops_find_def)
  then obtain i where i: "find (stops_find m k) (path m k) = Some i"
    using p by (cases "find (stops_find m k) (path m k)") (auto simp: find_None_iff)
  obtain a b where ab: "path m k = a @ i # b" "stops_find m k i" "\<forall>y \<in> set a. \<not> stops_find m k y"
    using find_SomeD [OF i] by metis
  have "j \<notin> set a" using ab(3) \<open>stops_find m k j\<close> by auto
  then have "i = j \<or> i \<in> set pre"
    using p ab(1) by (auto simp: append_eq_append_conv2 append_eq_Cons_conv Cons_eq_append_conv)
  then have "mdata m ! i \<noteq> NoItem"
    using unbrokenD [of m k pre j post v i] wf p j by (auto simp: wf_map_def)
  then show ?thesis
    using i ab(2) by (cases "mdata m ! i") (auto simp: map_get_eq stops_find_def slot_value_def)
qed

lemma distinct_keys_value:
  "distinct (map fst (slot_items ss)) \<Longrightarrow> Item k v \<in> set ss \<Longrightarrow> Item k w \<in> set ss \<Longrightarrow> v = w"
  by (meson eq_key_imp_eq_value set_slot_items)

lemma map_get_iff:
  assumes "wf_map m" and "uniq_keys m"
  shows "map_get m k = Some v \<longleftrightarrow> Item k v \<in> set (mdata m)"
  using assms map_get_SomeD map_get_NoneD distinct_keys_value
  by (metis not_None_eq uniq_keys_def)

lemma map_get_map_of:
  assumes "wf_map m" and "uniq_keys m"
  shows "map_get m = map_of (slot_items (mdata m))"
proof
  fix k
  show "map_get m k = map_of (slot_items (mdata m)) k"
    using assms
    by (metis map_get_iff map_of_eq_Some_iff not_None_eq set_slot_items uniq_keys_def)
qed

lemma no_item_keys: "k \<notin> fst ` set (slot_items ss) \<longleftrightarrow> (\<forall>v. Item k v \<notin> set ss)"
  by (auto simp: set_slot_items [symmetric] image_iff)

text \<open>An insertion keeps keys unique when the key is new, or when nothing was deleted.\<close>

lemma hash_slot_free:
  assumes wf: "wf_map m" and sel: "find (stops_hash m key) (path m key) = Some i"
    and nk: "\<not> holds_key key (mdata m ! i)" and nd: "no_deleted m"
  shows "map_get m key = None"
proof -
  obtain pre post where h: "path m key = pre @ i # post" "stops_hash m key i"
    "\<And>y. y \<in> set pre \<Longrightarrow> \<exists>k' v'. mdata m ! y = Item k' v' \<and> k' \<noteq> key"
    using hash_slotD [OF sel] by metis
  have "i < length (mdata m)" using path_bound [OF h(1)] wf by (simp add: wf_map_def)
  then have empty: "mdata m ! i = NoItem"
    using h(2) nk nd by (metis nth_mem no_deleted_def stops_hash_def)
  have "\<forall>y \<in> set pre. \<not> stops_find m key y"
    using h(3) by (fastforce simp: stops_find_def)
  then have "find (stops_find m key) (path m key) = Some i"
    unfolding h(1) by (rule find_SomeI) (simp add: stops_find_def empty)
  then show ?thesis by (simp add: map_get_eq slot_value_def empty)
qed

lemma insert_at_uniq:
  assumes wf: "wf_map m" and un: "uniq_keys m" and sel: "find (stops_hash m key) (path m key) = Some i"
    and new: "no_deleted m \<or> map_get m key = None"
  shows "uniq_keys (insert_at m i key v)"
proof -
  obtain pre post where h: "path m key = pre @ i # post" "stops_hash m key i"
    using hash_slotD [OF sel] by metis
  have il: "i < length (mdata m)" using path_bound [OF h(1)] wf by (simp add: wf_map_def)
  show ?thesis
  proof (cases "holds_key key (mdata m ! i)")
    case True
    then obtain w where "mdata m ! i = Item key w" by (cases "mdata m ! i") auto
    then show ?thesis
      using un slot_items_update [OF il] by (simp add: uniq_keys_def)
  next
    case False
    then have "map_get m key = None" using new hash_slot_free [OF wf sel False] by blast
    then have "key \<notin> fst ` set (slot_items (mdata m))"
      using map_get_NoneD [OF wf] unfolding no_item_keys by metis
    moreover have "slot_items [mdata m ! i] = []"
      using False h(2) by (cases "mdata m ! i") (auto simp: stops_hash_def)
    ultimately show ?thesis
      using un slot_items_update [OF il] by (auto simp: uniq_keys_def)
  qed
qed

lemma insert_at_no_deleted: "no_deleted m \<Longrightarrow> no_deleted (insert_at m i key v)"
  using set_update_subset_insert [of "mdata m" i "Item key v"] by (auto simp: no_deleted_def)

section \<open>Growing the table\<close>

lemma fresh_wf: "wf_map (m\<lparr>mdata := replicate n NoItem, msize := n, mcount := 0\<rparr>)"
proof -
  let ?m = "m\<lparr>mdata := replicate n NoItem, msize := n, mcount := 0\<rparr>"
  have "unbroken ?m"
    unfolding unbroken_def
  proof (intro allI impI)
    fix key v pre j post
    assume "path ?m key = pre @ j # post" and "mdata ?m ! j = Item key v"
    with path_bound [of ?m key pre j post] show "\<forall>i \<in> set pre. mdata ?m ! i \<noteq> NoItem" by simp
  qed
  then show ?thesis by (simp add: wf_map_def)
qed

lemma fresh_get: "map_get (m\<lparr>mdata := replicate n NoItem, msize := n, mcount := 0\<rparr>) k = None"
  using map_get_SomeD [OF fresh_wf] by fastforce

text \<open>Reinserting into a table with room: every item is inserted, later items with the
  same key replace earlier ones.\<close>

lemma rehash_loop_result:
  assumes "wf_map m" and "mcount m + length (slot_items ss) \<le> msize m"
  shows "\<exists>m'. rehash_loop (Suc f) ok ss m = Some (0, m') \<and> wf_map m' \<and> msize m' = msize m \<and>
    mcount m' \<le> mcount m + length (slot_items ss) \<and>
    map_get m' = map_get m ++ map_of (rev (slot_items ss)) \<and>
    (no_deleted m \<longrightarrow> no_deleted m') \<and>
    (no_deleted m \<and> uniq_keys m \<longrightarrow> uniq_keys m')"
  using assms
proof (induction ss arbitrary: m rule: slot_items.induct)
  case (2 k v ss)
  then have room: "mcount m < msize m" by simp
  obtain i where i: "find (stops_hash m k) (path m k) = Some i"
    using hash_slot_exists [OF "2.prems"(1) room] by metis
  let ?m = "insert_at m i k v"
  have put: "map_reput_fuel (Suc f) ok m k v = Some (0, ?m, slot_value (mdata m ! i))"
    using map_reput_direct [OF _ i] room by simp
  have wf: "wf_map ?m" by (rule insert_at_wf [OF "2.prems"(1) i])
  have cnt: "mcount ?m \<le> mcount m + 1" by (simp add: insert_at_def)
  have "mcount ?m + length (slot_items ss) \<le> msize ?m" using "2.prems"(2) cnt by simp
  from "2.IH" [OF wf this] obtain m' where
    IH: "rehash_loop (Suc f) ok ss ?m = Some (0, m')" "wf_map m'" "msize m' = msize ?m"
      "mcount m' \<le> mcount ?m + length (slot_items ss)"
      "map_get m' = map_get ?m ++ map_of (rev (slot_items ss))"
      "no_deleted ?m \<longrightarrow> no_deleted m'" "no_deleted ?m \<and> uniq_keys ?m \<longrightarrow> uniq_keys m'" by blast
  have "map_get ?m = (map_get m)(k \<mapsto> v)"
    using map_get_insert_same [OF "2.prems"(1) i] map_get_insert_other [OF "2.prems"(1) i] by auto
  then have "map_get m' = map_get m ++ map_of (rev (slot_items (Item k v # ss)))"
    using IH(5) by simp
  moreover have "no_deleted m \<longrightarrow> no_deleted m'"
    using IH(6) by (simp add: insert_at_no_deleted)
  moreover have "no_deleted m \<and> uniq_keys m \<longrightarrow> uniq_keys m'"
    using IH(7) insert_at_uniq [OF "2.prems"(1) _ i, of v] by (simp add: insert_at_no_deleted)
  ultimately show ?case using put IH(1-4) cnt by simp
qed simp_all

lemma map_rehash_result:
  assumes wf: "wf_map m" and ok: "ok (msize m + 256)"
  shows "\<exists>m'. map_rehash_fuel (Suc (Suc f)) ok m = Some (0, m') \<and> wf_map m' \<and>
    msize m' = msize m + 256 \<and> mcount m' \<le> msize m \<and> no_deleted m' \<and> uniq_keys m' \<and>
    map_get m' = map_of (rev (slot_items (mdata m)))"
proof -
  let ?n = "msize m + 256"
  let ?m = "m\<lparr>mdata := replicate ?n NoItem, msize := ?n, mcount := 0\<rparr>"
  have len: "length (slot_items (mdata m)) \<le> msize m"
    using wf length_slot_items_le [of "mdata m"] by (simp add: wf_map_def)
  have "mcount ?m + length (slot_items (mdata m)) \<le> msize ?m" using len by simp
  from rehash_loop_result [OF fresh_wf this] obtain m' where
    r: "rehash_loop (Suc f) ok (mdata m) ?m = Some (0, m')" "wf_map m'" "msize m' = msize ?m"
      "mcount m' \<le> mcount ?m + length (slot_items (mdata m))"
      "map_get m' = map_get ?m ++ map_of (rev (slot_items (mdata m)))"
      "no_deleted ?m \<longrightarrow> no_deleted m'" "no_deleted ?m \<and> uniq_keys ?m \<longrightarrow> uniq_keys m'" by blast
  have nd: "no_deleted ?m" and un: "uniq_keys ?m"
    by (auto simp: no_deleted_def uniq_keys_def)
  have "map_get ?m = Map.empty" by (rule ext) (rule fresh_get)
  then have get: "map_get m' = map_of (rev (slot_items (mdata m)))" using r(5) by simp
  have run: "map_rehash_fuel (Suc (Suc f)) ok m = Some (0, m')" using ok r(1) by simp
  show ?thesis
    using run get r(2,3,4) r(6,7) nd un len by (intro exI [of _ m']) simp
qed

text \<open>With unique keys the grown table answers every search as before.\<close>

lemma map_of_rev_distinct: "distinct (map fst xs) \<Longrightarrow> map_of (rev xs) = map_of xs"
  by (simp add: map_of_inject_set rev_map [symmetric])

lemma map_rehash_get:
  assumes "wf_map m" and "uniq_keys m"
  shows "map_of (rev (slot_items (mdata m))) = map_get m"
  using assms by (simp add: map_get_map_of map_of_rev_distinct uniq_keys_def)

section \<open>What the operations return\<close>

text \<open>An insertion, whether or not it has to grow the table: it returns 0 as long as the
  allocation it may need succeeds, and the table answers for every key what it should.\<close>

definition can_insert :: "(nat \<Rightarrow> bool) \<Rightarrow> 'v qmap \<Rightarrow> bool" where
  "can_insert ok m \<longleftrightarrow> mcount m < msize m \<or> ok (msize m + 256)"

lemma map_reput_room:
  assumes "wf_map m" and "mcount m < msize m"
  obtains m' old where "\<And>f ok. map_reput_fuel (Suc f) ok m key v = Some (0, m', old)"
    and "wf_map m'" and "map_get m' = (map_get m)(key \<mapsto> v)" and "msize m' = msize m"
    and "no_deleted m \<Longrightarrow> no_deleted m'"
    and "uniq_keys m \<Longrightarrow> no_deleted m \<or> map_get m key = None \<Longrightarrow> uniq_keys m'"
proof -
  obtain i where i: "find (stops_hash m key) (path m key) = Some i"
    using hash_slot_exists [OF assms] by metis
  let ?m = "insert_at m i key v"
  have get: "map_get ?m = (map_get m)(key \<mapsto> v)"
    using map_get_insert_same [OF assms(1) i] map_get_insert_other [OF assms(1) i] by auto
  show ?thesis
    using that [of ?m "slot_value (mdata m ! i)"] map_reput_direct [OF _ i] assms(2) get
      insert_at_wf [OF assms(1) i] insert_at_no_deleted [of m] insert_at_uniq [OF assms(1) _ i]
    by simp
qed

lemma map_reput_works:
  assumes wf: "wf_map m" and un: "uniq_keys m" and can: "can_insert ok m"
  obtains m' old where "map_reput ok m key v = Some (0, m', old)"
    and "wf_map m'" and "map_get m' = (map_get m)(key \<mapsto> v)"
    and "no_deleted m \<Longrightarrow> no_deleted m'"
    and "no_deleted m \<or> map_get m key = None \<Longrightarrow> uniq_keys m'"
proof (cases "mcount m < msize m")
  case True
  obtain m' old where r: "\<And>f ok. map_reput_fuel (Suc f) ok m key v = Some (0, m', old)"
    "wf_map m'" "map_get m' = (map_get m)(key \<mapsto> v)" "no_deleted m \<Longrightarrow> no_deleted m'"
    "uniq_keys m \<Longrightarrow> no_deleted m \<or> map_get m key = None \<Longrightarrow> uniq_keys m'"
    using map_reput_room [OF wf True, of key v] by metis
  have "map_reput ok m key v = Some (0, m', old)"
    using r(1) [of 3 ok] by (simp add: map_reput_def eval_nat_numeral)
  then show ?thesis by (rule that [OF _ r(2,3)]) (simp_all add: r(4,5) un)
next
  case False
  then have full: "mcount m = msize m" using wf_map_size [OF wf] by simp
  have ok: "ok (msize m + 256)" using can False by (simp add: can_insert_def)
  obtain m2 where g: "map_rehash_fuel (Suc (Suc 1)) ok m = Some (0, m2)" "wf_map m2"
    "msize m2 = msize m + 256" "mcount m2 \<le> msize m" "no_deleted m2" "uniq_keys m2"
    "map_get m2 = map_of (rev (slot_items (mdata m)))"
    using map_rehash_result [OF wf, of ok 1] ok by blast
  have get2: "map_get m2 = map_get m" using g(7) map_rehash_get [OF wf un] by simp
  have "mcount m2 < msize m2" using g(3,4) by simp
  from map_reput_room [OF g(2) this, of key v] obtain m' old where
    r: "\<And>f ok. map_reput_fuel (Suc f) ok m2 key v = Some (0, m', old)"
    "wf_map m'" "map_get m' = (map_get m2)(key \<mapsto> v)" "no_deleted m2 \<Longrightarrow> no_deleted m'"
    "uniq_keys m2 \<Longrightarrow> no_deleted m2 \<or> map_get m2 key = None \<Longrightarrow> uniq_keys m'" by metis
  have "map_hash m key = (-1, m)" using full by (simp add: map_hash_def)
  then have "map_reput_fuel (Suc (Suc (Suc 1))) ok m key v = Some (0, m', old)"
    using g(1) r(1) [of "Suc 1"] by simp
  then have "map_reput ok m key v = Some (0, m', old)"
    by (simp add: map_reput_def eval_nat_numeral)
  then show ?thesis
    by (rule that [OF _ r(2)]) (simp_all add: r(3,4,5) get2 g(5,6))
qed

lemma map_reput_fails:
  assumes "wf_map m" and "\<not> can_insert ok m"
  shows "map_reput ok m key v = Some (-1, m, None)"
proof -
  have "mcount m = msize m" "\<not> ok (msize m + 256)"
    using assms wf_map_size [of m] by (auto simp: can_insert_def)
  then show ?thesis by (simp add: map_reput_def map_hash_def eval_nat_numeral)
qed

text \<open>A removal: the entry found is marked deleted, so its slot still carries searches on.\<close>

lemma find_slotD:
  assumes "wf_map m" and "map_find m key = Some i"
  obtains v where "i < length (mdata m)" and "mdata m ! i = Item key v"
proof -
  from assms(2) have i: "find (stops_find m key) (path m key) = Some i" and ne: "mdata m ! i \<noteq> NoItem"
    by (auto simp: map_find_eq split: option.splits if_splits)
  from find_SomeD [OF i] obtain pre post where p: "path m key = pre @ i # post" "stops_find m key i"
    by metis
  have "i < length (mdata m)" using path_bound [OF p(1)] assms(1) by (simp add: wf_map_def)
  moreover obtain v where "mdata m ! i = Item key v"
    using p(2) ne by (cases "mdata m ! i") (auto simp: stops_find_def)
  ultimately show ?thesis using that by blast
qed

lemma map_get_find: "wf_map m \<Longrightarrow> map_get m key = None \<longleftrightarrow> map_find m key = None"
  by (auto simp: map_get_def split: option.splits elim: find_slotD)

lemma map_remove_none: "wf_map m \<Longrightarrow> map_get m key = None \<Longrightarrow> map_remove m key = (1, m)"
  by (simp add: map_get_find map_remove_def)

lemma map_remove_some:
  assumes wf: "wf_map m" and some: "map_get m key \<noteq> None"
  obtains i v where "i < length (mdata m)" and "mdata m ! i = Item key v" and "map_get m key = Some v"
    and "map_remove m key = (0, m\<lparr>mdata := (mdata m)[i := Deleted], mcount := mcount m - 1\<rparr>)"
proof -
  obtain i where i: "map_find m key = Some i" using some map_get_find [OF wf] by auto
  obtain v where v: "i < length (mdata m)" "mdata m ! i = Item key v" using find_slotD [OF wf i] by metis
  then show ?thesis using that i by (simp add: map_get_def map_remove_def)
qed

lemma delete_slot:
  assumes wf: "wf_map m" and i: "i < length (mdata m)" and it: "mdata m ! i = Item key v"
  defines "m' \<equiv> m\<lparr>mdata := (mdata m)[i := Deleted], mcount := mcount m - 1\<rparr>"
  shows "wf_map m'"
    and "\<And>k. k \<noteq> key \<Longrightarrow> map_get m' k = map_get m k"
    and "set (mdata m') \<subseteq> insert Deleted (set (mdata m))"
    and "uniq_keys m \<Longrightarrow> uniq_keys m' \<and> (\<forall>w. Item key w \<notin> set (mdata m'))"
proof -
  have path: "path m' k = path m k" for k by (simp add: m'_def path_def)
  have val: "mdata m' ! j = (if j = i then Deleted else mdata m ! j)" for j
    using i by (simp add: m'_def)
  have len: "length (slot_items (mdata m')) = length (slot_items (mdata m)) - 1"
    and its: "slot_items (mdata m) = slot_items (take i (mdata m)) @ (key, v) # slot_items (drop (Suc i) (mdata m))"
    and its': "slot_items (mdata m') = slot_items (take i (mdata m)) @ slot_items (drop (Suc i) (mdata m))"
    using slot_items_update [OF i] it by (auto simp: m'_def)
  have "unbroken m'"
    unfolding unbroken_def
  proof (intro allI impI ballI)
    fix k w pre j post x
    assume p: "path m' k = pre @ j # post" and itj: "mdata m' ! j = Item k w" and x: "x \<in> set pre"
    from itj val have "mdata m ! j = Item k w" by (simp split: if_splits)
    with unbrokenD [of m k pre j post w x] wf p x path have "mdata m ! x \<noteq> NoItem"
      by (simp add: wf_map_def)
    then show "mdata m' ! x \<noteq> NoItem" using val by simp
  qed
  then show "wf_map m'" using wf len by (simp add: wf_map_def m'_def)
  show "map_get m' k = map_get m k" if "k \<noteq> key" for k
  proof -
    have st: "stops_find m' k = stops_find m k"
      using val it that by (auto simp: stops_find_def fun_eq_iff)
    have "find (stops_find m k) (path m k) \<noteq> Some i"
      using it that by (auto dest!: find_SomeD simp: stops_find_def)
    then show ?thesis using val path st by (auto simp: map_get_eq split: option.splits)
  qed
  show "set (mdata m') \<subseteq> insert Deleted (set (mdata m))"
    using set_update_subset_insert [of "mdata m" i Deleted] by (simp add: m'_def)
  assume "uniq_keys m"
  then have "distinct (map fst (slot_items (mdata m')))" "key \<notin> fst ` set (slot_items (mdata m'))"
    using its its' by (auto simp: uniq_keys_def)
  then show "uniq_keys m' \<and> (\<forall>w. Item key w \<notin> set (mdata m'))"
    by (simp add: uniq_keys_def no_item_keys)
qed

lemma map_remove_works:
  assumes wf: "wf_map m" and un: "uniq_keys m"
  shows "wf_map (snd (map_remove m key)) \<and> uniq_keys (snd (map_remove m key)) \<and>
    map_get (snd (map_remove m key)) = (map_get m)(key := None) \<and>
    fst (map_remove m key) = (if map_get m key = None then 1 else 0)"
proof (cases "map_get m key")
  case None
  then have "map_remove m key = (1, m)" by (rule map_remove_none [OF wf])
  moreover have "(map_get m)(key := None) = map_get m" using None by auto
  ultimately show ?thesis using wf un None by simp
next
  case (Some w)
  then obtain i v where i: "i < length (mdata m)" "mdata m ! i = Item key v"
    and r: "map_remove m key = (0, m\<lparr>mdata := (mdata m)[i := Deleted], mcount := mcount m - 1\<rparr>)"
    using map_remove_some [OF wf] by blast
  let ?m = "m\<lparr>mdata := (mdata m)[i := Deleted], mcount := mcount m - 1\<rparr>"
  note d = delete_slot [OF wf i]
  have "map_get ?m key = None"
    using map_get_SomeD [OF d(1), of key] d(4) [OF un] by (metis not_None_eq)
  then have "map_get ?m = (map_get m)(key := None)" using d(2) by auto
  then show ?thesis using r d(1) d(4) [OF un] Some by simp
qed

section \<open>Iteration\<close>

text \<open>\<open>map_for_each\<close> over a table that the body does not change visits the live items in
  index order.\<close>

lemma map_iter_from_Some:
  "map_iter_from m i = Some j \<longleftrightarrow>
     i \<le> j \<and> j < msize m \<and> slot_value (mdata m ! j) \<noteq> None \<and>
     (\<forall>x. i \<le> x \<and> x < j \<longrightarrow> slot_value (mdata m ! x) = None)"
proof (induction m i rule: map_iter_from.induct)
  case (1 m i)
  show ?case
  proof (cases "i < msize m \<and> slot_value (mdata m ! i) = None")
    case True
    then have step: "map_iter_from m i = map_iter_from m (i + 1)"
      by (subst map_iter_from.simps) (auto simp: slot_value_def split: slot.splits)
    have IH: "map_iter_from m (i + 1) = Some j \<longleftrightarrow>
        i + 1 \<le> j \<and> j < msize m \<and> slot_value (mdata m ! j) \<noteq> None \<and>
        (\<forall>x. i + 1 \<le> x \<and> x < j \<longrightarrow> slot_value (mdata m ! x) = None)"
      using "1.IH" True by (cases "mdata m ! i") (auto simp: slot_value_def)
    have ge: "i \<le> x \<longleftrightarrow> x = i \<or> i + 1 \<le> x" for x by auto
    have "(\<forall>x. i \<le> x \<and> x < j \<longrightarrow> slot_value (mdata m ! x) = None) \<longleftrightarrow>
        (\<forall>x. i + 1 \<le> x \<and> x < j \<longrightarrow> slot_value (mdata m ! x) = None)"
      by (simp only: ge) (use True in auto)
    moreover have "slot_value (mdata m ! j) \<noteq> None \<Longrightarrow> (i \<le> j) = (i + 1 \<le> j)"
      using True by (cases "i = j") auto
    ultimately show ?thesis unfolding step IH by blast
  next
    case False
    then have "map_iter_from m i = (if i < msize m then Some i else None)"
      by (subst map_iter_from.simps) (auto simp: slot_value_def split: slot.splits)
    then show ?thesis using False by (auto simp: le_less)
  qed
qed

lemma map_iter_from_None:
  assumes "map_iter_from m i = None" and "i \<le> x" and "x < msize m"
  shows "slot_value (mdata m ! x) = None"
proof (rule ccontr)
  assume "slot_value (mdata m ! x) \<noteq> None"
  then obtain y where y: "i \<le> y \<and> slot_value (mdata m ! y) \<noteq> None" "y \<le> x"
    "\<forall>z < y. \<not> (i \<le> z \<and> slot_value (mdata m ! z) \<noteq> None)"
    using ex_least_nat_le [of "\<lambda>y. i \<le> y \<and> slot_value (mdata m ! y) \<noteq> None" x] assms(2) by auto
  then have "map_iter_from m i = Some y"
    using assms(3) unfolding map_iter_from_Some by (metis le_less_trans)
  with assms(1) show False by simp
qed

lemma map_iter_nextD: "map_iter_next m (Some i) = Some j \<Longrightarrow> i < j \<and> j < msize m"
  by (simp add: map_iter_next_def map_iter_from_Some)

text \<open>The values a \<open>map_for_each\<close> loop with a body that leaves the table alone sees, from the
  iterator \<open>it\<close> on.\<close>

function map_visit :: "'v qmap \<Rightarrow> nat option \<Rightarrow> 'v list" where
  "map_visit m None = []"
| "map_visit m (Some i) =
     (case map_iter_item m i of
        None \<Rightarrow> []
      | Some v \<Rightarrow> v # (if i < msize m then map_visit m (map_iter_next m (Some i)) else []))"
  by pat_completeness auto
termination
proof (relation "measure (\<lambda>(m, it). case it of None \<Rightarrow> 0 | Some i \<Rightarrow> Suc (msize m - i))")
  fix m :: "'v qmap" and i v
  assume "i < msize m"
  then show "((m, map_iter_next m (Some i)), (m, Some i))
      \<in> measure (\<lambda>(m, it). case it of None \<Rightarrow> 0 | Some i \<Rightarrow> Suc (msize m - i))"
    by (auto dest: map_iter_nextD split: option.splits)
qed simp

definition map_items :: "'v qmap \<Rightarrow> 'v list" where
  "map_items m = map_visit m (map_iter_first m)"

lemma map_visit_from:
  assumes "length (mdata m) = msize m"
  shows "map_visit m (map_iter_from m i) = map snd (slot_items (drop i (mdata m)))"
proof (induction "msize m - i" arbitrary: i)
  case 0
  then show ?case using assms by (simp add: map_iter_from.simps)
next
  case (Suc n)
  then have i: "i < msize m" by simp
  then have d: "drop i (mdata m) = mdata m ! i # drop (Suc i) (mdata m)"
    using assms by (simp add: Cons_nth_drop_Suc)
  have IH: "map_visit m (map_iter_from m (Suc i)) = map snd (slot_items (drop (Suc i) (mdata m)))"
    using Suc by (intro Suc.hyps(1)) simp
  show ?case
    using i IH d
    by (cases "mdata m ! i") (simp_all add: map_iter_from.simps [of m i] map_iter_item_def map_iter_next_def)
qed

lemma map_items_eq: "length (mdata m) = msize m \<Longrightarrow> map_items m = map snd (slot_items (mdata m))"
  by (simp add: map_items_def map_iter_first_def map_visit_from)

lemma map_items_get:
  assumes "wf_map m" and "uniq_keys m"
  shows "set (map_items m) = ran (map_get m)"
proof -
  have "length (mdata m) = msize m" using assms(1) by (simp add: wf_map_def)
  then show ?thesis
    using assms by (simp add: map_items_eq map_get_map_of ran_distinct uniq_keys_def)
qed

text \<open>Values that determine their key are listed once.\<close>

lemma map_items_distinct:
  assumes "wf_map m" and "uniq_keys m" and "\<And>k v. Item k v \<in> set (mdata m) \<Longrightarrow> k = key v"
  shows "distinct (map_items m)"
proof -
  have "map fst (slot_items (mdata m)) = map key (map snd (slot_items (mdata m)))"
    using assms(3) by (auto simp: set_slot_items)
  then have "distinct (map key (map snd (slot_items (mdata m))))" using assms(2) unfolding uniq_keys_def by (rule subst)
  then show ?thesis using assms(1) by (simp only: distinct_map map_items_eq wf_map_def)
qed

text \<open>What holds of an insertion without uniqueness of keys: no item but the new one
  appears, and the new one is found.\<close>

lemma map_reput_weak:
  assumes wf: "wf_map m"
  obtains rc m' old where "map_reput ok m key v = Some (rc, m', old)" and "wf_map m'"
    and "rc = 0 \<and> map_get m' key = Some v \<or> rc = -1 \<and> m' = m \<and> \<not> can_insert ok m"
    and "\<And>k w. Item k w \<in> set (mdata m') \<Longrightarrow> k = key \<and> w = v \<or> Item k w \<in> set (mdata m)"
proof (cases "mcount m < msize m")
  case True
  obtain i where i: "find (stops_hash m key) (path m key) = Some i"
    using hash_slot_exists [OF wf True] by metis
  have "map_reput ok m key v = Some (0, insert_at m i key v, slot_value (mdata m ! i))"
    using map_reput_direct [OF _ i, of 3] True by (simp add: map_reput_def eval_nat_numeral)
  then show ?thesis
    using set_update_subset_insert [of "mdata m" i "Item key v"]
    by (intro that [OF _ insert_at_wf [OF wf i, of v]]) (auto simp: map_get_insert_same [OF wf i])
next
  case False
  then have full: "mcount m = msize m" using wf_map_size [OF wf] by simp
  show ?thesis
  proof (cases "ok (msize m + 256)")
    case False
    with full have no: "\<not> can_insert ok m" by (simp add: can_insert_def)
    from map_reput_fails [OF wf this] show ?thesis by (rule that [OF _ wf]) (use no in auto)
  next
    case True
    obtain m2 where g: "map_rehash_fuel (Suc (Suc 1)) ok m = Some (0, m2)" "wf_map m2"
      "msize m2 = msize m + 256" "mcount m2 \<le> msize m" "uniq_keys m2"
      "map_get m2 = map_of (rev (slot_items (mdata m)))"
      using map_rehash_result [OF wf, of ok 1] True by blast
    have old: "Item k w \<in> set (mdata m)" if "Item k w \<in> set (mdata m2)" for k w
    proof -
      have "map_get m2 k = Some w" using map_get_iff [OF g(2,5)] that by simp
      then have "(k, w) \<in> set (slot_items (mdata m))" using g(6) by (auto dest: map_of_SomeD)
      then show ?thesis by (simp add: set_slot_items)
    qed
    have room: "mcount m2 < msize m2" using g(3,4) by simp
    then obtain i where i: "find (stops_hash m2 key) (path m2 key) = Some i"
      using hash_slot_exists [OF g(2)] by metis
    have "map_hash m key = (-1, m)" using full by (simp add: map_hash_def)
    then have "map_reput ok m key v = Some (0, insert_at m2 i key v, slot_value (mdata m2 ! i))"
      using g(1) map_reput_direct [OF _ i, of "Suc 1" ok v] room by (simp add: map_reput_def eval_nat_numeral)
    then show ?thesis
      using set_update_subset_insert [of "mdata m2" i "Item key v"] old
      by (intro that [OF _ insert_at_wf [OF g(2) i, of v]]) (auto simp: map_get_insert_same [OF g(2) i])
  qed
qed

lemma map_reput_uniq:
  assumes "wf_map m" and "uniq_keys m" and "map_reput ok m key v = Some (rc, m', old)"
  shows "rc = 0 \<longrightarrow> map_get m' = (map_get m)(key \<mapsto> v)"
    and "map_get m key = None \<longrightarrow> uniq_keys m'"
proof -
  have "(rc = 0 \<longrightarrow> map_get m' = (map_get m)(key \<mapsto> v)) \<and> (map_get m key = None \<longrightarrow> uniq_keys m')"
  proof (cases "can_insert ok m")
    case True
    from map_reput_works [OF assms(1,2) this, of key v] show ?thesis
      using assms(3) by (metis (no_types, lifting) Pair_inject option.inject)
  next
    case False
    then show ?thesis using map_reput_fails [OF assms(1) False] assms(2,3) by simp
  qed
  then show "rc = 0 \<longrightarrow> map_get m' = (map_get m)(key \<mapsto> v)" "map_get m key = None \<longrightarrow> uniq_keys m'"
    by simp_all
qed

text \<open>Writing through the pointer of an entry replaces its value only.\<close>

lemma map_write_works:
  assumes wf: "wf_map m" and some: "map_get m key \<noteq> None"
  shows "wf_map (map_write m key v) \<and> map_get (map_write m key v) = (map_get m)(key \<mapsto> v) \<and>
    (uniq_keys (map_write m key v) \<longleftrightarrow> uniq_keys m) \<and> (no_deleted m \<longrightarrow> no_deleted (map_write m key v))"
proof -
  obtain i where i: "map_find m key = Some i" using some map_get_find [OF wf] by auto
  then have f: "find (stops_find m key) (path m key) = Some i"
    by (auto simp: map_find_eq split: option.splits if_splits)
  obtain w where it: "i < length (mdata m)" "mdata m ! i = Item key w" using find_slotD [OF wf i] by metis
  let ?m = "m\<lparr>mdata := (mdata m)[i := Item key v]\<rparr>"
  have val: "mdata ?m ! j = (if j = i then Item key v else mdata m ! j)" for j using it by simp
  have path: "path ?m k = path m k" for k by (simp add: path_def)
  have "unbroken ?m"
    unfolding unbroken_def
  proof (intro allI impI ballI)
    fix k u pre j post x
    assume p: "path ?m k = pre @ j # post" and itj: "mdata ?m ! j = Item k u" and x: "x \<in> set pre"
    obtain u' where "mdata m ! j = Item k u'" using itj it val by (cases "j = i") auto
    with unbrokenD [of m k pre j post u' x] wf p x path have "mdata m ! x \<noteq> NoItem"
      by (simp add: wf_map_def)
    then show "mdata ?m ! x \<noteq> NoItem" using val by simp
  qed
  moreover have keys: "map fst (slot_items (mdata ?m)) = map fst (slot_items (mdata m))"
    using slot_items_update [OF it(1)] it(2) by simp
  moreover have "length (slot_items (mdata ?m)) = length (slot_items (mdata m))"
    using arg_cong [OF keys, of length] by simp
  ultimately have wf': "wf_map ?m" using wf by (simp add: wf_map_def)
  have st: "stops_find ?m k = stops_find m k" for k
    using val it by (auto simp: stops_find_def fun_eq_iff)
  have "map_get ?m k = ((map_get m)(key \<mapsto> v)) k" for k
  proof (cases "k = key")
    case True
    then show ?thesis using f val path st by (simp add: map_get_eq slot_value_def)
  next
    case False
    have "find (stops_find m k) (path m k) \<noteq> Some i"
      using it False by (auto dest!: find_SomeD simp: stops_find_def)
    then show ?thesis using False val path st by (auto simp: map_get_eq split: option.splits)
  qed
  moreover have "no_deleted m \<longrightarrow> no_deleted ?m"
    using set_update_subset_insert [of "mdata m" i "Item key v"] by (auto simp: no_deleted_def)
  ultimately show ?thesis
    using wf' keys i by (auto simp: map_write_def uniq_keys_def)
qed

section \<open>The contracts the table offers\<close>

text \<open>
  The laws a client may use. In a \<open>fresh_table\<close> only keys that are absent are inserted; a
  \<open>del_table\<close> adds removal; in a \<open>put_table\<close> any key may be inserted at any time, present or
  not. An insertion that fails (no memory) leaves the table alone.
\<close>

locale fresh_table =
  fixes empty :: "'m"
    and get :: "'m \<Rightarrow> 'k \<Rightarrow> 'v option"
    and put :: "'m \<Rightarrow> 'k \<Rightarrow> 'v \<Rightarrow> (int \<times> 'm) option"
    and items :: "'m \<Rightarrow> 'v list"
    and inv :: "'m \<Rightarrow> bool"
  assumes inv_empty: "inv empty"
    and get_empty: "get empty k = None"
    and items_get: "inv m \<Longrightarrow> set (items m) = ran (get m)"
    and put_fresh: "inv m \<Longrightarrow> get m k = None \<Longrightarrow>
      (\<exists>m'. put m k v = Some (0, m') \<and> inv m' \<and> get m' = (get m)(k \<mapsto> v)) \<or>
      put m k v = Some (-1, m)"
begin

text \<open>Look a key up and insert a value for it when it is absent: the access pattern of
  \<open>node_get\<close>.\<close>

definition get_or_put :: "'m \<Rightarrow> 'k \<Rightarrow> 'v \<Rightarrow> ('v option \<times> 'm) option" where
  "get_or_put m k v =
     (case get m k of
        Some w \<Rightarrow> Some (Some w, m)
      | None \<Rightarrow>
          (case put m k v of
             None \<Rightarrow> None
           | Some (rc, m') \<Rightarrow> if rc \<noteq> 0 then Some (None, m') else Some (Some v, m')))"

lemma get_or_put_result:
  assumes "inv m"
  shows "\<exists>w m'. get_or_put m k v = Some (w, m') \<and> inv m' \<and>
    (w = None \<and> m' = m \<or> w = get m k \<and> w \<noteq> None \<and> m' = m \<or>
     get m k = None \<and> w = Some v \<and> get m' = (get m)(k \<mapsto> v))"
proof (cases "get m k")
  case (Some w)
  then show ?thesis using assms by (simp add: get_or_put_def)
next
  case None
  then show ?thesis using put_fresh [OF assms None, of v] assms
    by (auto simp: get_or_put_def)
qed

end

locale del_table = fresh_table empty get put items inv
  for empty :: "'m" and get :: "'m \<Rightarrow> 'k \<Rightarrow> 'v option"
    and put :: "'m \<Rightarrow> 'k \<Rightarrow> 'v \<Rightarrow> (int \<times> 'm) option"
    and items :: "'m \<Rightarrow> 'v list" and inv :: "'m \<Rightarrow> bool" +
  fixes del :: "'m \<Rightarrow> 'k \<Rightarrow> 'm"
  assumes inv_del: "inv m \<Longrightarrow> inv (del m k)"
    and get_del: "inv m \<Longrightarrow> get (del m k) = (get m)(k := None)"
begin

text \<open>Removing every key that is present, in any order, leaves an empty table.\<close>

lemma inv_fold_del: "inv m \<Longrightarrow> inv (fold (\<lambda>k m. del m k) ks m)"
  by (induction ks arbitrary: m) (auto simp: inv_del)

lemma get_fold_del:
  "inv m \<Longrightarrow> get (fold (\<lambda>k m. del m k) ks m) = (\<lambda>k. if k \<in> set ks then None else get m k)"
  by (induction ks arbitrary: m) (auto simp: inv_del get_del fun_eq_iff)

end

locale put_table =
  fixes empty :: "'m"
    and get :: "'m \<Rightarrow> 'k \<Rightarrow> 'v option"
    and put :: "'m \<Rightarrow> 'k \<Rightarrow> 'v \<Rightarrow> (int \<times> 'm) option"
    and items :: "'m \<Rightarrow> 'v list"
    and inv :: "'m \<Rightarrow> bool"
  assumes inv_empty: "inv empty"
    and get_empty: "get empty k = None"
    and items_get: "inv m \<Longrightarrow> set (items m) = ran (get m)"
    and put_any: "inv m \<Longrightarrow>
      (\<exists>m'. put m k v = Some (0, m') \<and> inv m' \<and> get m' = (get m)(k \<mapsto> v)) \<or>
      put m k v = Some (-1, m)"

sublocale put_table \<subseteq> fresh: fresh_table empty get put items inv
  by unfold_locales (use inv_empty get_empty items_get put_any in auto)

text \<open>The table of \<open>map.c\<close> meets the first two contracts as long as every key is unique, and
  the third as long as nothing is ever deleted from it.\<close>

definition live_inv :: "'v qmap \<Rightarrow> bool" where
  "live_inv m \<longleftrightarrow> wf_map m \<and> uniq_keys m"

definition grow_inv :: "'v qmap \<Rightarrow> bool" where
  "grow_inv m \<longleftrightarrow> wf_map m \<and> uniq_keys m \<and> no_deleted m"

definition map_del :: "'v qmap \<Rightarrow> u32 \<Rightarrow> 'v qmap" where
  "map_del m key = snd (map_remove m key)"

lemma create_inv: "grow_inv map_create" "live_inv map_create" "map_get map_create k = None"
  by (auto simp: grow_inv_def live_inv_def wf_map_def unbroken_def uniq_keys_def no_deleted_def
      map_create_def path_def map_get_eq)

lemma map_put_cases:
  assumes "wf_map m" and "uniq_keys m"
  shows "(\<exists>m'. map_put ok m key v = Some (0, m') \<and> wf_map m' \<and> map_get m' = (map_get m)(key \<mapsto> v) \<and>
      (no_deleted m \<longrightarrow> no_deleted m') \<and> (no_deleted m \<or> map_get m key = None \<longrightarrow> uniq_keys m')) \<or>
    map_put ok m key v = Some (-1, m)"
proof (cases "can_insert ok m")
  case True
  then obtain m' old where "map_reput ok m key v = Some (0, m', old)"
    and "wf_map m'" and "map_get m' = (map_get m)(key \<mapsto> v)" and "no_deleted m \<Longrightarrow> no_deleted m'"
    and "no_deleted m \<or> map_get m key = None \<Longrightarrow> uniq_keys m'"
    using map_reput_works [OF assms, of ok key v] by metis
  then show ?thesis by (simp add: map_put_def)
next
  case False
  then show ?thesis using map_reput_fails [OF assms(1) False] by (simp add: map_put_def)
qed

interpretation live: del_table map_create map_get "map_put ok" map_items live_inv map_del for ok
proof unfold_locales
  fix m :: "'a qmap" and k v
  show "live_inv m \<Longrightarrow> set (map_items m) = ran (map_get m)"
    by (simp add: live_inv_def map_items_get)
  show "live_inv m \<Longrightarrow> map_get m k = None \<Longrightarrow>
      (\<exists>m'. map_put ok m k v = Some (0, m') \<and> live_inv m' \<and> map_get m' = (map_get m)(k \<mapsto> v)) \<or>
      map_put ok m k v = Some (-1, m)"
    using map_put_cases [of m ok k v] by (auto simp: live_inv_def)
  show "live_inv m \<Longrightarrow> live_inv (map_del m k)"
    "live_inv m \<Longrightarrow> map_get (map_del m k) = (map_get m)(k := None)"
    using map_remove_works [of m k] by (auto simp: live_inv_def map_del_def)
qed (simp_all add: create_inv)

interpretation grow: put_table map_create map_get "map_put ok" map_items grow_inv for ok
proof unfold_locales
  fix m :: "'a qmap" and k v
  show "grow_inv m \<Longrightarrow> set (map_items m) = ran (map_get m)"
    by (simp add: grow_inv_def map_items_get)
  show "grow_inv m \<Longrightarrow>
      (\<exists>m'. map_put ok m k v = Some (0, m') \<and> grow_inv m' \<and> map_get m' = (map_get m)(k \<mapsto> v)) \<or>
      map_put ok m k v = Some (-1, m)"
    using map_put_cases [of m ok k v] by (auto simp: grow_inv_def)
qed (simp_all add: create_inv)

section \<open>Properties\<close>

text \<open>C6: an insertion into any well-formed table returns 0 whenever there is a free slot or the
  larger table can be allocated (it needs no more than the fuel the model gives it); afterwards
  the table is well-formed and a search for the key finds the new value. Every other search
  answers as before, unless the table had to grow while it held several items with one key. Keys
  stay unique when the key was not there or nothing was ever deleted; \<open>map_put_leaves_stale_item\<close> is
  what happens otherwise.\<close>

theorem map_reput_get:
  assumes "wf_map m" and "can_insert ok m"
  shows "\<exists>m' old. map_reput ok m key v = Some (0, m', old) \<and> wf_map m' \<and> map_get m' key = Some v \<and>
    (mcount m < msize m \<or> uniq_keys m \<longrightarrow> map_get m' = (map_get m)(key \<mapsto> v)) \<and>
    (uniq_keys m \<and> (no_deleted m \<or> map_get m key = None) \<longrightarrow> uniq_keys m')"
proof (cases "uniq_keys m")
  case True
  then show ?thesis using map_reput_works [OF assms(1) True assms(2), of key v] by (metis fun_upd_same)
next
  case False
  show ?thesis
  proof (cases "mcount m < msize m")
    case room: True
    obtain m' old where r: "\<And>f ok. map_reput_fuel (Suc f) ok m key v = Some (0, m', old)"
      "wf_map m'" "map_get m' = (map_get m)(key \<mapsto> v)"
      using map_reput_room [OF assms(1) room, of key v] by metis
    have "map_reput ok m key v = Some (0, m', old)"
      using r(1) [of 3 ok] by (simp add: map_reput_def eval_nat_numeral)
    then show ?thesis using False r(2,3) by simp
  next
    case full: False
    obtain rc m' old where "map_reput ok m key v = Some (rc, m', old)" "wf_map m'" "rc = 0 \<and> map_get m' key = Some v"
      using map_reput_weak [OF assms(1), of ok key v] assms(2) by metis
    then show ?thesis using False full by simp
  qed
qed

text \<open>A table with two keys that share their first slot.\<close>

definition demo_map :: "nat qmap" where
  "demo_map = (case Option.bind (map_put (\<lambda>_. True) map_create 0 10) (\<lambda>(_, m). map_put (\<lambda>_. True) m 256 20) of
     Some (_, m) \<Rightarrow> m | None \<Rightarrow> map_create)"

lemma demo_map_gets: "map_get demo_map 0 = Some 10" "map_get demo_map 256 = Some 20"
  by code_simp+

lemma fresh_insert:
  assumes "live_inv m" and "map_get m key = None"
  obtains m' where "map_put (\<lambda>_. True) m key v = Some (0, m')" and "live_inv m'" and "map_get m' = (map_get m)(key \<mapsto> v)"
proof -
  have "wf_map m" "uniq_keys m" "can_insert (\<lambda>_. True) m" using assms(1) by (simp_all add: live_inv_def can_insert_def)
  from map_reput_works [OF this, of key v] obtain m' old where
    "map_reput (\<lambda>_. True) m key v = Some (0, m', old)" "wf_map m'" "map_get m' = (map_get m)(key \<mapsto> v)" "uniq_keys m'"
    using assms(2) by metis
  then show ?thesis using that [of m'] by (simp add: map_put_def live_inv_def)
qed

lemma demo_map_inv: "live_inv demo_map"
proof -
  obtain m where m: "map_put (\<lambda>_. True) map_create 0 (10 :: nat) = Some (0, m)" "live_inv m"
      "map_get m = (map_get map_create)(0 \<mapsto> 10)"
    using fresh_insert [OF create_inv(2,3)] by metis
  then have "map_get m 256 = None" by (simp add: create_inv)
  then obtain m' where "map_put (\<lambda>_. True) m 256 20 = Some (0, m')" "live_inv m'"
    using fresh_insert [OF m(2)] by metis
  then show ?thesis using m(1) by (simp add: demo_map_def)
qed

theorem map_reput_get_witness:
  "\<exists>m' old. map_reput (\<lambda>_. True) demo_map 5 7 = Some (0, m', old) \<and> wf_map m' \<and>
      map_get m' 5 = Some 7 \<and> map_get m' 256 = Some 20"
proof -
  have "can_insert (\<lambda>_. True) demo_map" by (simp add: can_insert_def)
  from map_reput_get [OF _ this, of 5 7] demo_map_inv show ?thesis
    by (auto simp: live_inv_def demo_map_gets)
qed

text \<open>C14: a removal from a well-formed table returns 0 exactly when the key is found in it; every other
  search answers as before and the table is still well-formed. If the keys are unique, they stay
  so and the key is not found any more; otherwise an older item with the key may come to light.\<close>

theorem map_remove_get:
  assumes "wf_map m"
  shows "fst (map_remove m key) = (if map_contains m key then 0 else 1) \<and>
    wf_map (snd (map_remove m key)) \<and>
    (\<forall>k. k \<noteq> key \<longrightarrow> map_get (snd (map_remove m key)) k = map_get m k) \<and>
    (uniq_keys m \<longrightarrow> uniq_keys (snd (map_remove m key)) \<and> map_get (snd (map_remove m key)) key = None)"
proof (cases "map_get m key")
  case None
  then show ?thesis
    using map_remove_none [OF assms None] map_get_find [OF assms, of key] assms by (auto simp: map_contains_def)
next
  case (Some w)
  then obtain i v where i: "i < length (mdata m)" "mdata m ! i = Item key v"
    and r: "map_remove m key = (0, m\<lparr>mdata := (mdata m)[i := Deleted], mcount := mcount m - 1\<rparr>)"
    using map_remove_some [OF assms] by blast
  show ?thesis
    using delete_slot(1,2) [OF assms i] map_remove_works [OF assms, of key] Some map_get_find [OF assms, of key]
    by (auto simp: r map_contains_def)
qed

theorem map_remove_get_witness:
  "fst (map_remove demo_map 0) = 0 \<and> map_get (snd (map_remove demo_map 0)) 0 = None \<and>
   map_get (snd (map_remove demo_map 0)) 256 = Some 20"
proof -
  have "map_contains demo_map 0" using map_get_find [of demo_map 0] demo_map_inv demo_map_gets
    by (auto simp: map_contains_def live_inv_def)
  then show ?thesis
    using map_remove_get [of demo_map 0] demo_map_inv demo_map_gets by (auto simp: live_inv_def)
qed

text \<open>Iteration. The loop \<open>map_for_each\<close> over a well-formed table with unique keys sees
  exactly the values that searches find, each live item once.\<close>

lemma map_items_complete:
  assumes "wf_map m" and "uniq_keys m"
  shows "set (map_items m) = ran (map_get m) \<and> length (map_items m) = mcount m"
proof
  show "set (map_items m) = ran (map_get m)" by (rule map_items_get [OF assms])
  show "length (map_items m) = mcount m" using assms(1) by (simp add: map_items_eq wf_map_def)
qed

text \<open>An insertion that needs a larger table which cannot be allocated returns -1 and
  leaves the table as it was.\<close>

lemma map_reput_no_memory:
  assumes "wf_map m" and "mcount m = msize m" and "\<not> ok (msize m + 256)"
  shows "map_reput ok m key v = Some (-1, m, None)"
  using map_reput_fails [OF assms(1), of ok key v] assms(2,3) by (simp add: can_insert_def)

definition stale_run :: "nat qmap option" where
  "stale_run = do {
     (_, m1) \<leftarrow> map_put (\<lambda>_. True) map_create 0 10;
     (_, m2) \<leftarrow> map_put (\<lambda>_. True) m1 256 20;
     let m3 = snd (map_remove m2 0);
     (_, m4) \<leftarrow> map_put (\<lambda>_. True) m3 256 30;
     Some (snd (map_remove m4 256)) }"

text \<open>The table as it is does not keep keys unique. \<open>map_hash\<close> takes the first deleted
  slot of a probe sequence without looking for the key further on, so replacing an item
  behind a deleted slot leaves the old item in the table: after that item is removed again
  a search still finds the old value. (Keys 0 and 256 share their first slot.)\<close>

lemma map_put_leaves_stale_item:
  "map_option (\<lambda>m. map_get m 256) stale_run = Some (Some 20)"
  by code_simp

end
