(* ===== verification/Qrtr.thy ===== *)
theory Qrtr
  imports Prelude
begin

unbundle bit_operations_syntax

text \<open>
  The QRTR socket library: \<^verbatim>\<open>qcom/qrtr/lib/libqrtr.h\<close> and \<^verbatim>\<open>qcom/qrtr/lib/qrtr.c\<close>. The
  control packet and its wire format, the packets a client sends to the name service, and the
  classification of received datagrams. The system calls are parameters: their results are
  arguments, the datagram handed to \<open>sendto\<close> is part of the result.
\<close>

section \<open>Addresses and control packets\<close>

record sockaddr_qrtr =
  sq_family :: u16
  sq_node :: u32
  sq_port :: u32

text \<open>\<open>struct qrtr_ctrl_pkt\<close>: a command and a union of two packed structs. The four words of
  the union are \<open>service\<close>, \<open>instance\<close>, \<open>node\<close>, \<open>port\<close> of the server view; the client view
  overlays \<open>node\<close> and \<open>port\<close> on the first two.\<close>

record qrtr_ctrl_pkt =
  pk_cmd :: u32
  pk_w0 :: u32
  pk_w1 :: u32
  pk_w2 :: u32
  pk_w3 :: u32

abbreviation srv_service :: "qrtr_ctrl_pkt \<Rightarrow> u32" where "srv_service \<equiv> pk_w0"
abbreviation srv_instance :: "qrtr_ctrl_pkt \<Rightarrow> u32" where "srv_instance \<equiv> pk_w1"
abbreviation srv_node :: "qrtr_ctrl_pkt \<Rightarrow> u32" where "srv_node \<equiv> pk_w2"
abbreviation srv_port :: "qrtr_ctrl_pkt \<Rightarrow> u32" where "srv_port \<equiv> pk_w3"
abbreviation cli_node :: "qrtr_ctrl_pkt \<Rightarrow> u32" where "cli_node \<equiv> pk_w0"
abbreviation cli_port :: "qrtr_ctrl_pkt \<Rightarrow> u32" where "cli_port \<equiv> pk_w1"

abbreviation (input) QRTR_TYPE_DATA :: u32 where "QRTR_TYPE_DATA \<equiv> 1"
abbreviation (input) QRTR_TYPE_HELLO :: u32 where "QRTR_TYPE_HELLO \<equiv> 2"
abbreviation (input) QRTR_TYPE_BYE :: u32 where "QRTR_TYPE_BYE \<equiv> 3"
abbreviation (input) QRTR_TYPE_NEW_SERVER :: u32 where "QRTR_TYPE_NEW_SERVER \<equiv> 4"
abbreviation (input) QRTR_TYPE_DEL_SERVER :: u32 where "QRTR_TYPE_DEL_SERVER \<equiv> 5"
abbreviation (input) QRTR_TYPE_DEL_CLIENT :: u32 where "QRTR_TYPE_DEL_CLIENT \<equiv> 6"
abbreviation (input) QRTR_TYPE_RESUME_TX :: u32 where "QRTR_TYPE_RESUME_TX \<equiv> 7"
abbreviation (input) QRTR_TYPE_EXIT :: u32 where "QRTR_TYPE_EXIT \<equiv> 8"
abbreviation (input) QRTR_TYPE_PING :: u32 where "QRTR_TYPE_PING \<equiv> 9"
abbreviation (input) QRTR_TYPE_NEW_LOOKUP :: u32 where "QRTR_TYPE_NEW_LOOKUP \<equiv> 10"
abbreviation (input) QRTR_TYPE_DEL_LOOKUP :: u32 where "QRTR_TYPE_DEL_LOOKUP \<equiv> 11"

abbreviation (input) QRTR_NODE_BCAST :: u32 where "QRTR_NODE_BCAST \<equiv> 0xffffffff"
abbreviation (input) QRTR_PORT_CTRL :: u32 where "QRTR_PORT_CTRL \<equiv> 0xfffffffe"
abbreviation (input) AF_QIPCRTR :: u16 where "AF_QIPCRTR \<equiv> 42"

text \<open>The object representation of a control packet: 20 packed bytes.\<close>

definition u32_bytes :: "u32 \<Rightarrow> bytes" where
  "u32_bytes w = le_bytes 4 (unat w)"

definition u32_at :: "bytes \<Rightarrow> nat \<Rightarrow> u32" where
  "u32_at buf i = of_nat (le_val (take 4 (drop i buf)))"

definition ctrl_bytes :: "qrtr_ctrl_pkt \<Rightarrow> bytes" where
  "ctrl_bytes p = u32_bytes (pk_cmd p) @ u32_bytes (pk_w0 p) @ u32_bytes (pk_w1 p) @
     u32_bytes (pk_w2 p) @ u32_bytes (pk_w3 p)"

definition ctrl_of_bytes :: "bytes \<Rightarrow> qrtr_ctrl_pkt option" where
  "ctrl_of_bytes buf =
     (if 20 \<le> length buf then
        Some \<lparr>pk_cmd = u32_at buf 0, pk_w0 = u32_at buf 4, pk_w1 = u32_at buf 8,
          pk_w2 = u32_at buf 12, pk_w3 = u32_at buf 16\<rparr>
      else None)"

lemma length_u32_bytes [simp]: "length (u32_bytes w) = 4"
  by (simp add: u32_bytes_def)

lemma of_nat_le_val_u32 [simp]: "of_nat (le_val (u32_bytes w)) = w"
proof -
  have "unat w < 256 ^ 4" using unat_u32_less [of w] by simp
  then show ?thesis unfolding u32_bytes_def by (subst le_val_le_bytes_id) simp_all
qed

lemma length_ctrl_bytes [simp]: "length (ctrl_bytes p) = 20"
  by (simp add: ctrl_bytes_def)

lemma ctrl_of_bytes_ctrl_bytes [simp]: "ctrl_of_bytes (ctrl_bytes p @ rest) = Some p"
  by (simp add: ctrl_of_bytes_def ctrl_bytes_def u32_at_def)

section \<open>Packets a client sends\<close>

text \<open>\<open>qrtr_getname\<close>: \<open>rc\<close>, \<open>sq\<close> and \<open>sl\<close> are what \<open>getsockname\<close> returned.\<close>

definition qrtr_getname :: "int \<Rightarrow> sockaddr_qrtr \<Rightarrow> nat \<Rightarrow> int" where
  "qrtr_getname rc sq sl =
     (if rc \<noteq> 0 then -1
      else if sq_family sq \<noteq> AF_QIPCRTR \<or> sl \<noteq> 12 then -1 else 0)"

text \<open>The state of a socket call sequence: the descriptors that are open and the datagrams
  that were handed to \<open>sendto\<close>. \<open>qrtr_open\<close> gets the results of \<open>socket\<close>, \<open>setsockopt\<close> and
  \<open>bind\<close>.\<close>

record sock_state =
  open_fds :: "int set"
  bound :: "(int \<times> sockaddr_qrtr) list"
  out_pkts :: "(bytes \<times> sockaddr_qrtr) list"

definition qrtr_close :: "sock_state \<Rightarrow> int \<Rightarrow> sock_state" where
  "qrtr_close st sock = st\<lparr>open_fds := open_fds st - {sock}\<rparr>"

definition qrtr_open :: "sock_state \<Rightarrow> int \<Rightarrow> int \<Rightarrow> int \<Rightarrow> u32 \<Rightarrow> int \<times> sock_state" where
  "qrtr_open st socket_rc setsockopt_rc bind_rc rport =
     (if socket_rc < 0 then (-1, st)
      else
        let sock = socket_rc; st1 = st\<lparr>open_fds := insert sock (open_fds st)\<rparr> in
        if setsockopt_rc \<noteq> 0 then (-1, qrtr_close st1 sock)
        else if rport \<noteq> 0 then
          (if bind_rc < 0 then (-1, qrtr_close st1 sock)
           else (sock, st1\<lparr>bound :=
             (sock, \<lparr>sq_family = AF_QIPCRTR, sq_node = 1, sq_port = rport\<rparr>) # bound st1\<rparr>))
        else (sock, st1))"

definition qrtr_sendto ::
    "sock_state \<Rightarrow> int \<Rightarrow> u32 \<Rightarrow> u32 \<Rightarrow> bytes \<Rightarrow> int \<times> sock_state" where
  "qrtr_sendto st sendto_rc node port data =
     (let sq = \<lparr>sq_family = AF_QIPCRTR, sq_node = node, sq_port = port\<rparr>;
          st1 = st\<lparr>out_pkts := out_pkts st @ [(data, sq)]\<rparr> in
      if sendto_rc < 0 then (-1, st1) else (0, st1))"

text \<open>Receiving: \<open>rc\<close>, \<open>data\<close> and \<open>sq\<close> are what the system call returned, at most as many bytes as
  the buffer has. The address is stored through the pointers that are not null; \<open>node\<close> and
  \<open>port\<close> are what they point to.\<close>

definition qrtr_recv :: "int \<Rightarrow> bytes \<Rightarrow> bytes \<Rightarrow> int \<times> bytes" where
  "qrtr_recv rc data buf = (rc, if rc < 0 then buf else take (nat rc) data @ drop (nat rc) buf)"

definition qrtr_recvfrom ::
    "int \<Rightarrow> bytes \<Rightarrow> sockaddr_qrtr \<Rightarrow> bytes \<Rightarrow> u32 option \<Rightarrow> u32 option \<Rightarrow> int \<times> bytes \<times> u32 option \<times> u32 option" where
  "qrtr_recvfrom rc data sq buf node port =
     (if rc < 0 then (rc, buf, node, port)
      else (rc, take (nat rc) data @ drop (nat rc) buf, map_option (\<lambda>_. sq_node sq) node, map_option (\<lambda>_. sq_port sq) port))"

text \<open>\<open>qrtr_poll\<close>: the descriptor with the events that are waited for; \<open>POLLIN\<close> is 1, \<open>POLLERR\<close> is 8.\<close>

definition qrtr_poll :: "((int \<times> u16) list \<Rightarrow> u32 \<Rightarrow> int) \<Rightarrow> int \<Rightarrow> u32 \<Rightarrow> int" where
  "qrtr_poll poll sock ms = poll [(sock, 1 OR 8)] ms"

text \<open>\<open>instance << 8 | version\<close>: both are \<open>uint16_t\<close>, promoted to \<open>int\<close>.\<close>

definition server_instance :: "u16 \<Rightarrow> u16 \<Rightarrow> u32" where
  "server_instance version instance =
     push_bit 8 (ucast instance) OR ucast version"

text \<open>The four requests differ in the command and in whether the sender's own address is
  filled in. \<open>name\<close> is what \<open>getsockname\<close> returned.\<close>

definition ctrl_request ::
    "u32 \<Rightarrow> bool \<Rightarrow> sock_state \<Rightarrow> int \<times> sockaddr_qrtr \<times> nat \<Rightarrow> int \<Rightarrow> u32 \<Rightarrow> u16 \<Rightarrow> u16
      \<Rightarrow> int \<times> sock_state" where
  "ctrl_request cmd own_addr st name sendto_rc service version instance =
     (let (rc, sq, sl) = name in
      if qrtr_getname rc sq sl \<noteq> 0 then (-1, st)
      else qrtr_sendto st sendto_rc (sq_node sq) QRTR_PORT_CTRL
        (ctrl_bytes \<lparr>pk_cmd = cmd, pk_w0 = service, pk_w1 = server_instance version instance,
           pk_w2 = (if own_addr then sq_node sq else 0),
           pk_w3 = (if own_addr then sq_port sq else 0)\<rparr>))"

definition qrtr_new_server ::
    "sock_state \<Rightarrow> int \<times> sockaddr_qrtr \<times> nat \<Rightarrow> int \<Rightarrow> u32 \<Rightarrow> u16 \<Rightarrow> u16 \<Rightarrow> int \<times> sock_state" where
  "qrtr_new_server st name sendto_rc service version instance =
     ctrl_request QRTR_TYPE_NEW_SERVER False st name sendto_rc service version instance"

definition qrtr_remove_server ::
    "sock_state \<Rightarrow> int \<times> sockaddr_qrtr \<times> nat \<Rightarrow> int \<Rightarrow> u32 \<Rightarrow> u16 \<Rightarrow> u16 \<Rightarrow> int \<times> sock_state" where
  "qrtr_remove_server st name sendto_rc service version instance =
     ctrl_request QRTR_TYPE_DEL_SERVER True st name sendto_rc service version instance"

definition qrtr_publish ::
    "sock_state \<Rightarrow> int \<times> sockaddr_qrtr \<times> nat \<Rightarrow> int \<Rightarrow> u32 \<Rightarrow> u16 \<Rightarrow> u16 \<Rightarrow> int \<times> sock_state" where
  "qrtr_publish st name sendto_rc service version instance =
     qrtr_new_server st name sendto_rc service version instance"

definition qrtr_bye ::
    "sock_state \<Rightarrow> int \<times> sockaddr_qrtr \<times> nat \<Rightarrow> int \<Rightarrow> u32 \<Rightarrow> u16 \<Rightarrow> u16 \<Rightarrow> int \<times> sock_state" where
  "qrtr_bye st name sendto_rc service version instance =
     qrtr_remove_server st name sendto_rc service version instance"

definition qrtr_new_lookup ::
    "sock_state \<Rightarrow> int \<times> sockaddr_qrtr \<times> nat \<Rightarrow> int \<Rightarrow> u32 \<Rightarrow> u16 \<Rightarrow> u16 \<Rightarrow> int \<times> sock_state" where
  "qrtr_new_lookup st name sendto_rc service version instance =
     ctrl_request QRTR_TYPE_NEW_LOOKUP False st name sendto_rc service version instance"

definition qrtr_remove_lookup ::
    "sock_state \<Rightarrow> int \<times> sockaddr_qrtr \<times> nat \<Rightarrow> int \<Rightarrow> u32 \<Rightarrow> u16 \<Rightarrow> u16 \<Rightarrow> int \<times> sock_state" where
  "qrtr_remove_lookup st name sendto_rc service version instance =
     ctrl_request QRTR_TYPE_DEL_LOOKUP True st name sendto_rc service version instance"

section \<open>Received datagrams\<close>

text \<open>\<open>struct qrtr_packet\<close>. \<open>p_data\<close> is the object the pointer \<open>data\<close> points into, from
  there to its end; \<open>p_data_len\<close> may be shorter.\<close>

record qrtr_packet =
  p_type :: u32
  p_node :: u32
  p_port :: u32
  p_service :: u32
  p_instance :: u32
  p_version :: u32
  p_data :: "bytes option"
  p_data_len :: nat

text \<open>\<open>qrtr_decode\<close> fills in only some fields of \<open>dest\<close>, which its callers leave
  uninitialised.\<close>

definition qrtr_decode ::
    "qrtr_packet \<Rightarrow> bytes \<Rightarrow> nat \<Rightarrow> sockaddr_qrtr \<Rightarrow> (int \<times> qrtr_packet) option" where
  "qrtr_decode dest buf len sq =
     (if sq_port sq = QRTR_PORT_CTRL then
        if len < 20 then Some (-EMSGSIZE, dest)
        else do {
          ctrl \<leftarrow> ctrl_of_bytes buf;
          let d = dest\<lparr>p_type := pk_cmd ctrl\<rparr>;
          Some (0,
            if p_type d = QRTR_TYPE_BYE then d\<lparr>p_node := cli_node ctrl\<rparr>
            else if p_type d = QRTR_TYPE_DEL_CLIENT then
              d\<lparr>p_node := cli_node ctrl, p_port := cli_port ctrl\<rparr>
            else if p_type d = QRTR_TYPE_NEW_SERVER \<or> p_type d = QRTR_TYPE_DEL_SERVER then
              d\<lparr>p_node := srv_node ctrl, p_port := srv_port ctrl, p_service := srv_service ctrl,
                p_version := srv_instance ctrl AND 0xff,
                p_instance := drop_bit 8 (srv_instance ctrl)\<rparr>
            else d\<lparr>p_type := 0\<rparr>) }
      else
        Some (0, dest\<lparr>p_type := QRTR_TYPE_DATA, p_node := sq_node sq, p_port := sq_port sq,
          p_data := Some buf, p_data_len := len\<rparr>))"

text \<open>A packet with every field zero, as an initial value of \<open>dest\<close>.\<close>

definition blank_packet :: qrtr_packet where
  "blank_packet = \<lparr>p_type = 0, p_node = 0, p_port = 0, p_service = 0, p_instance = 0,
     p_version = 0, p_data = None, p_data_len = 0\<rparr>"

section \<open>Properties\<close>

lemma small_u16_bits:
  assumes "(v :: u16) < 256" and "8 \<le> n"
  shows "\<not> bit v n"
proof -
  have "unat v < 2 ^ 8" using assms(1) by (simp add: word_less_nat_alt)
  then have "take_bit 8 (unat v) = unat v" by (simp add: take_bit_nat_eq_self_iff)
  then have "\<not> bit (unat v) n" using assms(2) by (metis bit_take_bit_iff not_le)
  then show ?thesis by (simp add: bit_unsigned_iff)
qed

lemma server_instance_parts:
  assumes "version < 256"
  shows "server_instance version instance AND 0xff = ucast version"
    and "drop_bit 8 (server_instance version instance) = ucast instance"
proof -
  have m: "(0xff :: u32) = mask 8" by (simp add: mask_eq_exp_minus_1)
  show "server_instance version instance AND 0xff = ucast version"
    unfolding server_instance_def m
    by (rule bit_word_eqI) (use small_u16_bits [OF assms] in \<open>auto simp: bit_simps not_le [symmetric]\<close>)
  show "drop_bit 8 (server_instance version instance) = ucast instance"
    unfolding server_instance_def
    by (rule bit_word_eqI) (use small_u16_bits [OF assms] in \<open>auto simp: bit_simps dest: bit_imp_le_length\<close>)
qed

text \<open>What \<open>qrtr_decode\<close> makes of the announcement of a server.\<close>

lemma decode_new_server:
  assumes "version < 256" and "20 \<le> len" and "sq_port sq = QRTR_PORT_CTRL"
  shows "\<exists>d. qrtr_decode dest
      (ctrl_bytes \<lparr>pk_cmd = QRTR_TYPE_NEW_SERVER, pk_w0 = service,
         pk_w1 = server_instance version instance, pk_w2 = node, pk_w3 = port\<rparr> @ rest) len sq
      = Some (0, d) \<and> p_type d = QRTR_TYPE_NEW_SERVER \<and> p_service d = service \<and>
      p_version d = ucast version \<and> p_instance d = ucast instance \<and>
      p_node d = node \<and> p_port d = port"
  using assms server_instance_parts [OF assms(1), of "instance"]
  by (simp add: qrtr_decode_def)

text \<open>A version above 255 spills into the instance. The protection domain mapper publishes
  version 257, instance 0; observers decode version 1, instance 1.\<close>

lemma publish_version_overflow:
  "server_instance 257 0 = server_instance 1 1 \<and>
   server_instance 257 0 AND 0xff = 1 \<and> drop_bit 8 (server_instance 257 0) = 1"
  by (simp add: server_instance_def)

text \<open>A request on a socket with a name hands one control packet for the name service of its own
  node to \<open>sendto\<close>; only a removal says where the server is. Without a name nothing is sent.\<close>

lemma requests_sent:
  assumes "qrtr_getname rc sq sl = 0" and "0 \<le> send_rc"
    and "ns = \<lparr>sq_family = AF_QIPCRTR, sq_node = sq_node sq, sq_port = QRTR_PORT_CTRL\<rparr>"
    and "p = (\<lambda>cmd node port. \<lparr>pk_cmd = cmd, pk_w0 = service, pk_w1 = server_instance version instance,
      pk_w2 = node, pk_w3 = port\<rparr>)"
  shows "qrtr_publish st (rc, sq, sl) send_rc service version instance =
      (0, st\<lparr>out_pkts := out_pkts st @ [(ctrl_bytes (p QRTR_TYPE_NEW_SERVER 0 0), ns)]\<rparr>)"
    and "qrtr_bye st (rc, sq, sl) send_rc service version instance =
      (0, st\<lparr>out_pkts := out_pkts st @ [(ctrl_bytes (p QRTR_TYPE_DEL_SERVER (sq_node sq) (sq_port sq)), ns)]\<rparr>)"
    and "qrtr_new_lookup st (rc, sq, sl) send_rc service version instance =
      (0, st\<lparr>out_pkts := out_pkts st @ [(ctrl_bytes (p QRTR_TYPE_NEW_LOOKUP 0 0), ns)]\<rparr>)"
    and "qrtr_remove_lookup st (rc, sq, sl) send_rc service version instance =
      (0, st\<lparr>out_pkts := out_pkts st @ [(ctrl_bytes (p QRTR_TYPE_DEL_LOOKUP (sq_node sq) (sq_port sq)), ns)]\<rparr>)"
  using assms
  by (simp_all add: qrtr_publish_def qrtr_bye_def qrtr_new_server_def qrtr_remove_server_def qrtr_new_lookup_def
      qrtr_remove_lookup_def ctrl_request_def qrtr_sendto_def)

lemma nameless_requests:
  assumes "qrtr_getname rc sq sl \<noteq> 0"
  shows "ctrl_request cmd own_addr st (rc, sq, sl) send_rc service version instance = (-1, st)"
  using assms by (simp add: ctrl_request_def)

text \<open>\<open>qrtr_open\<close> leaks no descriptor: when it fails the open descriptors are those from
  before, when it succeeds the returned descriptor is the only new one.\<close>

lemma qrtr_open_no_leak:
  assumes "s \<notin> open_fds st"
  shows "case qrtr_open st s opt_rc bind_rc rport of (rc, st') \<Rightarrow>
    (rc < 0 \<and> open_fds st' = open_fds st \<and> bound st' = bound st) \<or>
    (rc = s \<and> 0 \<le> rc \<and> open_fds st' = insert s (open_fds st) \<and> out_pkts st' = out_pkts st)"
  using assms by (auto simp: qrtr_open_def qrtr_close_def Let_def)

end
