(* ===== verification/Ns.thy ===== *)
theory Ns
  imports Qmap Qrtr
begin

unbundle bit_operations_syntax

text \<open>
  The QRTR name service, \<^verbatim>\<open>qcom/qrtr/src/ns.c\<close>: nodes and the services registered on them
  in two levels of hash tables, observers in a list, and one handler per control command.
  The state is the \<open>struct context\<close>, the static table \<open>nodes\<close> and the datagrams handed to
  \<open>sendto\<close> so far. What the system decides is an \<open>ns_env\<close>: the result of the \<open>i\<close>-th
  \<open>sendto\<close>, whether an allocation of so many bytes succeeds, and the content of
  uninitialised stack words.
\<close>

section \<open>State\<close>

record server_filter =
  fl_service :: u32
  fl_instance :: u32
  fl_ifilter :: u32

record lookup =
  lk_service :: u32
  lk_instance :: u32
  lk_sq :: sockaddr_qrtr

record server =
  sv_service :: u32
  sv_instance :: u32
  sv_node :: u32
  sv_port :: u32

record node =
  nd_id :: u32
  nd_services :: "server qmap"

record ns_state =
  ns_sock :: int
  ns_local_node :: u32
  ns_bcast_sq :: sockaddr_qrtr
  ns_lookups :: "lookup list"
  ns_nodes :: "node qmap"
  ns_sent :: "(bytes \<times> sockaddr_qrtr) list"

datatype alloc_site = Node_alloc u32 | Node_table u32 | Server_alloc | Server_table | Lookup_alloc

record ns_env =
  sendto_rc :: "nat \<Rightarrow> int"
  calloc_ok :: "alloc_site \<Rightarrow> nat \<Rightarrow> bool"
  stack_word :: "nat \<Rightarrow> u32"

text \<open>Whether an allocation succeeds depends on the place in the code it is made for (for a node and
  the table of nodes also on the node, since a handler may look up two nodes) and on its size. Table
  entries are pointers: 8 bytes each. The structs have 24 (\<open>node\<close>) and 40 bytes
  (\<open>server\<close>, \<open>lookup\<close>).\<close>

definition table_ok :: "ns_env \<Rightarrow> alloc_site \<Rightarrow> nat \<Rightarrow> bool" where
  "table_ok e a n = calloc_ok e a (8 * n)"

definition ns_sendto :: "ns_env \<Rightarrow> ns_state \<Rightarrow> bytes \<Rightarrow> sockaddr_qrtr \<Rightarrow> int \<times> ns_state" where
  "ns_sendto e st data sq =
     (sendto_rc e (length (ns_sent st)), st\<lparr>ns_sent := ns_sent st @ [(data, sq)]\<rparr>)"

section \<open>Nodes and servers\<close>

text \<open>\<open>node_get\<close>: the node with the given id, created when it is not there. A \<open>struct node *\<close>
  is the id of the node; its fields are read and written through the table entry.\<close>

definition node_get :: "ns_env \<Rightarrow> ns_state \<Rightarrow> u32 \<Rightarrow> (node option \<times> ns_state) option" where
  "node_get e st node_id =
     (case map_get (ns_nodes st) (hash_u32 node_id) of
        Some nd \<Rightarrow> Some (Some nd, st)
      | None \<Rightarrow>
          if \<not> calloc_ok e (Node_alloc node_id) 24 then Some (None, st)
          else do {
            let nd = \<lparr>nd_id = node_id, nd_services = map_create\<rparr>;
            (rc, m) \<leftarrow> map_put (table_ok e (Node_table node_id)) (ns_nodes st) (hash_u32 node_id) nd;
            if rc \<noteq> 0 then Some (None, st\<lparr>ns_nodes := m\<rparr>)
            else Some (Some nd, st\<lparr>ns_nodes := m\<rparr>) })"

definition node_write :: "ns_state \<Rightarrow> u32 \<Rightarrow> server qmap \<Rightarrow> ns_state" where
  "node_write st node_id services =
     (case map_get (ns_nodes st) (hash_u32 node_id) of
        None \<Rightarrow> st
      | Some nd \<Rightarrow>
          st\<lparr>ns_nodes := map_write (ns_nodes st) (hash_u32 node_id) (nd\<lparr>nd_services := services\<rparr>)\<rparr>)"

definition server_match :: "server \<Rightarrow> server_filter \<Rightarrow> bool" where
  "server_match srv f =
     (if fl_service f \<noteq> 0 \<and> sv_service srv \<noteq> fl_service f then False
      else
        let ifilter = (if fl_ifilter f = 0 \<and> fl_instance f \<noteq> 0 then NOT 0 else fl_ifilter f) in
        sv_instance srv AND ifilter = fl_instance f)"

text \<open>\<open>server_query\<close> returns the count and the list it appended the matching servers to.\<close>

definition server_query :: "ns_state \<Rightarrow> server_filter \<Rightarrow> nat \<times> server list" where
  "server_query st f =
     (let found = filter (\<lambda>srv. server_match srv f)
            (concat (map (\<lambda>nd. map_items (nd_services nd)) (map_items (ns_nodes st))))
      in (length found, found))"

section \<open>Announcements\<close>

definition server_pkt :: "u32 \<Rightarrow> server \<Rightarrow> qrtr_ctrl_pkt" where
  "server_pkt cmd srv =
     \<lparr>pk_cmd = cmd, pk_w0 = sv_service srv, pk_w1 = sv_instance srv,
      pk_w2 = sv_node srv, pk_w3 = sv_port srv\<rparr>"

definition service_announce_new ::
    "ns_env \<Rightarrow> ns_state \<Rightarrow> sockaddr_qrtr \<Rightarrow> server \<Rightarrow> int \<times> ns_state" where
  "service_announce_new e st dest srv =
     ns_sendto e st (ctrl_bytes (server_pkt QRTR_TYPE_NEW_SERVER srv)) dest"

definition service_announce_del ::
    "ns_env \<Rightarrow> ns_state \<Rightarrow> sockaddr_qrtr \<Rightarrow> server \<Rightarrow> int \<times> ns_state" where
  "service_announce_del e st dest srv =
     ns_sendto e st (ctrl_bytes (server_pkt QRTR_TYPE_DEL_SERVER srv)) dest"

definition lookup_notify ::
    "ns_env \<Rightarrow> ns_state \<Rightarrow> sockaddr_qrtr \<Rightarrow> server option \<Rightarrow> bool \<Rightarrow> int \<times> ns_state" where
  "lookup_notify e st to srv new =
     (let cmd = (if new then QRTR_TYPE_NEW_SERVER else QRTR_TYPE_DEL_SERVER) in
      ns_sendto e st
        (ctrl_bytes (case srv of
            Some s \<Rightarrow> server_pkt cmd s
          | None \<Rightarrow> \<lparr>pk_cmd = cmd, pk_w0 = 0, pk_w1 = 0, pk_w2 = 0, pk_w3 = 0\<rparr>)) to)"

fun announce_loop :: "ns_env \<Rightarrow> ns_state \<Rightarrow> sockaddr_qrtr \<Rightarrow> server list \<Rightarrow> int \<times> ns_state" where
  "announce_loop e st sq [] = (0, st)"
| "announce_loop e st sq (srv # srvs) =
     (let (rc, st1) = service_announce_new e st sq srv in
      if rc < 0 then (rc, st1) else announce_loop e st1 sq srvs)"

definition annouce_servers :: "ns_env \<Rightarrow> ns_state \<Rightarrow> sockaddr_qrtr \<Rightarrow> (int \<times> ns_state) option" where
  "annouce_servers e st sq = do {
     (nd, st1) \<leftarrow> node_get e st (ns_local_node st);
     case nd of
       None \<Rightarrow> Some (0, st1)
     | Some n \<Rightarrow> Some (announce_loop e st1 sq (map_items (nd_services n))) }"

text \<open>The loop over the observers that both \<open>server_del\<close> and \<open>ctrl_cmd_new_server\<close> have:
  every observer whose service and instance filters (zero is a wildcard) admit the server is
  notified.\<close>

definition lookup_admits :: "lookup \<Rightarrow> u32 \<Rightarrow> u32 \<Rightarrow> bool" where
  "lookup_admits lk service instance \<longleftrightarrow>
     \<not> (lk_service lk \<noteq> 0 \<and> lk_service lk \<noteq> service) \<and>
     \<not> (lk_instance lk \<noteq> 0 \<and> lk_instance lk \<noteq> instance)"

fun notify_loop ::
    "ns_env \<Rightarrow> ns_state \<Rightarrow> lookup list \<Rightarrow> u32 \<Rightarrow> u32 \<Rightarrow> server \<Rightarrow> bool \<Rightarrow> ns_state" where
  "notify_loop e st [] service instance srv new = st"
| "notify_loop e st (lk # lks) service instance srv new =
     (if lookup_admits lk service instance
      then notify_loop e (snd (lookup_notify e st (lk_sq lk) (Some srv) new)) lks service instance srv new
      else notify_loop e st lks service instance srv new)"

section \<open>Registration\<close>

definition server_add ::
    "ns_env \<Rightarrow> ns_state \<Rightarrow> u32 \<Rightarrow> u32 \<Rightarrow> u32 \<Rightarrow> u32 \<Rightarrow> (server option \<times> ns_state) option" where
  "server_add e st service instance node_id port =
     (if service = 0 \<or> port = 0 then Some (None, st)
      else if \<not> calloc_ok e Server_alloc 40 then Some (None, st)
      else do {
        let srv = \<lparr>sv_service = service, sv_instance = instance, sv_node = node_id, sv_port = port\<rparr>;
        (nd, st1) \<leftarrow> node_get e st node_id;
        case nd of
          None \<Rightarrow> Some (None, st1)
        | Some n \<Rightarrow> do {
            (rc, m, old) \<leftarrow> map_reput (table_ok e Server_table) (nd_services n) (hash_u32 port) srv;
            if rc \<noteq> 0 then Some (None, node_write st1 node_id m)
            else Some (Some srv, node_write st1 node_id m) } })"

text \<open>\<open>server_del\<close>: \<open>srv->mi.key\<close> is the key the entry was stored under, the hash of the
  port. The node pointer must be that of a node in the table.\<close>

definition server_del :: "ns_env \<Rightarrow> ns_state \<Rightarrow> u32 \<Rightarrow> u32 \<Rightarrow> (int \<times> ns_state) option" where
  "server_del e st node_id port = do {
     nd \<leftarrow> map_get (ns_nodes st) (hash_u32 node_id);
     case map_get (nd_services nd) (hash_u32 port) of
       None \<Rightarrow> Some (-ENOENT, st)
     | Some srv \<Rightarrow>
         (let st1 = node_write st node_id (snd (map_remove (nd_services nd) (hash_u32 port)));
              st2 = (if sv_node srv = ns_local_node st1
                     then snd (service_announce_del e st1 (ns_bcast_sq st1) srv) else st1);
              st3 = notify_loop e st2 (ns_lookups st2) (sv_service srv) (sv_instance srv) srv False
          in Some (0, st3)) }"

section \<open>Command handlers\<close>

definition ctrl_cmd_hello ::
    "ns_env \<Rightarrow> ns_state \<Rightarrow> sockaddr_qrtr \<Rightarrow> bytes \<Rightarrow> (int \<times> ns_state) option" where
  "ctrl_cmd_hello e st sq msg =
     (let (rc, st1) = ns_sendto e st msg sq in
      if rc > 0 then annouce_servers e st1 sq else Some (rc, st1))"

text \<open>The first loop of \<open>ctrl_cmd_bye\<close> removes entries while it iterates; the argument is the
  number of iterations left, and \<open>it\<close> the iterator.\<close>

fun bye_loop :: "nat \<Rightarrow> ns_env \<Rightarrow> ns_state \<Rightarrow> u32 \<Rightarrow> nat option \<Rightarrow> ns_state option" where
  "bye_loop n e st node_id None = Some st"
| "bye_loop 0 e st node_id (Some i) = None"
| "bye_loop (Suc n) e st node_id (Some i) = do {
     nd \<leftarrow> map_get (ns_nodes st) (hash_u32 node_id);
     srv \<leftarrow> map_iter_item (nd_services nd) i;
     (rc, st1) \<leftarrow> server_del e st node_id (sv_port srv);
     nd1 \<leftarrow> map_get (ns_nodes st1) (hash_u32 node_id);
     bye_loop n e st1 node_id (map_iter_next (nd_services nd1) (Some i)) }"

fun send_all :: "ns_env \<Rightarrow> ns_state \<Rightarrow> bytes \<Rightarrow> server list \<Rightarrow> ns_state" where
  "send_all e st data [] = st"
| "send_all e st data (srv # srvs) =
     send_all e
       (snd (ns_sendto e st data
          \<lparr>sq_family = AF_QIPCRTR, sq_node = sv_node srv, sq_port = sv_port srv\<rparr>)) data srvs"

text \<open>The second half of \<open>ctrl_cmd_bye\<close> and \<open>ctrl_cmd_del_client\<close>: every local service is told.\<close>

definition tell_local_services :: "ns_env \<Rightarrow> ns_state \<Rightarrow> qrtr_ctrl_pkt \<Rightarrow> (int \<times> ns_state) option" where
  "tell_local_services e st pkt = do {
     (nd, st1) \<leftarrow> node_get e st (ns_local_node st);
     case nd of
       None \<Rightarrow> Some (0, st1)
     | Some n \<Rightarrow> Some (0, send_all e st1 (ctrl_bytes pkt) (map_items (nd_services n))) }"

definition ctrl_cmd_bye :: "ns_env \<Rightarrow> ns_state \<Rightarrow> sockaddr_qrtr \<Rightarrow> (int \<times> ns_state) option" where
  "ctrl_cmd_bye e st from = do {
     (nd, st1) \<leftarrow> node_get e st (sq_node from);
     case nd of
       None \<Rightarrow> Some (0, st1)
     | Some n \<Rightarrow> do {
         st2 \<leftarrow> bye_loop (msize (nd_services n)) e st1 (sq_node from) (map_iter_first (nd_services n));
         tell_local_services e st2
           \<lparr>pk_cmd = QRTR_TYPE_BYE, pk_w0 = sq_node from, pk_w1 = 0, pk_w2 = 0, pk_w3 = 0\<rparr> } }"

text \<open>\<open>ctrl_cmd_del_client\<close> does not clear the packet it sends: its last two words are
  whatever the stack held.\<close>

definition ctrl_cmd_del_client ::
    "ns_env \<Rightarrow> ns_state \<Rightarrow> sockaddr_qrtr \<Rightarrow> u32 \<Rightarrow> u32 \<Rightarrow> (int \<times> ns_state) option" where
  "ctrl_cmd_del_client e st from node_id port =
     (if sq_node from \<noteq> node_id then Some (-EINVAL, st)
      else if sq_node from = ns_local_node st \<and> sq_port from \<noteq> port then Some (-EINVAL, st)
      else do {
        let st1 = st\<lparr>ns_lookups :=
          filter (\<lambda>lk. sq_node (lk_sq lk) \<noteq> node_id \<or> sq_port (lk_sq lk) \<noteq> port) (ns_lookups st)\<rparr>;
        (nd, st2) \<leftarrow> node_get e st1 node_id;
        st3 \<leftarrow> (case nd of
            None \<Rightarrow> Some st2
          | Some n \<Rightarrow> map_option snd (server_del e st2 node_id port));
        tell_local_services e st3
          \<lparr>pk_cmd = QRTR_TYPE_DEL_CLIENT, pk_w0 = node_id, pk_w1 = port,
           pk_w2 = stack_word e 0, pk_w3 = stack_word e 1\<rparr> })"

definition ctrl_cmd_new_server ::
    "ns_env \<Rightarrow> ns_state \<Rightarrow> sockaddr_qrtr \<Rightarrow> u32 \<Rightarrow> u32 \<Rightarrow> u32 \<Rightarrow> u32 \<Rightarrow> (int \<times> ns_state) option" where
  "ctrl_cmd_new_server e st from service instance node_id port =
     (let loc = (sq_node from = ns_local_node st);
          node_id = (if loc then sq_node from else node_id);
          port = (if loc then sq_port from else port) in
      if sq_node from \<noteq> node_id then Some (-EINVAL, st)
      else do {
        (srv, st1) \<leftarrow> server_add e st service instance node_id port;
        case srv of
          None \<Rightarrow> Some (-EINVAL, st1)
        | Some s \<Rightarrow>
            (let (rc, st2) = (if sv_node s = ns_local_node st1
                   then service_announce_new e st1 (ns_bcast_sq st1) s else (0, st1))
             in Some (rc, notify_loop e st2 (ns_lookups st2) service instance s True)) })"

definition ctrl_cmd_del_server ::
    "ns_env \<Rightarrow> ns_state \<Rightarrow> sockaddr_qrtr \<Rightarrow> u32 \<Rightarrow> u32 \<Rightarrow> u32 \<Rightarrow> u32 \<Rightarrow> (int \<times> ns_state) option" where
  "ctrl_cmd_del_server e st from service instance node_id port =
     (let loc = (sq_node from = ns_local_node st);
          node_id = (if loc then sq_node from else node_id);
          port = (if loc then sq_port from else port) in
      if sq_node from \<noteq> node_id then Some (-EINVAL, st)
      else if sq_node from = ns_local_node st \<and> sq_port from \<noteq> port then Some (-EINVAL, st)
      else do {
        (nd, st1) \<leftarrow> node_get e st node_id;
        case nd of
          None \<Rightarrow> Some (-ENOENT, st1)
        | Some n \<Rightarrow> server_del e st1 node_id port })"

fun reply_loop :: "ns_env \<Rightarrow> ns_state \<Rightarrow> sockaddr_qrtr \<Rightarrow> server list \<Rightarrow> ns_state" where
  "reply_loop e st to [] = st"
| "reply_loop e st to (srv # srvs) =
     reply_loop e (snd (lookup_notify e st to (Some srv) True)) to srvs"

definition ctrl_cmd_new_lookup ::
    "ns_env \<Rightarrow> ns_state \<Rightarrow> sockaddr_qrtr \<Rightarrow> u32 \<Rightarrow> u32 \<Rightarrow> int \<times> ns_state" where
  "ctrl_cmd_new_lookup e st from service instance =
     (if sq_node from \<noteq> ns_local_node st then (-EINVAL, st)
      else if \<not> calloc_ok e Lookup_alloc 40 then (-EINVAL, st)
      else
        let st1 = st\<lparr>ns_lookups := ns_lookups st @
              [\<lparr>lk_service = service, lk_instance = instance, lk_sq = from\<rparr>]\<rparr>;
            (cnt, reply_list) = server_query st1
              \<lparr>fl_service = service, fl_instance = instance, fl_ifilter = 0\<rparr>;
            st2 = reply_loop e st1 from reply_list
        in (0, snd (lookup_notify e st2 from None True)))"

definition ctrl_cmd_del_lookup ::
    "ns_state \<Rightarrow> sockaddr_qrtr \<Rightarrow> u32 \<Rightarrow> u32 \<Rightarrow> int \<times> ns_state" where
  "ctrl_cmd_del_lookup st from service instance =
     (0, st\<lparr>ns_lookups := filter (\<lambda>lk.
          sq_node (lk_sq lk) \<noteq> sq_node from \<or> sq_port (lk_sq lk) \<noteq> sq_port from \<or>
          lk_service lk \<noteq> service \<or> (lk_instance lk \<noteq> 0 \<and> lk_instance lk \<noteq> instance))
        (ns_lookups st)\<rparr>)"

text \<open>\<open>ctrl_port_fn\<close>: \<open>len\<close> is the result of \<open>recvfrom\<close>, \<open>buf\<close> the 4096 bytes of the stack
  buffer after it (the datagram, then what was there before). The fields of the message are
  read from the buffer whatever the length of the datagram.\<close>

definition ctrl_port_fn ::
    "ns_env \<Rightarrow> ns_state \<Rightarrow> int \<Rightarrow> bytes \<Rightarrow> sockaddr_qrtr \<Rightarrow> (int \<times> ns_state) option" where
  "ctrl_port_fn e st len buf sq =
     (if len \<le> 0 then Some (0, st\<lparr>ns_sock := -1\<rparr>)
      else if len < 4 then Some (0, st)
      else do {
        msg \<leftarrow> ctrl_of_bytes buf;
        let cmd = pk_cmd msg;
        if cmd = QRTR_TYPE_HELLO then ctrl_cmd_hello e st sq (take (nat len) buf)
        else if cmd = QRTR_TYPE_BYE then ctrl_cmd_bye e st sq
        else if cmd = QRTR_TYPE_DEL_CLIENT then
          ctrl_cmd_del_client e st sq (cli_node msg) (cli_port msg)
        else if cmd = QRTR_TYPE_NEW_SERVER then
          ctrl_cmd_new_server e st sq (srv_service msg) (srv_instance msg) (srv_node msg) (srv_port msg)
        else if cmd = QRTR_TYPE_DEL_SERVER then
          ctrl_cmd_del_server e st sq (srv_service msg) (srv_instance msg) (srv_node msg) (srv_port msg)
        else if cmd = QRTR_TYPE_EXIT \<or> cmd = QRTR_TYPE_PING \<or> cmd = QRTR_TYPE_RESUME_TX then Some (0, st)
        else if cmd = QRTR_TYPE_NEW_LOOKUP then
          Some (ctrl_cmd_new_lookup e st sq (srv_service msg) (srv_instance msg))
        else if cmd = QRTR_TYPE_DEL_LOOKUP then
          Some (ctrl_cmd_del_lookup st sq (srv_service msg) (srv_instance msg))
        else Some (0, st) })"

section \<open>The service as a whole\<close>

definition say_hello :: "ns_env \<Rightarrow> ns_state \<Rightarrow> int \<times> ns_state" where
  "say_hello e st =
     (let (rc, st1) = ns_sendto e st
            (ctrl_bytes \<lparr>pk_cmd = QRTR_TYPE_HELLO, pk_w0 = 0, pk_w1 = 0, pk_w2 = 0, pk_w3 = 0\<rparr>)
            (ns_bcast_sq st)
      in if rc < 0 then (rc, st1) else (0, st1))"

text \<open>The state \<open>main\<close> sets up before it says hello: \<open>sock\<close> is the control socket, \<open>local\<close>
  the node that \<open>getsockname\<close> reported.\<close>

definition ns_init :: "int \<Rightarrow> u32 \<Rightarrow> ns_state" where
  "ns_init sock local =
     \<lparr>ns_sock = sock, ns_local_node = local,
      ns_bcast_sq = \<lparr>sq_family = AF_QIPCRTR, sq_node = QRTR_NODE_BCAST, sq_port = QRTR_PORT_CTRL\<rparr>,
      ns_lookups = [], ns_nodes = map_create, ns_sent = []\<rparr>"

text \<open>The main loop: as long as the socket is open, the waiter calls \<open>ctrl_port_fn\<close> when a
  datagram (or an error) is there. Any environment, any datagram, any sender.\<close>

inductive ns_reach :: "int \<Rightarrow> u32 \<Rightarrow> ns_state \<Rightarrow> bool" for sock :: int and local :: u32 where
  hello: "0 \<le> sock \<Longrightarrow> say_hello e (ns_init sock local) = (0, st) \<Longrightarrow> ns_reach sock local st"
| packet: "ns_reach sock local st \<Longrightarrow> 0 \<le> ns_sock st \<Longrightarrow> length buf = 4096 \<Longrightarrow>
    ctrl_port_fn e st len buf sq = Some (rc, st') \<Longrightarrow> ns_reach sock local st'"

section \<open>Sending leaves everything else alone\<close>

definition notice :: "server \<Rightarrow> bool \<Rightarrow> bytes" where
  "notice srv new =
     ctrl_bytes (server_pkt (if new then QRTR_TYPE_NEW_SERVER else QRTR_TYPE_DEL_SERVER) srv)"

text \<open>The datagram that ends the reply to a lookup.\<close>

definition end_of_list :: bytes where
  "end_of_list =
     ctrl_bytes \<lparr>pk_cmd = QRTR_TYPE_NEW_SERVER, pk_w0 = 0, pk_w1 = 0, pk_w2 = 0, pk_w3 = 0\<rparr>"

lemma snd_ns_sendto [simp]:
  "snd (ns_sendto e st data sq) = st\<lparr>ns_sent := ns_sent st @ [(data, sq)]\<rparr>"
  by (simp add: ns_sendto_def)

lemma snd_service_announce_new [simp]:
  "snd (service_announce_new e st dest srv) = st\<lparr>ns_sent := ns_sent st @ [(notice srv True, dest)]\<rparr>"
  by (simp add: service_announce_new_def notice_def)

lemma snd_service_announce_del [simp]:
  "snd (service_announce_del e st dest srv) = st\<lparr>ns_sent := ns_sent st @ [(notice srv False, dest)]\<rparr>"
  by (simp add: service_announce_del_def notice_def)

lemma snd_lookup_notify [simp]:
  "snd (lookup_notify e st to (Some srv) new) = st\<lparr>ns_sent := ns_sent st @ [(notice srv new, to)]\<rparr>"
  "snd (lookup_notify e st to None True) = st\<lparr>ns_sent := ns_sent st @ [(end_of_list, to)]\<rparr>"
  by (simp_all add: lookup_notify_def notice_def end_of_list_def)

lemma notify_loop_eq:
  "notify_loop e st lks service instance srv new =
     st\<lparr>ns_sent := ns_sent st @
       map (\<lambda>lk. (notice srv new, lk_sq lk)) (filter (\<lambda>lk. lookup_admits lk service instance) lks)\<rparr>"
  by (induction lks arbitrary: st) simp_all

lemma reply_loop_eq:
  "reply_loop e st to srvs = st\<lparr>ns_sent := ns_sent st @ map (\<lambda>s. (notice s True, to)) srvs\<rparr>"
  by (induction srvs arbitrary: st) simp_all

lemma send_all_eq:
  "send_all e st data srvs =
     st\<lparr>ns_sent := ns_sent st @ map (\<lambda>s. (data,
       \<lparr>sq_family = AF_QIPCRTR, sq_node = sv_node s, sq_port = sv_port s\<rparr>)) srvs\<rparr>"
  by (induction srvs arbitrary: st) simp_all

lemma announce_loop_sends:
  "\<exists>n \<le> length srvs. snd (announce_loop e st sq srvs) =
     st\<lparr>ns_sent := ns_sent st @ map (\<lambda>s. (notice s True, sq)) (take n srvs)\<rparr>"
proof (induction srvs arbitrary: st)
  case Nil
  then show ?case by simp
next
  case (Cons srv srvs)
  obtain rc st1 where a: "service_announce_new e st sq srv = (rc, st1)" by fastforce
  then have st1: "st1 = st\<lparr>ns_sent := ns_sent st @ [(notice srv True, sq)]\<rparr>"
    using snd_service_announce_new [of e st sq srv] by simp
  show ?case
  proof (cases "rc < 0")
    case True
    then show ?thesis using a st1 by (intro exI [of _ 1]) simp
  next
    case False
    obtain n where "n \<le> length srvs"
      "snd (announce_loop e st1 sq srvs) =
         st1\<lparr>ns_sent := ns_sent st1 @ map (\<lambda>s. (notice s True, sq)) (take n srvs)\<rparr>"
      using Cons.IH by blast
    then show ?thesis using False a st1 by (intro exI [of _ "Suc n"]) simp
  qed
qed

section \<open>The registry and its invariant\<close>

text \<open>What is registered at a port of a node, as a search in the two tables finds it.\<close>

definition node_at :: "ns_state \<Rightarrow> u32 \<Rightarrow> node option" where
  "node_at st node_id = map_get (ns_nodes st) (hash_u32 node_id)"

definition registered :: "ns_state \<Rightarrow> u32 \<Rightarrow> u32 \<Rightarrow> server option" where
  "registered st node_id port =
     (case node_at st node_id of
        None \<Rightarrow> None
      | Some nd \<Rightarrow> map_get (nd_services nd) (hash_u32 port))"

definition services_of :: "ns_state \<Rightarrow> u32 \<Rightarrow> server qmap" where
  "services_of st node_id = (case node_at st node_id of None \<Rightarrow> map_create | Some nd \<Rightarrow> nd_services nd)"

lemma registered_services: "registered st i p = map_get (services_of st i) (hash_u32 p)"
  by (simp add: registered_def services_of_def create_inv(3) split: option.split)

definition services_ok :: "u32 \<Rightarrow> server qmap \<Rightarrow> bool" where
  "services_ok node_id m \<longleftrightarrow>
     wf_map m \<and>
     (\<forall>k s. Item k s \<in> set (mdata m) \<longrightarrow>
        k = hash_u32 (sv_port s) \<and> sv_node s = node_id \<and> sv_service s \<noteq> 0 \<and> sv_port s \<noteq> 0)"

text \<open>The node table is only ever grown; every node is stored under the hash of its id, and
  every service of a node under the hash of its port, with the node's id in it.\<close>

definition ns_inv :: "ns_state \<Rightarrow> bool" where
  "ns_inv st \<longleftrightarrow>
     grow_inv (ns_nodes st) \<and>
     (\<forall>k nd. map_get (ns_nodes st) k = Some nd \<longrightarrow>
        k = hash_u32 (nd_id nd) \<and> services_ok (nd_id nd) (nd_services nd))"

lemma node_atD: "ns_inv st \<Longrightarrow> node_at st i = Some nd \<Longrightarrow> nd_id nd = i \<and> services_ok i (nd_services nd)"
  by (metis hash_u32_inj node_at_def ns_inv_def)

lemma services_ok_create: "services_ok i map_create"
  by (auto simp: services_ok_def wf_map_def unbroken_def map_create_def path_def)

text \<open>The registry part of the state depends on the node table only.\<close>

lemma ns_inv_cong: "ns_nodes st' = ns_nodes st \<Longrightarrow> ns_inv st' = ns_inv st"
  by (simp add: ns_inv_def)

lemma ns_inv_update [simp]:
  "ns_inv (st\<lparr>ns_sent := x\<rparr>) = ns_inv st"
  "ns_inv (st\<lparr>ns_lookups := l\<rparr>) = ns_inv st"
  "ns_inv (st\<lparr>ns_sock := s\<rparr>) = ns_inv st"
  by (simp_all add: ns_inv_def)

lemma node_at_update [simp]:
  "node_at (st\<lparr>ns_sent := x\<rparr>) = node_at st"
  "node_at (st\<lparr>ns_lookups := l\<rparr>) = node_at st"
  "node_at (st\<lparr>ns_sock := s\<rparr>) = node_at st"
  by (simp_all add: node_at_def fun_eq_iff)

lemma registered_update [simp]:
  "registered (st\<lparr>ns_sent := x\<rparr>) = registered st"
  "registered (st\<lparr>ns_lookups := l\<rparr>) = registered st"
  "registered (st\<lparr>ns_sock := s\<rparr>) = registered st"
  by (simp_all add: registered_def fun_eq_iff)

lemma services_of_update [simp]:
  "services_of (st\<lparr>ns_sent := x\<rparr>) = services_of st"
  "services_of (st\<lparr>ns_lookups := l\<rparr>) = services_of st"
  by (simp_all add: services_of_def fun_eq_iff)

lemma registered_port:
  assumes "ns_inv st" and "registered st i p = Some s"
  shows "sv_port s = p" and "sv_node s = i" and "sv_service s \<noteq> 0" and "p \<noteq> 0"
proof -
  obtain nd where nd: "node_at st i = Some nd" "map_get (nd_services nd) (hash_u32 p) = Some s"
    using assms(2) by (auto simp: registered_def split: option.splits)
  have ok: "services_ok i (nd_services nd)" using node_atD [OF assms(1) nd(1)] by simp
  then have "Item (hash_u32 p) s \<in> set (mdata (nd_services nd))"
    using nd(2) map_get_SomeD by (auto simp: services_ok_def)
  with ok have "hash_u32 p = hash_u32 (sv_port s)" "sv_node s = i" "sv_service s \<noteq> 0" "sv_port s \<noteq> 0"
    by (auto simp: services_ok_def)
  then show "sv_port s = p" "sv_node s = i" "sv_service s \<noteq> 0" "p \<noteq> 0"
    by (auto simp: hash_u32_inj)
qed

text \<open>Uniqueness of the port keys in every node, which the source does not maintain in
  general.\<close>

definition ns_uniq :: "ns_state \<Rightarrow> bool" where
  "ns_uniq st \<longleftrightarrow> (\<forall>i nd. node_at st i = Some nd \<longrightarrow> uniq_keys (nd_services nd))"

definition memory_ok :: "ns_env \<Rightarrow> bool" where
  "memory_ok e \<longleftrightarrow> (\<forall>a n. calloc_ok e a n)"

text \<open>A change of the node table alone, and in it of one node alone.\<close>

definition added_only :: "u32 \<Rightarrow> ns_state \<Rightarrow> ns_state \<Rightarrow> bool" where
  "added_only i st st' \<longleftrightarrow>
     ns_inv st' \<and> (\<exists>m. st' = st\<lparr>ns_nodes := m\<rparr>) \<and> (\<forall>j. j \<noteq> i \<longrightarrow> node_at st' j = node_at st j)"

lemma added_only_refl: "ns_inv st \<Longrightarrow> added_only i st st"
  by (auto simp: added_only_def intro: exI [of _ "ns_nodes st"])

lemma added_only_trans: "added_only i st st1 \<Longrightarrow> added_only i st1 st2 \<Longrightarrow> added_only i st st2"
  by (auto simp: added_only_def)

lemma added_onlyD:
  assumes "added_only i st st'"
  shows "ns_inv st'" and "\<And>j. j \<noteq> i \<Longrightarrow> node_at st' j = node_at st j"
    and "ns_sock st' = ns_sock st" and "ns_local_node st' = ns_local_node st"
    and "ns_bcast_sq st' = ns_bcast_sq st" and "ns_lookups st' = ns_lookups st"
    and "ns_sent st' = ns_sent st"
  using assms by (auto simp: added_only_def)

section \<open>Finding or creating a node\<close>

lemma node_get_eq:
  assumes "calloc_ok e (Node_alloc node_id) 24 \<or> node_at st node_id \<noteq> None"
  shows "node_get e st node_id =
    map_option (\<lambda>(nd, m). (nd, st\<lparr>ns_nodes := m\<rparr>))
      (grow.fresh.get_or_put (table_ok e (Node_table node_id)) (ns_nodes st) (hash_u32 node_id)
         \<lparr>nd_id = node_id, nd_services = map_create\<rparr>)"
  using assms
  by (auto simp: node_get_def node_at_def grow.fresh.get_or_put_def split: option.splits)

lemma ns_inv_put_node:
  assumes "ns_inv st" and "grow_inv m"
    and "map_get m = (map_get (ns_nodes st))(hash_u32 i \<mapsto> nd)"
    and "nd_id nd = i" and "services_ok i (nd_services nd)"
  shows "ns_inv (st\<lparr>ns_nodes := m\<rparr>)"
  using assms by (auto simp: ns_inv_def)

text \<open>The node is there afterwards unless memory ran out; nothing registered changes, and no
  other node changes.\<close>

lemma node_get_memory:
  assumes inv: "ns_inv st" and mem: "memory_ok e" and r: "node_get e st i = Some (nd, st')"
  shows "nd \<noteq> None"
proof (cases "map_get (ns_nodes st) (hash_u32 i)")
  case (Some n)
  then have "node_get e st i = Some (Some n, st)" by (simp add: node_get_def)
  then show ?thesis using r by simp
next
  case None
  have g: "wf_map (ns_nodes st)" "uniq_keys (ns_nodes st)" using inv by (auto simp: ns_inv_def grow_inv_def)
  have "can_insert (table_ok e (Node_table i)) (ns_nodes st)" using mem by (simp add: can_insert_def table_ok_def memory_ok_def)
  from map_reput_works [OF g this, of "hash_u32 i" "\<lparr>nd_id = i, nd_services = map_create\<rparr>"]
  obtain m' old where "map_reput (table_ok e (Node_table i)) (ns_nodes st) (hash_u32 i)
      \<lparr>nd_id = i, nd_services = map_create\<rparr> = Some (0, m', old)" by metis
  then show ?thesis using None mem r by (auto simp: node_get_def map_put_def memory_ok_def)
qed

lemma node_get_result:
  assumes inv: "ns_inv st"
  shows "\<exists>nd st'. node_get e st i = Some (nd, st') \<and> added_only i st st' \<and>
    services_of st' = services_of st \<and> (nd \<noteq> None \<longrightarrow> node_at st' i = nd) \<and>
    (nd = None \<longrightarrow> \<not> memory_ok e) \<and> (ns_uniq st \<longrightarrow> ns_uniq st') \<and>
    (node_at st i \<noteq> None \<longrightarrow> nd = node_at st i \<and> st' = st)"
proof (cases "calloc_ok e (Node_alloc i) 24 \<or> node_at st i \<noteq> None")
  case False
  then have "node_get e st i = Some (None, st)" by (auto simp: node_get_def node_at_def)
  then show ?thesis using False added_only_refl [OF inv] by (auto simp: memory_ok_def)
next
  case True
  let ?nd = "\<lparr>nd_id = i, nd_services = map_create\<rparr>"
  have "grow_inv (ns_nodes st)" using inv by (simp add: ns_inv_def)
  then obtain w m where r: "grow.fresh.get_or_put (table_ok e (Node_table i)) (ns_nodes st) (hash_u32 i) ?nd = Some (w, m)"
    "grow_inv m"
    "w = None \<and> m = ns_nodes st \<or> w = node_at st i \<and> w \<noteq> None \<and> m = ns_nodes st \<or>
     node_at st i = None \<and> w = Some ?nd \<and> map_get m = (map_get (ns_nodes st))(hash_u32 i \<mapsto> ?nd)"
    using grow.fresh.get_or_put_result [of "ns_nodes st" "table_ok e (Node_table i)" "hash_u32 i" ?nd]
    by (auto simp: node_at_def)
  let ?st = "st\<lparr>ns_nodes := m\<rparr>"
  have run: "node_get e st i = Some (w, ?st)" using node_get_eq [OF True] r(1) by simp
  have mem: "w = None \<longrightarrow> \<not> memory_ok e" using node_get_memory [OF inv _ run] by auto
  show ?thesis
  proof (cases "m = ns_nodes st \<and> (w = None \<or> w = node_at st i)")
    case same: True
    then have "?st = st" by simp
    moreover have "node_at st i \<noteq> None \<Longrightarrow> w = node_at st i"
      using r same by (auto simp: node_at_def grow.fresh.get_or_put_def split: option.splits)
    ultimately show ?thesis using same run mem added_only_refl [OF inv] by auto
  next
    case False
    then have n: "node_at st i = None" "w = Some ?nd"
      "map_get m = (map_get (ns_nodes st))(hash_u32 i \<mapsto> ?nd)" using r(3) by auto
    have at: "node_at ?st j = (if j = i then Some ?nd else node_at st j)" for j
      by (simp add: node_at_def n(3) hash_u32_inj)
    have "services_of ?st = services_of st"
      using n(1) at by (auto simp: services_of_def fun_eq_iff)
    moreover have "ns_inv ?st"
      using ns_inv_put_node [OF inv r(2) n(3)] services_ok_create by simp
    moreover have "ns_uniq st \<longrightarrow> ns_uniq ?st"
      using at create_inv(2) by (auto simp: ns_uniq_def live_inv_def)
    ultimately show ?thesis using n at run by (auto simp: added_only_def)
  qed
qed

lemma node_write_result:
  assumes inv: "ns_inv st" and nd: "node_at st i = Some nd" and ok: "services_ok i m"
  shows "added_only i st (node_write st i m) \<and>
    node_at (node_write st i m) = (node_at st)(i \<mapsto> nd\<lparr>nd_services := m\<rparr>)"
proof -
  let ?n = "nd\<lparr>nd_services := m\<rparr>"
  let ?t = "map_write (ns_nodes st) (hash_u32 i) ?n"
  have eq: "node_write st i m = st\<lparr>ns_nodes := ?t\<rparr>"
    using nd by (simp add: node_write_def node_at_def)
  have g: "grow_inv (ns_nodes st)" and id: "nd_id nd = i"
    using inv node_atD [OF inv nd] by (auto simp: ns_inv_def)
  then have w: "grow_inv ?t" "map_get ?t = (map_get (ns_nodes st))(hash_u32 i \<mapsto> ?n)"
    using map_write_works [of "ns_nodes st" "hash_u32 i" ?n] nd
    by (auto simp: grow_inv_def node_at_def)
  have "ns_inv (st\<lparr>ns_nodes := ?t\<rparr>)"
    using ns_inv_put_node [OF inv w] id ok by simp
  moreover have "node_at (st\<lparr>ns_nodes := ?t\<rparr>) = (node_at st)(i \<mapsto> ?n)"
    by (simp add: node_at_def w(2) hash_u32_inj fun_eq_iff)
  ultimately show ?thesis by (auto simp: eq added_only_def)
qed

section \<open>Registering and unregistering a server\<close>

abbreviation mk_server :: "u32 \<Rightarrow> u32 \<Rightarrow> u32 \<Rightarrow> u32 \<Rightarrow> server" where
  "mk_server service instance node_id port \<equiv>
     \<lparr>sv_service = service, sv_instance = instance, sv_node = node_id, sv_port = port\<rparr>"

lemma services_ok_reput:
  assumes ok: "services_ok i m" and s: "sv_node s = i" "sv_service s \<noteq> 0" "sv_port s \<noteq> 0"
  obtains rc m' old where "map_reput okn m (hash_u32 (sv_port s)) s = Some (rc, m', old)"
    and "services_ok i m'"
    and "rc = 0 \<and> map_get m' (hash_u32 (sv_port s)) = Some s \<or>
         rc = -1 \<and> m' = m \<and> \<not> okn (msize m + 256)"
    and "uniq_keys m \<longrightarrow> rc = 0 \<longrightarrow> map_get m' = (map_get m)(hash_u32 (sv_port s) \<mapsto> s)"
    and "uniq_keys m \<longrightarrow> map_get m (hash_u32 (sv_port s)) = None \<longrightarrow> uniq_keys m'"
proof -
  have wf: "wf_map m" using ok by (simp add: services_ok_def)
  obtain rc m' old where r: "map_reput okn m (hash_u32 (sv_port s)) s = Some (rc, m', old)" "wf_map m'"
    "rc = 0 \<and> map_get m' (hash_u32 (sv_port s)) = Some s \<or> rc = -1 \<and> m' = m \<and> \<not> can_insert okn m"
    "\<And>k w. Item k w \<in> set (mdata m') \<Longrightarrow> k = hash_u32 (sv_port s) \<and> w = s \<or> Item k w \<in> set (mdata m)"
    using map_reput_weak [OF wf] by metis
  have ok': "services_ok i m'"
    unfolding services_ok_def using r(2,4) ok s by (metis services_ok_def)
  show ?thesis
    by (rule that [OF r(1) ok']) (use r(3) map_reput_uniq [OF wf _ r(1)] in \<open>auto simp: can_insert_def\<close>)
qed

text \<open>\<open>server_add\<close> registers the server or, when a number is zero or memory runs out, changes
  no registration. With unique keys it changes nothing but its own port.\<close>

lemma server_add_result:
  assumes inv: "ns_inv st"
  shows "\<exists>s st'. server_add e st service instance i port = Some (s, st') \<and> added_only i st st' \<and>
    (s = None \<and> registered st' = registered st \<and> (service = 0 \<or> port = 0 \<or> \<not> memory_ok e) \<or>
     s = Some (mk_server service instance i port) \<and> service \<noteq> 0 \<and> port \<noteq> 0 \<and>
     registered st' i port = s \<and>
     (\<exists>old. map_reput (table_ok e Server_table) (services_of st i) (hash_u32 port) (mk_server service instance i port) =
        Some (0, services_of st' i, old)) \<and>
     (ns_uniq st \<longrightarrow> registered st' i = (registered st i)(port := s)) \<and>
     (ns_uniq st \<and> registered st i port = None \<longrightarrow> ns_uniq st'))"
proof (cases "service = 0 \<or> port = 0 \<or> \<not> calloc_ok e Server_alloc 40")
  case True
  then have "server_add e st service instance i port = Some (None, st)" by (auto simp: server_add_def)
  then show ?thesis using added_only_refl [OF inv] True by (auto simp: memory_ok_def)
next
  case False
  let ?s = "mk_server service instance i port"
  obtain nd st1 where n: "node_get e st i = Some (nd, st1)" "added_only i st st1"
    "services_of st1 = services_of st" "nd \<noteq> None \<longrightarrow> node_at st1 i = nd"
    "nd = None \<longrightarrow> \<not> memory_ok e" "ns_uniq st \<longrightarrow> ns_uniq st1"
    using node_get_result [OF inv, of e i] by metis
  show ?thesis
  proof (cases nd)
    case None
    then have "server_add e st service instance i port = Some (None, st1)"
      using False n(1) by (simp add: server_add_def)
    then show ?thesis using n(2,3,5) None by (simp add: registered_services fun_eq_iff)
  next
    case (Some d)
    have inv1: "ns_inv st1" using added_onlyD(1) [OF n(2)] .
    have d: "node_at st1 i = Some d" "services_ok i (nd_services d)"
      using n(4) node_atD [OF inv1] Some by auto
    obtain rc m old where r: "map_reput (table_ok e Server_table) (nd_services d) (hash_u32 port) ?s = Some (rc, m, old)"
      "services_ok i m"
      "rc = 0 \<and> map_get m (hash_u32 port) = Some ?s \<or>
       rc = -1 \<and> m = nd_services d \<and> \<not> table_ok e Server_table (msize (nd_services d) + 256)"
      "uniq_keys (nd_services d) \<longrightarrow> rc = 0 \<longrightarrow> map_get m = (map_get (nd_services d))(hash_u32 port \<mapsto> ?s)"
      "uniq_keys (nd_services d) \<longrightarrow> map_get (nd_services d) (hash_u32 port) = None \<longrightarrow> uniq_keys m"
      using services_ok_reput [OF d(2), of ?s "table_ok e Server_table"] False by auto
    let ?st = "node_write st1 i m"
    have w: "added_only i st1 ?st" "node_at ?st = (node_at st1)(i \<mapsto> d\<lparr>nd_services := m\<rparr>)"
      using node_write_result [OF inv1 d(1) r(2)] by auto
    have run: "server_add e st service instance i port = Some (if rc = 0 then Some ?s else None, ?st)"
      using False n(1) Some r(1) by (auto simp: server_add_def)
    have svc: "services_of st i = nd_services d" "services_of ?st i = m"
      using d(1) w(2) by (simp_all add: services_of_def n(3) [symmetric])
    have reg: "registered st i p = map_get (nd_services d) (hash_u32 p)"
      and reg': "registered ?st i p = map_get m (hash_u32 p)" for p
      by (simp_all add: registered_services svc)
    have "registered ?st = registered st" if "rc \<noteq> 0"
      using that r(3) w d(1) by (auto simp: registered_services services_of_def fun_eq_iff n(3) [symmetric])
    moreover have "ns_uniq st \<longrightarrow> registered ?st i = (registered st i)(port \<mapsto> ?s)" if "rc = 0"
      using that r(4) n(6) d(1) by (auto simp: ns_uniq_def reg reg' fun_eq_iff hash_u32_inj)
    moreover have "ns_uniq st \<and> registered st i port = None \<longrightarrow> ns_uniq ?st"
      using r(5) n(6) d(1) w(2) by (auto simp: ns_uniq_def reg)
    moreover have "\<not> memory_ok e" if "rc \<noteq> 0"
      using that r(3) by (auto simp: memory_ok_def table_ok_def)
    ultimately show ?thesis
      using False run added_only_trans [OF n(2) w(1)] r(1,3) reg' svc by (cases "rc = 0") auto
  qed
qed

lemma services_ok_remove:
  assumes ok: "services_ok i m"
  shows "services_ok i (map_del m key)" and "msize (map_del m key) = msize m"
proof -
  have wf: "wf_map m" using ok by (simp add: services_ok_def)
  show "msize (map_del m key) = msize m"
    by (simp add: map_del_def map_remove_def split: option.split)
  show "services_ok i (map_del m key)"
  proof (cases "map_get m key")
    case None
    then show ?thesis using ok map_remove_none [OF wf] by (simp add: map_del_def)
  next
    case (Some v)
    then obtain j w where j: "j < length (mdata m)" "mdata m ! j = Item key w"
      "map_remove m key = (0, m\<lparr>mdata := (mdata m)[j := Deleted], mcount := mcount m - 1\<rparr>)"
      using map_remove_some [OF wf] by blast
    then show ?thesis
      using delete_slot(1,3) [OF wf j(1,2)] ok by (auto simp: map_del_def services_ok_def)
  qed
qed

definition observer_notices :: "ns_state \<Rightarrow> server \<Rightarrow> bool \<Rightarrow> (bytes \<times> sockaddr_qrtr) list" where
  "observer_notices st s new =
     map (\<lambda>lk. (notice s new, lk_sq lk))
       (filter (\<lambda>lk. lookup_admits lk (sv_service s) (sv_instance s)) (ns_lookups st))"

text \<open>\<open>server_del\<close> exactly: the entry is removed, the removal of a local server is broadcast,
  and the observers that asked for it are told.\<close>

lemma server_del_none:
  "node_at st i = Some nd \<Longrightarrow> registered st i p = None \<Longrightarrow> server_del e st i p = Some (-ENOENT, st)"
  by (simp add: server_del_def registered_def node_at_def)

lemma server_del_some:
  assumes inv: "ns_inv st" and nd: "node_at st i = Some nd" and reg: "registered st i p = Some s"
  shows "server_del e st i p =
    Some (0, (node_write st i (map_del (nd_services nd) (hash_u32 p)))
      \<lparr>ns_sent := ns_sent st @
         (if i = ns_local_node st then [(notice s False, ns_bcast_sq st)] else []) @
         observer_notices st s False\<rparr>)"
proof -
  have s: "map_get (nd_services nd) (hash_u32 p) = Some s" "sv_node s = i"
    using reg nd registered_port(2) [OF inv reg] by (auto simp: registered_def)
  have w: "added_only i st (node_write st i (map_del (nd_services nd) (hash_u32 p)))"
    using node_write_result [OF inv nd] node_atD [OF inv nd] services_ok_remove by blast
  show ?thesis
    using nd s added_onlyD(4-7) [OF w]
    by (auto simp: server_del_def node_at_def notify_loop_eq map_del_def Let_def observer_notices_def)
qed

section \<open>Every handler returns and stays within the sender's node\<close>

definition confined :: "u32 \<Rightarrow> ns_state \<Rightarrow> ns_state \<Rightarrow> bool" where
  "confined i st st' \<longleftrightarrow>
     ns_inv st' \<and> ns_local_node st' = ns_local_node st \<and> ns_bcast_sq st' = ns_bcast_sq st \<and>
     ns_sock st' = ns_sock st \<and> (\<forall>j. j \<noteq> i \<longrightarrow> registered st' j = registered st j) \<and>
     (\<exists>out. ns_sent st' = ns_sent st @ out)"

lemma confined_refl: "ns_inv st \<Longrightarrow> confined i st st"
  by (simp add: confined_def)

lemma confined_trans: "confined i st st1 \<Longrightarrow> confined i st1 st2 \<Longrightarrow> confined i st st2"
  by (auto simp: confined_def)

lemma confined_inv: "confined i st st' \<Longrightarrow> ns_inv st'"
  by (simp add: confined_def)

lemma confined_sent: "confined i st st' \<Longrightarrow> confined i st (st'\<lparr>ns_sent := ns_sent st' @ out\<rparr>)"
  by (auto simp: confined_def)

lemma confined_lookups: "confined i st st' \<Longrightarrow> confined i st (st'\<lparr>ns_lookups := l\<rparr>)"
  by (simp add: confined_def)

lemma added_only_confined: "added_only i st st' \<Longrightarrow> confined i st st'"
  using added_onlyD [of i st st'] by (auto simp: confined_def registered_def fun_eq_iff)

lemma node_get_confined:
  assumes "ns_inv st"
  shows "\<exists>nd st'. node_get e st k = Some (nd, st') \<and> confined i st st' \<and>
    registered st' = registered st \<and> ns_lookups st' = ns_lookups st \<and> ns_sent st' = ns_sent st \<and>
    (nd \<noteq> None \<longrightarrow> node_at st' k = nd)"
proof -
  obtain nd st' where n: "node_get e st k = Some (nd, st')" "added_only k st st'"
    "services_of st' = services_of st" "nd \<noteq> None \<longrightarrow> node_at st' k = nd"
    using node_get_result [OF assms, of e k] by blast
  have r: "registered st' = registered st" using n(3) by (simp add: registered_services fun_eq_iff)
  then have "confined i st st'" using added_onlyD [OF n(2)] by (auto simp: confined_def)
  with n r added_onlyD [OF n(2)] show ?thesis by auto
qed

lemma server_del_confined:
  assumes inv: "ns_inv st" and nd: "node_at st i = Some nd"
  shows "\<exists>rc st' nd'. server_del e st i p = Some (rc, st') \<and> confined i st st' \<and>
    ns_lookups st' = ns_lookups st \<and>
    node_at st' i = Some nd' \<and> msize (nd_services nd') = msize (nd_services nd)"
proof (cases "registered st i p")
  case None
  then show ?thesis using server_del_none [OF nd None] nd confined_refl [OF inv] by auto
next
  case (Some s)
  let ?m = "map_del (nd_services nd) (hash_u32 p)"
  have ok: "services_ok i (nd_services nd)" using node_atD [OF inv nd] by simp
  have w: "added_only i st (node_write st i ?m)"
    "node_at (node_write st i ?m) = (node_at st)(i \<mapsto> nd\<lparr>nd_services := ?m\<rparr>)"
    using node_write_result [OF inv nd services_ok_remove(1) [OF ok]] by auto
  show ?thesis
    using server_del_some [OF inv nd Some] w(2) services_ok_remove(2) [OF ok]
      confined_sent [OF added_only_confined [OF w(1)]] added_onlyD(6,7) [OF w(1)] by auto
qed

lemma map_iter_live:
  "map_iter_from m j = Some i \<Longrightarrow> \<exists>v. map_iter_item m i = Some v"
  using map_iter_from_Some [of m j i] by (auto simp: map_iter_item_def slot_value_def)

lemma bye_loop_confined:
  assumes "ns_inv st" and "node_at st i = Some nd"
    and "it = map_iter_from (nd_services nd) j" and "msize (nd_services nd) - j \<le> n"
  shows "\<exists>st'. bye_loop n e st i it = Some st' \<and> confined i st st' \<and> ns_lookups st' = ns_lookups st"
  using assms
proof (induction n arbitrary: st nd it j)
  case 0
  then have "it = None" by (simp add: map_iter_from.simps)
  then show ?case using confined_refl [OF "0.prems"(1)] by simp
next
  case (Suc n)
  show ?case
  proof (cases it)
    case None
    then show ?thesis using confined_refl [OF Suc.prems(1)] by simp
  next
    case (Some k)
    then have k: "j \<le> k" "k < msize (nd_services nd)"
      using Suc.prems(3) map_iter_from_Some [of "nd_services nd" j k] by auto
    obtain v where v: "map_iter_item (nd_services nd) k = Some v"
      using map_iter_live [of "nd_services nd" j k] Suc.prems(3) Some by auto
    obtain rc st1 nd1 where d: "server_del e st i (sv_port v) = Some (rc, st1)" "confined i st st1"
      "ns_lookups st1 = ns_lookups st"
      "node_at st1 i = Some nd1" "msize (nd_services nd1) = msize (nd_services nd)"
      using server_del_confined [OF Suc.prems(1,2), of e "sv_port v"] by blast
    have "\<exists>st'. bye_loop n e st1 i (map_iter_from (nd_services nd1) (k + 1)) = Some st' \<and>
        confined i st1 st' \<and> ns_lookups st' = ns_lookups st1"
      using Suc.IH [OF confined_inv [OF d(2)] d(4) refl, of "k + 1"] Suc.prems(4) d(5) k by simp
    then show ?thesis
      using Some Suc.prems(2) v d confined_trans [OF d(2)]
      by (auto simp: node_at_def map_iter_next_def)
  qed
qed

text \<open>One lemma per handler: it returns (no dereference fails, no loop runs on), it keeps the
  invariant, and it changes no registration of another node than the sender's.\<close>

named_theorems handler_confined \<open>every handler returns and is confined to the sender's node\<close>

lemma tell_local_services_confined:
  assumes "ns_inv st"
  shows "\<exists>st'. tell_local_services e st pkt = Some (0, st') \<and> confined i st st' \<and>
    registered st' = registered st \<and> ns_lookups st' = ns_lookups st"
proof -
  obtain nd st1 where n: "node_get e st (ns_local_node st) = Some (nd, st1)" "confined i st st1"
    "registered st1 = registered st" "ns_lookups st1 = ns_lookups st"
    using node_get_confined [OF assms, of e "ns_local_node st" i] by blast
  then show ?thesis
    using confined_sent [OF n(2)]
    by (cases nd) (auto simp: tell_local_services_def send_all_eq)
qed

lemma ctrl_cmd_hello_confined [handler_confined]:
  assumes "ns_inv st"
  shows "\<exists>rc st'. ctrl_cmd_hello e st sq msg = Some (rc, st') \<and> confined (sq_node sq) st st'"
proof -
  let ?st = "st\<lparr>ns_sent := ns_sent st @ [(msg, sq)]\<rparr>"
  let ?rc = "sendto_rc e (length (ns_sent st))"
  have c: "confined (sq_node sq) st ?st" using confined_sent [OF confined_refl [OF assms]] .
  obtain nd st1 where n: "node_get e ?st (ns_local_node ?st) = Some (nd, st1)" "confined (sq_node sq) ?st st1"
    using node_get_confined [OF confined_inv [OF c], of e "ns_local_node ?st" "sq_node sq"] by blast
  have "\<exists>rc st'. annouce_servers e ?st sq = Some (rc, st') \<and> confined (sq_node sq) st st'"
  proof (cases nd)
    case None
    then show ?thesis using n confined_trans [OF c n(2)] by (simp add: annouce_servers_def)
  next
    case (Some d)
    obtain rc st2 where a: "announce_loop e st1 sq (map_items (nd_services d)) = (rc, st2)" by fastforce
    then obtain out where "st2 = st1\<lparr>ns_sent := ns_sent st1 @ out\<rparr>"
      using announce_loop_sends [of "map_items (nd_services d)" e st1 sq] by auto
    then show ?thesis
      using a n Some confined_sent [OF confined_trans [OF c n(2)]] by (simp add: annouce_servers_def)
  qed
  then show ?thesis
    using c by (cases "?rc > 0") (auto simp: ctrl_cmd_hello_def ns_sendto_def)
qed

lemma ctrl_cmd_bye_confined [handler_confined]:
  assumes "ns_inv st"
  shows "\<exists>rc st'. ctrl_cmd_bye e st from = Some (rc, st') \<and> confined (sq_node from) st st'"
proof -
  let ?i = "sq_node from"
  obtain nd st1 where n: "node_get e st ?i = Some (nd, st1)" "confined ?i st st1"
    "nd \<noteq> None \<longrightarrow> node_at st1 ?i = nd"
    using node_get_confined [OF assms, of e ?i ?i] by blast
  show ?thesis
  proof (cases nd)
    case None
    then show ?thesis using n by (simp add: ctrl_cmd_bye_def)
  next
    case (Some d)
    obtain st2 where b: "bye_loop (msize (nd_services d)) e st1 ?i (map_iter_first (nd_services d)) = Some st2"
      "confined ?i st1 st2"
      using bye_loop_confined [OF confined_inv [OF n(2)], of ?i d "map_iter_first (nd_services d)" 0
          "msize (nd_services d)" e] n(3) Some
      by (auto simp: map_iter_first_def)
    let ?pkt = "\<lparr>pk_cmd = QRTR_TYPE_BYE, pk_w0 = ?i, pk_w1 = 0, pk_w2 = 0, pk_w3 = 0\<rparr>"
    obtain st3 where t: "tell_local_services e st2 ?pkt = Some (0, st3)" "confined ?i st2 st3"
      using tell_local_services_confined [OF confined_inv [OF b(2)], of e ?pkt ?i] by blast
    show ?thesis
      using n(1) Some b(1) t(1) confined_trans [OF confined_trans [OF n(2) b(2)] t(2)]
      by (simp add: ctrl_cmd_bye_def)
  qed
qed

lemma ctrl_cmd_del_client_confined [handler_confined]:
  assumes "ns_inv st"
  shows "\<exists>rc st'. ctrl_cmd_del_client e st from node_id port = Some (rc, st') \<and>
    confined (sq_node from) st st'"
proof (cases "sq_node from \<noteq> node_id \<or> sq_node from = ns_local_node st \<and> sq_port from \<noteq> port")
  case True
  then show ?thesis using confined_refl [OF assms] by (auto simp: ctrl_cmd_del_client_def)
next
  case False
  then have i: "sq_node from = node_id" by simp
  let ?st = "st\<lparr>ns_lookups :=
    filter (\<lambda>lk. sq_node (lk_sq lk) \<noteq> node_id \<or> sq_port (lk_sq lk) \<noteq> port) (ns_lookups st)\<rparr>"
  have c: "confined node_id st ?st" using confined_lookups [OF confined_refl [OF assms]] .
  obtain nd st1 where n: "node_get e ?st node_id = Some (nd, st1)" "confined node_id ?st st1"
    "nd \<noteq> None \<longrightarrow> node_at st1 node_id = nd"
    using node_get_confined [OF confined_inv [OF c], of e node_id node_id] by blast
  have "\<exists>st2. (case nd of None \<Rightarrow> Some st1 | Some d \<Rightarrow> map_option snd (server_del e st1 node_id port)) = Some st2
      \<and> confined node_id st1 st2"
  proof (cases nd)
    case None
    then show ?thesis using confined_refl [OF confined_inv [OF n(2)]] by simp
  next
    case (Some d)
    then show ?thesis
      using server_del_confined [OF confined_inv [OF n(2)], of node_id d e port] n(3) by auto
  qed
  then obtain st2 where d: "(case nd of None \<Rightarrow> Some st1 | Some d \<Rightarrow> map_option snd (server_del e st1 node_id port)) = Some st2"
    "confined node_id st1 st2" by blast
  let ?pkt = "\<lparr>pk_cmd = QRTR_TYPE_DEL_CLIENT, pk_w0 = node_id, pk_w1 = port,
    pk_w2 = stack_word e 0, pk_w3 = stack_word e 1\<rparr>"
  obtain st3 where t: "tell_local_services e st2 ?pkt = Some (0, st3)" "confined node_id st2 st3"
    using tell_local_services_confined [OF confined_inv [OF d(2)], of e ?pkt node_id] by blast
  show ?thesis
    using False i n(1) d(1) t(1)
      confined_trans [OF confined_trans [OF confined_trans [OF c n(2)] d(2)] t(2)]
    by (auto simp: ctrl_cmd_del_client_def)
qed

lemma ctrl_cmd_new_server_confined [handler_confined]:
  assumes "ns_inv st"
  shows "\<exists>rc st'. ctrl_cmd_new_server e st from service instance node_id port = Some (rc, st') \<and>
    confined (sq_node from) st st'"
proof -
  let ?loc = "sq_node from = ns_local_node st"
  let ?i = "if ?loc then sq_node from else node_id"
  let ?p = "if ?loc then sq_port from else port"
  show ?thesis
  proof (cases "sq_node from = ?i")
    case False
    then show ?thesis using confined_refl [OF assms] by (auto simp: ctrl_cmd_new_server_def)
  next
    case True
    obtain srv st1 where a: "server_add e st service instance ?i ?p = Some (srv, st1)" "added_only ?i st st1"
      using server_add_result [OF assms, of e service "instance" ?i ?p] by blast
    have c: "confined (sq_node from) st st1" using added_only_confined [OF a(2)] True by simp
    show ?thesis
    proof (cases srv)
      case None
      then show ?thesis using a(1) True c unfolding ctrl_cmd_new_server_def Let_def by simp
    next
      case (Some s)
      obtain rc st2 where b: "(if sv_node s = ns_local_node st1
          then service_announce_new e st1 (ns_bcast_sq st1) s else (0, st1)) = (rc, st2)" by fastforce
      then have "st2 = snd (if sv_node s = ns_local_node st1
          then service_announce_new e st1 (ns_bcast_sq st1) s else (0, st1))" by simp
      then have "confined (sq_node from) st st2" using c confined_sent [OF c] by simp
      then have "confined (sq_node from) st (notify_loop e st2 (ns_lookups st2) service instance s True)"
        unfolding notify_loop_eq by (rule confined_sent)
      then show ?thesis using a(1) True Some b unfolding ctrl_cmd_new_server_def Let_def by simp
    qed
  qed
qed

lemma ctrl_cmd_del_server_confined [handler_confined]:
  assumes "ns_inv st"
  shows "\<exists>rc st'. ctrl_cmd_del_server e st from service instance node_id port = Some (rc, st') \<and>
    confined (sq_node from) st st'"
proof -
  let ?loc = "sq_node from = ns_local_node st"
  let ?i = "if ?loc then sq_node from else node_id"
  let ?p = "if ?loc then sq_port from else port"
  show ?thesis
  proof (cases "sq_node from = ?i \<and> \<not> (?loc \<and> sq_port from \<noteq> ?p)")
    case False
    then show ?thesis using confined_refl [OF assms] by (auto simp: ctrl_cmd_del_server_def)
  next
    case True
    obtain nd st1 where n: "node_get e st ?i = Some (nd, st1)" "confined ?i st st1"
      "nd \<noteq> None \<longrightarrow> node_at st1 ?i = nd"
      using node_get_confined [OF assms, of e ?i ?i] by blast
    show ?thesis
    proof (cases nd)
      case None
      then show ?thesis using n True unfolding ctrl_cmd_del_server_def Let_def by simp
    next
      case (Some d)
      then obtain rc st2 where "server_del e st1 ?i ?p = Some (rc, st2)" "confined ?i st1 st2"
        using server_del_confined [OF confined_inv [OF n(2)], of ?i d e ?p] n(3) by blast
      then show ?thesis
        using n True Some confined_trans [OF n(2)] unfolding ctrl_cmd_del_server_def Let_def by auto
    qed
  qed
qed

lemma ctrl_cmd_new_lookup_confined [handler_confined]:
  assumes "ns_inv st"
  shows "\<exists>rc st'. ctrl_cmd_new_lookup e st from service instance = (rc, st') \<and>
    confined (sq_node from) st st'"
proof -
  have "confined (sq_node from) st (st\<lparr>ns_lookups := l\<rparr>)" for l
    by (rule confined_lookups [OF confined_refl [OF assms]])
  from confined_sent [OF this] confined_refl [OF assms] show ?thesis
    by (auto simp: ctrl_cmd_new_lookup_def Let_def reply_loop_eq split: prod.splits)
qed

lemma ctrl_cmd_del_lookup_confined [handler_confined]:
  assumes "ns_inv st"
  shows "\<exists>rc st'. ctrl_cmd_del_lookup st from service instance = (rc, st') \<and>
    confined (sq_node from) st st'"
  using confined_lookups [OF confined_refl [OF assms]] by (simp add: ctrl_cmd_del_lookup_def)

section \<open>What the handlers achieve\<close>

lemma ctrl_port_fn_confined:
  assumes "ns_inv st" and "length buf = 4096"
  shows "\<exists>rc st'. ctrl_port_fn e st len buf sq = Some (rc, st') \<and> ns_inv st' \<and>
    ns_local_node st' = ns_local_node st \<and>
    (\<forall>j. j \<noteq> sq_node sq \<longrightarrow> registered st' j = registered st j) \<and>
    ns_sock st' = (if len \<le> 0 then -1 else ns_sock st)"
proof -
  obtain msg where msg: "ctrl_of_bytes buf = Some msg"
    using assms(2) by (auto simp: ctrl_of_bytes_def u32_at_def mem_read_def)
  show ?thesis
  proof (cases "len < 4")
    case True
    then show ?thesis using assms(1) by (auto simp: ctrl_port_fn_def)
  next
    case False
    have "\<exists>rc st'. ctrl_port_fn e st len buf sq = Some (rc, st') \<and> confined (sq_node sq) st st'"
      using False msg handler_confined [OF assms(1)] confined_refl [OF assms(1)]
      by (simp add: ctrl_port_fn_def Let_def prod_eq_iff split: if_split)
    then show ?thesis using False by (auto simp: confined_def)
  qed
qed

lemma ns_init_inv: "ns_inv (ns_init sock local)" "ns_uniq (ns_init sock local)"
  by (simp_all add: ns_inv_def ns_uniq_def node_at_def ns_init_def create_inv)

lemma ns_reach_inv: "ns_reach sock local st \<Longrightarrow> ns_inv st \<and> ns_local_node st = local"
proof (induction rule: ns_reach.induct)
  case (hello e st)
  then obtain x where x: "st = (ns_init sock local)\<lparr>ns_sent := x\<rparr>"
    by (auto simp: say_hello_def ns_sendto_def split: if_splits)
  show ?case
  proof
    show "ns_inv st" using ns_init_inv(1) [of sock local] by (simp add: x)
    show "ns_local_node st = local" by (simp add: x ns_init_def)
  qed
next
  case (packet st buf e len sq rc st')
  then show ?case using ctrl_port_fn_confined [of st buf e len sq] by auto
qed

text \<open>A registration request of a sender that may make it, exactly.\<close>

lemma new_server_result:
  assumes inv: "ns_inv st" and mem: "memory_ok e" and own: "sq_node from = ns_local_node st \<or> node_id = sq_node from"
    and port: "p = (if sq_node from = ns_local_node st then sq_port from else port)"
    and ok: "service \<noteq> 0" "p \<noteq> 0"
    and s_def: "s = mk_server service instance (sq_node from) p"
  shows "\<exists>rc st'. ctrl_cmd_new_server e st from service instance node_id port = Some (rc, st') \<and>
    ns_inv st' \<and> ns_local_node st' = ns_local_node st \<and> registered st' (sq_node from) p = Some s \<and>
    (\<exists>old. map_reput (table_ok e Server_table) (services_of st (sq_node from)) (hash_u32 p) s =
       Some (0, services_of st' (sq_node from), old)) \<and>
    (ns_uniq st \<longrightarrow> registered st' (sq_node from) = (registered st (sq_node from))(p \<mapsto> s)) \<and>
    (ns_uniq st \<and> registered st (sq_node from) p = None \<longrightarrow> ns_uniq st') \<and>
    ns_sent st' = ns_sent st @
      (if sq_node from = ns_local_node st then [(notice s True, ns_bcast_sq st)] else []) @
      observer_notices st s True \<and>
    (\<forall>j. j \<noteq> sq_node from \<longrightarrow> registered st' j = registered st j) \<and> ns_lookups st' = ns_lookups st"
proof -
  let ?i = "sq_node from"
  have i: "(if ?i = ns_local_node st then ?i else node_id) = ?i" using own by auto
  obtain srv st1 where a: "server_add e st service instance ?i p = Some (srv, st1)" "added_only ?i st st1"
    "srv = Some s" "registered st1 ?i p = srv"
    "\<exists>old. map_reput (table_ok e Server_table) (services_of st ?i) (hash_u32 p) s = Some (0, services_of st1 ?i, old)"
    "ns_uniq st \<longrightarrow> registered st1 ?i = (registered st ?i)(p := srv)"
    "ns_uniq st \<and> registered st ?i p = None \<longrightarrow> ns_uniq st1"
    using server_add_result [OF inv, of e service "instance" ?i p] mem ok unfolding s_def by metis
  note f = added_onlyD [OF a(2)]
  obtain rc st2 where b: "(if ?i = ns_local_node st1
      then service_announce_new e st1 (ns_bcast_sq st1) s else (0, st1)) = (rc, st2)" by fastforce
  then have "st2 = snd (if ?i = ns_local_node st1
      then service_announce_new e st1 (ns_bcast_sq st1) s else (0, st1))" by simp
  then have st2: "st2 = st1\<lparr>ns_sent := ns_sent st @
      (if ?i = ns_local_node st then [(notice s True, ns_bcast_sq st)] else [])\<rparr>"
    using f by auto
  have sel: "sv_node s = ?i" "sv_service s = service" "sv_instance s = instance" by (simp_all add: s_def)
  have run: "ctrl_cmd_new_server e st from service instance node_id port =
      Some (rc, notify_loop e st2 (ns_lookups st2) service instance s True)"
    using a(1,3) b sel unfolding ctrl_cmd_new_server_def Let_def i port [symmetric] by simp
  have un: "ns_uniq (x\<lparr>ns_sent := y\<rparr>) = ns_uniq x" for x y by (simp add: ns_uniq_def)
  show ?thesis
    unfolding run using a f by (simp add: notify_loop_eq st2 un observer_notices_def sel registered_def [abs_def])
qed

text \<open>With unique keys, a slot is the only one with its key, and removing through the key
  empties that slot.\<close>

lemma uniq_slot:
  assumes un: "uniq_keys m" and i: "i < length (mdata m)" "mdata m ! i = Item k v"
    and j: "j < length (mdata m)" "mdata m ! j = Item k w"
  shows "i = j"
proof -
  have *: False if "x < y" "y < length (mdata m)" "mdata m ! x = Item k a" "mdata m ! y = Item k b" for x y a b
  proof -
    have "x < length (take y (mdata m))" "take y (mdata m) ! x = Item k a" using that by simp_all
    then have "Item k a \<in> set (take y (mdata m))" by (metis nth_mem)
    then have "k \<in> fst ` set (slot_items (take y (mdata m)))"
      by (force simp: set_slot_items [symmetric])
    then show False
      using un slot_items_update(2) [OF that(2)] that(4) by (auto simp: uniq_keys_def)
  qed
  show ?thesis using *[of i j v w] *[of j i w v] i j by (cases i j rule: linorder_cases) auto
qed

lemma map_del_slot:
  assumes wf: "wf_map m" and un: "uniq_keys m" and i: "i < length (mdata m)" "mdata m ! i = Item k v"
  shows "mdata (map_del m k) = (mdata m)[i := Deleted]" and "map_get m k = Some v"
    and "uniq_keys (map_del m k)" and "msize (map_del m k) = msize m"
proof -
  have it: "Item k v \<in> set (mdata m)" using i by (metis nth_mem)
  then show g: "map_get m k = Some v" using map_get_iff [OF wf un] by simp
  obtain j w where j: "j < length (mdata m)" "mdata m ! j = Item k w"
    "map_remove m k = (0, m\<lparr>mdata := (mdata m)[j := Deleted], mcount := mcount m - 1\<rparr>)"
    using map_remove_some [OF wf, of k] g by (metis option.distinct(1))
  then show "mdata (map_del m k) = (mdata m)[i := Deleted]" "msize (map_del m k) = msize m"
    using uniq_slot [OF un i j(1,2)] by (simp_all add: map_del_def)
  show "uniq_keys (map_del m k)" using map_remove_works [OF wf un] by (simp add: map_del_def)
qed

lemma server_del_slot:
  assumes inv: "ns_inv st" and nd: "node_at st i = Some nd" and un: "uniq_keys (nd_services nd)"
    and k: "k < msize (nd_services nd)" "map_iter_item (nd_services nd) k = Some v"
  shows "\<exists>rc st' nd'. server_del e st i (sv_port v) = Some (rc, st') \<and> ns_inv st' \<and>
    node_at st' i = Some nd' \<and> uniq_keys (nd_services nd') \<and>
    msize (nd_services nd') = msize (nd_services nd) \<and>
    mdata (nd_services nd') = (mdata (nd_services nd))[k := Deleted]"
proof -
  let ?m = "nd_services nd"
  have ok: "services_ok i ?m" using node_atD [OF inv nd] by simp
  then have wf: "wf_map ?m" by (simp add: services_ok_def)
  have len: "k < length (mdata ?m)" using k(1) wf by (simp add: wf_map_def)
  obtain key where it: "mdata ?m ! k = Item key v"
    using k(2) by (auto simp: map_iter_item_def split: slot.splits)
  have key: "key = hash_u32 (sv_port v)"
    using ok it len nth_mem [OF len] by (auto simp: services_ok_def)
  note d = map_del_slot [OF wf un len it]
  have reg: "registered st i (sv_port v) = Some v" using nd d(2) key by (simp add: registered_def)
  have w: "added_only i st (node_write st i (map_del ?m key))"
    "node_at (node_write st i (map_del ?m key)) = (node_at st)(i \<mapsto> nd\<lparr>nd_services := map_del ?m key\<rparr>)"
    using node_write_result [OF inv nd services_ok_remove(1) [OF ok]] by auto
  show ?thesis
    using server_del_some [OF inv nd reg] w d key added_onlyD(1) [OF w(1)] by simp
qed

lemma server_del_services:
  assumes inv: "ns_inv st" and nd: "node_at st i = Some nd" and reg: "registered st i p = Some s"
  shows "\<exists>st'. server_del e st i p = Some (0, st') \<and> ns_inv st' \<and> ns_local_node st' = ns_local_node st \<and>
    services_of st' = (services_of st)(i := map_del (services_of st i) (hash_u32 p)) \<and>
    ns_sent st' = ns_sent st @
      (if i = ns_local_node st then [(notice s False, ns_bcast_sq st)] else []) @ observer_notices st s False"
proof -
  let ?m = "map_del (nd_services nd) (hash_u32 p)"
  have w: "added_only i st (node_write st i ?m)"
    "node_at (node_write st i ?m) = (node_at st)(i \<mapsto> nd\<lparr>nd_services := ?m\<rparr>)"
    using node_write_result [OF inv nd] node_atD [OF inv nd] services_ok_remove by blast+
  show ?thesis
    using server_del_some [OF inv nd reg] w nd added_onlyD [OF w(1)] by (auto simp: services_of_def fun_eq_iff)
qed

lemma del_server_result:
  assumes inv: "ns_inv st" and reg: "registered st (sq_node from) p = Some s"
    and own: "sq_node from = ns_local_node st \<or> node_id = sq_node from"
    and port: "p = (if sq_node from = ns_local_node st then sq_port from else port)"
  shows "\<exists>st'. ctrl_cmd_del_server e st from service instance node_id port = Some (0, st') \<and> ns_inv st' \<and>
    ns_local_node st' = ns_local_node st \<and>
    services_of st' = (services_of st)(sq_node from := map_del (services_of st (sq_node from)) (hash_u32 p)) \<and>
    ns_sent st' = ns_sent st @
      (if sq_node from = ns_local_node st then [(notice s False, ns_bcast_sq st)] else []) @
      observer_notices st s False"
proof -
  let ?i = "sq_node from"
  have i: "(if ?i = ns_local_node st then ?i else node_id) = ?i" using own by auto
  obtain nd where nd: "node_at st ?i = Some nd"
    using reg by (auto simp: registered_def split: option.splits)
  then have "node_get e st ?i = Some (Some nd, st)" by (simp add: node_get_def node_at_def)
  then have "ctrl_cmd_del_server e st from service instance node_id port = server_del e st ?i p"
    unfolding ctrl_cmd_del_server_def Let_def i port [symmetric]
    using port by (cases "?i = ns_local_node st") simp_all
  then show ?thesis using server_del_services [OF inv nd reg, of e] by simp
qed

lemma no_items_unregistered:
  assumes inv: "ns_inv st" and nd: "node_at st i = Some nd"
    and none: "\<forall>x < msize (nd_services nd). slot_value (mdata (nd_services nd) ! x) = None"
  shows "registered st i = (\<lambda>_. None)"
proof
  fix p
  have wf: "wf_map (nd_services nd)" using node_atD [OF inv nd] by (simp add: services_ok_def)
  have "Item k v \<notin> set (mdata (nd_services nd))" for k v
  proof
    assume "Item k v \<in> set (mdata (nd_services nd))"
    then obtain x where "x < length (mdata (nd_services nd))" "mdata (nd_services nd) ! x = Item k v"
      by (auto simp: in_set_conv_nth)
    then show False using none wf by (auto simp: wf_map_def slot_value_def)
  qed
  then have "map_get (nd_services nd) k = None" for k
    using map_get_SomeD [OF wf, of k] by (cases "map_get (nd_services nd) k") auto
  then show "registered st i p = None" using nd by (simp add: registered_def)
qed

lemma bye_loop_clears:
  assumes "ns_inv st" and "node_at st i = Some nd" and "uniq_keys (nd_services nd)"
    and "it = map_iter_from (nd_services nd) j" and "msize (nd_services nd) - j \<le> n"
    and "\<forall>x < min j (msize (nd_services nd)). slot_value (mdata (nd_services nd) ! x) = None"
    and "bye_loop n e st i it = Some st'"
  shows "registered st' i = (\<lambda>_. None)"
  using assms
proof (induction n arbitrary: st nd it j)
  case 0
  then show ?case using no_items_unregistered [OF "0.prems"(1,2)] by (simp add: map_iter_from.simps)
next
  case (Suc n)
  let ?m = "nd_services nd"
  show ?case
  proof (cases it)
    case None
    then have "\<forall>x < msize ?m. slot_value (mdata ?m ! x) = None"
      using Suc.prems(4,6) map_iter_from_None [of ?m j] by (metis min_less_iff_conj not_le_imp_less)
    then show ?thesis using None Suc.prems(7) no_items_unregistered [OF Suc.prems(1,2)] by simp
  next
    case (Some k)
    then have k: "j \<le> k" "k < msize ?m" "\<forall>x. j \<le> x \<and> x < k \<longrightarrow> slot_value (mdata ?m ! x) = None"
      using Suc.prems(4) map_iter_from_Some [of ?m j k] by auto
    obtain v where v: "map_iter_item ?m k = Some v"
      using map_iter_live [of ?m j k] Suc.prems(4) Some by auto
    obtain rc st1 nd1 where d: "server_del e st i (sv_port v) = Some (rc, st1)" "ns_inv st1"
      "node_at st1 i = Some nd1" "uniq_keys (nd_services nd1)" "msize (nd_services nd1) = msize ?m"
      "mdata (nd_services nd1) = (mdata ?m)[k := Deleted]"
      using server_del_slot [OF Suc.prems(1-3) k(2) v, of e] by blast
    have run: "bye_loop n e st1 i (map_iter_from (nd_services nd1) (k + 1)) = Some st'"
      using Suc.prems(2,7) Some v d(1,3) by (simp add: node_at_def map_iter_next_def)
    have len: "length (mdata ?m) = msize ?m"
      using node_atD [OF Suc.prems(1,2)] by (simp add: services_ok_def wf_map_def)
    have "slot_value (mdata (nd_services nd1) ! x) = None" if "x < k + 1" "x < msize ?m" for x
      using that k Suc.prems(6) d(6) by (cases "x = k"; cases "x < j") (auto simp: slot_value_def nth_list_update len)
    then show ?thesis
      using Suc.IH [OF d(2-4) refl _ _ run] Suc.prems(5) d(5) k by auto
  qed
qed

text \<open>What a lookup asks for: with \<open>ifilter\<close> 0 the filter of \<open>server_query\<close> admits a server
  exactly when the observer loop does.\<close>

lemma server_match_admits:
  "server_match s \<lparr>fl_service = service, fl_instance = instance, fl_ifilter = 0\<rparr> =
     lookup_admits \<lparr>lk_service = service, lk_instance = instance, lk_sq = sq\<rparr> (sv_service s) (sv_instance s)"
  by (auto simp: server_match_def lookup_admits_def)

lemma node_of_key: "ns_inv st \<Longrightarrow> map_get (ns_nodes st) k = Some nd \<Longrightarrow> node_at st (nd_id nd) = Some nd"
  by (auto simp: ns_inv_def node_at_def)

lemma server_of_item:
  assumes inv: "ns_inv st" and un: "ns_uniq st" and nd: "node_at st i = Some nd"
  shows "s \<in> set (map_items (nd_services nd)) \<longleftrightarrow> registered st i (sv_port s) = Some s"
proof -
  have ok: "services_ok i (nd_services nd)" using node_atD [OF inv nd] by simp
  then have wf: "wf_map (nd_services nd)" by (simp add: services_ok_def)
  have u: "uniq_keys (nd_services nd)" using un nd by (auto simp: ns_uniq_def)
  have key: "map_get (nd_services nd) k = Some s \<Longrightarrow> k = hash_u32 (sv_port s)" for k
    using map_get_iff [OF wf u] ok by (auto simp: services_ok_def)
  have "s \<in> set (map_items (nd_services nd)) \<longleftrightarrow> (\<exists>k. map_get (nd_services nd) k = Some s)"
    using map_items_get [OF wf u] by (auto simp: ran_def)
  also have "\<dots> \<longleftrightarrow> registered st i (sv_port s) = Some s"
    using key nd by (auto simp: registered_def)
  finally show ?thesis .
qed

text \<open>The servers in the table of a node: every registered server is one, and they are all registered
  when the keys are unique.\<close>

definition stored :: "ns_state \<Rightarrow> server set" where
  "stored st = (\<Union>i. set (map_items (services_of st i)))"

lemma map_items_create [simp]: "map_items map_create = []"
  by (simp add: map_items_eq map_create_def)

lemma registered_stored:
  assumes "ns_inv st" and "registered st i p = Some s"
  shows "s \<in> stored st"
proof -
  obtain nd where nd: "node_at st i = Some nd" "map_get (nd_services nd) (hash_u32 p) = Some s"
    using assms(2) by (auto simp: registered_def split: option.splits)
  have wf: "wf_map (nd_services nd)" using node_atD [OF assms(1) nd(1)] by (simp add: services_ok_def)
  have "Item (hash_u32 p) s \<in> set (mdata (nd_services nd))" by (rule map_get_SomeD [OF wf nd(2)])
  then have "s \<in> set (map_items (nd_services nd))"
    using wf by (force simp: map_items_eq wf_map_def set_slot_items [symmetric])
  then show ?thesis using nd(1) by (auto simp: stored_def services_of_def intro!: exI [of _ i])
qed

lemma stored_registered:
  assumes "ns_inv st" and "ns_uniq st"
  shows "stored st = {s. \<exists>i p. registered st i p = Some s}"
proof -
  have "\<exists>i p. registered st i p = Some s" if "s \<in> stored st" for s
    using that server_of_item [OF assms] by (auto simp: stored_def services_of_def split: option.splits)
  then show ?thesis using registered_stored [OF assms(1)] by blast
qed

lemma stored_service:
  assumes "ns_inv st" and "s \<in> stored st"
  shows "sv_service s \<noteq> 0"
proof -
  obtain i nd where nd: "node_at st i = Some nd" "s \<in> set (map_items (nd_services nd))"
    using assms(2) by (auto simp: stored_def services_of_def split: option.splits)
  have ok: "services_ok i (nd_services nd)" using node_atD [OF assms(1) nd(1)] by simp
  then have "\<exists>k. Item k s \<in> set (mdata (nd_services nd))"
    using nd(2) by (force simp: map_items_eq wf_map_def services_ok_def set_slot_items)
  then show ?thesis using ok by (auto simp: services_ok_def)
qed

lemma server_query_set:
  assumes inv: "ns_inv st"
  shows "set (snd (server_query st f)) = {s \<in> stored st. server_match s f}"
proof -
  have nodes: "nd \<in> set (map_items (ns_nodes st)) \<longleftrightarrow> node_at st (nd_id nd) = Some nd" for nd
  proof -
    have "set (map_items (ns_nodes st)) = ran (map_get (ns_nodes st))"
      using inv by (intro grow.items_get) (simp add: ns_inv_def)
    then show ?thesis using node_of_key [OF inv] by (auto simp: ran_def node_at_def)
  qed
  have "(\<exists>nd \<in> set (map_items (ns_nodes st)). s \<in> set (map_items (nd_services nd))) \<longleftrightarrow> s \<in> stored st" for s
    using nodes node_atD [OF inv] by (fastforce simp: stored_def services_of_def split: option.splits)
  then show ?thesis by (auto simp: server_query_def Let_def)
qed

text \<open>Every registered server is found once.\<close>

lemma distinct_concat_map:
  assumes "distinct xs" and "\<And>x. x \<in> set xs \<Longrightarrow> distinct (f x)"
    and "\<And>x y s. x \<in> set xs \<Longrightarrow> y \<in> set xs \<Longrightarrow> s \<in> set (f x) \<Longrightarrow> s \<in> set (f y) \<Longrightarrow> x = y"
  shows "distinct (concat (map f xs))"
  using assms
proof (induction xs)
  case (Cons a xs)
  have "distinct (concat (map f xs))" by (rule Cons.IH) (use Cons.prems in auto)
  moreover have "set (f a) \<inter> set (concat (map f xs)) = {}"
    using Cons.prems(1) Cons.prems(3) [of a] by fastforce
  ultimately show ?case using Cons.prems(2) by simp
qed simp

lemma server_query_distinct:
  assumes inv: "ns_inv st" and un: "ns_uniq st"
  shows "distinct (snd (server_query st f))"
proof -
  have g: "grow_inv (ns_nodes st)" using inv by (simp add: ns_inv_def)
  have node: "node_at st (nd_id nd) = Some nd" if "nd \<in> set (map_items (ns_nodes st))" for nd
    using that grow.items_get [OF g] node_of_key [OF inv] by (auto simp: ran_def)
  have "distinct (map_items (ns_nodes st))"
  proof (rule map_items_distinct)
    show "wf_map (ns_nodes st)" "uniq_keys (ns_nodes st)" using g by (simp_all add: grow_inv_def)
    then show "k = hash_u32 (nd_id nd)" if "Item k nd \<in> set (mdata (ns_nodes st))" for k nd
      using that inv map_get_iff [of "ns_nodes st"] by (auto simp: ns_inv_def)
  qed
  moreover have "distinct (map_items (nd_services nd))" if "nd \<in> set (map_items (ns_nodes st))" for nd
    using node_atD [OF inv node [OF that]] un node [OF that]
    by (intro map_items_distinct [where key = "\<lambda>s. hash_u32 (sv_port s)"]) (auto simp: services_ok_def ns_uniq_def)
  moreover have "nd_id nd = sv_node s" if "nd \<in> set (map_items (ns_nodes st))" "s \<in> set (map_items (nd_services nd))" for nd s
    using server_of_item [OF inv un node [OF that(1)]] that(2) registered_port(2) [OF inv] by fastforce
  ultimately have "distinct (concat (map (\<lambda>nd. map_items (nd_services nd)) (map_items (ns_nodes st))))"
    by (intro distinct_concat_map) (auto, metis node option.inject)
  then show ?thesis by (simp add: server_query_def Let_def)
qed

lemma services_of_wf: "ns_inv st \<Longrightarrow> wf_map (services_of st i)"
  using node_atD [of st i] create_inv(2) by (auto simp: services_of_def services_ok_def live_inv_def split: option.split)

lemma services_of_uniq: "ns_uniq st \<Longrightarrow> uniq_keys (services_of st i)"
  using create_inv(2) by (auto simp: services_of_def ns_uniq_def live_inv_def split: option.split)

lemma map_del_other:
  assumes "wf_map m" and "k \<noteq> key"
  shows "map_get (map_del m key) k = map_get m k"
proof (cases "map_get m key")
  case None
  then show ?thesis using map_remove_none [OF assms(1) None] by (simp add: map_del_def)
next
  case (Some w)
  then obtain i v where "i < length (mdata m)" "mdata m ! i = Item key v"
    "map_remove m key = (0, m\<lparr>mdata := (mdata m)[i := Deleted], mcount := mcount m - 1\<rparr>)"
    using map_remove_some [OF assms(1)] by blast
  then show ?thesis using delete_slot(2) [OF assms(1), of i key v k] assms(2) by (simp add: map_del_def)
qed

section \<open>Properties\<close>

text \<open>C1: the control port handler survives every datagram. In every state with the registry
  invariant, for whatever bytes and length \<open>recvfrom\<close> delivers and whatever \<open>sendto\<close> and the
  allocator answer, it returns (no dereference of a null pointer, no loop without end), keeps
  the invariant, and changes no registration of any node but the sender's.\<close>

theorem ctrl_port_fn_safe:
  assumes "ns_inv st" and "length buf = 4096"
  shows "\<exists>rc st'. ctrl_port_fn e st len buf sq = Some (rc, st') \<and> ns_inv st' \<and>
    (\<forall>j. j \<noteq> sq_node sq \<longrightarrow> registered st' j = registered st j)"
  using ctrl_port_fn_confined [OF assms, of e len sq] by blast

definition plain_env :: ns_env where
  "plain_env = \<lparr>sendto_rc = (\<lambda>_. 20), calloc_ok = (\<lambda>_ _. True), stack_word = (\<lambda>_. 0)\<rparr>"

lemma plain_env_memory: "memory_ok plain_env"
  by (simp add: memory_ok_def plain_env_def)

abbreviation at_port :: "u32 \<Rightarrow> u32 \<Rightarrow> sockaddr_qrtr" where
  "at_port i p \<equiv> \<lparr>sq_family = AF_QIPCRTR, sq_node = i, sq_port = p\<rparr>"

theorem ctrl_port_fn_safe_witness:
  "\<exists>rc st'. ctrl_port_fn plain_env (ns_init 3 1) 20 (replicate 4096 2) (at_port 5 6) = Some (rc, st') \<and>
    ns_inv st' \<and> (\<forall>j. j \<noteq> 5 \<longrightarrow> registered st' j = registered (ns_init 3 1) j)"
  using ctrl_port_fn_safe [of "ns_init 3 1" "replicate 4096 2" plain_env 20 "at_port 5 6"]
  by (simp add: ns_init_inv)

text \<open>C7: in every state the main loop can reach, what a search finds under a node id and a
  port is a server with that node, that port and a non-zero service, and the local node is
  the one \<open>getsockname\<close> reported.\<close>

theorem ns_reach_registry:
  assumes "ns_reach sock local st" and "registered st i p = Some s"
  shows "sv_node s = i \<and> sv_port s = p \<and> sv_service s \<noteq> 0 \<and> ns_local_node st = local"
  using ns_reach_inv [OF assms(1)] registered_port [of st i p s] assms(2) by blast

theorem ns_reach_registry_witness:
  "\<exists>st. ns_reach 3 1 st \<and> registered st 1 40 = Some (mk_server 66 1 1 40) \<and>
     sv_node (mk_server 66 1 1 40) = 1 \<and> ns_local_node st = 1"
proof -
  let ?p = "\<lparr>pk_cmd = QRTR_TYPE_NEW_SERVER, pk_w0 = 66, pk_w1 = 1, pk_w2 = 1, pk_w3 = 40\<rparr>"
  let ?st = "snd (say_hello plain_env (ns_init 3 1))"
  have hello: "say_hello plain_env (ns_init 3 1) = (0, ?st)"
    by (simp add: say_hello_def ns_sendto_def plain_env_def)
  have r: "ns_reach 3 1 ?st" using ns_reach.hello [OF _ hello] by simp
  have eq: "sq_node (at_port 1 40) = ns_local_node ?st" "0 \<le> ns_sock ?st"
    by (simp_all add: say_hello_def ns_sendto_def ns_init_def plain_env_def)
  obtain rc st' where n: "ctrl_cmd_new_server plain_env ?st (at_port 1 40) 66 1 1 40 = Some (rc, st')"
    "registered st' 1 40 = Some (mk_server 66 1 1 40)"
    using new_server_result [OF conjunct1 [OF ns_reach_inv [OF r]] plain_env_memory, of "at_port 1 40" 1 40 40 66
      "mk_server 66 1 1 40" 1] eq by auto
  have "ctrl_port_fn plain_env ?st 20 (ctrl_bytes ?p @ replicate 4076 0) (at_port 1 40) = Some (rc, st')"
    using n(1) by (simp add: ctrl_port_fn_def)
  then have "ns_reach 3 1 st'"
    by (rule ns_reach.packet [OF r eq(2), rotated]) (simp add: ctrl_bytes_def)
  then show ?thesis using n(2) ns_reach_registry [OF _ n(2)] by auto
qed

text \<open>C8: senders cannot act for others. A remote sender's request to register or remove a
  server of another node is refused with \<open>-EINVAL\<close> and changes nothing; so is a request to
  delete a client of another node, or a local request to delete the client of another port;
  and a remote node cannot become an observer.\<close>

theorem spoofed_requests_refused:
  assumes "sq_node from \<noteq> ns_local_node st" and "node_id \<noteq> sq_node from"
  shows "ctrl_cmd_new_server e st from service instance node_id port = Some (-EINVAL, st) \<and>
    ctrl_cmd_del_server e st from service instance node_id port = Some (-EINVAL, st) \<and>
    ctrl_cmd_del_client e st from node_id port = Some (-EINVAL, st) \<and>
    ctrl_cmd_new_lookup e st from service instance = (-EINVAL, st)"
  using assms
  by (auto simp: ctrl_cmd_new_server_def ctrl_cmd_del_server_def ctrl_cmd_del_client_def
      ctrl_cmd_new_lookup_def)

theorem spoofed_requests_refused_witness:
  "ctrl_cmd_new_server plain_env (ns_init 3 1) (at_port 7 9) 66 1 8 9 = Some (-EINVAL, ns_init 3 1) \<and>
   ctrl_cmd_del_server plain_env (ns_init 3 1) (at_port 7 9) 66 1 8 9 = Some (-EINVAL, ns_init 3 1) \<and>
   ctrl_cmd_del_client plain_env (ns_init 3 1) (at_port 7 9) 8 9 = Some (-EINVAL, ns_init 3 1) \<and>
   ctrl_cmd_new_lookup plain_env (ns_init 3 1) (at_port 7 9) 66 1 = (-EINVAL, ns_init 3 1)"
  using spoofed_requests_refused [of "at_port 7 9" "ns_init 3 1" 8] by (simp add: ns_init_def)

text \<open>C3: a registration succeeds and is told to everyone it concerns. A request to register
  from a local port, or from a remote node for itself, with a non-zero service and port, is
  in the registry afterwards under the sender's node (for a local sender: under the sender's
  port, whatever the packet says); exactly the broadcast address (local servers only) and the
  observers whose filter admits the server are sent a \<open>NEW_SERVER\<close> packet for it.\<close>

theorem new_server_registers:
  assumes "ns_inv st" and "memory_ok e" and "sq_node from = ns_local_node st \<or> node_id = sq_node from"
    and "p = (if sq_node from = ns_local_node st then sq_port from else port)"
    and "service \<noteq> 0" and "p \<noteq> 0" and "s = mk_server service instance (sq_node from) p"
  shows "\<exists>rc st'. ctrl_cmd_new_server e st from service instance node_id port = Some (rc, st') \<and>
    registered st' (sq_node from) p = Some s \<and>
    ns_sent st' = ns_sent st @
      (if sq_node from = ns_local_node st then [(notice s True, ns_bcast_sq st)] else []) @
      observer_notices st s True"
  using new_server_result [OF assms] by blast

theorem new_server_registers_witness:
  "\<exists>rc st'. ctrl_cmd_new_server plain_env (ns_init 3 1) (at_port 1 40) 66 1 0 0 = Some (rc, st') \<and>
    registered st' 1 40 = Some (mk_server 66 1 1 40) \<and>
    ns_sent st' = [(notice (mk_server 66 1 1 40) True, at_port QRTR_NODE_BCAST QRTR_PORT_CTRL)]"
  using new_server_registers [OF ns_init_inv(1) plain_env_memory, of "at_port 1 40" 3 1 0 40 0 66
      "mk_server 66 1 1 40" 1]
  by (simp add: ns_init_def observer_notices_def)

text \<open>C9: unregistering. The owner's \<open>DEL_SERVER\<close> for a registered port returns 0; the broadcast address
  (local servers only) and the observers whose filter admits the server are sent a \<open>DEL_SERVER\<close>
  packet for it, and no other registration of any node changes. If the table of the node holds
  the port once, the registration is gone; otherwise (\<open>stale_server_survives\<close>) an older one may
  take its place.\<close>

theorem del_server_unregisters:
  assumes "ns_inv st" and "registered st (sq_node from) p = Some s"
    and "sq_node from = ns_local_node st \<or> node_id = sq_node from"
    and "p = (if sq_node from = ns_local_node st then sq_port from else port)"
  shows "\<exists>st'. ctrl_cmd_del_server e st from service instance node_id port = Some (0, st') \<and>
    (\<forall>i q. (i, q) \<noteq> (sq_node from, p) \<longrightarrow> registered st' i q = registered st i q) \<and>
    (uniq_keys (services_of st (sq_node from)) \<longrightarrow> registered st' (sq_node from) p = None) \<and>
    ns_sent st' = ns_sent st @
      (if sq_node from = ns_local_node st then [(notice s False, ns_bcast_sq st)] else []) @
      observer_notices st s False"
proof -
  let ?m = "services_of st (sq_node from)"
  have wf: "wf_map ?m" by (rule services_of_wf [OF assms(1)])
  have other: "map_get (map_del ?m (hash_u32 p)) (hash_u32 q) = map_get ?m (hash_u32 q)" if "q \<noteq> p" for q
    using map_del_other [OF wf, of "hash_u32 q" "hash_u32 p"] that by (simp add: hash_u32_inj)
  have own: "map_get (map_del ?m (hash_u32 p)) (hash_u32 p) = None" if "uniq_keys ?m"
    using live.get_del [of ?m "hash_u32 p"] wf that by (simp add: live_inv_def)
  obtain st' where st': "ctrl_cmd_del_server e st from service instance node_id port = Some (0, st')"
    "services_of st' = (services_of st)(sq_node from := map_del ?m (hash_u32 p))"
    "ns_sent st' = ns_sent st @ (if sq_node from = ns_local_node st then [(notice s False, ns_bcast_sq st)] else []) @
      observer_notices st s False"
    using del_server_result [OF assms, of e service "instance"] by blast
  have "registered st' i q = registered st i q" if "(i, q) \<noteq> (sq_node from, p)" for i q
    using that other by (simp add: registered_services st'(2))
  moreover have "registered st' (sq_node from) p = None" if "uniq_keys ?m"
    using own [OF that] by (simp add: registered_services st'(2))
  ultimately show ?thesis using st'(1,3) by blast
qed

lemma new_lookup_result:
  assumes "ns_inv st" and "calloc_ok e Lookup_alloc 40" and "sq_node from = ns_local_node st"
    and "lk = \<lparr>lk_service = service, lk_instance = instance, lk_sq = from\<rparr>"
  shows "\<exists>srvs st'. ctrl_cmd_new_lookup e st from service instance = (0, st') \<and>
    ns_lookups st' = ns_lookups st @ [lk] \<and>
    ns_sent st' = ns_sent st @ map (\<lambda>s. (notice s True, from)) srvs @ [(end_of_list, from)] \<and>
    set srvs = {s \<in> stored st. lookup_admits lk (sv_service s) (sv_instance s)} \<and> (ns_uniq st \<longrightarrow> distinct srvs)"
proof -
  let ?st = "st\<lparr>ns_lookups := ns_lookups st @ [lk]\<rparr>"
  let ?f = "\<lparr>fl_service = service, fl_instance = instance, fl_ifilter = 0\<rparr>"
  have inv: "ns_inv ?st" "ns_uniq ?st = ns_uniq st" using assms(1) by (simp_all add: ns_uniq_def)
  have "set (snd (server_query ?st ?f)) = {s \<in> stored st. lookup_admits lk (sv_service s) (sv_instance s)}"
    using server_query_set [OF inv(1), of ?f] assms(4)
    by (simp add: server_match_admits [of _ service "instance" "from"] stored_def)
  moreover have "ctrl_cmd_new_lookup e st from service instance =
      (0, ?st\<lparr>ns_sent := ns_sent st @ map (\<lambda>s. (notice s True, from)) (snd (server_query ?st ?f)) @
        [(end_of_list, from)]\<rparr>)"
    using assms(2-4) by (simp add: ctrl_cmd_new_lookup_def reply_loop_eq Let_def split_beta)
  ultimately show ?thesis using server_query_distinct [OF inv(1)] inv(2) by (intro exI [of _ "snd (server_query ?st ?f)"]) simp
qed

text \<open>C4: a lookup is answered completely. When there is memory for an observer, a local client that asks
  for a service (zero fields are wildcards) becomes one and receives \<open>NEW_SERVER\<close> packets,
  then the empty packet that ends the list. The packets are for the servers in the tables that
  match: every registered server that matches is among them, and if no table holds a port twice
  they are exactly these, one packet each. (A stale item is reported too.)\<close>

theorem new_lookup_reply:
  assumes "ns_inv st" and "calloc_ok e Lookup_alloc 40" and "sq_node from = ns_local_node st"
    and "lk = \<lparr>lk_service = service, lk_instance = instance, lk_sq = from\<rparr>"
    and "matching = {s. (\<exists>i p. registered st i p = Some s) \<and> lookup_admits lk (sv_service s) (sv_instance s)}"
  shows "\<exists>srvs st'. ctrl_cmd_new_lookup e st from service instance = (0, st') \<and>
    ns_lookups st' = ns_lookups st @ [lk] \<and>
    ns_sent st' = ns_sent st @ map (\<lambda>s. (notice s True, from)) srvs @ [(end_of_list, from)] \<and>
    set srvs = {s \<in> stored st. lookup_admits lk (sv_service s) (sv_instance s)} \<and> matching \<subseteq> set srvs \<and>
    (ns_uniq st \<longrightarrow> distinct srvs \<and> set srvs = matching)"
proof -
  have "matching \<subseteq> {s \<in> stored st. lookup_admits lk (sv_service s) (sv_instance s)}"
    using registered_stored [OF assms(1)] by (auto simp: assms(5))
  moreover have "{s \<in> stored st. lookup_admits lk (sv_service s) (sv_instance s)} = matching" if "ns_uniq st"
    using stored_registered [OF assms(1) that] by (auto simp: assms(5))
  moreover obtain srvs st' where "ctrl_cmd_new_lookup e st from service instance = (0, st')"
    "ns_lookups st' = ns_lookups st @ [lk]" "ns_sent st' = ns_sent st @ map (\<lambda>s. (notice s True, from)) srvs @ [(end_of_list, from)]"
    "set srvs = {s \<in> stored st. lookup_admits lk (sv_service s) (sv_instance s)}" "ns_uniq st \<longrightarrow> distinct srvs"
    using new_lookup_result [OF assms(1-4)] by blast
  ultimately show ?thesis by (intro exI [of _ srvs] exI [of _ st']) simp
qed

lemma distinct_one: "distinct xs \<Longrightarrow> set xs = {x} \<Longrightarrow> xs = [x]"
  by (cases xs) (auto simp: subset_singleton_iff)

text \<open>A state with one server: service 66, instance 1, port 40 of the local node 1.\<close>

lemma one_server:
  obtains st where "ns_inv st" and "ns_uniq st" and "ns_local_node st = 1" and "ns_lookups st = []"
    and "\<And>i p. registered st i p = (if i = 1 \<and> p = 40 then Some (mk_server 66 1 1 40) else None)"
    and "\<exists>rc. ctrl_cmd_new_server plain_env (ns_init 3 1) (at_port 1 40) 66 1 0 0 = Some (rc, st)"
proof -
  have l: "ns_local_node (ns_init 3 1) = 1" "ns_lookups (ns_init 3 1) = []" by (simp_all add: ns_init_def)
  have none: "registered (ns_init 3 1) i p = None" for i p
    by (simp add: ns_init_def registered_def node_at_def create_inv(3))
  obtain rc st where st: "ctrl_cmd_new_server plain_env (ns_init 3 1) (at_port 1 40) 66 1 0 0 = Some (rc, st)" "ns_inv st"
    "ns_uniq st" "ns_local_node st = 1" "registered st 1 = (registered (ns_init 3 1) 1)(40 \<mapsto> mk_server 66 1 1 40)"
    "\<forall>j. j \<noteq> 1 \<longrightarrow> registered st j = registered (ns_init 3 1) j" "ns_lookups st = []"
    using new_server_result [OF ns_init_inv(1) plain_env_memory, of "at_port 1 40" 3 1 0 40 0 66
      "mk_server 66 1 1 40" 1] ns_init_inv(2) [of 3 1] l none by auto
  have "registered st i p = (if i = 1 \<and> p = 40 then Some (mk_server 66 1 1 40) else None)" for i p
    using st(5,6) none by (cases "i = 1") auto
  then show ?thesis using that st by blast
qed

theorem del_server_unregisters_witness:
  "\<exists>st st'. registered st 1 40 = Some (mk_server 66 1 1 40) \<and>
    ctrl_cmd_del_server plain_env st (at_port 1 40) 66 1 1 40 = Some (0, st') \<and> registered st' 1 40 = None"
proof -
  obtain st where st: "ns_inv st" "ns_uniq st" "ns_local_node st = 1" "registered st 1 40 = Some (mk_server 66 1 1 40)"
    by (rule one_server) auto
  have "uniq_keys (services_of st 1)" by (rule services_of_uniq [OF st(2)])
  then show ?thesis
    using del_server_unregisters [of st "at_port 1 40" 40 "mk_server 66 1 1 40" 1 40 plain_env 66 1] st by auto
qed

theorem new_lookup_reply_witness:
  "\<exists>st st'. registered st 1 40 = Some (mk_server 66 1 1 40) \<and>
    ctrl_cmd_new_lookup plain_env st (at_port 1 50) 66 0 = (0, st') \<and>
    ns_sent st' = ns_sent st @ [(notice (mk_server 66 1 1 40) True, at_port 1 50), (end_of_list, at_port 1 50)]"
proof -
  let ?lk = "\<lparr>lk_service = 66, lk_instance = 0, lk_sq = at_port 1 50\<rparr>" and ?s = "mk_server 66 1 1 40"
  obtain st where st: "ns_inv st" "ns_uniq st" "ns_local_node st = 1"
    "\<And>i p. registered st i p = (if i = 1 \<and> p = 40 then Some ?s else None)"
    by (rule one_server) blast
  have m: "{s. (\<exists>i p. registered st i p = Some s) \<and> lookup_admits ?lk (sv_service s) (sv_instance s)} = {?s}"
    by (auto simp: st(4) lookup_admits_def)
  obtain srvs st' where r: "ctrl_cmd_new_lookup plain_env st (at_port 1 50) 66 0 = (0, st')"
    "ns_sent st' = ns_sent st @ map (\<lambda>s. (notice s True, at_port 1 50)) srvs @ [(end_of_list, at_port 1 50)]"
    "distinct srvs" "set srvs = {?s}"
    using new_lookup_reply [OF st(1), of plain_env "at_port 1 50" ?lk 66 0 "{?s}"] st(2,3) m by (auto simp: plain_env_def)
  have "srvs = [?s]" by (rule distinct_one [OF r(3,4)])
  then show ?thesis using r(1,2) st(4) [of 1 40] by (intro exI [of _ st] exI [of _ st']) simp
qed

text \<open>C10: the departure of a node. When there is memory for the node, \<open>BYE\<close> from a node
  returns, changes no registration of another node, and unregisters every server of the node,
  although the loop removes entries from the table it iterates over, provided that the table of
  the node holds no port twice.\<close>

theorem bye_unregisters_all:
  assumes "ns_inv st" and "memory_ok e"
  shows "\<exists>rc st'. ctrl_cmd_bye e st from = Some (rc, st') \<and> ns_inv st' \<and>
    (\<forall>j. j \<noteq> sq_node from \<longrightarrow> registered st' j = registered st j) \<and>
    (uniq_keys (services_of st (sq_node from)) \<longrightarrow> registered st' (sq_node from) = (\<lambda>_. None))"
proof -
  let ?i = "sq_node from"
  obtain nd st1 where n: "node_get e st ?i = Some (nd, st1)" "added_only ?i st st1"
    "nd \<noteq> None \<longrightarrow> node_at st1 ?i = nd" "nd = None \<longrightarrow> \<not> memory_ok e" "services_of st1 = services_of st"
    using node_get_result [OF assms(1), of e ?i] by metis
  then obtain d where d: "nd = Some d" "node_at st1 ?i = Some d" using assms(2) by auto
  have inv1: "ns_inv st1" using added_onlyD(1) [OF n(2)] .
  have un: "uniq_keys (nd_services d)" if "uniq_keys (services_of st ?i)"
    using that d(2) fun_cong [OF n(5), of ?i] by (simp add: services_of_def)
  let ?it = "map_iter_first (nd_services d)"
  obtain st2 where b: "bye_loop (msize (nd_services d)) e st1 ?i ?it = Some st2" "confined ?i st1 st2"
    using bye_loop_confined [OF inv1 d(2), of ?it 0 "msize (nd_services d)" e] by (auto simp: map_iter_first_def)
  have clear: "registered st2 ?i = (\<lambda>_. None)" if "uniq_keys (services_of st ?i)"
    using bye_loop_clears [OF inv1 d(2) un [OF that] _ _ _ b(1), of 0] by (simp add: map_iter_first_def)
  let ?pkt = "\<lparr>pk_cmd = QRTR_TYPE_BYE, pk_w0 = ?i, pk_w1 = 0, pk_w2 = 0, pk_w3 = 0\<rparr>"
  obtain st3 where t: "tell_local_services e st2 ?pkt = Some (0, st3)" "confined ?i st2 st3"
    "registered st3 = registered st2"
    using tell_local_services_confined [OF confined_inv [OF b(2)], of e ?pkt ?i] by blast
  have "registered st1 = registered st" using n(5) by (simp add: registered_services fun_eq_iff)
  then show ?thesis
    using n(1) d(1) b t clear confined_inv [OF t(2)] by (auto simp: ctrl_cmd_bye_def confined_def)
qed

theorem bye_unregisters_all_witness:
  "\<exists>st rc st'. registered st 1 40 = Some (mk_server 66 1 1 40) \<and>
    ctrl_cmd_bye plain_env st (at_port 1 QRTR_PORT_CTRL) = Some (rc, st') \<and> registered st' 1 = (\<lambda>_. None)"
proof -
  obtain st where st: "ns_inv st" "ns_uniq st" "registered st 1 40 = Some (mk_server 66 1 1 40)"
    by (rule one_server) auto
  have "uniq_keys (services_of st 1)" by (rule services_of_uniq [OF st(2)])
  then show ?thesis
    using bye_unregisters_all [OF st(1) plain_env_memory, of "at_port 1 QRTR_PORT_CTRL"] st(3) by auto
qed

lemma remote_new_server:
  assumes "ns_inv st" and "ns_local_node st = 1" and "port \<noteq> 0"
  shows "\<exists>rc st' old. ctrl_cmd_new_server plain_env st (at_port 9 0) 66 v 9 port = Some (rc, st') \<and>
    ns_inv st' \<and> ns_local_node st' = 1 \<and>
    map_reput (\<lambda>_. True) (services_of st 9) (hash_u32 port) (mk_server 66 v 9 port) =
      Some (0, services_of st' 9, old) \<and>
    registered st' 9 port = Some (mk_server 66 v 9 port) \<and>
    (ns_uniq st \<longrightarrow> registered st' 9 = (registered st 9)(port \<mapsto> mk_server 66 v 9 port)) \<and>
    (ns_uniq st \<and> registered st 9 port = None \<longrightarrow> ns_uniq st')"
  using new_server_result [OF assms(1) plain_env_memory, of "at_port 9 0" 9 port port 66 "mk_server 66 v 9 port" v]
    assms(2,3)
  by (fastforce simp: table_ok_def [abs_def] plain_env_def)

lemma remote_del_server:
  assumes "ns_inv st" and "ns_local_node st = 1" and "map_get (services_of st 9) (hash_u32 port) \<noteq> None"
  shows "\<exists>st'. ctrl_cmd_del_server plain_env st (at_port 9 0) 66 v 9 port = Some (0, st') \<and>
    ns_inv st' \<and> ns_local_node st' = 1 \<and> services_of st' 9 = map_del (services_of st 9) (hash_u32 port)"
  using del_server_result [OF assms(1), of "at_port 9 0" port _ 9 port plain_env 66 v] assms(2,3)
  by (fastforce simp: registered_services)

text \<open>A run on the table of a node, with the hashes of the ports 256 and 512.\<close>

definition stale_services_run :: "server qmap option" where
  "stale_services_run = do {
     (_, m1, _) \<leftarrow> map_reput (\<lambda>_. True) map_create 930722048 (mk_server 66 1 9 256);
     (_, m2, _) \<leftarrow> map_reput (\<lambda>_. True) m1 1861444096 (mk_server 66 1 9 512);
     let m3 = map_del m2 930722048;
     (_, m4, _) \<leftarrow> map_reput (\<lambda>_. True) m3 1861444096 (mk_server 66 2 9 512);
     Some (map_del m4 1861444096) }"

lemma stale_services:
  "map_option (\<lambda>m. map_option sv_instance (map_get m 1861444096)) stale_services_run = Some (Some 1)"
  by code_simp

lemma stale_hashes: "hash_u32 256 = 930722048" "hash_u32 512 = 1861444096"
  by code_simp+

definition stale_server_run :: "ns_state option" where
  "stale_server_run = do {
     (_, s1) \<leftarrow> ctrl_cmd_new_server plain_env (ns_init 3 1) (at_port 9 0) 66 1 9 256;
     (_, s2) \<leftarrow> ctrl_cmd_new_server plain_env s1 (at_port 9 0) 66 1 9 512;
     (_, s3) \<leftarrow> ctrl_cmd_del_server plain_env s2 (at_port 9 0) 66 1 9 256;
     (_, s4) \<leftarrow> ctrl_cmd_new_server plain_env s3 (at_port 9 0) 66 2 9 512;
     (_, s5) \<leftarrow> ctrl_cmd_del_server plain_env s4 (at_port 9 0) 66 2 9 512;
     Some s5 }"

text \<open>The defect of the hash table reaches the registry. Node 9 registers ports 256 and
  512 (one probe sequence), removes 256, registers 512 anew as another instance and removes
  it: 512 is still registered, with the instance it had first.\<close>

lemma stale_server_survives:
  "map_option (\<lambda>st. map_option sv_instance (registered st 9 512)) stale_server_run = Some (Some 1)"
proof -
  note h = stale_hashes
  have "ns_local_node (ns_init 3 1) = 1" by (simp add: ns_init_def)
  then obtain s1 rc1 o1 where s1: "ctrl_cmd_new_server plain_env (ns_init 3 1) (at_port 9 0) 66 1 9 256 = Some (rc1, s1)"
    "ns_inv s1" "ns_local_node s1 = 1"
    "map_reput (\<lambda>_. True) (services_of (ns_init 3 1) 9) 930722048 (mk_server 66 1 9 256) = Some (0, services_of s1 9, o1)"
    "registered s1 9 256 = Some (mk_server 66 1 9 256)" "registered (ns_init 3 1) 9 256 = None \<longrightarrow> ns_uniq s1"
    using remote_new_server [OF ns_init_inv(1), of 3 1 256 1] ns_init_inv(2) h by auto
  obtain s2 rc2 o2 where s2: "ctrl_cmd_new_server plain_env s1 (at_port 9 0) 66 1 9 512 = Some (rc2, s2)"
    "ns_inv s2" "ns_local_node s2 = 1"
    "map_reput (\<lambda>_. True) (services_of s1 9) 1861444096 (mk_server 66 1 9 512) = Some (0, services_of s2 9, o2)"
    "ns_uniq s1 \<longrightarrow> registered s2 9 = (registered s1 9)(512 \<mapsto> mk_server 66 1 9 512)"
    using remote_new_server [OF s1(2,3), of 512 1] h by auto
  have init: "services_of (ns_init 3 1) 9 = map_create"
    by (simp add: services_of_def node_at_def ns_init_def create_inv(3))
  have "ns_uniq s1" using s1(6) by (simp add: registered_services init create_inv(3))
  then have "registered s2 9 256 = Some (mk_server 66 1 9 256)" using s2(5) s1(5) by simp
  then have "map_get (services_of s2 9) 930722048 \<noteq> None" by (simp add: registered_services h)
  then obtain s3 where s3: "ctrl_cmd_del_server plain_env s2 (at_port 9 0) 66 1 9 256 = Some (0, s3)"
    "ns_inv s3" "ns_local_node s3 = 1" "services_of s3 9 = map_del (services_of s2 9) 930722048"
    using remote_del_server [OF s2(2,3), of 256 1] h by auto
  obtain s4 rc4 o4 where s4: "ctrl_cmd_new_server plain_env s3 (at_port 9 0) 66 2 9 512 = Some (rc4, s4)"
    "ns_inv s4" "ns_local_node s4 = 1"
    "map_reput (\<lambda>_. True) (services_of s3 9) 1861444096 (mk_server 66 2 9 512) = Some (0, services_of s4 9, o4)"
    "registered s4 9 512 = Some (mk_server 66 2 9 512)"
    using remote_new_server [OF s3(2,3), of 512 2] h by auto
  have "map_get (services_of s4 9) 1861444096 \<noteq> None" using s4(5) by (simp add: registered_services h)
  then obtain s5 where s5: "ctrl_cmd_del_server plain_env s4 (at_port 9 0) 66 2 9 512 = Some (0, s5)"
    "services_of s5 9 = map_del (services_of s4 9) 1861444096"
    using remote_del_server [OF s4(2,3), of 512 2] h by auto
  have run: "stale_services_run = Some (services_of s5 9)"
    using s1(4) s2(4) s4(4) by (simp add: stale_services_run_def init s3(4) s5(2))
  have "map_option sv_instance (map_get (services_of s5 9) 1861444096) = Some 1"
    using stale_services unfolding run option.map(2) option.inject .
  then show ?thesis
    using s1(1) s2(1) s3(1) s4(1) s5(1) by (simp add: stale_server_run_def registered_services h)
qed

text \<open>The length of a datagram is not compared with the fields read from it. Four bytes
  from a local port, the command \<open>NEW_SERVER\<close> alone, register a service whose number and
  instance are what an earlier datagram left in the buffer.\<close>

lemma short_datagram_registers:
  "map_option (\<lambda>(rc, st). registered st 1 40)
     (ctrl_port_fn plain_env (ns_init 3 1) 4
        (ctrl_bytes \<lparr>pk_cmd = QRTR_TYPE_NEW_SERVER, pk_w0 = 4096, pk_w1 = 7, pk_w2 = 0, pk_w3 = 0\<rparr> @
         replicate 4076 0) (at_port 1 40))
   = Some (Some (mk_server 4096 7 1 40))"
proof -
  have "sq_node (at_port 1 40) = ns_local_node (ns_init 3 1)" by (simp add: ns_init_def)
  then obtain rc st' where
    "ctrl_cmd_new_server plain_env (ns_init 3 1) (at_port 1 40) 4096 7 0 0 = Some (rc, st')"
    "registered st' 1 40 = Some (mk_server 4096 7 1 40)"
    using new_server_result [OF ns_init_inv(1) plain_env_memory, of "at_port 1 40" 3 1 0 40 0 4096
      "mk_server 4096 7 1 40" 7] by auto
  then show ?thesis by (simp add: ctrl_port_fn_def)
qed

end
