(* ===== verification/LinkedLists.thy ===== *)
theory LinkedLists
  imports Prelude
begin

text \<open>
  The two intrusive linked lists of the repository over an explicit heap:
  \<^verbatim>\<open>qcom/tqftpserv/list.h\<close> (a ring through a list head) and \<^verbatim>\<open>qcom/qrtr/src/list.h\<close> (a
  structure with the first and the last item). Addresses are natural numbers, 0 is \<open>NULL\<close>;
  reading or writing the links of an address without a node is \<^term>\<open>None\<close>. Both implement
  the same interface, the locale \<open>linked_sequence\<close>, from which follows what the other
  theories rely on when they model the lists of the programs as HOL lists: adding appends,
  and a traversal that removes the current item visits every item once.
\<close>

section \<open>Nodes\<close>

record list_head =
  lh_prev :: nat
  lh_next :: nat

type_synonym heap = "nat \<Rightarrow> list_head option"

definition get_next :: "heap \<Rightarrow> nat \<Rightarrow> nat option" where
  "get_next h a = map_option lh_next (h a)"

definition get_prev :: "heap \<Rightarrow> nat \<Rightarrow> nat option" where
  "get_prev h a = map_option lh_prev (h a)"

definition set_next :: "heap \<Rightarrow> nat \<Rightarrow> nat \<Rightarrow> heap option" where
  "set_next h a v = map_option (\<lambda>n. h(a \<mapsto> n\<lparr>lh_next := v\<rparr>)) (h a)"

definition set_prev :: "heap \<Rightarrow> nat \<Rightarrow> nat \<Rightarrow> heap option" where
  "set_prev h a v = map_option (\<lambda>n. h(a \<mapsto> n\<lparr>lh_prev := v\<rparr>)) (h a)"

section \<open>The ring of tqftpserv\<close>

definition list_init :: "heap \<Rightarrow> nat \<Rightarrow> heap option" where
  "list_init h l = do {
     h1 \<leftarrow> set_next h l l;
     set_prev h1 l l }"

definition list_empty :: "heap \<Rightarrow> nat \<Rightarrow> bool option" where
  "list_empty h l = map_option (\<lambda>n. n = l) (get_next h l)"

definition list_add :: "heap \<Rightarrow> nat \<Rightarrow> nat \<Rightarrow> heap option" where
  "list_add h l item = do {
     prev \<leftarrow> get_prev h l;
     h1 \<leftarrow> set_next h item l;
     h2 \<leftarrow> set_prev h1 item prev;
     h3 \<leftarrow> set_prev h2 l item;
     set_next h3 prev item }"

definition list_del :: "heap \<Rightarrow> nat \<Rightarrow> heap option" where
  "list_del h item = do {
     p \<leftarrow> get_prev h item;
     n \<leftarrow> get_next h item;
     h1 \<leftarrow> set_next h p n;
     n1 \<leftarrow> get_next h1 item;
     p1 \<leftarrow> get_prev h1 item;
     set_prev h1 n1 p1 }"

section \<open>The list of qrtr\<close>

text \<open>\<open>struct list\<close> and the heap its items live in; the two fields \<open>next\<close> and \<open>prev\<close> of
  \<open>struct list_item\<close> are those of \<^typ>\<open>list_head\<close>.\<close>

record qlist =
  q_head :: nat
  q_tail :: nat
  q_heap :: heap

definition qlist_init :: "qlist \<Rightarrow> qlist" where
  "qlist_init l = l\<lparr>q_head := 0, q_tail := 0\<rparr>"

definition list_append :: "qlist \<Rightarrow> nat \<Rightarrow> qlist option" where
  "list_append l item = do {
     h1 \<leftarrow> set_next (q_heap l) item 0;
     h2 \<leftarrow> set_prev h1 item (q_tail l);
     if q_tail l \<noteq> 0 then do {
       h3 \<leftarrow> set_next h2 (q_tail l) item;
       Some (l\<lparr>q_heap := h3, q_tail := item\<rparr>) }
     else Some (l\<lparr>q_heap := h2, q_head := item, q_tail := item\<rparr>) }"

definition list_prepend :: "qlist \<Rightarrow> nat \<Rightarrow> qlist option" where
  "list_prepend l item = do {
     h1 \<leftarrow> set_prev (q_heap l) item 0;
     h2 \<leftarrow> set_next h1 item (q_head l);
     Some (l\<lparr>q_heap := h2, q_head := item, q_tail := (if q_head l = 0 then item else q_tail l)\<rparr>) }"

definition list_insert :: "qlist \<Rightarrow> nat \<Rightarrow> nat \<Rightarrow> qlist option" where
  "list_insert l aft item =
     (if aft = 0 then list_prepend l item
      else do {
        h1 \<leftarrow> set_prev (q_heap l) item aft;
        n \<leftarrow> get_next h1 aft;
        h2 \<leftarrow> set_next h1 item n;
        h3 \<leftarrow> set_next h2 aft item;
        n1 \<leftarrow> get_next h3 item;
        h4 \<leftarrow> (if n1 \<noteq> 0 then set_prev h3 n1 item else Some h3);
        Some (l\<lparr>q_heap := h4, q_tail := (if q_tail l = aft then item else q_tail l)\<rparr>) })"

definition list_remove :: "qlist \<Rightarrow> nat \<Rightarrow> qlist option" where
  "list_remove l item = do {
     n \<leftarrow> get_next (q_heap l) item;
     p \<leftarrow> get_prev (q_heap l) item;
     h1 \<leftarrow> (if n \<noteq> 0 then set_prev (q_heap l) n p else Some (q_heap l));
     n1 \<leftarrow> get_next h1 item;
     p1 \<leftarrow> get_prev h1 item;
     l1 \<leftarrow> (if q_head l = item then
             Some (l\<lparr>q_heap := h1, q_head := n1, q_tail := (if n1 = 0 then 0 else q_tail l)\<rparr>)
           else do {
             h2 \<leftarrow> set_next h1 p1 n1;
             Some (l\<lparr>q_heap := h2, q_tail := (if q_tail l = item then p1 else q_tail l)\<rparr>) });
     h3 \<leftarrow> set_next (q_heap l1) item 0;
     h4 \<leftarrow> set_prev h3 item 0;
     Some (l1\<lparr>q_heap := h4\<rparr>) }"

definition list_pop :: "qlist \<Rightarrow> (nat \<times> qlist) option" where
  "list_pop l =
     (if q_head l = 0 then Some (0, l)
      else map_option (Pair (q_head l)) (list_remove l (q_head l)))"

definition list_last :: "qlist \<Rightarrow> nat" where
  "list_last l = q_tail l"

definition list_first :: "qlist \<Rightarrow> nat" where
  "list_first l = q_head l"

definition list_next :: "qlist \<Rightarrow> nat \<Rightarrow> nat option" where
  "list_next l item = get_next (q_heap l) item"

section \<open>Traversal\<close>

text \<open>The loop of \<open>list_for_each_safe\<close> and \<open>list_for_each_entry_safe\<close>: the successor of the
  current item is read before the body runs. \<open>stop\<close> is the end of the list (the list head
  of a ring, \<open>NULL\<close> for the other list). The first argument bounds the number of
  iterations.\<close>

fun for_each_safe ::
    "nat \<Rightarrow> ('s \<Rightarrow> nat \<Rightarrow> nat option) \<Rightarrow> nat \<Rightarrow> ('s \<Rightarrow> nat \<Rightarrow> 's option) \<Rightarrow> nat \<Rightarrow> 's \<Rightarrow> 's option" where
  "for_each_safe n succ stop body cur s =
     (if cur = stop then Some s
      else (case n of
          0 \<Rightarrow> None
        | Suc m \<Rightarrow> do {
            nx \<leftarrow> succ s cur;
            s1 \<leftarrow> body s cur;
            for_each_safe m succ stop body nx s1 }))"

declare for_each_safe.simps [simp del]

text \<open>The loop of \<open>list_for_each\<close> and \<open>list_for_each_after\<close>: the successor is read after the
  body ran, from the state it left. Nothing bounds the loop if the body adds items.\<close>

partial_function (option) for_each ::
    "('s \<Rightarrow> nat \<Rightarrow> nat option) \<Rightarrow> nat \<Rightarrow> ('s \<Rightarrow> nat \<Rightarrow> 's option) \<Rightarrow> nat \<Rightarrow> 's \<Rightarrow> 's option" where
  "for_each succ stop body cur s =
     (if cur = stop then Some s
      else do {
        s1 \<leftarrow> body s cur;
        nx \<leftarrow> succ s1 cur;
        for_each succ stop body nx s1 })"

section \<open>The interface\<close>

text \<open>What a reader needs: \<open>repr s xs\<close> says that the state \<open>s\<close> holds the items \<open>xs\<close> in this
  order.\<close>

locale sequence_cursor =
  fixes repr :: "'s \<Rightarrow> nat list \<Rightarrow> bool" and succ :: "'s \<Rightarrow> nat \<Rightarrow> nat option" and stop :: nat
  assumes repr_stop: "repr s xs \<Longrightarrow> distinct xs \<and> stop \<notin> set xs"
    and repr_succ: "repr s (as @ x # bs) \<Longrightarrow> succ s x = Some (hd (bs @ [stop]))"
begin

text \<open>A traversal whose body keeps the items visits each of them once: what holds of the visited
  part before each step holds of the whole sequence at the end.\<close>

lemma for_each_from:
  assumes "repr s (as @ bs)" and "I as s"
    and "\<And>as x bs s. xs = as @ x # bs \<Longrightarrow> repr s xs \<Longrightarrow> I as s \<Longrightarrow>
      \<exists>s'. body s x = Some s' \<and> repr s' xs \<and> I (as @ [x]) s'"
    and "xs = as @ bs"
  shows "\<exists>s'. for_each succ stop body (hd (bs @ [stop])) s = Some s' \<and> repr s' xs \<and> I xs s'"
  using assms(1,2,4)
proof (induction bs arbitrary: as s)
  case Nil
  then show ?case by (simp add: for_each.simps)
next
  case (Cons b bs)
  have b: "b \<noteq> stop" using repr_stop [OF Cons.prems(1)] by auto
  obtain s1 where s1: "body s b = Some s1" "repr s1 xs" "I (as @ [b]) s1"
    using assms(3) [of as b bs s] Cons.prems by auto
  have "succ s1 b = Some (hd (bs @ [stop]))" using repr_succ [of s1 as b bs] s1(2) Cons.prems(3) by simp
  moreover have "\<exists>s'. for_each succ stop body (hd (bs @ [stop])) s1 = Some s' \<and> repr s' xs \<and> I xs s'"
    using Cons.IH [of s1 "as @ [b]"] s1 Cons.prems(3) by simp
  ultimately show ?case using b s1(1) by (subst for_each.simps) simp
qed

lemmas for_each_all = for_each_from [of _ "[]", simplified]

end

text \<open>What a client that changes the sequence needs: \<open>fresh s x\<close> says that \<open>x\<close> is a node that
  can be added.\<close>

locale linked_sequence = sequence_cursor repr succ stop
  for repr :: "'s \<Rightarrow> nat list \<Rightarrow> bool" and succ :: "'s \<Rightarrow> nat \<Rightarrow> nat option" and stop :: nat +
  fixes fresh :: "'s \<Rightarrow> nat \<Rightarrow> bool"
    and add :: "'s \<Rightarrow> nat \<Rightarrow> 's option" and del :: "'s \<Rightarrow> nat \<Rightarrow> 's option"
    and first :: "'s \<Rightarrow> nat option"
  assumes repr_first: "repr s xs \<Longrightarrow> first s = Some (hd (xs @ [stop]))"
    and repr_add: "repr s xs \<Longrightarrow> fresh s x \<Longrightarrow> x \<notin> set xs \<Longrightarrow> \<exists>s'. add s x = Some s' \<and> repr s' (xs @ [x])"
    and repr_del: "repr s (as @ x # bs) \<Longrightarrow> \<exists>s'. del s x = Some s' \<and> repr s' (as @ bs)"
begin

lemma sweep_from:
  assumes "repr s (as @ bs)" and "length bs \<le> n"
  shows "\<exists>s'. for_each_safe n succ stop (\<lambda>s x. if P x then del s x else Some s) (hd (bs @ [stop])) s = Some s' \<and>
    repr s' (as @ filter (\<lambda>x. \<not> P x) bs)"
  using assms
proof (induction bs arbitrary: as s n)
  case Nil
  then show ?case by (simp add: for_each_safe.simps)
next
  case (Cons b bs)
  then obtain m where m: "n = Suc m" "length bs \<le> m" by (cases n) auto
  have b: "b \<noteq> stop" using repr_stop [OF Cons.prems(1)] by auto
  obtain s1 where s1: "(if P b then del s b else Some s) = Some s1"
    "repr s1 ((if P b then as else as @ [b]) @ bs)"
    using repr_del [OF Cons.prems(1)] Cons.prems(1) by (cases "P b") auto
  from Cons.IH [OF s1(2) m(2)] repr_succ [OF Cons.prems(1)] s1(1) b show ?case
    by (subst for_each_safe.simps) (auto simp: m(1) split: if_splits)
qed

lemma sweep:
  assumes "repr s xs"
  shows "\<exists>c s'. first s = Some c \<and>
    for_each_safe (length xs) succ stop (\<lambda>s x. if P x then del s x else Some s) c s = Some s' \<and>
    repr s' (filter (\<lambda>x. \<not> P x) xs)"
  using sweep_from [of s "[]" xs "length xs" P] repr_first [OF assms] assms by auto

lemma add_del:
  assumes "repr s xs" and "fresh s x" and "x \<notin> set xs"
  shows "\<exists>s' s''. add s x = Some s' \<and> del s' x = Some s'' \<and> repr s'' xs"
  using repr_add [OF assms] repr_del [of _ xs x "[]"] by auto

end

section \<open>Chains of links\<close>

text \<open>\<open>chain N P xs\<close>: the successor function \<open>N\<close> and the predecessor function \<open>P\<close> link the
  items of \<open>xs\<close> in this order.\<close>

fun chain :: "(nat \<Rightarrow> nat option) \<Rightarrow> (nat \<Rightarrow> nat option) \<Rightarrow> nat list \<Rightarrow> bool" where
  "chain N P (a # b # xs) = (N a = Some b \<and> P b = Some a \<and> chain N P (b # xs))"
| "chain N P xs = True"

lemma chain_append: "chain N P (as @ x # bs) \<longleftrightarrow> chain N P (as @ [x]) \<and> chain N P (x # bs)"
  by (induction as rule: induct_list012) auto

lemma chain_join: "chain N P (as @ x # y # bs) \<longleftrightarrow>
    chain N P (as @ [x]) \<and> N x = Some y \<and> P y = Some x \<and> chain N P (y # bs)"
  using chain_append [of N P as x "y # bs"] by auto

lemma chain_next: "a \<notin> set (butlast xs) \<Longrightarrow> chain (N(a := v)) P xs = chain N P xs"
  by (induction N P xs rule: chain.induct) auto

lemma chain_prev: "a \<notin> set (tl xs) \<Longrightarrow> chain N (P(a := v)) xs = chain N P xs"
  by (induction N P xs rule: chain.induct) auto

lemma chain_end: "chain N P (l # xs @ [l]) \<Longrightarrow> \<exists>p. P l = Some p \<and> N p = Some l"
  using chain_append [of N P "butlast (l # xs)" "last (l # xs)" "[l]"]
  by (metis append_Cons append_butlast_last_id append_eq_append_conv2 chain.simps(1) append.assoc append_Nil list.distinct(1))

lemma chain_add:
  assumes "chain N P (l # xs @ [l])" and "distinct (l # xs)" and "item \<noteq> l" and "item \<notin> set xs" and "P l = Some p"
  shows "chain (N(item \<mapsto> l, p \<mapsto> item)) (P(item \<mapsto> p, l \<mapsto> item)) (l # (xs @ [item]) @ [l])"
proof -
  let ?N = "N(item \<mapsto> l, p \<mapsto> item)" and ?P = "P(item \<mapsto> p, l \<mapsto> item)"
  obtain ys q where q: "l # xs = ys @ [q]" by (metis append_butlast_last_id list.distinct(1))
  have "l # xs @ [l] = ys @ [q, l]" using arg_cong [OF q, of "\<lambda>z. z @ [l]"] by simp
  then have c: "chain N P (ys @ [q, l])" using assms(1) by metis
  then have "q = p" using chain_join [of N P ys q l "[]"] assms(5) by simp
  have d: "distinct (ys @ [q])" using assms(2) q by metis
  have i: "item \<notin> set (ys @ [q])" using assms(3,4) q by (metis set_ConsD)
  have "item \<notin> set (tl (ys @ [q]))" using i by (meson list.set_sel(2) snoc_eq_iff_butlast)
  moreover have "l \<notin> set (tl (ys @ [q]))" using assms(2) q by (metis distinct.simps(2) list.sel(3))
  moreover have "chain N P (ys @ [q])" using c chain_append [of N P ys q "[l]"] by simp
  ultimately have "chain ?N ?P (ys @ [q])"
    using i d by (simp add: chain_next chain_prev \<open>q = p\<close>)
  moreover have "item \<noteq> q" using i by auto
  ultimately have "chain ?N ?P (ys @ q # item # [l])"
    unfolding chain_join using assms(3) by (simp add: \<open>q = p\<close>)
  moreover have "l # (xs @ [item]) @ [l] = ys @ q # item # [l]" using arg_cong [OF q, of "\<lambda>z. z @ [item, l]"] by simp
  ultimately show ?thesis by (simp only:)
qed

text \<open>The neighbours of an item, and the chain without it.\<close>

lemma chain_around:
  assumes "chain N P (l # (as @ x # bs) @ [l])" and "distinct (l # as @ x # bs)"
  shows "N x = Some (hd (bs @ [l]))" "P x = Some (last (l # as))" "N (last (l # as)) = Some x"
    "P (hd (bs @ [l])) = Some x"
    "chain (N(last (l # as) \<mapsto> hd (bs @ [l]))) (P(hd (bs @ [l]) \<mapsto> last (l # as))) (l # (as @ bs) @ [l])"
proof -
  obtain ys u where u: "l # as = ys @ [u]" by (metis append_butlast_last_id list.distinct(1))
  obtain v zs where v: "bs @ [l] = v # zs" by (cases "bs @ [l]") auto
  have e: "last (l # as) = u" "hd (bs @ [l]) = v" using u v by (simp_all only: last_snoc list.sel)
  have eq: "l # (as @ x # bs) @ [l] = ys @ u # x # v # zs" using arg_cong [OF u, of "\<lambda>z. z @ x # bs @ [l]"] v by simp
  have c: "chain N P (ys @ u # x # v # zs)" using assms(1) unfolding eq .
  then have cc: "chain N P (ys @ [u])" "N u = Some x" "P x = Some u" "N x = Some v" "P v = Some x" "chain N P (v # zs)"
    by (auto simp: chain_join)
  then show "N x = Some (hd (bs @ [l]))" "P x = Some (last (l # as))" "N (last (l # as)) = Some x"
    "P (hd (bs @ [l])) = Some x" unfolding e by simp_all
  have "u \<notin> set ys" "v \<notin> set (tl (ys @ [u]))"
  proof -
    have "distinct (ys @ [u])" using assms(2) u by (metis append_Cons distinct_append)
    then show "u \<notin> set ys" by simp
    have "tl (ys @ [u]) = as" using u by (metis list.sel(3))
    moreover have "v \<in> insert l (set bs)" using v by (cases bs) auto
    ultimately show "v \<notin> set (tl (ys @ [u]))" using assms(2) by auto
  qed
  moreover have "u \<notin> set (butlast (v # zs))" "v \<notin> set zs"
  proof -
    have "butlast (v # zs) = bs" using v by (metis butlast_snoc)
    moreover have "u \<in> insert l (set as)" using u by (metis last_in_set last_snoc list.discI list.set(2))
    ultimately show "u \<notin> set (butlast (v # zs))" using assms(2) by auto
    show "v \<notin> set zs" using v assms(2) by (cases bs) auto
  qed
  ultimately have "chain (N(u \<mapsto> v)) (P(v \<mapsto> u)) (ys @ u # v # zs)"
    using cc unfolding chain_join by (simp add: chain_next chain_prev)
  moreover have "l # (as @ bs) @ [l] = ys @ u # v # zs" using arg_cong [OF u, of "\<lambda>z. z @ bs @ [l]"] v by simp
  ultimately show "chain (N(last (l # as) \<mapsto> hd (bs @ [l]))) (P(hd (bs @ [l]) \<mapsto> last (l # as))) (l # (as @ bs) @ [l])"
    unfolding e by (simp only:)
qed

lemma set_next_links:
  assumes "a \<in> dom h"
  shows "\<exists>h'. set_next h a v = Some h' \<and> get_next h' = (get_next h)(a \<mapsto> v) \<and>
     get_prev h' = get_prev h \<and> dom h' = dom h"
proof -
  obtain n where "h a = Some n" using assms by blast
  then show ?thesis
    by (intro exI [of _ "h(a \<mapsto> n\<lparr>lh_next := v\<rparr>)"]) (auto simp: set_next_def get_next_def get_prev_def fun_eq_iff)
qed

lemma set_prev_links:
  assumes "a \<in> dom h"
  shows "\<exists>h'. set_prev h a v = Some h' \<and> get_prev h' = (get_prev h)(a \<mapsto> v) \<and>
     get_next h' = get_next h \<and> dom h' = dom h"
proof -
  obtain n where "h a = Some n" using assms by blast
  then show ?thesis
    by (intro exI [of _ "h(a \<mapsto> n\<lparr>lh_prev := v\<rparr>)"]) (auto simp: set_prev_def get_next_def get_prev_def fun_eq_iff)
qed

lemma get_next_dom: "get_next h a = Some v \<Longrightarrow> a \<in> dom h"
  and get_prev_dom: "get_prev h a = Some v \<Longrightarrow> a \<in> dom h"
  by (auto simp: get_next_def get_prev_def)

section \<open>The ring is a sequence\<close>

definition ring :: "nat \<Rightarrow> heap \<Rightarrow> nat list \<Rightarrow> bool" where
  "ring l h xs \<longleftrightarrow> distinct (l # xs) \<and> chain (get_next h) (get_prev h) (l # xs @ [l])"

lemma list_add_links:
  assumes "get_prev h l = Some p" and "item \<in> dom h" and "p \<in> dom h" and "item \<noteq> l"
  shows "\<exists>h'. list_add h l item = Some h' \<and> get_next h' = (get_next h)(item \<mapsto> l, p \<mapsto> item) \<and>
    get_prev h' = (get_prev h)(item \<mapsto> p, l \<mapsto> item)"
proof -
  obtain h1 where 1: "set_next h item l = Some h1" "get_next h1 = (get_next h)(item \<mapsto> l)"
    "get_prev h1 = get_prev h" "dom h1 = dom h"
    using set_next_links [OF assms(2)] by blast
  then have "item \<in> dom h1" using assms(2) by simp
  from set_prev_links [OF this, of p] obtain h2 where 2: "set_prev h1 item p = Some h2"
    "get_prev h2 = (get_prev h1)(item \<mapsto> p)" "get_next h2 = get_next h1" "dom h2 = dom h1" by blast
  then have "l \<in> dom h2" using get_prev_dom [OF assms(1)] 1(4) by simp
  from set_prev_links [OF this, of item] obtain h3 where 3: "set_prev h2 l item = Some h3"
    "get_prev h3 = (get_prev h2)(l \<mapsto> item)" "get_next h3 = get_next h2" "dom h3 = dom h2" by blast
  then have "p \<in> dom h3" using assms(3) 1(4) 2(4) by simp
  from set_next_links [OF this, of item] obtain h4 where 4: "set_next h3 p item = Some h4"
    "get_next h4 = (get_next h3)(p \<mapsto> item)" "get_prev h4 = get_prev h3" by blast
  from 1 2 3 4 assms(1) show ?thesis by (simp add: list_add_def)
qed

lemma ring_add:
  assumes "ring l h xs" and "item \<in> dom h" and "item \<noteq> l" and "item \<notin> set xs"
  shows "\<exists>h'. list_add h l item = Some h' \<and> ring l h' (xs @ [item])"
proof -
  from assms(1) have r: "chain (get_next h) (get_prev h) (l # xs @ [l])" "distinct (l # xs)" by (auto simp: ring_def)
  from chain_end [OF r(1)] obtain p where p: "get_prev h l = Some p" "get_next h p = Some l" by blast
  from list_add_links [OF p(1) assms(2) get_next_dom [OF p(2)] assms(3)] obtain h' where
    "list_add h l item = Some h'" "get_next h' = (get_next h)(item \<mapsto> l, p \<mapsto> item)"
    "get_prev h' = (get_prev h)(item \<mapsto> p, l \<mapsto> item)" by blast
  with chain_add [OF r assms(3,4) p(1)] r(2) assms(3,4) show ?thesis by (auto simp: ring_def)
qed

lemma list_del_links:
  assumes "get_prev h x = Some u" and "get_next h x = Some v" and "u \<in> dom h" and "v \<in> dom h" and "x \<noteq> u"
  shows "\<exists>h'. list_del h x = Some h' \<and> get_next h' = (get_next h)(u \<mapsto> v) \<and> get_prev h' = (get_prev h)(v \<mapsto> u)"
proof -
  obtain h1 where 1: "set_next h u v = Some h1" "get_next h1 = (get_next h)(u \<mapsto> v)"
    "get_prev h1 = get_prev h" "dom h1 = dom h"
    using set_next_links [OF assms(3)] by blast
  then have "v \<in> dom h1" using assms(4) by simp
  from set_prev_links [OF this, of u] obtain h2 where 2: "set_prev h1 v u = Some h2"
    "get_prev h2 = (get_prev h1)(v \<mapsto> u)" "get_next h2 = get_next h1" by blast
  with 1 assms show ?thesis by (simp add: list_del_def)
qed

lemma ring_del:
  assumes "ring l h (as @ x # bs)"
  shows "\<exists>h'. list_del h x = Some h' \<and> ring l h' (as @ bs)"
proof -
  from assms have d: "distinct (l # as @ x # bs)" and c: "chain (get_next h) (get_prev h) (l # (as @ x # bs) @ [l])"
    by (auto simp: ring_def)
  note a = chain_around [OF c d]
  have "x \<noteq> last (l # as)" using d last_in_set [of "l # as"] by auto
  from list_del_links [OF a(2,1) get_next_dom [OF a(3)] get_prev_dom [OF a(4)] this] obtain h' where
    "list_del h x = Some h'" "get_next h' = (get_next h)(last (l # as) \<mapsto> hd (bs @ [l]))"
    "get_prev h' = (get_prev h)(hd (bs @ [l]) \<mapsto> last (l # as))" by blast
  with a(5) d show ?thesis by (simp add: ring_def)
qed

lemma ring_succ: "ring l h (as @ x # bs) \<Longrightarrow> get_next h x = Some (hd (bs @ [l]))"
  using chain_around(1) [of "get_next h" "get_prev h" l as x bs] by (auto simp: ring_def)

lemma ring_first: "ring l h xs \<Longrightarrow> get_next h l = Some (hd (xs @ [l]))"
  by (cases xs) (auto simp: ring_def)

interpretation tqlist: linked_sequence "ring l" get_next l "\<lambda>h x. x \<in> dom h \<and> x \<noteq> l"
  "\<lambda>h x. list_add h l x" list_del "\<lambda>h. get_next h l" for l
proof unfold_locales
  show "distinct xs \<and> l \<notin> set xs" if "ring l h xs" for h xs using that by (simp add: ring_def)
qed (auto intro: ring_first ring_succ ring_add ring_del)


section \<open>The list of qrtr is a sequence\<close>

text \<open>With \<open>NULL\<close> as a node whose links are the first and the last item, the list is a ring.\<close>

definition qnext :: "qlist \<Rightarrow> nat \<Rightarrow> nat option" where
  "qnext l = (get_next (q_heap l))(0 \<mapsto> q_head l)"

definition qprev :: "qlist \<Rightarrow> nat \<Rightarrow> nat option" where
  "qprev l = (get_prev (q_heap l))(0 \<mapsto> q_tail l)"

definition qring :: "qlist \<Rightarrow> nat list \<Rightarrow> bool" where
  "qring l xs \<longleftrightarrow> distinct (0 # xs) \<and> chain (qnext l) (qprev l) (0 # xs @ [0])"

lemma qnext_dom: "qnext l a = Some v \<Longrightarrow> a \<noteq> 0 \<Longrightarrow> a \<in> dom (q_heap l)"
  and qprev_dom: "qprev l a = Some v \<Longrightarrow> a \<noteq> 0 \<Longrightarrow> a \<in> dom (q_heap l)"
  by (auto simp: qnext_def qprev_def dest: get_next_dom get_prev_dom)

lemma list_append_links:
  assumes "item \<in> dom (q_heap l)" and "item \<noteq> 0" and "q_tail l = 0 \<or> q_tail l \<in> dom (q_heap l)"
  shows "\<exists>l'. list_append l item = Some l' \<and> (q_tail l = 0 \<or> q_head l' = q_head l) \<and>
    qnext l' = (qnext l)(item \<mapsto> 0, q_tail l \<mapsto> item) \<and> qprev l' = (qprev l)(item \<mapsto> q_tail l, 0 \<mapsto> item)"
proof -
  obtain h1 where 1: "set_next (q_heap l) item 0 = Some h1" "get_next h1 = (get_next (q_heap l))(item \<mapsto> 0)"
    "get_prev h1 = get_prev (q_heap l)" "dom h1 = dom (q_heap l)"
    using set_next_links [OF assms(1)] by blast
  then have "item \<in> dom h1" using assms(1) by simp
  from set_prev_links [OF this, of "q_tail l"] obtain h2 where 2: "set_prev h1 item (q_tail l) = Some h2"
    "get_prev h2 = (get_prev h1)(item \<mapsto> q_tail l)" "get_next h2 = get_next h1" "dom h2 = dom h1" by blast
  show ?thesis
  proof (cases "q_tail l = 0")
    case True
    then show ?thesis using 1 2 assms(2) by (simp add: list_append_def qnext_def qprev_def fun_upd_twist)
  next
    case False
    then have "q_tail l \<in> dom h2" using assms(3) 1(4) 2(4) by simp
    from set_next_links [OF this, of item] obtain h3 where "set_next h2 (q_tail l) item = Some h3"
      "get_next h3 = (get_next h2)(q_tail l \<mapsto> item)" "get_prev h3 = get_prev h2" by blast
    with 1 2 assms(2) False show ?thesis by (auto simp: list_append_def qnext_def qprev_def fun_eq_iff)
  qed
qed

lemma qring_append:
  assumes "qring l xs" and "item \<in> dom (q_heap l)" and "item \<noteq> 0" and "item \<notin> set xs"
  shows "\<exists>l'. list_append l item = Some l' \<and> qring l' (xs @ [item])"
proof -
  from assms(1) have r: "chain (qnext l) (qprev l) (0 # xs @ [0])" "distinct (0 # xs)" by (auto simp: qring_def)
  have p: "qprev l 0 = Some (q_tail l)" by (simp add: qprev_def)
  with chain_end [OF r(1)] have "qnext l (q_tail l) = Some 0" by simp
  then have "q_tail l = 0 \<or> q_tail l \<in> dom (q_heap l)" using qnext_dom by blast
  from list_append_links [OF assms(2,3) this] chain_add [OF r assms(3,4) p] r(2) assms(3,4)
  show ?thesis by (auto simp: qring_def)
qed

lemma list_remove_links:
  assumes "get_next (q_heap l) x = Some n" and "get_prev (q_heap l) x = Some p"
    and "n = 0 \<or> n \<in> dom (q_heap l)" and "p = 0 \<or> p \<in> dom (q_heap l)" and "x \<noteq> n" and "x \<noteq> p" and "x \<noteq> 0"
    and "q_head l = x \<longleftrightarrow> p = 0" and "q_tail l = x \<longleftrightarrow> n = 0"
  shows "\<exists>l'. list_remove l x = Some l' \<and> qnext l' = (qnext l)(p \<mapsto> n, x \<mapsto> 0) \<and>
    qprev l' = (qprev l)(n \<mapsto> p, x \<mapsto> 0)"
proof -
  obtain h1 where 1: "(if n \<noteq> 0 then set_prev (q_heap l) n p else Some (q_heap l)) = Some h1"
    "get_next h1 = get_next (q_heap l)"
    "get_prev h1 = (if n \<noteq> 0 then (get_prev (q_heap l))(n \<mapsto> p) else get_prev (q_heap l))"
    "dom h1 = dom (q_heap l)"
    using set_prev_links [of n "q_heap l" p] assms(3) by (cases "n = 0") auto
  have "\<exists>l1. (if q_head l = x then Some (l\<lparr>q_heap := h1, q_head := n, q_tail := (if n = 0 then 0 else q_tail l)\<rparr>)
      else do { h2 \<leftarrow> set_next h1 p n;
        Some (l\<lparr>q_heap := h2, q_tail := (if q_tail l = x then p else q_tail l)\<rparr>) }) = Some l1 \<and>
    qnext l1 = (qnext l)(p \<mapsto> n) \<and> qprev l1 = (qprev l)(n \<mapsto> p) \<and> dom (q_heap l1) = dom (q_heap l)"
  proof (cases "p = 0")
    case True
    then show ?thesis using assms(8,9) 1(2,3,4) by (simp add: qnext_def qprev_def fun_upd_twist)
  next
    case False
    then have "p \<in> dom h1" using assms(4) 1(4) by simp
    from set_next_links [OF this, of n] obtain h2 where "set_next h1 p n = Some h2"
      "get_next h2 = (get_next h1)(p \<mapsto> n)" "get_prev h2 = get_prev h1" "dom h2 = dom h1" by blast
    then show ?thesis using False assms(8,9) 1(2,3,4) by (simp add: qnext_def qprev_def fun_upd_twist)
  qed
  then obtain l1 where 2: "(if q_head l = x then Some (l\<lparr>q_heap := h1, q_head := n, q_tail := (if n = 0 then 0 else q_tail l)\<rparr>)
      else do { h2 \<leftarrow> set_next h1 p n;
        Some (l\<lparr>q_heap := h2, q_tail := (if q_tail l = x then p else q_tail l)\<rparr>) }) = Some l1"
    "qnext l1 = (qnext l)(p \<mapsto> n)" "qprev l1 = (qprev l)(n \<mapsto> p)" "dom (q_heap l1) = dom (q_heap l)" by blast
  have x: "x \<in> dom (q_heap l1)" using get_next_dom [OF assms(1)] 2(4) by simp
  from set_next_links [OF x, of 0] obtain h3 where 3: "set_next (q_heap l1) x 0 = Some h3"
    "get_next h3 = (get_next (q_heap l1))(x \<mapsto> 0)" "get_prev h3 = get_prev (q_heap l1)" "dom h3 = dom (q_heap l1)" by blast
  then have "x \<in> dom h3" using x by simp
  from set_prev_links [OF this, of 0] obtain h4 where 4: "set_prev h3 x 0 = Some h4"
    "get_prev h4 = (get_prev h3)(x \<mapsto> 0)" "get_next h4 = get_next h3" by blast
  have g: "get_next h1 x = Some n" "get_prev h1 x = Some p" using 1(2,3) assms(1,2,5) by auto
  have "list_remove l x = Some (l1\<lparr>q_heap := h4\<rparr>)"
    by (simp only: list_remove_def assms(1,2) Option.bind.simps 1(1) g 2(1) 3(1) 4(1))
  moreover have "qnext (l1\<lparr>q_heap := h4\<rparr>) = (qnext l1)(x \<mapsto> 0)" "qprev (l1\<lparr>q_heap := h4\<rparr>) = (qprev l1)(x \<mapsto> 0)"
    using 3 4 assms(7) by (auto simp: qnext_def qprev_def fun_eq_iff)
  ultimately show ?thesis using 2(2,3) by simp
qed

lemma qring_remove:
  assumes "qring l (as @ x # bs)"
  shows "\<exists>l'. list_remove l x = Some l' \<and> qring l' (as @ bs)"
proof -
  from assms have d: "distinct (0 # as @ x # bs)" and c: "chain (qnext l) (qprev l) (0 # (as @ x # bs) @ [0])"
    by (auto simp: qring_def)
  let ?n = "hd (bs @ [0])" and ?p = "last (0 # as)"
  note a = chain_around [OF c d]
  have x: "x \<noteq> 0" "x \<noteq> ?n" "x \<noteq> ?p" using d last_in_set [of "0 # as"] by (auto simp: hd_append)
  have h: "qnext l 0 = Some (q_head l)" "qprev l 0 = Some (q_tail l)" by (simp_all add: qnext_def qprev_def)
  have e1: "q_head l = x \<longleftrightarrow> ?p = 0"
  proof
    assume "q_head l = x"
    then have "qnext l 0 = Some x" using h by simp
    show "?p = 0"
    proof (cases as)
      case (Cons b cs)
      then have "qnext l 0 = Some b" using c by simp
      then show ?thesis using \<open>qnext l 0 = Some x\<close> Cons d by auto
    qed simp
  qed (use a(3) h in simp)
  have e2: "q_tail l = x \<longleftrightarrow> ?n = 0"
  proof
    assume t: "q_tail l = x"
    show "?n = 0"
    proof (cases bs rule: rev_cases)
      case (snoc cs b)
      have "chain (qnext l) (qprev l) ((0 # as @ x # cs) @ b # [0])" using c snoc by simp
      then have "qprev l 0 = Some b" using chain_append [of _ _ "0 # as @ x # cs" b "[0]"] by simp
      then show ?thesis using t h snoc d by auto
    qed simp
  qed (use a(4) h in simp)
  have g: "get_next (q_heap l) x = Some ?n" "get_prev (q_heap l) x = Some ?p"
    using a(1,2) x(1) by (auto simp: qnext_def qprev_def simp del: last.simps)
  have dm: "?n = 0 \<or> ?n \<in> dom (q_heap l)" "?p = 0 \<or> ?p \<in> dom (q_heap l)"
    using qprev_dom [OF a(4)] qnext_dom [OF a(3)] by blast+
  obtain l' where l': "list_remove l x = Some l'" "qnext l' = (qnext l)(?p \<mapsto> ?n, x \<mapsto> 0)"
    "qprev l' = (qprev l)(?n \<mapsto> ?p, x \<mapsto> 0)"
    using list_remove_links [OF g dm x(2,3,1) e1 e2] by blast
  have "x \<notin> set (0 # (as @ bs) @ [0])" using d by auto
  then have "x \<notin> set (butlast (0 # (as @ bs) @ [0]))" "x \<notin> set (tl (0 # (as @ bs) @ [0]))"
    by (auto dest: in_set_butlastD)
  then have "chain (qnext l') (qprev l') (0 # (as @ bs) @ [0])"
    using a(5) unfolding l'(2,3) by (metis chain_next chain_prev)
  then show ?thesis using l'(1) d by (auto simp: qring_def)
qed

lemma qring_succ: "qring l (as @ x # bs) \<Longrightarrow> list_next l x = Some (hd (bs @ [0]))"
  using chain_around(1) [of "qnext l" "qprev l" 0 as x bs] by (auto simp: qring_def list_next_def qnext_def)

lemma qring_first: "qring l xs \<Longrightarrow> list_first l = hd (xs @ [0])"
  by (cases xs) (auto simp: qring_def list_first_def qnext_def)

text \<open>Allocating or releasing a node outside the list does not change it, and neither appending nor
  removing allocates or releases a node.\<close>

lemma qring_other_node:
  assumes "qring l xs" and "x \<notin> set xs" and "x \<noteq> 0"
  shows "qring (l\<lparr>q_heap := (q_heap l)(x := v)\<rparr>) xs"
proof -
  have "get_next (h(x := v)) = (get_next h)(x := map_option lh_next v)"
    "get_prev (h(x := v)) = (get_prev h)(x := map_option lh_prev v)" for h
    by (auto simp: get_next_def get_prev_def fun_eq_iff)
  then have q: "qnext (l\<lparr>q_heap := (q_heap l)(x := v)\<rparr>) = (qnext l)(x := map_option lh_next v)"
    "qprev (l\<lparr>q_heap := (q_heap l)(x := v)\<rparr>) = (qprev l)(x := map_option lh_prev v)"
    using assms(3) by (auto simp: qnext_def qprev_def fun_eq_iff)
  have x: "x \<notin> set (0 # xs @ [0])" using assms(2,3) by simp
  then have "x \<notin> set (butlast (0 # xs @ [0]))" "x \<notin> set (tl (0 # xs @ [0]))"
    using in_set_butlastD [of x "0 # xs @ [0]"] by auto
  then have "chain ((qnext l)(x := n)) ((qprev l)(x := p)) (0 # xs @ [0]) = chain (qnext l) (qprev l) (0 # xs @ [0])" for n p
    by (metis chain_next chain_prev)
  then show ?thesis using assms(1) by (simp only: qring_def q)
qed

lemma set_next_domain: "set_next h a v = Some h' \<Longrightarrow> dom h' = dom h"
  and set_prev_domain: "set_prev h a v = Some h' \<Longrightarrow> dom h' = dom h"
  by (auto simp: set_next_def set_prev_def split: option.splits if_splits)

lemma list_append_domain: "list_append l x = Some l' \<Longrightarrow> dom (q_heap l') = dom (q_heap l)"
  by (auto simp: list_append_def bind_eq_Some_conv dest!: set_next_domain set_prev_domain split: if_splits
    simp del: not_gr_zero del: equalityI)

lemma list_remove_domain: "list_remove l x = Some l' \<Longrightarrow> dom (q_heap l') = dom (q_heap l)"
  by (auto simp: list_remove_def bind_eq_Some_conv dest!: set_next_domain set_prev_domain split: if_splits
    simp del: not_gr_zero del: equalityI)

interpretation qrlist: linked_sequence qring list_next 0 "\<lambda>l x. x \<in> dom (q_heap l) \<and> x \<noteq> 0"
  list_append list_remove "\<lambda>l. Some (list_first l)"
proof unfold_locales
  show "distinct xs \<and> 0 \<notin> set xs" if "qring l xs" for l xs using that by (simp add: qring_def)
qed (auto intro: qring_first qring_succ qring_append qring_remove)


section \<open>Properties\<close>

text \<open>The list head of tqftpserv implements a sequence. Adding a node to a ring appends it, deleting
  a node removes it wherever it is, no other part of the order changes, and the safe traversal
  that deletes the items with a property ends, having deleted exactly those.\<close>

lemma tqftp_list_sequence:
  assumes "ring l h xs"
  shows "(x \<in> dom h \<and> x \<noteq> l \<and> x \<notin> set xs \<longrightarrow> (\<exists>h'. list_add h l x = Some h' \<and> ring l h' (xs @ [x]))) \<and>
    (\<forall>as bs. xs = as @ x # bs \<longrightarrow> (\<exists>h'. list_del h x = Some h' \<and> ring l h' (as @ bs))) \<and>
    (\<exists>c h'. get_next h l = Some c \<and>
      for_each_safe (length xs) get_next l (\<lambda>h x. if P x then list_del h x else Some h) c h = Some h' \<and>
      ring l h' (filter (\<lambda>x. \<not> P x) xs))"
  using assms tqlist.repr_add [OF assms, of x] tqlist.repr_del [of l h _ x] tqlist.sweep [OF assms, of P] by blast

definition demo_ring :: "heap option" where
  "demo_ring = do {
     h0 \<leftarrow> list_init (\<lambda>a. if a \<in> {1, 2, 3} then Some \<lparr>lh_prev = 0, lh_next = 0\<rparr> else None) 1;
     h1 \<leftarrow> list_add h0 1 2;
     list_add h1 1 3 }"

text \<open>C23: the list of qrtr implements a sequence, with the same operations: appending, removing
  from any place, and the safe traversal that removes items (\<open>ctrl_cmd_del_client\<close> uses it on
  the registered observers).\<close>

theorem qrtr_list_sequence:
  assumes "qring l xs"
  shows "(x \<in> dom (q_heap l) \<and> x \<noteq> 0 \<and> x \<notin> set xs \<longrightarrow>
      (\<exists>l'. list_append l x = Some l' \<and> qring l' (xs @ [x]))) \<and>
    (\<forall>as bs. xs = as @ x # bs \<longrightarrow> (\<exists>l'. list_remove l x = Some l' \<and> qring l' (as @ bs))) \<and>
    (\<exists>l'. for_each_safe (length xs) list_next 0 (\<lambda>l x. if P x then list_remove l x else Some l) (list_first l) l = Some l' \<and>
      qring l' (filter (\<lambda>x. \<not> P x) xs))"
  using assms qrlist.repr_add [OF assms, of x] qrlist.repr_del [of l _ x] qrlist.sweep [OF assms, of P] by blast

definition demo_qlist :: "qlist option" where
  "demo_qlist = do {
     let l0 = qlist_init \<lparr>q_head = 9, q_tail = 9,
       q_heap = \<lambda>a. if a \<in> {1, 2, 3} then Some \<lparr>lh_prev = 0, lh_next = 0\<rparr> else None\<rparr>;
     l1 \<leftarrow> list_append l0 1;
     l2 \<leftarrow> list_append l1 2;
     list_append l2 3 }"

theorem qrtr_list_sequence_witness:
  "\<exists>l l'. demo_qlist = Some l \<and> list_remove l 2 = Some l' \<and> qring l' [1, 3]"
proof -
  have "\<exists>l. demo_qlist = Some l \<and> qring l [1, 2, 3]"
    by (auto simp: demo_qlist_def qlist_init_def list_append_def set_next_def set_prev_def get_next_def get_prev_def
        qring_def qnext_def qprev_def)
  then obtain l where l: "demo_qlist = Some l" "qring l [1, 2, 3]" by blast
  have "\<forall>as bs. [1, 2, 3] = as @ 2 # bs \<longrightarrow> (\<exists>l'. list_remove l 2 = Some l' \<and> qring l' (as @ bs))"
    using qrtr_list_sequence [OF l(2), of 2] by blast
  from this [rule_format, of "[1]" "[3]"] l(1) show ?thesis by auto
qed

text \<open>\<open>list_prepend\<close> does not set the back link of the old first item, so removing that item
  afterwards follows a null pointer.\<close>

lemma list_prepend_breaks_remove:
  assumes "qring l (a # xs)" and "b \<in> dom (q_heap l)" and "b \<notin> set (0 # a # xs)" and "q_heap l 0 = None"
  shows "\<exists>l'. list_prepend l b = Some l' \<and> list_remove l' a = None"
proof -
  have c: "chain (qnext l) (qprev l) (0 # ([] @ a # xs) @ [0])" "distinct (0 # [] @ a # xs)"
    using assms(1) by (auto simp: qring_def)
  note g = chain_around [OF c]
  have a: "a \<noteq> 0" "b \<noteq> 0" "b \<noteq> a" "q_head l = a" using c assms(3) g(3) by (auto simp: qnext_def)
  have n: "get_prev (q_heap l) a = Some 0" "get_next (q_heap l) a = Some (hd (xs @ [0]))"
    using g(1,2) a by (auto simp: qnext_def qprev_def)
  obtain h1 where 1: "set_prev (q_heap l) b 0 = Some h1" "get_prev h1 = (get_prev (q_heap l))(b \<mapsto> 0)"
    "get_next h1 = get_next (q_heap l)" "dom h1 = dom (q_heap l)"
    using set_prev_links [OF assms(2)] by blast
  have "b \<in> dom h1" using 1(4) assms(2) by simp
  from set_next_links [OF this, of a] obtain h2 where 2: "set_next h1 b a = Some h2"
    "get_next h2 = (get_next h1)(b \<mapsto> a)" "get_prev h2 = get_prev h1" "dom h2 = dom h1" by blast
  have p: "list_prepend l b = Some (l\<lparr>q_heap := h2, q_head := b\<rparr>)"
    using 1(1) 2(1) a by (simp add: list_prepend_def)
  have z: "set_next h 0 v = None" if "dom h = dom (q_heap l)" for h v
    using assms(4) that by (auto simp: set_next_def domIff)
  have l: "get_prev h2 a = Some 0" "get_next h2 a = Some (hd (xs @ [0]))" using 1 2 n a by auto
  have "list_remove (l\<lparr>q_heap := h2, q_head := b\<rparr>) a = None"
  proof (cases xs)
    case Nil
    then show ?thesis using l a z [of h2] 1(4) 2(4) by (simp add: list_remove_def)
  next
    case (Cons x ys)
    have x: "x \<noteq> 0" "x \<noteq> a" "b \<noteq> x" using c(2) assms(3) Cons by auto
    have "x \<in> dom (q_heap l)" using g(4) Cons qprev_dom [of l x a] x by simp
    then have "x \<in> dom h2" using 1(4) 2(4) by simp
    from set_prev_links [OF this, of 0] obtain h3 where 3: "set_prev h2 x 0 = Some h3"
      "get_prev h3 = (get_prev h2)(x \<mapsto> 0)" "get_next h3 = get_next h2" "dom h3 = dom h2" by blast
    then show ?thesis using l a x z [of h3] 1(4) 2(4) Cons by (simp add: list_remove_def)
  qed
  with p show ?thesis by blast
qed

end
