(* ===== verification/Waiter.thy ===== *)
theory Waiter
  imports Prelude LinkedLists
begin

unbundle bit_operations_syntax

text \<open>
  The event loop of qrtr, \<^verbatim>\<open>qcom/qrtr/src/waiter.c\<close>, and the clock of \<^verbatim>\<open>util.c\<close>: tickets for file
  descriptors and timeouts in a linked list, an array for \<open>poll\<close> that grows with the number of
  tickets, and one round of waiting, which runs the callbacks of the tickets that became ready.

  A ticket is known by the address of its \<open>list_item\<close>; tickets and poll arrays live in memory
  maps, so that an access to a released one is \<^term>\<open>None\<close>. A callback belongs to the client
  of the waiter: it is a parameter that may change the waiter and the client's own state. The
  results of \<open>poll\<close> and \<open>gettimeofday\<close> are arguments, numbered by the calls made so far.
\<close>

section \<open>State\<close>

record pollfd =
  pf_fd :: int
  pf_events :: u16
  pf_revents :: u16

record pollset =
  ps_nfds :: nat
  ps_cause :: int
  ps_pfd :: "pollfd list"

datatype waiter_type = WATCH_TYPE_NULL | WATCH_TYPE_FD | WATCH_TYPE_TIMEOUT

text \<open>\<open>tk_word\<close> is the 32-bit union of file descriptor, event and interval; \<open>tk_callback\<close> the
  callback function with its data, \<open>tk_waiter\<close> whether the back pointer is set.\<close>

record 'c waiter_ticket =
  tk_type :: waiter_type
  tk_word :: u32
  tk_callback :: "'c option"
  tk_start :: u64
  tk_updated :: bool
  tk_waiter :: bool

record 'c waiter =
  wt_tickets :: qlist
  wt_mem :: "nat \<Rightarrow> 'c waiter_ticket option"
  wt_pollset :: nat
  wt_psmem :: "nat \<Rightarrow> pollset option"
  wt_count :: int
  wt_polls :: nat
  wt_clock :: nat

record wt_env =
  poll_fn :: "nat \<Rightarrow> int list \<Rightarrow> int \<Rightarrow> int \<times> (nat \<Rightarrow> u16)"
  gettimeofday :: "nat \<Rightarrow> int \<times> nat"

abbreviation (input) POLLIN :: u16 where "POLLIN \<equiv> 1"
abbreviation (input) POLLERR :: u16 where "POLLERR \<equiv> 8"

definition filedes :: "'c waiter_ticket \<Rightarrow> int" where
  "filedes t = sint (tk_word t)"

definition interval :: "'c waiter_ticket \<Rightarrow> u64" where
  "interval t = ucast (tk_word t)"

text \<open>\<open>clock_ms e k\<close> is the time that the \<open>k\<close>-th call of \<open>gettimeofday\<close> gives.\<close>

definition clock_ms :: "wt_env \<Rightarrow> nat \<Rightarrow> u64" where
  "clock_ms e k = of_int (fst (gettimeofday e k)) * 1000 + of_nat (snd (gettimeofday e k) div 1000)"

definition time_ms :: "wt_env \<Rightarrow> 'c waiter \<Rightarrow> u64 \<times> 'c waiter" where
  "time_ms e w = (clock_ms e (wt_clock w), w\<lparr>wt_clock := wt_clock w + 1\<rparr>)"

section \<open>Poll arrays\<close>

definition zero_pollfd :: pollfd where
  "zero_pollfd = \<lparr>pf_fd = 0, pf_events = 0, pf_revents = 0\<rparr>"

text \<open>\<open>a\<close> is the address \<open>calloc\<close> returns, 0 when it fails.\<close>

definition pollset_create :: "nat \<Rightarrow> int \<Rightarrow> 'c waiter \<Rightarrow> nat \<times> 'c waiter" where
  "pollset_create a count w =
     (if a = 0 then (0, w)
      else (a, w\<lparr>wt_psmem := (wt_psmem w)
        (a \<mapsto> \<lparr>ps_nfds = 0, ps_cause = 0, ps_pfd = replicate (nat count) zero_pollfd\<rparr>)\<rparr>))"

definition pollset_destroy :: "nat \<Rightarrow> 'c waiter \<Rightarrow> 'c waiter" where
  "pollset_destroy a w = w\<lparr>wt_psmem := (wt_psmem w)(a := None)\<rparr>"

definition pollset_reset :: "pollset \<Rightarrow> pollset" where
  "pollset_reset ps = ps\<lparr>ps_nfds := 0\<rparr>"

definition pollset_add_fd :: "pollset \<Rightarrow> int \<Rightarrow> pollset option" where
  "pollset_add_fd ps fd =
     (if ps_nfds ps < length (ps_pfd ps)
      then Some (ps\<lparr>ps_pfd := (ps_pfd ps)[ps_nfds ps :=
          (ps_pfd ps ! ps_nfds ps)\<lparr>pf_fd := fd, pf_events := POLLERR OR POLLIN\<rparr>],
        ps_nfds := ps_nfds ps + 1\<rparr>)
      else None)"

text \<open>The index of the first entry below \<open>n\<close> with \<open>POLLERR\<close> or \<open>POLLIN\<close>, counted from \<open>i\<close>.\<close>

fun first_cause :: "int \<Rightarrow> pollfd list \<Rightarrow> int" where
  "first_cause i [] = -1"
| "first_cause i (p # ps) =
     (if pf_revents p AND (POLLERR OR POLLIN) \<noteq> 0 then i else first_cause (i + 1) ps)"

definition pollset_wait :: "wt_env \<Rightarrow> 'c waiter \<Rightarrow> nat \<Rightarrow> int \<Rightarrow> (int \<times> 'c waiter) option" where
  "pollset_wait e w a ms =
     (case wt_psmem w a of
        None \<Rightarrow> None
      | Some ps \<Rightarrow>
          let fds = map pf_fd (take (ps_nfds ps) (ps_pfd ps));
              (rc, rev) = poll_fn e (wt_polls w) fds ms;
              pfd = map (\<lambda>p. if fst p < ps_nfds ps then (snd p)\<lparr>pf_revents := rev (fst p)\<rparr> else snd p)
                      (enumerate 0 (ps_pfd ps));
              cause = (if rc \<le> 0 then ps_cause ps else first_cause 0 (take (ps_nfds ps) pfd))
          in Some (rc, w\<lparr>wt_polls := wt_polls w + 1,
               wt_psmem := (wt_psmem w)(a \<mapsto> ps\<lparr>ps_pfd := pfd, ps_cause := cause\<rparr>)\<rparr>))"

definition pollset_cause_fd :: "'c waiter \<Rightarrow> nat \<Rightarrow> int \<Rightarrow> bool option" where
  "pollset_cause_fd w a fd =
     (case wt_psmem w a of
        None \<Rightarrow> None
      | Some ps \<Rightarrow>
          if ps_cause ps < 0 then Some False
          else if nat (ps_cause ps) < length (ps_pfd ps)
          then Some (pf_fd (ps_pfd ps ! nat (ps_cause ps)) = fd) else None)"

section \<open>Tickets\<close>

definition zero_ticket :: "'c waiter_ticket" where
  "zero_ticket = \<lparr>tk_type = WATCH_TYPE_NULL, tk_word = 0, tk_callback = None, tk_start = 0,
     tk_updated = False, tk_waiter = False\<rparr>"

text \<open>A write through the ticket pointer \<open>x\<close>.\<close>

definition on_ticket :: "'c waiter \<Rightarrow> nat \<Rightarrow> ('c waiter_ticket \<Rightarrow> 'c waiter_ticket) \<Rightarrow> 'c waiter option" where
  "on_ticket w x f =
     (case wt_mem w x of None \<Rightarrow> None | Some t \<Rightarrow> Some (w\<lparr>wt_mem := (wt_mem w)(x \<mapsto> f t)\<rparr>))"

definition waiter_ticket_set_null :: "'c waiter \<Rightarrow> nat \<Rightarrow> 'c waiter option" where
  "waiter_ticket_set_null w x = on_ticket w x (\<lambda>t. t\<lparr>tk_type := WATCH_TYPE_NULL\<rparr>)"

definition waiter_ticket_set_fd :: "'c waiter \<Rightarrow> nat \<Rightarrow> int \<Rightarrow> 'c waiter option" where
  "waiter_ticket_set_fd w x fd =
     on_ticket w x (\<lambda>t. t\<lparr>tk_type := WATCH_TYPE_FD, tk_word := of_int fd\<rparr>)"

definition waiter_ticket_set_timeout :: "wt_env \<Rightarrow> 'c waiter \<Rightarrow> nat \<Rightarrow> u32 \<Rightarrow> 'c waiter option" where
  "waiter_ticket_set_timeout e w x ms =
     (let (now, w1) = time_ms e w in
      on_ticket w1 x (\<lambda>t. t\<lparr>tk_type := WATCH_TYPE_TIMEOUT, tk_word := ms, tk_start := now\<rparr>))"

definition waiter_ticket_callback :: "'c waiter \<Rightarrow> nat \<Rightarrow> 'c option \<Rightarrow> 'c waiter option" where
  "waiter_ticket_callback w x cb = on_ticket w x (\<lambda>t. t\<lparr>tk_callback := cb\<rparr>)"

definition waiter_ticket_check :: "'c waiter \<Rightarrow> nat \<Rightarrow> int option" where
  "waiter_ticket_check w x = map_option (\<lambda>t. if tk_updated t then 0 else -1) (wt_mem w x)"

definition waiter_ticket_clear :: "'c waiter \<Rightarrow> nat \<Rightarrow> (int \<times> 'c waiter) option" where
  "waiter_ticket_clear w x = do {
     ret \<leftarrow> waiter_ticket_check w x;
     w1 \<leftarrow> on_ticket w x (\<lambda>t. t\<lparr>tk_updated := False\<rparr>);
     Some (ret, w1) }"

text \<open>\<open>calloc\<close> of a ticket, or the ticket on the stack: memory for it and for its links.\<close>

definition new_ticket :: "'c waiter \<Rightarrow> nat \<Rightarrow> 'c waiter_ticket \<Rightarrow> 'c waiter" where
  "new_ticket w x t = w\<lparr>wt_mem := (wt_mem w)(x \<mapsto> t),
     wt_tickets := (wt_tickets w)\<lparr>q_heap := (q_heap (wt_tickets w))(x \<mapsto> \<lparr>lh_prev = 0, lh_next = 0\<rparr>)\<rparr>\<rparr>"

definition drop_ticket :: "'c waiter \<Rightarrow> nat \<Rightarrow> 'c waiter" where
  "drop_ticket w x = w\<lparr>wt_mem := (wt_mem w)(x := None),
     wt_tickets := (wt_tickets w)\<lparr>q_heap := (q_heap (wt_tickets w))(x := None)\<rparr>\<rparr>"

definition tickets_append :: "'c waiter \<Rightarrow> nat \<Rightarrow> 'c waiter option" where
  "tickets_append w x = map_option (\<lambda>l. w\<lparr>wt_tickets := l\<rparr>) (list_append (wt_tickets w) x)"

definition tickets_remove :: "'c waiter \<Rightarrow> nat \<Rightarrow> 'c waiter option" where
  "tickets_remove w x = map_option (\<lambda>l. w\<lparr>wt_tickets := l\<rparr>) (list_remove (wt_tickets w) x)"

text \<open>\<open>x\<close> and \<open>a\<close> are the results of the two allocations, 0 for a failure.\<close>

definition waiter_add_null :: "'c waiter \<Rightarrow> nat \<Rightarrow> nat \<Rightarrow> (nat \<times> 'c waiter) option" where
  "waiter_add_null w x a =
     (if x = 0 then Some (0, w)
      else do {
        w1 \<leftarrow> tickets_append (new_ticket w x (zero_ticket\<lparr>tk_waiter := True\<rparr>)) x;
        let w2 = (if wt_count w1 mod 32 = 0 then
            let wd = (if wt_pollset w1 \<noteq> 0 then pollset_destroy (wt_pollset w1) w1 else w1);
                (p, wc) = pollset_create a (wt_count wd + 33) wd
            in wc\<lparr>wt_pollset := p\<rparr>
          else w1);
        if wt_count w1 mod 32 = 0 \<and> wt_pollset w2 = 0 then Some (0, w2)
        else do {
          w3 \<leftarrow> waiter_ticket_set_null (w2\<lparr>wt_count := wt_count w2 + 1\<rparr>) x;
          Some (x, w3) } })"

definition waiter_add_fd :: "'c waiter \<Rightarrow> nat \<Rightarrow> nat \<Rightarrow> int \<Rightarrow> (nat \<times> 'c waiter) option" where
  "waiter_add_fd w x a fd = do {
     (tkt, w1) \<leftarrow> waiter_add_null w x a;
     if tkt = 0 then Some (0, w1)
     else do { w2 \<leftarrow> waiter_ticket_set_fd w1 tkt fd; Some (tkt, w2) } }"

definition waiter_add_timeout :: "wt_env \<Rightarrow> 'c waiter \<Rightarrow> nat \<Rightarrow> nat \<Rightarrow> u32 \<Rightarrow> (nat \<times> 'c waiter) option" where
  "waiter_add_timeout e w x a ms = do {
     (tkt, w1) \<leftarrow> waiter_add_null w x a;
     if tkt = 0 then Some (0, w1)
     else do { w2 \<leftarrow> waiter_ticket_set_timeout e w1 tkt ms; Some (tkt, w2) } }"

definition waiter_ticket_delete :: "'c waiter \<Rightarrow> nat \<Rightarrow> 'c waiter option" where
  "waiter_ticket_delete w x = do {
     t \<leftarrow> wt_mem w x;
     if \<not> tk_waiter t then None
     else do {
       w1 \<leftarrow> tickets_remove w x;
       Some (drop_ticket (w1\<lparr>wt_count := wt_count w1 - 1\<rparr>) x) } }"

section \<open>Waiters\<close>

text \<open>\<open>ok\<close> says whether the allocation succeeds; the result \<^term>\<open>None\<close> is the null pointer.\<close>

definition waiter_create :: "bool \<Rightarrow> 'c waiter option" where
  "waiter_create ok = (if \<not> ok then None else Some \<lparr>wt_tickets = qlist_init \<lparr>q_head = 0, q_tail = 0, q_heap = Map.empty\<rparr>, wt_mem = Map.empty,
     wt_pollset = 0, wt_psmem = Map.empty, wt_count = 0, wt_polls = 0, wt_clock = 0\<rparr>)"

text \<open>What \<open>waiter_destroy\<close> leaves allocated: tickets and poll arrays. The first argument
  bounds the iterations of the list.\<close>

definition waiter_destroy ::
    "nat \<Rightarrow> 'c waiter \<Rightarrow> ((nat \<Rightarrow> 'c waiter_ticket option) \<times> (nat \<Rightarrow> pollset option)) option" where
  "waiter_destroy n w = do {
     w1 \<leftarrow> for_each_safe n (\<lambda>w. list_next (wt_tickets w)) 0
            (\<lambda>w x. if wt_mem w x = None then None else Some (drop_ticket w x)) (list_first (wt_tickets w)) w;
     let w2 = (if wt_pollset w1 \<noteq> 0 then pollset_destroy (wt_pollset w1) w1 else w1);
     Some (wt_mem w2, wt_psmem w2) }"

text \<open>The inner loop of \<open>waiter_synchronize\<close>: the next timeout after \<open>cur\<close> with the interval
  of \<open>ticket\<close> gets its start.\<close>

partial_function (option) sync_after ::
    "'c waiter \<Rightarrow> 'c waiter_ticket \<Rightarrow> nat \<Rightarrow> 'c waiter option" where
  "sync_after w ticket cur =
     (if cur = 0 then Some w
      else (case wt_mem w cur of
          None \<Rightarrow> None
        | Some oticket \<Rightarrow>
            if tk_type oticket = WATCH_TYPE_TIMEOUT \<and> interval oticket = interval ticket
            then on_ticket w cur (\<lambda>t. t\<lparr>tk_start := tk_start ticket\<rparr>)
            else Option.bind (list_next (wt_tickets w) cur) (sync_after w ticket)))"

definition sync_ticket :: "'c waiter \<Rightarrow> nat \<Rightarrow> 'c waiter option" where
  "sync_ticket w x = do {
     ticket \<leftarrow> wt_mem w x;
     if tk_type ticket \<noteq> WATCH_TYPE_TIMEOUT then Some w
     else Option.bind (list_next (wt_tickets w) x) (sync_after w ticket) }"

definition waiter_synchronize :: "'c waiter \<Rightarrow> 'c waiter option" where
  "waiter_synchronize w =
     for_each (\<lambda>w. list_next (wt_tickets w)) 0 sync_ticket (list_first (wt_tickets w)) w"

section \<open>Waiting\<close>

text \<open>The first loop of \<open>waiter_wait\<close>: collects the descriptors and the earliest deadline. The
  deadlines are 64-bit sums.\<close>

definition collect_ticket :: "'c waiter \<Rightarrow> pollset \<times> u64 \<Rightarrow> nat \<Rightarrow> (pollset \<times> u64) option" where
  "collect_ticket w s x = do {
     ticket \<leftarrow> wt_mem w x;
     (case tk_type ticket of
        WATCH_TYPE_TIMEOUT \<Rightarrow>
          Some (fst s, if tk_start ticket + interval ticket < snd s then tk_start ticket + interval ticket else snd s)
      | WATCH_TYPE_FD \<Rightarrow> map_option (\<lambda>ps. (ps, snd s)) (pollset_add_fd (fst s) (filedes ticket))
      | WATCH_TYPE_NULL \<Rightarrow> Some s) }"

definition wait_ms :: "u64 \<Rightarrow> int" where
  "wait_ms delta = uint (if delta > 2 ^ 31 - 1 then 2 ^ 31 - 1 else delta)"

definition poll_phase :: "wt_env \<Rightarrow> 'c waiter \<Rightarrow> nat \<Rightarrow> u64 \<Rightarrow> (int \<times> 'c waiter) option" where
  "poll_phase e w a term_time =
     (if term_time = -1 then pollset_wait e w a (-1)
      else
        let (now, w1) = time_ms e w in
        if now \<ge> term_time then Some (0, w1)
        else pollset_wait e w1 a (wait_ms (term_time - now)))"

text \<open>The body of the second loop: whether the ticket fires, with the ticket it leaves, and the
  callback.\<close>

definition ticket_fresh :: "'c waiter \<Rightarrow> nat \<Rightarrow> int \<Rightarrow> u64 \<Rightarrow> 'c waiter_ticket \<Rightarrow> (bool \<times> 'c waiter_ticket) option" where
  "ticket_fresh w a rc now ticket =
     (case tk_type ticket of
        WATCH_TYPE_TIMEOUT \<Rightarrow>
          if now \<ge> tk_start ticket + interval ticket
          then Some (\<not> tk_updated ticket, ticket\<lparr>tk_start := now\<rparr>) else Some (False, ticket)
      | WATCH_TYPE_FD \<Rightarrow>
          if rc = 0 then Some (False, ticket)
          else map_option (\<lambda>c. (c \<and> \<not> tk_updated ticket, ticket)) (pollset_cause_fd w a (filedes ticket))
      | WATCH_TYPE_NULL \<Rightarrow> Some (False, ticket))"

type_synonym ('c, 's) callback = "'c \<Rightarrow> nat \<Rightarrow> 'c waiter \<times> 's \<Rightarrow> ('c waiter \<times> 's) option"

definition fire_ticket ::
    "('c, 's) callback \<Rightarrow> nat \<Rightarrow> int \<Rightarrow> u64 \<Rightarrow> 'c waiter \<times> 's \<Rightarrow> nat \<Rightarrow> ('c waiter \<times> 's) option" where
  "fire_ticket call a rc now s x = do {
     ticket \<leftarrow> wt_mem (fst s) x;
     (fresh, t1) \<leftarrow> ticket_fresh (fst s) a rc now ticket;
     w1 \<leftarrow> on_ticket (fst s) x (\<lambda>_. if fresh then t1\<lparr>tk_updated := True\<rparr> else t1);
     (case (if fresh then tk_callback ticket else None) of
        None \<Rightarrow> Some (w1, snd s)
      | Some c \<Rightarrow> call c x (w1, snd s)) }"

definition waiter_wait ::
    "wt_env \<Rightarrow> ('c, 's) callback \<Rightarrow> 'c waiter \<times> 's \<Rightarrow> ('c waiter \<times> 's) option" where
  "waiter_wait e call s = do {
     let w = fst s;
     let a = wt_pollset w;
     ps \<leftarrow> wt_psmem w a;
     (ps1, term_time) \<leftarrow> for_each (\<lambda>_. list_next (wt_tickets w)) 0 (collect_ticket w)
        (list_first (wt_tickets w)) (pollset_reset ps, -1);
     (rc, w1) \<leftarrow> poll_phase e (w\<lparr>wt_psmem := (wt_psmem w)(a \<mapsto> ps1)\<rparr>) a term_time;
     if rc < 0 then Some (w1, snd s)
     else do {
       let (now, w2) = time_ms e w1;
       for_each (\<lambda>s. list_next (wt_tickets (fst s))) 0 (fire_ticket call a rc now)
         (list_first (wt_tickets w2)) (w2, snd s) } }"

text \<open>\<open>x\<close> is the address of the ticket on the stack.\<close>

definition waiter_wait_timeout ::
    "wt_env \<Rightarrow> ('c, 's) callback \<Rightarrow> nat \<Rightarrow> u32 \<Rightarrow> 'c waiter \<times> 's \<Rightarrow> (int \<times> 'c waiter \<times> 's) option" where
  "waiter_wait_timeout e call x ms s = do {
     w1 \<leftarrow> waiter_ticket_set_timeout e (new_ticket (fst s) x zero_ticket) x ms;
     w2 \<leftarrow> tickets_append w1 x;
     (w3, s3) \<leftarrow> waiter_wait e call (w2\<lparr>wt_count := wt_count w2 + 1\<rparr>, snd s);
     rc \<leftarrow> waiter_ticket_check w3 x;
     w4 \<leftarrow> tickets_remove w3 x;
     Some (if rc = 0 then -1 else 0, drop_ticket (w4\<lparr>wt_count := wt_count w4 - 1\<rparr>) x, s3) }"

section \<open>The invariant\<close>

text \<open>The tickets in memory are those of the list, the counter counts them, and the poll array of
  a waiter with tickets has 33 or more entries, more than there are tickets: its size is always one
  more than a multiple of 32.\<close>

definition wt_shape :: "'c waiter \<Rightarrow> nat list \<Rightarrow> bool" where
  "wt_shape w xs \<longleftrightarrow>
     qring (wt_tickets w) xs \<and> dom (wt_mem w) = set xs \<and> dom (q_heap (wt_tickets w)) = set xs \<and>
     wt_count w = int (length xs)"

definition wt_inv :: "'c waiter \<Rightarrow> nat list \<Rightarrow> bool" where
  "wt_inv w xs \<longleftrightarrow> wt_shape w xs \<and>
     (if wt_pollset w = 0 then xs = [] \<and> wt_psmem w = Map.empty
      else \<exists>ps. wt_psmem w = [wt_pollset w \<mapsto> ps] \<and>
        length (ps_pfd ps) mod 32 = 1 \<and> length xs < length (ps_pfd ps))"

lemma wt_shapeD:
  assumes "wt_shape w xs"
  shows "qring (wt_tickets w) xs" "dom (wt_mem w) = set xs" "dom (q_heap (wt_tickets w)) = set xs"
    "wt_count w = int (length xs)" "distinct xs" "0 \<notin> set xs"
  using assms by (auto simp: wt_shape_def qring_def)

lemma wt_inv_shape: "wt_inv w xs \<Longrightarrow> wt_shape w xs"
  by (simp add: wt_inv_def)

lemmas wt_invD = wt_shapeD [OF wt_inv_shape]

lemma wt_inv_pollset:
  assumes "wt_inv w xs" and "wt_pollset w \<noteq> 0"
  obtains ps where "wt_psmem w = [wt_pollset w \<mapsto> ps]" "length (ps_pfd ps) mod 32 = 1" "length xs < length (ps_pfd ps)"
  using assms by (auto simp: wt_inv_def)

lemma wt_invI:
  "wt_shape w xs \<Longrightarrow> wt_pollset w \<noteq> 0 \<Longrightarrow> wt_psmem w = [wt_pollset w \<mapsto> ps] \<Longrightarrow> length (ps_pfd ps) mod 32 = 1 \<Longrightarrow>
   length xs < length (ps_pfd ps) \<Longrightarrow> wt_inv w xs"
  by (auto simp: wt_inv_def)

lemma waiter_create_inv: "waiter_create ok = Some w \<Longrightarrow> wt_inv w []"
  by (auto simp: waiter_create_def wt_inv_def wt_shape_def qring_def qlist_init_def qnext_def qprev_def split: if_splits)

text \<open>An update of a ticket in place keeps the invariant.\<close>

lemma on_ticket_Some: "x \<in> dom (wt_mem w) \<Longrightarrow>
    on_ticket w x f = Some (w\<lparr>wt_mem := (wt_mem w)(x \<mapsto> f (the (wt_mem w x)))\<rparr>)"
  by (auto simp: on_ticket_def)

lemma on_ticket_inv: "wt_inv w xs \<Longrightarrow> x \<in> set xs \<Longrightarrow> wt_inv (w\<lparr>wt_mem := (wt_mem w)(x \<mapsto> t)\<rparr>) xs"
  by (auto simp: wt_inv_def wt_shape_def split: if_splits)

lemma clock_inv [simp]: "wt_inv (w\<lparr>wt_clock := n\<rparr>) xs = wt_inv w xs"
  by (simp add: wt_inv_def wt_shape_def)

lemma append_ticket:
  assumes "qring (wt_tickets w) xs" and "x \<notin> set xs" and "x \<noteq> 0"
  shows "\<exists>l. tickets_append (new_ticket w x t) x = Some (w\<lparr>wt_mem := (wt_mem w)(x \<mapsto> t), wt_tickets := l\<rparr>) \<and>
    qring l (xs @ [x]) \<and> dom (q_heap l) = insert x (dom (q_heap (wt_tickets w)))"
proof -
  let ?l = "(wt_tickets w)\<lparr>q_heap := (q_heap (wt_tickets w))(x \<mapsto> \<lparr>lh_prev = 0, lh_next = 0\<rparr>)\<rparr>"
  have "qring ?l xs" by (rule qring_other_node) (use assms in auto)
  from qring_append [OF this, of x] assms(2,3) obtain l where
    l: "list_append ?l x = Some l" "qring l (xs @ [x])" by auto
  moreover have "dom (q_heap l) = insert x (dom (q_heap (wt_tickets w)))" using list_append_domain [OF l(1)] by simp
  ultimately show ?thesis by (intro exI [of _ l]) (simp add: tickets_append_def new_ticket_def)
qed

lemma remove_ticket:
  assumes "qring (wt_tickets w) (as @ x # bs)"
  shows "\<exists>l. tickets_remove w x = Some (w\<lparr>wt_tickets := l\<rparr>) \<and>
    qring (l\<lparr>q_heap := (q_heap l)(x := None)\<rparr>) (as @ bs) \<and> dom (q_heap l) = dom (q_heap (wt_tickets w))"
proof -
  obtain l where l: "list_remove (wt_tickets w) x = Some l" "qring l (as @ bs)"
    using qring_remove [OF assms] by blast
  have "x \<notin> set (as @ bs)" "x \<noteq> 0" using assms by (auto simp: qring_def)
  then show ?thesis using l list_remove_domain [OF l(1)] qring_other_node [OF l(2)]
    by (auto simp: tickets_remove_def simp del: fun_upd_apply)
qed

lemma capacity_step: "c mod 32 = 1 \<Longrightarrow> n < c \<Longrightarrow> n mod 32 \<noteq> 0 \<Longrightarrow> Suc n < c" for n c :: nat
  by (cases "c = Suc n") (auto simp: mod_Suc split: if_splits)

lemma waiter_add_null_inv:
  assumes "wt_inv w xs" and "x \<notin> set xs" and "x \<noteq> 0" and "a \<noteq> 0"
  shows "\<exists>w'. waiter_add_null w x a = Some (x, w') \<and> wt_inv w' (xs @ [x]) \<and>
    wt_mem w' = (wt_mem w)(x \<mapsto> zero_ticket\<lparr>tk_waiter := True\<rparr>) \<and> wt_clock w' = wt_clock w \<and>
    wt_polls w' = wt_polls w"
proof -
  note i = wt_invD [OF assms(1)]
  let ?t = "zero_ticket\<lparr>tk_waiter := True\<rparr> :: 'a waiter_ticket"
  obtain l where l: "tickets_append (new_ticket w x ?t) x = Some (w\<lparr>wt_mem := (wt_mem w)(x \<mapsto> ?t), wt_tickets := l\<rparr>)"
    "qring l (xs @ [x])" "dom (q_heap l) = insert x (dom (q_heap (wt_tickets w)))"
    using append_ticket [OF i(1) assms(2,3)] by blast
  have t: "?t\<lparr>tk_type := WATCH_TYPE_NULL\<rparr> = ?t" by (simp add: zero_ticket_def)
  show ?thesis
  proof (cases "length xs mod 32 = 0")
    case True
    let ?ps = "\<lparr>ps_nfds = 0, ps_cause = 0, ps_pfd = replicate (length xs + 33) zero_pollfd\<rparr>"
    have "int (length xs) mod 32 = 0" using True by presburger
    moreover have "nat (int (length xs) + 33) = length xs + 33" by simp
    moreover have "(wt_psmem w)(wt_pollset w := None, a \<mapsto> p) = [a \<mapsto> p]" for p
      using assms(1) by (auto simp: wt_inv_def split: if_splits)
    moreover have "wt_pollset w = 0 \<Longrightarrow> wt_psmem w = Map.empty" using assms(1) by (simp add: wt_inv_def)
    ultimately have "waiter_add_null w x a = Some (x, w\<lparr>wt_mem := (wt_mem w)(x \<mapsto> ?t), wt_tickets := l,
        wt_psmem := [a \<mapsto> ?ps], wt_pollset := a, wt_count := wt_count w + 1\<rparr>)"
      using assms(3,4) i(4) t
      by (simp add: waiter_add_null_def l(1) pollset_create_def pollset_destroy_def waiter_ticket_set_null_def
          on_ticket_def Let_def)
    moreover have "(length xs + 33) mod 32 = 1" using True by presburger
    ultimately show ?thesis using l(2,3) i assms(4) by (simp add: wt_inv_def wt_shape_def, intro exI [of _ ?ps]) simp
  next
    case False
    then have "int (length xs) mod 32 \<noteq> 0" by presburger
    then have "waiter_add_null w x a = Some (x, w\<lparr>wt_mem := (wt_mem w)(x \<mapsto> ?t), wt_tickets := l,
        wt_count := wt_count w + 1\<rparr>)"
      using assms(3) i(4) t by (simp add: waiter_add_null_def l(1) waiter_ticket_set_null_def on_ticket_def)
    moreover have "wt_inv (w\<lparr>wt_mem := (wt_mem w)(x \<mapsto> ?t), wt_tickets := l, wt_count := wt_count w + 1\<rparr>) (xs @ [x])"
    proof -
      obtain ps where ps: "wt_pollset w \<noteq> 0" "wt_psmem w = [wt_pollset w \<mapsto> ps]" "length (ps_pfd ps) mod 32 = 1"
        "length xs < length (ps_pfd ps)"
        using assms(1) False by (auto simp: wt_inv_def split: if_splits)
      then have "Suc (length xs) < length (ps_pfd ps)" using False by (intro capacity_step)
      then show ?thesis using ps l(2,3) i by (auto simp: wt_inv_def wt_shape_def)
    qed
    ultimately show ?thesis by simp
  qed
qed

lemma drop_ticket_mem: "wt_mem (drop_ticket w x) = (wt_mem w)(x := None)"
  by (simp add: drop_ticket_def)

lemma drop_ticket_fields [simp]:
  "wt_pollset (drop_ticket w x) = wt_pollset w"
  "wt_psmem (drop_ticket w x) = wt_psmem w"
  by (simp_all add: drop_ticket_def)

lemma shape_remove:
  assumes "wt_shape w (as @ x # bs)"
  shows "\<exists>l. tickets_remove w x = Some (w\<lparr>wt_tickets := l\<rparr>) \<and>
    wt_shape (drop_ticket (w\<lparr>wt_tickets := l, wt_count := wt_count w - 1\<rparr>) x) (as @ bs)"
proof -
  note i = wt_shapeD [OF assms]
  obtain l where l: "tickets_remove w x = Some (w\<lparr>wt_tickets := l\<rparr>)"
    "qring (l\<lparr>q_heap := (q_heap l)(x := None)\<rparr>) (as @ bs)" "dom (q_heap l) = dom (q_heap (wt_tickets w))"
    using remove_ticket [OF i(1)] by blast
  have "insert x (set as \<union> set bs) - {x} = set as \<union> set bs" using i(5) by auto
  then have "wt_shape (drop_ticket (w\<lparr>wt_tickets := l, wt_count := wt_count w - 1\<rparr>) x) (as @ bs)"
    using l(2,3) i(2,3,4) by (simp add: wt_shape_def drop_ticket_def)
  with l(1) show ?thesis by blast
qed

lemma waiter_ticket_delete_inv:
  assumes "wt_inv w (as @ x # bs)" and "tk_waiter (the (wt_mem w x))"
  shows "\<exists>w'. waiter_ticket_delete w x = Some w' \<and> wt_inv w' (as @ bs) \<and> wt_mem w' = (wt_mem w)(x := None)"
proof -
  obtain l where l: "tickets_remove w x = Some (w\<lparr>wt_tickets := l\<rparr>)"
    "wt_shape (drop_ticket (w\<lparr>wt_tickets := l, wt_count := wt_count w - 1\<rparr>) x) (as @ bs)"
    using shape_remove [OF wt_inv_shape [OF assms(1)]] by blast
  obtain t where t: "wt_mem w x = Some t" "tk_waiter t"
    using wt_invD(2) [OF assms(1)] assms(2) by (cases "wt_mem w x") auto
  have "wt_inv (drop_ticket (w\<lparr>wt_tickets := l, wt_count := wt_count w - 1\<rparr>) x) (as @ bs)"
    using l(2) assms(1) by (auto simp: wt_inv_def split: if_splits)
  then show ?thesis using t l(1) by (simp add: waiter_ticket_delete_def drop_ticket_mem)
qed

section \<open>One round of waiting\<close>

text \<open>What a round does, on the tickets in the order of the list: the descriptors it polls, the
  earliest deadline, the descriptor that \<open>poll\<close> reports, which tickets are due and what
  becomes of them.\<close>

definition polled_fds :: "'c waiter_ticket list \<Rightarrow> int list" where
  "polled_fds ts = map filedes (filter (\<lambda>t. tk_type t = WATCH_TYPE_FD) ts)"

definition deadline :: "'c waiter_ticket \<Rightarrow> u64" where
  "deadline t = (if tk_type t = WATCH_TYPE_TIMEOUT then tk_start t + interval t else -1)"

definition first_deadline :: "'c waiter_ticket list \<Rightarrow> u64" where
  "first_deadline ts = fold (\<lambda>t m. min (deadline t) m) ts (-1)"

definition ready_fd :: "int \<times> (nat \<Rightarrow> u16) \<Rightarrow> int list \<Rightarrow> int option" where
  "ready_fd r fds =
     (if fst r \<le> 0 then None
      else map_option (nth fds) (find (\<lambda>i. snd r i AND (POLLERR OR POLLIN) \<noteq> 0) [0..<length fds]))"

definition ticket_due :: "int option \<Rightarrow> u64 \<Rightarrow> 'c waiter_ticket \<Rightarrow> bool" where
  "ticket_due ready now t =
     (case tk_type t of
        WATCH_TYPE_TIMEOUT \<Rightarrow> tk_start t + interval t \<le> now
      | WATCH_TYPE_FD \<Rightarrow> ready = Some (filedes t)
      | WATCH_TYPE_NULL \<Rightarrow> False)"

lemma fold_min_term: "fold (\<lambda>t m. min (deadline t) m) ts (m :: u64) = fold (\<lambda>t m. min m (deadline t)) ts m"
  by (simp add: min.commute)

lemma first_deadline_le: "t \<in> set ts \<Longrightarrow> first_deadline ts \<le> deadline t"
proof (unfold first_deadline_def, induction ts rule: rev_induct)
  case (snoc a ts)
  then show ?case by (auto simp: min.coboundedI2)
qed simp

lemma first_deadline_cases: "first_deadline ts = -1 \<or> (\<exists>t \<in> set ts. tk_type t = WATCH_TYPE_TIMEOUT \<and> first_deadline ts = deadline t)"
proof (unfold first_deadline_def, induction ts rule: rev_induct)
  case (snoc a ts)
  then show ?case by (cases "tk_type a = WATCH_TYPE_TIMEOUT") (auto simp: min_def deadline_def)
qed simp

text \<open>The poll array after the first loop.\<close>

definition polls_for :: "pollset \<Rightarrow> int list \<Rightarrow> bool" where
  "polls_for ps fds \<longleftrightarrow> ps_nfds ps = length fds \<and> length fds \<le> length (ps_pfd ps) \<and>
     map pf_fd (take (length fds) (ps_pfd ps)) = fds"

lemma pollset_add_fd_polls:
  assumes "polls_for ps fds" and "length fds < length (ps_pfd ps)"
  shows "\<exists>ps'. pollset_add_fd ps fd = Some ps' \<and> polls_for ps' (fds @ [fd]) \<and> length (ps_pfd ps') = length (ps_pfd ps)"
  using assms by (auto simp: pollset_add_fd_def polls_for_def take_Suc_conv_app_nth)

definition tickets_of :: "'c waiter \<Rightarrow> nat list \<Rightarrow> 'c waiter_ticket list" where
  "tickets_of w xs = map (\<lambda>x. the (wt_mem w x)) xs"

lemma tickets_of_append [simp]: "tickets_of w (xs @ ys) = tickets_of w xs @ tickets_of w ys"
  and tickets_of_Cons [simp]: "tickets_of w (x # xs) = the (wt_mem w x) # tickets_of w xs"
  and tickets_of_Nil [simp]: "tickets_of w [] = []"
  and length_tickets_of [simp]: "length (tickets_of w xs) = length xs"
  by (simp_all add: tickets_of_def)

lemma polled_fds_append [simp]: "polled_fds (ts @ us) = polled_fds ts @ polled_fds us"
  by (simp add: polled_fds_def)

lemma length_polled_fds: "length (polled_fds ts) \<le> length ts"
  by (simp add: polled_fds_def)

lemma first_deadline_snoc: "first_deadline (ts @ [t]) = min (deadline t) (first_deadline ts)"
  by (simp add: first_deadline_def)

interpretation wcursor: sequence_cursor "\<lambda>s xs. qring (wt_tickets (fst s)) xs" "\<lambda>s. list_next (wt_tickets (fst s))" 0
  by unfold_locales (use qrlist.repr_stop in blast, rule qring_succ)

interpretation tcursor: sequence_cursor "\<lambda>w. qring (wt_tickets w)" "\<lambda>w. list_next (wt_tickets w)" 0
  by unfold_locales (use qrlist.repr_stop in blast, rule qring_succ)

interpretation fixed: sequence_cursor "\<lambda>s. qring l" "\<lambda>s. list_next l" 0 for l
  by unfold_locales (use qrlist.repr_stop in blast, rule qring_succ)

lemma collect_step:
  assumes "x \<in> dom (wt_mem w)" and "polls_for ps fds"
    and "length fds + length (polled_fds [the (wt_mem w x)]) \<le> length (ps_pfd ps)"
  shows "\<exists>ps'. collect_ticket w (ps, m) x = Some (ps', min (deadline (the (wt_mem w x))) m) \<and>
    polls_for ps' (fds @ polled_fds [the (wt_mem w x)]) \<and> length (ps_pfd ps') = length (ps_pfd ps)"
proof -
  obtain t where t: "wt_mem w x = Some t" using assms(1) by blast
  have m: "min (-1) m = m" by (simp add: min_def) (metis word_order.extremum_uniqueI)
  show ?thesis
  proof (cases "tk_type t")
    case WATCH_TYPE_FD
    then show ?thesis using t m assms(3) pollset_add_fd_polls [OF assms(2), of "filedes t"]
      by (auto simp: collect_ticket_def deadline_def polled_fds_def)
  qed (use t m assms(2) in \<open>auto simp: collect_ticket_def deadline_def polled_fds_def min_def\<close>)
qed

lemma collect_all:
  assumes "wt_shape w xs" and "ps_nfds ps = 0" and "length (polled_fds (tickets_of w xs)) \<le> length (ps_pfd ps)"
  shows "\<exists>ps'. for_each (\<lambda>_. list_next (wt_tickets w)) 0 (collect_ticket w) (list_first (wt_tickets w)) (ps, -1) =
      Some (ps', first_deadline (tickets_of w xs)) \<and>
    polls_for ps' (polled_fds (tickets_of w xs)) \<and> length (ps_pfd ps') = length (ps_pfd ps)"
proof -
  note i = wt_shapeD [OF assms(1)]
  let ?I = "\<lambda>as (p, m). m = first_deadline (tickets_of w as) \<and> polls_for p (polled_fds (tickets_of w as)) \<and>
    length (ps_pfd p) = length (ps_pfd ps)"
  have "\<exists>s'. for_each (\<lambda>_. list_next (wt_tickets w)) 0 (collect_ticket w) (hd (xs @ [0])) (ps, -1) = Some s' \<and>
    qring (wt_tickets w) xs \<and> ?I xs s'"
  proof (rule fixed.for_each_all)
    show "\<exists>s'. collect_ticket w s x = Some s' \<and> qring (wt_tickets w) xs \<and> ?I (as @ [x]) s'"
      if x: "xs = as @ x # bs" "?I as s" for as x bs s
    proof -
      have "length (polled_fds (tickets_of w as)) + length (polled_fds [the (wt_mem w x)]) \<le> length (ps_pfd ps)"
        using assms(3) x(1) polled_fds_append [of "[the (wt_mem w x)]" "tickets_of w bs"] by simp
      then show ?thesis
        using collect_step [of x w "fst s" "polled_fds (tickets_of w as)" "snd s"] x i
        by (cases s) (auto simp: first_deadline_snoc)
    qed
  qed (use i(1) assms(2) in \<open>auto simp: polls_for_def first_deadline_def polled_fds_def\<close>)
  then show ?thesis using qring_first [OF i(1)] by auto
qed

text \<open>The result of \<open>poll\<close> in a round, or a timeout when the earliest deadline has passed; the
  time after it.\<close>

definition poll_result :: "wt_env \<Rightarrow> 'c waiter \<Rightarrow> 'c waiter_ticket list \<Rightarrow> int \<times> (nat \<Rightarrow> u16)" where
  "poll_result e w ts =
     (if first_deadline ts = -1 then poll_fn e (wt_polls w) (polled_fds ts) (-1)
      else if clock_ms e (wt_clock w) \<ge> first_deadline ts then (0, \<lambda>_. 0)
      else poll_fn e (wt_polls w) (polled_fds ts) (wait_ms (first_deadline ts - clock_ms e (wt_clock w))))"

definition time_after :: "wt_env \<Rightarrow> 'c waiter \<Rightarrow> 'c waiter_ticket list \<Rightarrow> u64" where
  "time_after e w ts =
     clock_ms e (if first_deadline ts = -1 then wt_clock w else wt_clock w + 1)"

definition polls_after :: "wt_env \<Rightarrow> 'c waiter \<Rightarrow> 'c waiter_ticket list \<Rightarrow> nat" where
  "polls_after e w ts =
     (if first_deadline ts \<noteq> -1 \<and> clock_ms e (wt_clock w) \<ge> first_deadline ts then wt_polls w else wt_polls w + 1)"

lemma first_cause_snoc: "0 \<le> i \<Longrightarrow> first_cause i (ps @ [p]) =
    (if first_cause i ps \<noteq> -1 then first_cause i ps
     else if pf_revents p AND (POLLERR OR POLLIN) \<noteq> 0 then i + int (length ps) else -1)"
  by (induction ps arbitrary: i) auto

lemma first_cause_find: "first_cause 0 ps =
    (case find (\<lambda>i. pf_revents (ps ! i) AND (POLLERR OR POLLIN) \<noteq> 0) [0..<length ps] of None \<Rightarrow> -1 | Some i \<Rightarrow> int i)"
proof (induction ps rule: rev_induct)
  case (snoc p ps)
  have "find (\<lambda>i. pf_revents ((ps @ [p]) ! i) AND (POLLERR OR POLLIN) \<noteq> 0) [0..<length ps] =
      find (\<lambda>i. pf_revents (ps ! i) AND (POLLERR OR POLLIN) \<noteq> 0) [0..<length ps]"
    by (rule find_cong_set) (auto simp: nth_append)
  then show ?case using snoc by (auto simp: first_cause_snoc find_append split: option.splits)
qed simp

lemma pollset_wait_result:
  assumes "wt_psmem w a = Some ps" and "polls_for ps fds" and "poll_fn e (wt_polls w) fds ms = r"
  shows "\<exists>w1 ps1. pollset_wait e w a ms = Some (fst r, w1) \<and> length (ps_pfd ps1) = length (ps_pfd ps) \<and>
    w1 = w\<lparr>wt_polls := wt_polls w + 1, wt_psmem := (wt_psmem w)(a \<mapsto> ps1)\<rparr> \<and>
    (0 < fst r \<longrightarrow> (\<forall>fd. pollset_cause_fd w1 a fd = Some (ready_fd r fds = Some fd)))"
proof -
  let ?n = "length fds"
  let ?pfd = "map (\<lambda>p. if fst p < ?n then (snd p)\<lparr>pf_revents := snd r (fst p)\<rparr> else snd p) (enumerate 0 (ps_pfd ps))"
  let ?ps = "ps\<lparr>ps_pfd := ?pfd, ps_cause := if fst r \<le> 0 then ps_cause ps else first_cause 0 (take ?n ?pfd)\<rparr>"
  have n: "ps_nfds ps = ?n" "?n \<le> length (ps_pfd ps)" and fds: "map pf_fd (take ?n (ps_pfd ps)) = fds"
    using assms(2) by (auto simp: polls_for_def)
  have w: "pollset_wait e w a ms = Some (fst r, w\<lparr>wt_polls := wt_polls w + 1, wt_psmem := (wt_psmem w)(a \<mapsto> ?ps)\<rparr>)"
    using assms(1,3) n(1) fds by (cases r) (simp add: pollset_wait_def Let_def cong: if_cong)
  have e: "pf_fd (?pfd ! i) = fds ! i" "pf_revents (?pfd ! i) = snd r i" if "i < ?n" for i
  proof -
    have "i < length (ps_pfd ps)" using that n(2) by simp
    moreover have "pf_fd (ps_pfd ps ! i) = fds ! i"
      using arg_cong [OF fds, of "\<lambda>l. l ! i"] that n(2) by simp
    ultimately show "pf_fd (?pfd ! i) = fds ! i" "pf_revents (?pfd ! i) = snd r i"
      using that by (simp_all add: nth_enumerate_eq)
  qed
  have f: "find (\<lambda>i. pf_revents (take ?n ?pfd ! i) AND (POLLERR OR POLLIN) \<noteq> 0) [0..<?n] =
      find (\<lambda>i. snd r i AND (POLLERR OR POLLIN) \<noteq> 0) [0..<?n]"
    by (rule find_cong_set) (simp add: e)
  have c: "first_cause 0 (take ?n ?pfd) = (case find (\<lambda>i. snd r i AND (POLLERR OR POLLIN) \<noteq> 0) [0..<?n] of
      None \<Rightarrow> -1 | Some i \<Rightarrow> int i)"
    using n(2) f first_cause_find [of "take ?n ?pfd"] by (simp del: nth_take take_map)
  have "pollset_cause_fd (w\<lparr>wt_polls := wt_polls w + 1, wt_psmem := (wt_psmem w)(a \<mapsto> ?ps)\<rparr>) a fd =
      Some (ready_fd r fds = Some fd)" if "0 < fst r" for fd
  proof (cases "find (\<lambda>i. snd r i AND (POLLERR OR POLLIN) \<noteq> 0) [0..<?n]")
    case None
    then show ?thesis using that c by (simp add: pollset_cause_fd_def ready_fd_def)
  next
    case (Some i)
    then have "i < ?n" using find_SomeD [OF Some] by (metis atLeastLessThan_iff in_set_conv_decomp set_upt)
    then show ?thesis using that c Some n(2) e(1) by (simp add: pollset_cause_fd_def ready_fd_def)
  qed
  then show ?thesis using w by (intro exI [of _ "w\<lparr>wt_polls := wt_polls w + 1, wt_psmem := (wt_psmem w)(a \<mapsto> ?ps)\<rparr>"]
        exI [of _ ?ps]) simp
qed

lemma poll_phase_result:
  assumes "wt_psmem w a = Some ps" and "polls_for ps (polled_fds ts)"
  shows "\<exists>w1 ps1 k. poll_phase e w a (first_deadline ts) = Some (fst (poll_result e w ts), w1) \<and>
    length (ps_pfd ps1) = length (ps_pfd ps) \<and>
    w1 = w\<lparr>wt_polls := polls_after e w ts, wt_clock := k, wt_psmem := (wt_psmem w)(a \<mapsto> ps1)\<rparr> \<and>
    clock_ms e (wt_clock w1) = time_after e w ts \<and>
    (0 < fst (poll_result e w ts) \<longrightarrow>
      (\<forall>fd. pollset_cause_fd w1 a fd = Some (ready_fd (poll_result e w ts) (polled_fds ts) = Some fd)))"
proof (cases "first_deadline ts = -1")
  case True
  then have "poll_fn e (wt_polls w) (polled_fds ts) (-1) = poll_result e w ts" by (simp add: poll_result_def)
  from pollset_wait_result [OF assms this] obtain w1 ps1 where
    *: "pollset_wait e w a (- 1) = Some (fst (poll_result e w ts), w1)" "length (ps_pfd ps1) = length (ps_pfd ps)"
    "w1 = w\<lparr>wt_polls := wt_polls w + 1, wt_psmem := (wt_psmem w)(a \<mapsto> ps1)\<rparr>"
    "0 < fst (poll_result e w ts) \<longrightarrow>
      (\<forall>fd. pollset_cause_fd w1 a fd = Some (ready_fd (poll_result e w ts) (polled_fds ts) = Some fd))" by blast
  moreover have "w1 = w\<lparr>wt_polls := polls_after e w ts, wt_clock := wt_clock w, wt_psmem := (wt_psmem w)(a \<mapsto> ps1)\<rparr>"
    using *(3) True by (simp add: polls_after_def)
  moreover have "clock_ms e (wt_clock w1) = time_after e w ts" using True *(3) by (simp add: time_after_def)
  moreover have "poll_phase e w a (first_deadline ts) = Some (fst (poll_result e w ts), w1)"
    using True *(1) by (simp add: poll_phase_def)
  ultimately show ?thesis by blast
next
  case False
  let ?w = "w\<lparr>wt_clock := wt_clock w + 1\<rparr>"
  show ?thesis
  proof (cases "clock_ms e (wt_clock w) \<ge> first_deadline ts")
    case True
    then have "poll_phase e w a (first_deadline ts) = Some (0, ?w)" "poll_result e w ts = (0, \<lambda>_. 0)"
      using False by (simp_all add: poll_phase_def poll_result_def time_ms_def)
    moreover have "?w = w\<lparr>wt_polls := polls_after e w ts, wt_clock := wt_clock w + 1, wt_psmem := (wt_psmem w)(a \<mapsto> ps)\<rparr>"
      using assms(1) False True by (simp add: fun_upd_idem polls_after_def)
    moreover have "clock_ms e (wt_clock ?w) = time_after e w ts" using False by (simp add: time_after_def)
    ultimately show ?thesis by (metis fst_conv less_irrefl)
  next
    case past: False
    let ?ms = "wait_ms (first_deadline ts - clock_ms e (wt_clock w))"
    have "poll_fn e (wt_polls ?w) (polled_fds ts) ?ms = poll_result e w ts" "wt_psmem ?w a = Some ps"
      using False past assms(1) by (simp_all add: poll_result_def)
    from pollset_wait_result [OF this(2) assms(2) this(1)] obtain w1 ps1 where
      *: "pollset_wait e ?w a ?ms = Some (fst (poll_result e w ts), w1)" "length (ps_pfd ps1) = length (ps_pfd ps)"
      "w1 = ?w\<lparr>wt_polls := wt_polls w + 1, wt_psmem := (wt_psmem w)(a \<mapsto> ps1)\<rparr>"
      "0 < fst (poll_result e w ts) \<longrightarrow>
        (\<forall>fd. pollset_cause_fd w1 a fd = Some (ready_fd (poll_result e w ts) (polled_fds ts) = Some fd))" by auto
    have "poll_phase e w a (first_deadline ts) = Some (fst (poll_result e w ts), w1)"
      using False past *(1) by (simp add: poll_phase_def time_ms_def)
    moreover have "w1 = w\<lparr>wt_polls := polls_after e w ts, wt_clock := wt_clock w + 1, wt_psmem := (wt_psmem w)(a \<mapsto> ps1)\<rparr>"
      using *(3) past by (simp add: polls_after_def)
    moreover have "clock_ms e (wt_clock w1) = time_after e w ts" using False *(3) by (simp add: time_after_def)
    ultimately show ?thesis using *(2,4) by blast
  qed
qed

text \<open>What a due ticket becomes, and the callbacks of a round in their order.\<close>

definition ticket_fires :: "int option \<Rightarrow> u64 \<Rightarrow> 'c waiter_ticket \<Rightarrow> bool" where
  "ticket_fires ready now t \<longleftrightarrow> ticket_due ready now t \<and> \<not> tk_updated t"

definition ticket_after :: "int option \<Rightarrow> u64 \<Rightarrow> 'c waiter_ticket \<Rightarrow> 'c waiter_ticket" where
  "ticket_after ready now t =
     (let t1 = (if tk_type t = WATCH_TYPE_TIMEOUT \<and> ticket_due ready now t then t\<lparr>tk_start := now\<rparr> else t) in
      if ticket_fires ready now t then t1\<lparr>tk_updated := tk_callback t = None\<rparr> else t1)"

fun run_callbacks ::
    "('c \<Rightarrow> 's \<Rightarrow> 's option) \<Rightarrow> int option \<Rightarrow> u64 \<Rightarrow> 'c waiter_ticket list \<Rightarrow> 's \<Rightarrow> 's option" where
  "run_callbacks run ready now [] s = Some s"
| "run_callbacks run ready now (t # ts) s =
     Option.bind (case (if ticket_fires ready now t then tk_callback t else None) of None \<Rightarrow> Some s | Some c \<Rightarrow> run c s)
       (run_callbacks run ready now ts)"

lemma run_callbacks_append:
  "run_callbacks run ready now (ts @ us) s =
     Option.bind (run_callbacks run ready now ts s) (run_callbacks run ready now us)"
proof (induction ts arbitrary: s)
  case (Cons t ts)
  then have "run_callbacks run ready now (ts @ us) =
      (\<lambda>s. Option.bind (run_callbacks run ready now ts s) (run_callbacks run ready now us))" by (rule ext)
  then show ?case by simp
qed simp

lemma ticket_fresh_due:
  assumes "rc = 0 \<Longrightarrow> ready = None" and "rc \<noteq> 0 \<Longrightarrow> \<forall>fd. pollset_cause_fd w a fd = Some (ready = Some fd)"
  shows "ticket_fresh w a rc now t = Some (ticket_fires ready now t,
    if tk_type t = WATCH_TYPE_TIMEOUT \<and> ticket_due ready now t then t\<lparr>tk_start := now\<rparr> else t)"
  using assms by (cases "tk_type t") (auto simp: ticket_fresh_def ticket_fires_def ticket_due_def)

text \<open>The contract of a callback that handles its event: it changes the client's state and clears
  its own ticket, and nothing else in the waiter.\<close>

locale clearing_callbacks =
  fixes call :: "('c, 's) callback" and run :: "'c \<Rightarrow> 's \<Rightarrow> 's option"
  assumes call_clears: "wt_mem w x = Some t \<Longrightarrow> call c x (w, s) =
    map_option (\<lambda>s'. (w\<lparr>wt_mem := (wt_mem w)(x \<mapsto> t\<lparr>tk_updated := False\<rparr>)\<rparr>, s')) (run c s)"
begin

lemma fire_step:
  assumes "wt_mem w x = Some t"
    and "rc = 0 \<Longrightarrow> ready = None" and "rc \<noteq> 0 \<Longrightarrow> \<forall>fd. pollset_cause_fd w a fd = Some (ready = Some fd)"
  shows "fire_ticket call a rc now (w, s) x =
    map_option (\<lambda>s'. (w\<lparr>wt_mem := (wt_mem w)(x \<mapsto> ticket_after ready now t)\<rparr>, s'))
      (run_callbacks run ready now [t] s)"
proof -
  note f = ticket_fresh_due [of rc ready w a now t, OF assms(2,3)]
  show ?thesis
  proof (cases "ticket_fires ready now t \<and> tk_callback t \<noteq> None")
    case True
    then obtain c where "tk_callback t = Some c" by blast
    then show ?thesis using assms(1) True f
      by (cases "run c s") (auto simp: fire_ticket_def on_ticket_def call_clears ticket_after_def Let_def)
  next
    case False
    then show ?thesis using assms(1) f
      by (auto simp: fire_ticket_def on_ticket_def ticket_after_def Let_def)
  qed
qed

lemma fire_all:
  assumes "qring (wt_tickets w) xs" and "set xs \<subseteq> dom (wt_mem w)"
    and "rc = 0 \<Longrightarrow> ready = None" and "rc \<noteq> 0 \<Longrightarrow> \<forall>fd. pollset_cause_fd w a fd = Some (ready = Some fd)"
    and "run_callbacks run ready now (tickets_of w xs) s = Some s'"
  shows "for_each (\<lambda>s. list_next (wt_tickets (fst s))) 0 (fire_ticket call a rc now) (list_first (wt_tickets w)) (w, s) =
    Some (w\<lparr>wt_mem := \<lambda>x. if x \<in> set xs then map_option (ticket_after ready now) (wt_mem w x) else wt_mem w x\<rparr>, s')"
proof -
  let ?m = "\<lambda>as x. if x \<in> set as then map_option (ticket_after ready now) (wt_mem w x) else wt_mem w x"
  let ?I = "\<lambda>as (v, r). v = w\<lparr>wt_mem := ?m as\<rparr> \<and> run_callbacks run ready now (tickets_of w as) s = Some r"
  have d: "distinct xs" using assms(1) by (simp add: qring_def)
  have "\<exists>v. for_each (\<lambda>s. list_next (wt_tickets (fst s))) 0 (fire_ticket call a rc now) (hd (xs @ [0])) (w, s) = Some v \<and>
    qring (wt_tickets (fst v)) xs \<and> ?I xs v"
  proof (rule wcursor.for_each_all)
    show "\<exists>v'. fire_ticket call a rc now v x = Some v' \<and> qring (wt_tickets (fst v')) xs \<and> ?I (as @ [x]) v'"
      if x: "xs = as @ x # bs" "?I as v" for as x bs v
    proof -
      obtain r where v: "v = (w\<lparr>wt_mem := ?m as\<rparr>, r)" "run_callbacks run ready now (tickets_of w as) s = Some r"
        using x(2) by (cases v) auto
      obtain t where t: "wt_mem w x = Some t" using assms(2) x(1) by auto
      then have m: "?m as x = Some t" using d x(1) by auto
      obtain r' where r': "run_callbacks run ready now [t] r = Some r'"
        using assms(5) v(2) t by (auto simp: x(1) run_callbacks_append bind_eq_Some_conv)
      have "\<forall>fd. pollset_cause_fd (w\<lparr>wt_mem := ?m as\<rparr>) a fd = Some (ready = Some fd)" if "rc \<noteq> 0"
        using assms(4) [OF that] by (simp add: pollset_cause_fd_def)
      from fire_step [of "w\<lparr>wt_mem := ?m as\<rparr>" x t rc ready a now r, OF _ assms(3) this] m r'
      have f: "fire_ticket call a rc now v x =
          Some (w\<lparr>wt_mem := (?m as)(x \<mapsto> ticket_after ready now t)\<rparr>, r')" by (simp add: v(1))
      moreover have "(?m as)(x \<mapsto> ticket_after ready now t) = ?m (as @ [x])" using t by (auto simp: fun_eq_iff)
      moreover have "run_callbacks run ready now (tickets_of w (as @ [x])) s = Some r'"
        using v(2) r' t by (simp add: run_callbacks_append)
      ultimately show ?thesis using assms(1) by simp
    qed
  qed (use assms(1) in auto)
  then show ?thesis using assms(5) qring_first [OF assms(1)] by auto
qed

text \<open>One round of the waiter.\<close>

lemma wait_round:
  assumes "wt_shape w xs" and "wt_psmem w = [wt_pollset w \<mapsto> ps]" and "length (polled_fds ts) \<le> length (ps_pfd ps)"
    and "tickets_of w xs = ts" and "poll_result e w ts = r"
    and "ready_fd r (polled_fds ts) = ready" and "time_after e w ts = now"
  shows "\<exists>w' ps'. wt_shape w' xs \<and> wt_pollset w' = wt_pollset w \<and> wt_psmem w' = [wt_pollset w \<mapsto> ps'] \<and>
    length (ps_pfd ps') = length (ps_pfd ps) \<and> wt_polls w' = polls_after e w ts \<and>
    (if fst r < 0 then waiter_wait e call (w, s) = Some (w', s) \<and> tickets_of w' xs = ts
     else \<forall>s'. run_callbacks run ready now ts s = Some s' \<longrightarrow>
       waiter_wait e call (w, s) = Some (w', s') \<and> tickets_of w' xs = map (ticket_after ready now) ts)"
proof -
  note i = wt_shapeD [OF assms(1)]
  let ?a = "wt_pollset w"
  obtain ps1 where c: "for_each (\<lambda>_. list_next (wt_tickets w)) 0 (collect_ticket w) (list_first (wt_tickets w)) (pollset_reset ps, -1) =
      Some (ps1, first_deadline ts)" "polls_for ps1 (polled_fds ts)" "length (ps_pfd ps1) = length (ps_pfd ps)"
    using collect_all [OF assms(1), of "pollset_reset ps"] assms(3) by (auto simp: pollset_reset_def assms(4))
  let ?w = "w\<lparr>wt_psmem := (wt_psmem w)(?a \<mapsto> ps1)\<rparr>"
  have r: "poll_result e ?w ts = r" "time_after e ?w ts = now"
    "polls_after e ?w ts = polls_after e w ts"
    unfolding assms(5) [symmetric] assms(7) [symmetric] by (simp_all add: poll_result_def time_after_def polls_after_def)
  let ?n = "polls_after e w ts"
  obtain w1 ps2 k where p: "poll_phase e ?w ?a (first_deadline ts) = Some (fst r, w1)"
    "length (ps_pfd ps2) = length (ps_pfd ps)"
    "w1 = ?w\<lparr>wt_polls := ?n, wt_clock := k, wt_psmem := (wt_psmem ?w)(?a \<mapsto> ps2)\<rparr>" "clock_ms e (wt_clock w1) = now"
    "0 < fst r \<longrightarrow> (\<forall>fd. pollset_cause_fd w1 ?a fd = Some (ready = Some fd))"
    using poll_phase_result [of ?w ?a ps1 ts e] c(2,3) unfolding r assms(6) by auto
  have w1: "w1 = w\<lparr>wt_polls := ?n, wt_clock := k, wt_psmem := [?a \<mapsto> ps2]\<rparr>" using p(3) assms(2) by simp
  show ?thesis
  proof (cases "fst r < 0")
    case True
    then have "waiter_wait e call (w, s) = Some (w1, s)"
      using assms(2) c(1) p(1) by (simp add: waiter_wait_def Let_def)
    moreover have "wt_shape w1 xs" "tickets_of w1 xs = ts"
      using assms(1,4) by (simp_all add: w1 tickets_of_def wt_shape_def)
    moreover have "wt_pollset w1 = ?a" "wt_psmem w1 = [?a \<mapsto> ps2]" "wt_polls w1 = ?n" by (simp_all add: w1)
    ultimately show ?thesis using True p(2) by (intro exI [of _ w1] exI [of _ ps2]) simp
  next
    case False
    let ?w2 = "w1\<lparr>wt_clock := k + 1\<rparr>"
    define m where "m = (\<lambda>x. if x \<in> set xs then map_option (ticket_after ready now) (wt_mem w x) else wt_mem w x)"
    have t: "time_ms e w1 = (now, ?w2)" using p(4) w1 by (simp add: time_ms_def)
    have ready: "ready = None" if "fst r = 0" using assms(6) that by (auto simp: ready_fd_def)
    have "waiter_wait e call (w, s) = Some (?w2\<lparr>wt_mem := m\<rparr>, s')" if "run_callbacks run ready now ts s = Some s'" for s'
    proof -
      have "qring (wt_tickets ?w2) xs" "set xs \<subseteq> dom (wt_mem ?w2)" "tickets_of ?w2 xs = ts" "wt_mem ?w2 = wt_mem w"
        using i(1,2) assms(4) by (simp_all add: w1 tickets_of_def)
      moreover have "\<forall>fd. pollset_cause_fd ?w2 ?a fd = Some (ready = Some fd)" if "fst r \<noteq> 0"
        using p(5) that False by (simp add: pollset_cause_fd_def)
      ultimately show ?thesis
        using fire_all [of ?w2 xs "fst r" ready ?a now s s'] ready that assms(2) c(1) p(1) t False
        by (simp add: waiter_wait_def Let_def m_def cong: if_cong)
    qed
    moreover have "dom m = dom (wt_mem w)" by (auto simp: m_def split: if_splits)
    then have "wt_shape (?w2\<lparr>wt_mem := m\<rparr>) xs" using assms(1) i(2) by (simp add: w1 wt_shape_def)
    moreover have "tickets_of (?w2\<lparr>wt_mem := m\<rparr>) xs = map (ticket_after ready now) ts"
    proof -
      have "wt_mem w x \<noteq> None" if "x \<in> set xs" for x using that i(2) by (metis domIff)
      then show ?thesis using assms(4) by (auto simp: tickets_of_def m_def option.map_sel)
    qed
    ultimately show ?thesis using False w1 p(2)
      by (intro exI [of _ "?w2\<lparr>wt_mem := m\<rparr>"] exI [of _ ps2]) simp
  qed
qed

end

section \<open>Synchronised timeouts\<close>

text \<open>The nested loops on the list of tickets, and what they are meant to compute: every timeout
  starts together with the first one that has its interval.\<close>

definition same_timeout :: "u64 \<Rightarrow> 'c waiter_ticket \<Rightarrow> bool" where
  "same_timeout iv t \<longleftrightarrow> tk_type t = WATCH_TYPE_TIMEOUT \<and> interval t = iv"

fun start_next :: "u64 \<Rightarrow> u64 \<Rightarrow> 'c waiter_ticket list \<Rightarrow> 'c waiter_ticket list" where
  "start_next iv st [] = []"
| "start_next iv st (t # ts) = (if same_timeout iv t then t\<lparr>tk_start := st\<rparr> # ts else t # start_next iv st ts)"

lemma length_start_next [simp]: "length (start_next iv st ts) = length ts"
  by (induction ts) auto

function sync_list :: "'c waiter_ticket list \<Rightarrow> 'c waiter_ticket list" where
  "sync_list [] = []"
| "sync_list (t # ts) =
     t # sync_list (if tk_type t = WATCH_TYPE_TIMEOUT then start_next (interval t) (tk_start t) ts else ts)"
  by pat_completeness auto

termination by (relation "measure length") auto

definition common_start :: "'c waiter_ticket list \<Rightarrow> 'c waiter_ticket \<Rightarrow> 'c waiter_ticket" where
  "common_start ts t =
     (if tk_type t \<noteq> WATCH_TYPE_TIMEOUT then t
      else case find (same_timeout (interval t)) ts of None \<Rightarrow> t | Some u \<Rightarrow> t\<lparr>tk_start := tk_start u\<rparr>)"

lemma interval_start [simp]: "interval (t\<lparr>tk_start := st\<rparr>) = interval t"
  by (simp add: interval_def)

lemma same_timeout_start [simp]: "same_timeout iv (t\<lparr>tk_start := st\<rparr>) = same_timeout iv t"
  by (simp add: same_timeout_def)

lemma same_timeout_unique: "same_timeout iv t \<Longrightarrow> same_timeout iv' t \<Longrightarrow> iv' = iv"
  by (simp add: same_timeout_def)

lemma find_start_next: "find (same_timeout iv') (start_next iv st ts) =
    (if iv' = iv then map_option (\<lambda>t. t\<lparr>tk_start := st\<rparr>) (find (same_timeout iv) ts) else find (same_timeout iv') ts)"
  by (induction ts) (auto dest: same_timeout_unique)

lemma map_start_next:
  "(\<And>t. t \<in> set ts \<Longrightarrow> same_timeout iv t \<Longrightarrow> f (t\<lparr>tk_start := st\<rparr>) = f t) \<Longrightarrow> map f (start_next iv st ts) = map f ts"
  by (induction ts) auto

lemma sync_list_common: "sync_list ts = map (common_start ts) ts"
proof (induction ts rule: sync_list.induct)
  case (2 t ts)
  show ?case
  proof (cases "tk_type t = WATCH_TYPE_TIMEOUT")
    case True
    let ?us = "start_next (interval t) (tk_start t) ts"
    have f: "find (same_timeout (interval u)) ts \<noteq> None" if "u \<in> set ts" "tk_type u = WATCH_TYPE_TIMEOUT" for u
      using that by (auto simp: find_None_iff same_timeout_def)
    have "map (common_start ?us) ?us = map (common_start ?us) ts"
    proof (rule map_start_next)
      show "common_start ?us (v\<lparr>tk_start := tk_start t\<rparr>) = common_start ?us v"
        if "v \<in> set ts" "same_timeout (interval t) v" for v
        using f [of v] that by (auto simp: common_start_def find_start_next same_timeout_def)
    qed
    moreover have "common_start ?us u = common_start (t # ts) u" if "u \<in> set ts" for u
      using f [OF that] True by (auto simp: common_start_def find_start_next same_timeout_def)
    moreover have "common_start (t # ts) t = t" using True by (simp add: common_start_def same_timeout_def)
    ultimately show ?thesis using 2 True by simp
  next
    case False
    then have "common_start (t # ts) u = common_start ts u" for u
      by (auto simp: common_start_def same_timeout_def)
    with 2 False show ?thesis by (auto simp: common_start_def)
  qed
qed simp

lemma sync_after_list:
  assumes "qring (wt_tickets w) (as @ bs)" and "set bs \<subseteq> dom (wt_mem w)"
  shows "\<exists>m. sync_after w t (hd (bs @ [0])) = Some (w\<lparr>wt_mem := m\<rparr>) \<and> dom m = dom (wt_mem w) \<and>
    (\<forall>x. x \<notin> set bs \<longrightarrow> m x = wt_mem w x) \<and>
    tickets_of (w\<lparr>wt_mem := m\<rparr>) bs = start_next (interval t) (tk_start t) (tickets_of w bs)"
  using assms
proof (induction bs arbitrary: as)
  case Nil
  then show ?case by (intro exI [of _ "wt_mem w"]) (simp add: sync_after.simps)
next
  case (Cons b bs)
  have d: "distinct (b # bs)" "b \<noteq> 0" using Cons.prems(1) by (auto simp: qring_def)
  obtain u where u: "wt_mem w b = Some u" using Cons.prems(2) by auto
  show ?case
  proof (cases "same_timeout (interval t) u")
    case True
    define m where "m = (wt_mem w)(b \<mapsto> u\<lparr>tk_start := tk_start t\<rparr>)"
    have "tickets_of (w\<lparr>wt_mem := m\<rparr>) bs = tickets_of w bs" using d by (auto simp: tickets_of_def m_def)
    moreover have "sync_after w t b = Some (w\<lparr>wt_mem := m\<rparr>)"
      using True u d(2) by (simp add: sync_after.simps [of w t b] same_timeout_def on_ticket_def m_def)
    moreover have "dom m = dom (wt_mem w)" "m b = Some (u\<lparr>tk_start := tk_start t\<rparr>)" "\<forall>x. x \<noteq> b \<longrightarrow> m x = wt_mem w x"
      using u by (auto simp: m_def)
    ultimately show ?thesis using True u by (intro exI [of _ m]) simp
  next
    case False
    obtain m where m: "sync_after w t (hd (bs @ [0])) = Some (w\<lparr>wt_mem := m\<rparr>)" "dom m = dom (wt_mem w)"
      "\<forall>x. x \<notin> set bs \<longrightarrow> m x = wt_mem w x"
      "tickets_of (w\<lparr>wt_mem := m\<rparr>) bs = start_next (interval t) (tk_start t) (tickets_of w bs)"
      using Cons.IH [of "as @ [b]"] Cons.prems by auto
    have "sync_after w t b = sync_after w t (hd (bs @ [0]))"
      using u d(2) False qring_succ [OF Cons.prems(1)]
      by (subst sync_after.simps) (auto simp: same_timeout_def)
    then show ?thesis using m u d False by (intro exI [of _ m]) auto
  qed
qed

lemma sync_ticket_list:
  assumes "qring (wt_tickets w) (as @ x # bs)" and "set (as @ x # bs) \<subseteq> dom (wt_mem w)"
    and "the (wt_mem w x) = t"
  shows "\<exists>m. sync_ticket w x = Some (w\<lparr>wt_mem := m\<rparr>) \<and> dom m = dom (wt_mem w) \<and>
    (\<forall>y. y \<notin> set bs \<longrightarrow> m y = wt_mem w y) \<and>
    tickets_of (w\<lparr>wt_mem := m\<rparr>) bs =
      (if tk_type t = WATCH_TYPE_TIMEOUT then start_next (interval t) (tk_start t) (tickets_of w bs) else tickets_of w bs)"
proof -
  have t: "wt_mem w x = Some t" using assms(2,3) by auto
  show ?thesis
  proof (cases "tk_type t = WATCH_TYPE_TIMEOUT")
    case True
    then show ?thesis using t qring_succ [OF assms(1)] sync_after_list [of w "as @ [x]" bs t] assms(1,2)
      by (simp add: sync_ticket_def)
  next
    case False
    then show ?thesis using t by (intro exI [of _ "wt_mem w"]) (simp add: sync_ticket_def)
  qed
qed

lemma waiter_synchronize_list:
  assumes "wt_inv w xs"
  shows "\<exists>w'. waiter_synchronize w = Some w' \<and> wt_inv w' xs \<and> tickets_of w' xs = sync_list (tickets_of w xs)"
proof -
  note i = wt_invD [OF assms]
  let ?I = "\<lambda>as v. \<exists>m bs. v = w\<lparr>wt_mem := m\<rparr> \<and> dom m = set xs \<and> xs = as @ bs \<and>
    sync_list (tickets_of w xs) = tickets_of v as @ sync_list (tickets_of v bs)"
  have "\<exists>v. for_each (\<lambda>w. list_next (wt_tickets w)) 0 sync_ticket (hd (xs @ [0])) w = Some v \<and>
    qring (wt_tickets v) xs \<and> ?I xs v"
  proof (rule tcursor.for_each_all [where I = ?I])
    show "\<exists>v'. sync_ticket v x = Some v' \<and> qring (wt_tickets v') xs \<and> ?I (as @ [x]) v'"
      if x: "xs = as @ x # bs" and I: "?I as v" for as x bs v
    proof -
      obtain m where m: "v = w\<lparr>wt_mem := m\<rparr>" "dom m = set xs"
        "sync_list (tickets_of w xs) = tickets_of v as @ sync_list (tickets_of v (x # bs))"
        using I x by auto
      have "qring (wt_tickets v) (as @ x # bs)" "set (as @ x # bs) \<subseteq> dom (wt_mem v)" using m(1,2) x i(1) by auto
      from sync_ticket_list [OF this refl] obtain m' where m': "sync_ticket v x = Some (v\<lparr>wt_mem := m'\<rparr>)"
        "dom m' = dom (wt_mem v)" "\<forall>y. y \<notin> set bs \<longrightarrow> m' y = wt_mem v y"
        "tickets_of (v\<lparr>wt_mem := m'\<rparr>) bs = (if tk_type (the (wt_mem v x)) = WATCH_TYPE_TIMEOUT
           then start_next (interval (the (wt_mem v x))) (tk_start (the (wt_mem v x))) (tickets_of v bs) else tickets_of v bs)"
        by blast
      have "tickets_of (v\<lparr>wt_mem := m'\<rparr>) (as @ [x]) = tickets_of v (as @ [x])"
        using m'(3) i(5) x by (auto simp: tickets_of_def)
      then have "sync_list (tickets_of w xs) = tickets_of (v\<lparr>wt_mem := m'\<rparr>) (as @ [x]) @ sync_list (tickets_of (v\<lparr>wt_mem := m'\<rparr>) bs)"
        using m(3) m'(4) by (simp split: if_splits)
      then show ?thesis using m' m(1,2) x i(1) by auto
    qed
    show "?I [] w" using i(2) by (intro exI [of _ "wt_mem w"] exI [of _ xs]) simp
  qed (simp_all add: i(1))
  then obtain m where m: "for_each (\<lambda>w. list_next (wt_tickets w)) 0 sync_ticket (hd (xs @ [0])) w = Some (w\<lparr>wt_mem := m\<rparr>)"
    "dom m = set xs" "sync_list (tickets_of w xs) = tickets_of (w\<lparr>wt_mem := m\<rparr>) xs"
    by auto
  moreover have "wt_inv (w\<lparr>wt_mem := m\<rparr>) xs" using assms m(2) by (auto simp: wt_inv_def wt_shape_def split: if_splits)
  ultimately show ?thesis using qring_first [OF i(1)] by (simp add: waiter_synchronize_def)
qed

section \<open>Release\<close>

lemma destroy_from:
  assumes "qring l (as @ bs)" and "\<forall>x \<in> set bs. list_next (wt_tickets w) x = list_next l x" and "set bs \<subseteq> dom (wt_mem w)"
  shows "\<exists>w'. for_each_safe (length bs) (\<lambda>w. list_next (wt_tickets w)) 0
      (\<lambda>w x. if wt_mem w x = None then None else Some (drop_ticket w x)) (hd (bs @ [0])) w = Some w' \<and>
    wt_mem w' = wt_mem w |` (- set bs) \<and> wt_pollset w' = wt_pollset w \<and> wt_psmem w' = wt_psmem w"
  using assms
proof (induction bs arbitrary: as w)
  case Nil
  then show ?case by (simp add: for_each_safe.simps)
next
  case (Cons b bs)
  have d: "b \<notin> set bs" "b \<noteq> 0" using Cons.prems(1) by (auto simp: qring_def)
  have n: "list_next (wt_tickets w) b = Some (hd (bs @ [0]))" using qring_succ [OF Cons.prems(1)] Cons.prems(2) by simp
  have m: "wt_mem w b \<noteq> None" using Cons.prems(3) by auto
  have A: "\<forall>x \<in> set bs. list_next (wt_tickets (drop_ticket w b)) x = list_next l x"
    using Cons.prems(2) d by (auto simp: drop_ticket_def list_next_def get_next_def)
  have B: "set bs \<subseteq> dom (wt_mem (drop_ticket w b))" using Cons.prems(3) d by (auto simp: drop_ticket_mem)
  have Q: "qring l ((as @ [b]) @ bs)" using Cons.prems(1) by simp
  have "wt_mem (drop_ticket w b) |` (- set bs) = wt_mem w |` (- set (b # bs))"
    by (auto simp: restrict_map_def fun_eq_iff drop_ticket_mem)
  with Cons.IH [OF Q A B] n m d(2) show ?case by (subst for_each_safe.simps) simp
qed

lemma waiter_destroy_all:
  assumes "wt_inv w xs"
  shows "waiter_destroy (length xs) w = Some (Map.empty, Map.empty)"
proof -
  note i = wt_invD [OF assms]
  obtain w' where w': "for_each_safe (length xs) (\<lambda>w. list_next (wt_tickets w)) 0
      (\<lambda>w x. if wt_mem w x = None then None else Some (drop_ticket w x)) (list_first (wt_tickets w)) w = Some w'"
    "wt_mem w' = wt_mem w |` (- set xs)" "wt_pollset w' = wt_pollset w" "wt_psmem w' = wt_psmem w"
    using destroy_from [of "wt_tickets w" "[]" xs w] i(1,2) qring_first [OF i(1)] by auto
  have "wt_mem w' = Map.empty" using w'(2) i(2) by (metis Compl_disjoint dom_restrict dom_eq_empty_conv)
  then show ?thesis using w' assms by (auto simp: waiter_destroy_def pollset_destroy_def wt_inv_def)
qed

section \<open>A round with a timeout\<close>

text \<open>The ticket that \<open>waiter_wait_timeout\<close> keeps on the stack.\<close>

definition stack_ticket :: "wt_env \<Rightarrow> 'c waiter \<Rightarrow> u32 \<Rightarrow> 'c waiter_ticket" where
  "stack_ticket e w ms =
     zero_ticket\<lparr>tk_type := WATCH_TYPE_TIMEOUT, tk_word := ms, tk_start := clock_ms e (wt_clock w)\<rparr>"

lemma polled_after [simp]: "polled_fds (map (ticket_after ready now) ts) = polled_fds ts"
  by (induction ts) (auto simp: polled_fds_def ticket_after_def filedes_def Let_def)

context clearing_callbacks
begin

lemma wait_inv:
  assumes "wt_inv w xs" and "wt_pollset w \<noteq> 0" and "tickets_of w xs = ts" and "poll_result e w ts = r"
    and "ready_fd r (polled_fds ts) = ready" and "time_after e w ts = now"
  shows "\<exists>w'. wt_inv w' xs \<and> wt_pollset w' \<noteq> 0 \<and> wt_polls w' = polls_after e w ts \<and>
    (if fst r < 0 then waiter_wait e call (w, s) = Some (w', s) \<and> tickets_of w' xs = ts
     else \<forall>s'. run_callbacks run ready now ts s = Some s' \<longrightarrow>
       waiter_wait e call (w, s) = Some (w', s') \<and> tickets_of w' xs = map (ticket_after ready now) ts)"
proof -
  obtain ps where ps: "wt_psmem w = [wt_pollset w \<mapsto> ps]" "length (ps_pfd ps) mod 32 = 1" "length xs < length (ps_pfd ps)"
    using wt_inv_pollset [OF assms(1,2)] by blast
  have "length (polled_fds ts) \<le> length (ps_pfd ps)"
    using length_polled_fds [of ts] ps(3) assms(3) by (auto simp: tickets_of_def)
  from wait_round [OF wt_inv_shape [OF assms(1)] ps(1) this assms(3-6), of s] obtain w' ps' where
    w': "wt_shape w' xs" "wt_pollset w' = wt_pollset w" "wt_psmem w' = [wt_pollset w \<mapsto> ps']"
    "length (ps_pfd ps') = length (ps_pfd ps)" "wt_polls w' = polls_after e w ts"
    "if fst r < 0 then waiter_wait e call (w, s) = Some (w', s) \<and> tickets_of w' xs = ts
     else \<forall>s'. run_callbacks run ready now ts s = Some s' \<longrightarrow>
       waiter_wait e call (w, s) = Some (w', s') \<and> tickets_of w' xs = map (ticket_after ready now) ts" by blast
  then have "wt_inv w' xs" using ps(2,3) assms(2) by (intro wt_invI [of w' xs ps']) simp_all
  then show ?thesis using w'(2,5,6) assms(2) by auto
qed

lemma wait_timeout:
  assumes "wt_inv w xs" and "wt_pollset w \<noteq> 0" and "x \<notin> set xs" and "x \<noteq> 0"
    and "ts = tickets_of w xs @ [stack_ticket e w ms]" and "w\<lparr>wt_clock := wt_clock w + 1\<rparr> = w0"
    and "poll_result e w0 ts = r" and "ready_fd r (polled_fds ts) = ready" and "time_after e w0 ts = now"
  shows "\<exists>w'. wt_inv w' xs \<and> wt_pollset w' = wt_pollset w \<and>
    (if fst r < 0 then waiter_wait_timeout e call x ms (w, s) = Some (0, w', s) \<and> tickets_of w' xs = tickets_of w xs
     else \<forall>s'. run_callbacks run ready now ts s = Some s' \<longrightarrow>
       waiter_wait_timeout e call x ms (w, s) =
         Some (if deadline (stack_ticket e w ms) \<le> now then -1 else 0, w', s') \<and>
       tickets_of w' xs = map (ticket_after ready now) (tickets_of w xs))"
proof -
  note i = wt_invD [OF assms(1)]
  let ?t = "stack_ticket e w ms"
  obtain ps where ps: "wt_psmem w = [wt_pollset w \<mapsto> ps]" "length (ps_pfd ps) mod 32 = 1" "length xs < length (ps_pfd ps)"
    using wt_inv_pollset [OF assms(1,2)] by blast
  have q: "qring (wt_tickets w0) xs" using i(1) assms(6) by auto
  obtain l where l: "tickets_append (new_ticket w0 x ?t) x = Some (w0\<lparr>wt_mem := (wt_mem w0)(x \<mapsto> ?t), wt_tickets := l\<rparr>)"
    "qring l (xs @ [x])" "dom (q_heap l) = insert x (dom (q_heap (wt_tickets w0)))"
    using append_ticket [OF q assms(3,4)] by blast
  define W where "W = w0\<lparr>wt_mem := (wt_mem w0)(x \<mapsto> ?t), wt_tickets := l, wt_count := wt_count w0 + 1\<rparr>"
  have set: "waiter_ticket_set_timeout e (new_ticket w x zero_ticket) x ms = Some (new_ticket w0 x ?t)"
    by (simp add: waiter_ticket_set_timeout_def time_ms_def on_ticket_def new_ticket_def stack_ticket_def
        assms(6) [symmetric])
  have W: "wt_shape W (xs @ [x])" "wt_psmem W = [wt_pollset W \<mapsto> ps]" "tickets_of W (xs @ [x]) = ts"
    "poll_result e W ts = r" "time_after e W ts = now" "wt_pollset W = wt_pollset w"
  proof -
    show "wt_shape W (xs @ [x])" "wt_psmem W = [wt_pollset W \<mapsto> ps]" "wt_pollset W = wt_pollset w"
      unfolding assms(6) [symmetric] using l(2,3) i ps(1) by (simp_all add: W_def wt_shape_def assms(6) [symmetric])
    show "tickets_of W (xs @ [x]) = ts" using assms(3,5,6) by (auto simp: W_def tickets_of_def)
    show "poll_result e W ts = r" "time_after e W ts = now"
      unfolding assms(7) [symmetric] assms(9) [symmetric] by (simp_all add: W_def poll_result_def time_after_def)
  qed
  have fds: "length (polled_fds ts) \<le> length (ps_pfd ps)"
  proof -
    have "polled_fds [?t] = []" by (simp add: polled_fds_def stack_ticket_def)
    then show ?thesis using length_polled_fds [of "tickets_of w xs"] ps(3) assms(5) by simp
  qed
  obtain w' ps' where w': "wt_shape w' (xs @ [x])" "wt_pollset w' = wt_pollset w" "wt_psmem w' = [wt_pollset w \<mapsto> ps']"
    "length (ps_pfd ps') = length (ps_pfd ps)"
    "if fst r < 0 then waiter_wait e call (W, s) = Some (w', s) \<and> tickets_of w' (xs @ [x]) = ts
     else \<forall>s'. run_callbacks run ready now ts s = Some s' \<longrightarrow>
       waiter_wait e call (W, s) = Some (w', s') \<and> tickets_of w' (xs @ [x]) = map (ticket_after ready now) ts"
    using wait_round [OF W(1,2) fds W(3,4) assms(8) W(5), of s] W(6) by auto
  obtain l' where l': "tickets_remove w' x = Some (w'\<lparr>wt_tickets := l'\<rparr>)"
    "wt_shape (drop_ticket (w'\<lparr>wt_tickets := l', wt_count := wt_count w' - 1\<rparr>) x) xs"
    using shape_remove [of w' xs x "[]"] w'(1) by auto
  define v where "v = drop_ticket (w'\<lparr>wt_tickets := l', wt_count := wt_count w' - 1\<rparr>) x"
  have v: "wt_inv v xs" using l'(2) w'(2,3,4) ps(2,3) assms(2) by (intro wt_invI [of v xs ps']) (auto simp: v_def)
  have tv: "tickets_of v xs = tickets_of w' xs" using assms(3) by (auto simp: v_def tickets_of_def drop_ticket_mem)
  have run: "waiter_wait_timeout e call x ms (w, s) =
      Some (if tk_updated (the (wt_mem w' x)) then -1 else 0, v, s')" if "waiter_wait e call (W, s) = Some (w', s')" for s'
  proof -
    have "x \<in> dom (wt_mem w')" using wt_shapeD(2) [OF w'(1)] by simp
    then show ?thesis using set l(1) l'(1) that
      by (auto simp: waiter_wait_timeout_def W_def v_def waiter_ticket_check_def)
  qed
  show ?thesis
  proof (cases "fst r < 0")
    case True
    then have "waiter_wait e call (W, s) = Some (w', s)" "tickets_of w' xs = tickets_of w xs" "the (wt_mem w' x) = ?t"
      using w'(5) assms(5) by auto
    then show ?thesis using True run [of s] v tv w'(2)
      by (intro exI [of _ v]) (simp add: v_def stack_ticket_def zero_ticket_def)
  next
    case False
    have f: "tk_updated (ticket_after ready now ?t) \<longleftrightarrow> deadline ?t \<le> now"
      by (simp add: ticket_after_def ticket_fires_def ticket_due_def deadline_def stack_ticket_def zero_ticket_def Let_def)
    have "waiter_wait_timeout e call x ms (w, s) = Some (if deadline ?t \<le> now then -1 else 0, v, s') \<and>
        tickets_of v xs = map (ticket_after ready now) (tickets_of w xs)" if "run_callbacks run ready now ts s = Some s'" for s'
    proof -
      have "waiter_wait e call (W, s) = Some (w', s')" "tickets_of w' xs = map (ticket_after ready now) (tickets_of w xs)"
        "the (wt_mem w' x) = ticket_after ready now ?t"
        using w'(5) False that assms(5) by auto
      then show ?thesis using run f tv by simp
    qed
    then show ?thesis using False v w'(2) by (intro exI [of _ v]) (simp add: v_def)
  qed
qed

end

section \<open>Adding tickets\<close>

lemma tickets_of_upd: "x \<notin> set xs \<Longrightarrow> wt_mem w' = (wt_mem w)(x \<mapsto> t) \<Longrightarrow>
    tickets_of w' (xs @ [x]) = tickets_of w xs @ [t]"
  by (auto simp: tickets_of_def)

lemma waiter_add_fd_inv:
  assumes "wt_inv w xs" and "x \<notin> set xs" and "x \<noteq> 0" and "a \<noteq> 0"
  shows "\<exists>w'. waiter_add_fd w x a fd = Some (x, w') \<and> wt_inv w' (xs @ [x]) \<and>
    tickets_of w' (xs @ [x]) = tickets_of w xs @
      [zero_ticket\<lparr>tk_type := WATCH_TYPE_FD, tk_word := of_int fd, tk_waiter := True\<rparr>] \<and>
    wt_clock w' = wt_clock w \<and> wt_polls w' = wt_polls w"
proof -
  let ?t = "zero_ticket\<lparr>tk_type := WATCH_TYPE_FD, tk_word := of_int fd, tk_waiter := True\<rparr>"
  obtain w' where w': "waiter_add_null w x a = Some (x, w')" "wt_inv w' (xs @ [x])"
    "wt_mem w' = (wt_mem w)(x \<mapsto> zero_ticket\<lparr>tk_waiter := True\<rparr>)" "wt_clock w' = wt_clock w" "wt_polls w' = wt_polls w"
    using waiter_add_null_inv [OF assms] by blast
  let ?w = "w'\<lparr>wt_mem := (wt_mem w')(x \<mapsto> ?t)\<rparr>"
  have "waiter_add_fd w x a fd = Some (x, ?w)"
    using w'(1,3) assms(3) by (simp add: waiter_add_fd_def waiter_ticket_set_fd_def on_ticket_def zero_ticket_def)
  moreover have "wt_inv ?w (xs @ [x])" using on_ticket_inv [OF w'(2), of x ?t] by simp
  moreover have "tickets_of ?w (xs @ [x]) = tickets_of w xs @ [?t]"
    by (rule tickets_of_upd [OF assms(2)]) (simp add: w'(3))
  ultimately show ?thesis using w'(4,5) by (intro exI [of _ ?w]) simp
qed

lemma waiter_add_timeout_inv:
  assumes "wt_inv w xs" and "x \<notin> set xs" and "x \<noteq> 0" and "a \<noteq> 0"
  shows "\<exists>w'. waiter_add_timeout e w x a ms = Some (x, w') \<and> wt_inv w' (xs @ [x]) \<and>
    tickets_of w' (xs @ [x]) = tickets_of w xs @ [(stack_ticket e w ms)\<lparr>tk_waiter := True\<rparr>] \<and>
    wt_clock w' = wt_clock w + 1 \<and> wt_polls w' = wt_polls w"
proof -
  let ?t = "(stack_ticket e w ms)\<lparr>tk_waiter := True\<rparr>"
  obtain w' where w': "waiter_add_null w x a = Some (x, w')" "wt_inv w' (xs @ [x])"
    "wt_mem w' = (wt_mem w)(x \<mapsto> zero_ticket\<lparr>tk_waiter := True\<rparr>)" "wt_clock w' = wt_clock w" "wt_polls w' = wt_polls w"
    using waiter_add_null_inv [OF assms] by blast
  let ?v = "w'\<lparr>wt_clock := wt_clock w + 1\<rparr>"
  let ?w = "?v\<lparr>wt_mem := (wt_mem w')(x \<mapsto> ?t)\<rparr>"
  have "waiter_add_timeout e w x a ms = Some (x, ?w)"
    using w'(1,3,4) assms(3) by (simp add: waiter_add_timeout_def waiter_ticket_set_timeout_def on_ticket_def
        time_ms_def stack_ticket_def zero_ticket_def)
  moreover have "wt_inv ?w (xs @ [x])" using on_ticket_inv [of ?v "xs @ [x]" x ?t] w'(2) by simp
  moreover have "tickets_of ?w (xs @ [x]) = tickets_of w xs @ [?t]"
    by (rule tickets_of_upd [OF assms(2)]) (simp add: w'(3))
  ultimately show ?thesis using w'(5) by (intro exI [of _ ?w]) simp
qed

section \<open>Failures\<close>

text \<open>A waiter without poll array: nothing was added yet, or the array could not be allocated.\<close>

lemma wait_without_pollset: "wt_psmem w (wt_pollset w) = None \<Longrightarrow> waiter_wait e call (w, s) = None"
  by (simp add: waiter_wait_def)

text \<open>When the array cannot be grown the old one is gone: the ticket stays in the list although the
  caller gets a null pointer, and the next round dereferences a null pointer.\<close>

lemma waiter_add_null_failure:
  assumes "wt_inv w xs" and "x \<notin> set xs" and "x \<noteq> 0" and "length xs mod 32 = 0"
  shows "\<exists>w'. waiter_add_null w x 0 = Some (0, w') \<and> qring (wt_tickets w') (xs @ [x]) \<and>
    wt_count w' = int (length xs) \<and> waiter_wait e call (w', s) = None"
proof -
  note i = wt_invD [OF assms(1)]
  let ?t = "zero_ticket\<lparr>tk_waiter := True\<rparr> :: 'a waiter_ticket"
  obtain l where l: "tickets_append (new_ticket w x ?t) x = Some (w\<lparr>wt_mem := (wt_mem w)(x \<mapsto> ?t), wt_tickets := l\<rparr>)"
    "qring l (xs @ [x])"
    using append_ticket [OF i(1) assms(2,3)] by blast
  let ?w = "w\<lparr>wt_mem := (wt_mem w)(x \<mapsto> ?t), wt_tickets := l, wt_psmem := Map.empty, wt_pollset := 0\<rparr>"
  have "int (length xs) mod 32 = 0" using assms(4) by presburger
  moreover have "(wt_psmem w)(wt_pollset w := None) = Map.empty" "wt_pollset w = 0 \<Longrightarrow> wt_psmem w = Map.empty"
    using assms(1) by (auto simp: wt_inv_def split: if_splits)
  ultimately have "waiter_add_null w x 0 = Some (0, ?w)"
    using assms(3) i(4) by (auto simp: waiter_add_null_def l(1) pollset_create_def pollset_destroy_def Let_def)
  then show ?thesis using l(2) i(4) wait_without_pollset [of ?w e call s] by auto
qed

text \<open>A callback that adds a ticket can release the array that the running round still reads.\<close>

lemma add_in_callback_dangles:
  assumes "wt_inv w xs" and "x \<notin> set xs" and "x \<noteq> 0" and "a \<noteq> 0" and "a \<noteq> wt_pollset w"
    and "length xs mod 32 = 0" and "wt_pollset w \<noteq> 0"
  shows "\<exists>w'. waiter_add_null w x a = Some (x, w') \<and> pollset_cause_fd w' (wt_pollset w) fd = None"
proof -
  obtain w' where w': "waiter_add_null w x a = Some (x, w')" "wt_inv w' (xs @ [x])"
    using waiter_add_null_inv [OF assms(1-4)] by blast
  have "int (length xs) mod 32 = 0" using assms(6) by presburger
  then have "wt_pollset w' = a"
    using w'(1) assms(3,4) wt_invD(4) [OF assms(1)]
    by (auto simp: waiter_add_null_def tickets_append_def new_ticket_def pollset_create_def pollset_destroy_def Let_def
        waiter_ticket_set_null_def on_ticket_def bind_eq_Some_conv split: if_splits option.splits)
  then have "wt_psmem w' (wt_pollset w) = None" using w'(2) assms(4,5) by (auto simp: wt_inv_def split: if_splits)
  then show ?thesis using w'(1) by (auto simp: pollset_cause_fd_def)
qed

section \<open>Properties\<close>

text \<open>C30: the operations of a waiter, from creation to release. Where the memory they ask for is available, adding
  a ticket (growing the poll array when it is full) and deleting a ticket are memory safe, keep the invariant,
  change no other ticket and leave the poll array larger than the number of tickets; releasing the
  waiter leaves nothing allocated. When there is no memory for the ticket, adding fails and changes
  nothing. When there is none for the larger poll array, the caller gets a null pointer although the
  ticket stays in the list, and the invariant is lost: the next round reads through a null pointer.\<close>

theorem waiter_ops_safe:
  assumes "wt_inv w xs"
  shows "(x \<notin> set xs \<and> x \<noteq> 0 \<and> a \<noteq> 0 \<longrightarrow>
      (\<exists>w'. waiter_add_fd w x a fd = Some (x, w') \<and> wt_inv w' (xs @ [x]) \<and>
        tickets_of w' (xs @ [x]) = tickets_of w xs @
          [zero_ticket\<lparr>tk_type := WATCH_TYPE_FD, tk_word := of_int fd, tk_waiter := True\<rparr>]) \<and>
      (\<exists>w'. waiter_add_timeout e w x a ms = Some (x, w') \<and> wt_inv w' (xs @ [x]) \<and>
        tickets_of w' (xs @ [x]) = tickets_of w xs @ [(stack_ticket e w ms)\<lparr>tk_waiter := True\<rparr>])) \<and>
    (\<forall>as bs. xs = as @ x # bs \<and> tk_waiter (the (wt_mem w x)) \<longrightarrow>
      (\<exists>w'. waiter_ticket_delete w x = Some w' \<and> wt_inv w' (as @ bs) \<and>
        tickets_of w' (as @ bs) = tickets_of w (as @ bs))) \<and>
    waiter_destroy (length xs) w = Some (Map.empty, Map.empty) \<and>
    waiter_add_fd w 0 a fd = Some (0, w) \<and> waiter_add_timeout e w 0 a ms = Some (0, w) \<and>
    (x \<notin> set xs \<and> x \<noteq> 0 \<and> length xs mod 32 = 0 \<longrightarrow>
      (\<exists>w'. waiter_add_fd w x 0 fd = Some (0, w') \<and> waiter_add_timeout e w x 0 ms = Some (0, w') \<and>
        qring (wt_tickets w') (xs @ [x]) \<and> waiter_wait e call (w', s) = None))"
proof (intro conjI impI allI)
  assume x: "x \<notin> set xs \<and> x \<noteq> 0 \<and> a \<noteq> 0"
  show "\<exists>w'. waiter_add_fd w x a fd = Some (x, w') \<and> wt_inv w' (xs @ [x]) \<and>
        tickets_of w' (xs @ [x]) = tickets_of w xs @
          [zero_ticket\<lparr>tk_type := WATCH_TYPE_FD, tk_word := of_int fd, tk_waiter := True\<rparr>]"
    using waiter_add_fd_inv [OF assms, of x a fd] x by blast
  show "\<exists>w'. waiter_add_timeout e w x a ms = Some (x, w') \<and> wt_inv w' (xs @ [x]) \<and>
        tickets_of w' (xs @ [x]) = tickets_of w xs @ [(stack_ticket e w ms)\<lparr>tk_waiter := True\<rparr>]"
    using waiter_add_timeout_inv [OF assms, of x a e ms] x by blast
next
  fix as bs
  assume x: "xs = as @ x # bs \<and> tk_waiter (the (wt_mem w x))"
  then obtain w' where w': "waiter_ticket_delete w x = Some w'" "wt_inv w' (as @ bs)" "wt_mem w' = (wt_mem w)(x := None)"
    using waiter_ticket_delete_inv assms by blast
  moreover have "x \<notin> set (as @ bs)" using wt_invD(5) [OF assms] x by auto
  ultimately show "\<exists>w'. waiter_ticket_delete w x = Some w' \<and> wt_inv w' (as @ bs) \<and>
      tickets_of w' (as @ bs) = tickets_of w (as @ bs)"
    by (auto simp: tickets_of_def)
next
  show "waiter_add_fd w 0 a fd = Some (0, w)" "waiter_add_timeout e w 0 a ms = Some (0, w)"
    by (simp_all add: waiter_add_fd_def waiter_add_timeout_def waiter_add_null_def)
next
  assume x: "x \<notin> set xs \<and> x \<noteq> 0 \<and> length xs mod 32 = 0"
  then obtain w' where w': "waiter_add_null w x 0 = Some (0, w')" "qring (wt_tickets w') (xs @ [x])"
    "waiter_wait e call (w', s) = None"
    using waiter_add_null_failure [OF assms, of x e call s] by auto
  moreover have "waiter_add_fd w x 0 fd = Some (0, w')" "waiter_add_timeout e w x 0 ms = Some (0, w')"
    using w'(1) by (simp_all add: waiter_add_fd_def waiter_add_timeout_def)
  ultimately show "\<exists>w'. waiter_add_fd w x 0 fd = Some (0, w') \<and> waiter_add_timeout e w x 0 ms = Some (0, w') \<and>
      qring (wt_tickets w') (xs @ [x]) \<and> waiter_wait e call (w', s) = None"
    by blast
qed (rule waiter_destroy_all [OF assms])

text \<open>One second passes between two calls of \<open>gettimeofday\<close>, and no descriptor becomes ready.\<close>

definition idle_env :: wt_env where
  "idle_env = \<lparr>poll_fn = \<lambda>_ _ _. (0, \<lambda>_. 0), gettimeofday = \<lambda>k. (int k + 1, 0)\<rparr>"

text \<open>A client whose callbacks clear their ticket and count.\<close>

definition counting_call :: "(nat, nat) callback" where
  "counting_call c x s = map_option (\<lambda>(ret, w). (w, snd s + c)) (waiter_ticket_clear (fst s) x)"

definition demo_waiter :: "nat waiter option" where
  "demo_waiter = do {
     w \<leftarrow> waiter_create True;
     (x, w1) \<leftarrow> waiter_add_fd w 1 50 7;
     Some w1 }"

theorem waiter_ops_safe_witness:
  "\<exists>w w'. waiter_create True = Some w \<and> waiter_add_fd w 1 50 7 = Some (1, w') \<and> wt_inv w' [1] \<and>
     demo_waiter = Some (w' :: nat waiter)"
proof -
  obtain w where w: "waiter_create True = Some (w :: nat waiter)" by (simp add: waiter_create_def)
  from waiter_ops_safe [OF waiter_create_inv [OF w], of 1 50 7 idle_env 0 counting_call "0 :: nat"] obtain w' where
    "waiter_add_fd w 1 50 7 = Some (1, w')" "wt_inv w' [1]" by auto
  with w show ?thesis by (auto simp: demo_waiter_def)
qed

text \<open>C31: the nested loops of \<open>waiter_synchronize\<close> end and compute what they are for. Every timeout
  gets the start of the first timeout in the list that has its interval; nothing else changes.\<close>

theorem waiter_synchronize_common:
  assumes "wt_inv w xs"
  shows "\<exists>w'. waiter_synchronize w = Some w' \<and> wt_inv w' xs \<and>
    tickets_of w' xs = map (common_start (tickets_of w xs)) (tickets_of w xs)"
  using waiter_synchronize_list [OF assms] by (simp add: sync_list_common)

definition demo_timers :: "nat waiter option" where
  "demo_timers = do {
     w \<leftarrow> waiter_create True;
     (x1, w1) \<leftarrow> waiter_add_timeout idle_env w 1 50 5;
     (x2, w2) \<leftarrow> waiter_add_timeout idle_env w1 2 51 5;
     Some w2 }"

theorem waiter_synchronize_common_witness:
  "\<exists>w w'. demo_timers = Some w \<and> map tk_start (tickets_of w [1, 2]) = [1000, 2000] \<and>
    waiter_synchronize w = Some w' \<and> map tk_start (tickets_of w' [1, 2]) = [1000, 1000]"
proof -
  obtain w where w: "waiter_create True = Some (w :: nat waiter)" "wt_clock w = 0" by (simp add: waiter_create_def)
  obtain w1 where w1: "waiter_add_timeout idle_env w 1 50 5 = Some (1, w1)" "wt_inv w1 [1]"
    "tickets_of w1 [1] = [(stack_ticket idle_env w 5)\<lparr>tk_waiter := True\<rparr>]" "wt_clock w1 = 1"
    using waiter_add_timeout_inv [OF waiter_create_inv [OF w(1)], of 1 50 idle_env 5] w(2) by auto
  obtain w2 where w2: "waiter_add_timeout idle_env w1 2 51 5 = Some (2, w2)" "wt_inv w2 [1, 2]"
    "tickets_of w2 [1, 2] = [(stack_ticket idle_env w 5)\<lparr>tk_waiter := True\<rparr>, (stack_ticket idle_env w1 5)\<lparr>tk_waiter := True\<rparr>]"
    using waiter_add_timeout_inv [OF w1(2), of 2 51 idle_env 5] w1(3) by auto
  have "demo_timers = Some w2" using w(1) w1(1) w2(1) by (simp add: demo_timers_def)
  moreover have "map tk_start (tickets_of w2 [1, 2]) = [1000, 2000]" unfolding w2(3)
    by (simp add: stack_ticket_def clock_ms_def idle_env_def w(2) w1(4))
  moreover obtain w' where "waiter_synchronize w2 = Some w'"
    "tickets_of w' [1, 2] = map (common_start (tickets_of w2 [1, 2])) (tickets_of w2 [1, 2])"
    using waiter_synchronize_common [OF w2(2)] by blast
  moreover have "map tk_start (map (common_start (tickets_of w2 [1, 2])) (tickets_of w2 [1, 2])) = [1000, 1000]"
    unfolding w2(3) by (simp add: common_start_def same_timeout_def stack_ticket_def interval_def clock_ms_def idle_env_def w(2) w1(4))
  ultimately show ?thesis by metis
qed

text \<open>C32: waiting with a timeout, for a waiter to which a ticket was added before (its poll array exists; without
  one the call reads through a null pointer, see \<open>wait_without_pollset\<close>) and callbacks that clear their ticket
  and do nothing else to the waiter (one that adds a ticket can release the array in use, see
  \<open>add_in_callback_dangles\<close>). When \<open>poll\<close> succeeds the result is \<open>-1\<close> exactly if the time after
  the round has reached the start plus the interval, and the due tickets of the waiter have
  fired; the tickets and the poll array are those from before the call. When \<open>poll\<close> fails,
  as it does when a signal arrives, the result is 0, which is documented to mean that a
  ticket fired, and no ticket has.\<close>

theorem waiter_wait_timeout_result:
  assumes "clearing_callbacks call run" and "wt_inv w xs" and "wt_pollset w \<noteq> 0" and "x \<notin> set xs" and "x \<noteq> 0"
    and "ts = tickets_of w xs @ [stack_ticket e w ms]" and "w0 = w\<lparr>wt_clock := wt_clock w + 1\<rparr>"
    and "ready = ready_fd (poll_result e w0 ts) (polled_fds ts)" and "now = time_after e w0 ts"
    and "run_callbacks run ready now ts s = Some s'"
  shows "\<exists>w'. wt_inv w' xs \<and> wt_pollset w' = wt_pollset w \<and>
    (if fst (poll_result e w0 ts) < 0
     then waiter_wait_timeout e call x ms (w, s) = Some (0, w', s) \<and> tickets_of w' xs = tickets_of w xs
     else waiter_wait_timeout e call x ms (w, s) =
         Some (if clock_ms e (wt_clock w) + ucast ms \<le> now then -1 else 0, w', s') \<and>
       tickets_of w' xs = map (ticket_after ready now) (tickets_of w xs))"
proof -
  have "deadline (stack_ticket e w ms) = clock_ms e (wt_clock w) + ucast ms"
    by (simp add: deadline_def stack_ticket_def interval_def)
  then show ?thesis
    using clearing_callbacks.wait_timeout [OF assms(1-6) assms(7) [symmetric] refl assms(8) [symmetric] assms(9) [symmetric], of s]
      assms(10) by auto
qed

interpretation counting: clearing_callbacks counting_call "\<lambda>c n. Some (n + c)"
  by unfold_locales (simp add: counting_call_def waiter_ticket_clear_def waiter_ticket_check_def on_ticket_def)

theorem waiter_wait_timeout_result_witness:
  "\<exists>w. demo_waiter = Some w \<and> map_option fst (waiter_wait_timeout idle_env counting_call 9 1500 (w, 0)) = Some (-1)"
proof -
  obtain w where w: "waiter_create True = Some (w :: nat waiter)" "wt_clock w = 0" by (simp add: waiter_create_def)
  let ?t = "zero_ticket\<lparr>tk_type := WATCH_TYPE_FD, tk_word := 7, tk_waiter := True\<rparr>"
  obtain w1 where w1: "waiter_add_fd w 1 50 7 = Some (1, w1)" "wt_inv w1 [1]" "tickets_of w1 [1] = [?t]" "wt_clock w1 = 0"
    using waiter_add_fd_inv [OF waiter_create_inv [OF w(1)], of 1 50 7] w(2) by auto
  have p: "wt_pollset w1 \<noteq> 0" using w1(2) by (auto simp: wt_inv_def split: if_splits)
  let ?ts = "tickets_of w1 [1] @ [stack_ticket idle_env w1 1500]" and ?w = "w1\<lparr>wt_clock := wt_clock w1 + 1\<rparr>"
  have ts: "?ts = [?t, zero_ticket\<lparr>tk_type := WATCH_TYPE_TIMEOUT, tk_word := 1500, tk_start := 1000\<rparr>]"
    unfolding w1(3) by (simp add: stack_ticket_def clock_ms_def idle_env_def w1(4))
  have d: "first_deadline ?ts = 2500"
    unfolding ts by (simp add: first_deadline_def deadline_def interval_def)
  have r: "poll_result idle_env ?w ?ts = (0, \<lambda>_. 0)" "time_after idle_env ?w ?ts = 3000"
    unfolding poll_result_def time_after_def d by (simp_all add: idle_env_def clock_ms_def w1(4))
  have c: "run_callbacks (\<lambda>c n. Some (n + c)) None 3000 ?ts (0 :: nat) = Some 0"
    unfolding ts by (simp add: ticket_fires_def zero_ticket_def)
  have "\<exists>w'. waiter_wait_timeout idle_env counting_call 9 1500 (w1, 0) = Some (-1, w', 0)"
    using waiter_wait_timeout_result [OF counting.clearing_callbacks_axioms w1(2) p, of 9 ?ts idle_env 1500 ?w None 3000 0 0]
      r c w1(4) by (auto simp: ready_fd_def clock_ms_def idle_env_def)
  moreover have "demo_waiter = Some w1" using w(1) w1(1) by (simp add: demo_waiter_def)
  ultimately show ?thesis by auto
qed

end
