(* ===== verification/NsMain.thy ===== *)
theory NsMain
  imports Ns Waiter
begin

unbundle bit_operations_syntax

text \<open>
  The process of the name service: \<open>main\<close> of \<^verbatim>\<open>qcom/qrtr/src/ns.c\<close> after the command line, which
  puts the control socket into a waiter with \<open>ctrl_port_fn\<close> as the callback and waits until the
  socket is closed. What the system does is an argument: the results of the calls that set up
  the socket, of every \<open>poll\<close>, and of every \<open>recvfrom\<close>.
\<close>

section \<open>The process\<close>

text \<open>The only callback is \<open>ctrl_port_fn\<close> with the context as its data; the context is
  part of the state.\<close>

datatype ns_callback = Ctrl_port_fn

record ns_proc =
  pr_recvs :: nat
  pr_ns :: ns_state

record ns_sys =
  sys_wait :: wt_env
  sys_recv :: "nat \<Rightarrow> int \<times> bytes \<times> sockaddr_qrtr"
  sys_env :: "nat \<Rightarrow> ns_env"

text \<open>\<open>ctrl_port_fn\<close> as the waiter calls it: it receives one datagram, handles it and clears
  the ticket.\<close>

definition ctrl_port_callback :: "ns_sys \<Rightarrow> (ns_callback, ns_proc) callback" where
  "ctrl_port_callback y c x s =
     (let k = pr_recvs (snd s); (len, buf, sq) = sys_recv y k in do {
        (rc, st) \<leftarrow> ctrl_port_fn (sys_env y k) (pr_ns (snd s)) len buf sq;
        (ret, w) \<leftarrow> waiter_ticket_clear (fst s) x;
        Some (w, \<lparr>pr_recvs = k + 1, pr_ns = st\<rparr>) })"

text \<open>\<open>while (ctx.sock >= 0) waiter_wait(w);\<close>\<close>

partial_function (option) ns_loop ::
    "ns_sys \<Rightarrow> ns_callback waiter \<Rightarrow> ns_proc \<Rightarrow> (ns_callback waiter \<times> ns_proc) option" where
  "ns_loop y w p =
     (if ns_sock (pr_ns p) \<ge> 0
      then Option.bind (waiter_wait (sys_wait y) (ctrl_port_callback y) (w, p)) (\<lambda>s. ns_loop y (fst s) (snd s))
      else Some (w, p))"

text \<open>The results of the calls in \<open>main\<close>: \<open>bt_node\<close> is the node \<open>getsockname\<close> fills in,
  \<open>bt_fork\<close> the result of \<open>fork\<close>, \<open>bt_ticket\<close> and \<open>bt_pollset\<close> the allocations of
  \<open>waiter_add_fd\<close>.\<close>

record ns_boot =
  bt_waiter :: bool
  bt_socket :: int
  bt_getsockname :: int
  bt_node :: u32
  bt_bind :: int
  bt_fork :: int
  bt_ticket :: nat
  bt_pollset :: nat

text \<open>Releasing the tables: \<open>map_clear(&nodes, node_mi_free)\<close> releases the servers of every node, then
  the node. The value is the list of released servers.\<close>

definition node_mi_free :: "node \<Rightarrow> server list" where
  "node_mi_free nd = fst (map_clear (nd_services nd))"

definition release_nodes :: "ns_state \<Rightarrow> server list \<times> ns_state" where
  "release_nodes st =
     (let (nds, m) = map_clear (ns_nodes st) in (concat (map node_mi_free nds), st\<lparr>ns_nodes := m\<rparr>))"

text \<open>The exit status and the final state of the process; the parent of the fork exits at once.\<close>

definition ns_main :: "ns_sys \<Rightarrow> ns_env \<Rightarrow> ns_boot \<Rightarrow> bool \<Rightarrow> (int \<times> ns_proc) option" where
  "ns_main y e b foreground =
     (let p0 = (\<lambda>st. \<lparr>pr_recvs = 0, pr_ns = st\<rparr>); st0 = ns_init (bt_socket b) (bt_node b) in
      case waiter_create (bt_waiter b) of
        None \<Rightarrow> Some (1, p0 st0)
      | Some w \<Rightarrow>
          if bt_socket b < 0 then Some (1, p0 st0)
          else if bt_getsockname b < 0 then Some (1, p0 st0)
          else if bt_bind b < 0 then Some (1, p0 st0)
          else
            let (rc, st1) = say_hello e st0 in
            if rc \<noteq> 0 then Some (1, p0 st1)
            else if \<not> foreground \<and> bt_fork b \<noteq> 0 then Some (0, p0 st1)
            else do {
              (tkt, w1) \<leftarrow> waiter_add_fd w (bt_ticket b) (bt_pollset b) (bt_socket b);
              w2 \<leftarrow> waiter_ticket_callback w1 tkt (Some Ctrl_port_fn);
              (w3, p) \<leftarrow> ns_loop y w2 (p0 st1);
              _ \<leftarrow> waiter_destroy (nat (wt_count w3)) w3;
              Some (0, p\<lparr>pr_ns := snd (release_nodes (pr_ns p))\<rparr>) })"

section \<open>One round\<close>

text \<open>What the callback does to the process.\<close>

definition handle_datagram :: "ns_sys \<Rightarrow> ns_proc \<Rightarrow> ns_proc option" where
  "handle_datagram y p =
     map_option (\<lambda>r. \<lparr>pr_recvs = pr_recvs p + 1, pr_ns = snd r\<rparr>)
       (ctrl_port_fn (sys_env y (pr_recvs p)) (pr_ns p) (fst (sys_recv y (pr_recvs p)))
          (fst (snd (sys_recv y (pr_recvs p)))) (snd (snd (sys_recv y (pr_recvs p)))))"

fun handle_datagrams :: "ns_sys \<Rightarrow> nat \<Rightarrow> ns_proc \<Rightarrow> ns_proc option" where
  "handle_datagrams y 0 p = Some p"
| "handle_datagrams y (Suc n) p = Option.bind (handle_datagram y p) (handle_datagrams y n)"

interpretation ns_cb: clearing_callbacks "ctrl_port_callback y" "\<lambda>c. handle_datagram y" for y
proof unfold_locales
  show "ctrl_port_callback y c x (w, s) =
      map_option (\<lambda>s'. (w\<lparr>wt_mem := (wt_mem w)(x \<mapsto> t\<lparr>tk_updated := False\<rparr>)\<rparr>, s')) (handle_datagram y s)"
    if "wt_mem w x = Some t" for w x t c s
  proof (cases "sys_recv y (pr_recvs s)")
    case (fields len buf sq)
    then show ?thesis using that
      by (cases "ctrl_port_fn (sys_env y (pr_recvs s)) (pr_ns s) len buf sq")
        (auto simp: ctrl_port_callback_def handle_datagram_def waiter_ticket_clear_def waiter_ticket_check_def on_ticket_def)
  qed
qed

text \<open>The ticket of the control socket, and the waiter between two rounds.\<close>

definition ctrl_ticket :: "int \<Rightarrow> ns_callback waiter_ticket" where
  "ctrl_ticket sock = zero_ticket\<lparr>tk_type := WATCH_TYPE_FD, tk_word := of_int sock,
     tk_callback := Some Ctrl_port_fn, tk_waiter := True\<rparr>"

definition armed :: "ns_callback waiter \<Rightarrow> nat \<Rightarrow> int \<Rightarrow> bool" where
  "armed w x sock \<longleftrightarrow> wt_inv w [x] \<and> tickets_of w [x] = [ctrl_ticket sock]"

definition readable :: "ns_sys \<Rightarrow> int \<Rightarrow> nat \<Rightarrow> bool" where
  "readable y sock i \<longleftrightarrow>
     (let r = poll_fn (sys_wait y) i [filedes (ctrl_ticket sock)] (-1)
      in 0 < fst r \<and> snd r 0 AND (POLLERR OR POLLIN) \<noteq> 0)"

lemma ns_round:
  assumes "armed w x sock" and "handle_datagram y p = Some p'"
  shows "\<exists>w'. armed w' x sock \<and> wt_polls w' = wt_polls w + 1 \<and>
    waiter_wait (sys_wait y) (ctrl_port_callback y) (w, p) =
      Some (w', if readable y sock (wt_polls w) then p' else p)"
proof -
  let ?t = "ctrl_ticket sock"
  let ?r = "poll_fn (sys_wait y) (wt_polls w) [filedes ?t] (-1)"
  have w: "wt_inv w [x]" "tickets_of w [x] = [?t]" using assms(1) by (auto simp: armed_def)
  have p: "wt_pollset w \<noteq> 0" using w(1) by (auto simp: wt_inv_def split: if_splits)
  have t: "polled_fds [?t] = [filedes ?t]" "first_deadline [?t] = -1"
    by (simp_all add: polled_fds_def first_deadline_def deadline_def ctrl_ticket_def)
  have r: "poll_result (sys_wait y) w [?t] = ?r" "polls_after (sys_wait y) w [?t] = wt_polls w + 1"
    by (simp_all add: poll_result_def polls_after_def t)
  have ready: "ready_fd ?r (polled_fds [?t]) = (if readable y sock (wt_polls w) then Some (filedes ?t) else None)"
    by (auto simp: ready_fd_def readable_def Let_def t(1))
  let ?now = "time_after (sys_wait y) w [?t]" and ?ready = "if readable y sock (wt_polls w) then Some (filedes ?t) else None"
  have after: "ticket_after ?ready ?now ?t = ?t"
    by (simp add: ticket_after_def ticket_fires_def ticket_due_def ctrl_ticket_def zero_ticket_def filedes_def Let_def)
  have c: "run_callbacks (\<lambda>c. handle_datagram y) ?ready ?now [?t] p = Some (if readable y sock (wt_polls w) then p' else p)"
    using assms(2) by (simp add: ticket_fires_def ticket_due_def ctrl_ticket_def zero_ticket_def)
  obtain w' where w': "wt_inv w' [x]" "wt_polls w' = wt_polls w + 1"
    "if fst ?r < 0 then waiter_wait (sys_wait y) (ctrl_port_callback y) (w, p) = Some (w', p) \<and> tickets_of w' [x] = [?t]
     else \<forall>s'. run_callbacks (\<lambda>c. handle_datagram y) ?ready ?now [?t] p = Some s' \<longrightarrow>
       waiter_wait (sys_wait y) (ctrl_port_callback y) (w, p) = Some (w', s') \<and>
       tickets_of w' [x] = map (ticket_after ?ready ?now) [?t]"
    using ns_cb.wait_inv [OF w(1) p w(2) r(1) ready refl, of y p] unfolding r(2) by blast
  have "\<not> readable y sock (wt_polls w)" if "fst ?r < 0" using that by (auto simp: readable_def Let_def)
  then have "waiter_wait (sys_wait y) (ctrl_port_callback y) (w, p) = Some (w', if readable y sock (wt_polls w) then p' else p) \<and>
      tickets_of w' [x] = [?t]"
    using w'(3) c after by (cases "fst ?r < 0") simp_all
  then show ?thesis using w'(1,2) unfolding armed_def by blast
qed

section \<open>The loop\<close>

text \<open>Rounds in which the socket is not readable change nothing.\<close>

lemma ns_loop_skip:
  assumes "armed w x sock" and "handle_datagram y p = Some p'" and "0 \<le> ns_sock (pr_ns p)"
    and "readable y sock j" and "wt_polls w \<le> j"
  shows "\<exists>w'. armed w' x sock \<and> ns_loop y w p = ns_loop y w' p'"
  using assms(1,5)
proof (induction "j - wt_polls w" arbitrary: w)
  case 0
  then have "readable y sock (wt_polls w)" using assms(4) by simp
  with ns_round [OF 0(2) assms(2)] assms(3) show ?case by (auto simp: ns_loop.simps [of y w p])
next
  case (Suc n)
  obtain w' where w': "armed w' x sock" "wt_polls w' = wt_polls w + 1"
    "waiter_wait (sys_wait y) (ctrl_port_callback y) (w, p) =
      Some (w', if readable y sock (wt_polls w) then p' else p)"
    using ns_round [OF Suc(3) assms(2)] by blast
  show ?case
  proof (cases "readable y sock (wt_polls w)")
    case True
    then show ?thesis using w' assms(3) by (auto simp: ns_loop.simps [of y w p])
  next
    case False
    then have "ns_loop y w p = ns_loop y w' p" using w'(3) assms(3) by (simp add: ns_loop.simps [of y w p])
    moreover have "n = j - wt_polls w'" "wt_polls w' \<le> j" using Suc(2) w'(2) by auto
    ultimately show ?thesis using Suc(1) [OF _ w'(1)] by auto
  qed
qed

lemma handle_datagram_result:
  assumes "ns_inv (pr_ns p)" and "\<forall>k. length (fst (snd (sys_recv y k))) = 4096"
  shows "\<exists>p'. handle_datagram y p = Some p' \<and> ns_inv (pr_ns p') \<and> pr_recvs p' = pr_recvs p + 1 \<and>
    ns_sock (pr_ns p') = (if fst (sys_recv y (pr_recvs p)) \<le> 0 then -1 else ns_sock (pr_ns p))"
  using ctrl_port_fn_confined [OF assms(1), of "fst (snd (sys_recv y (pr_recvs p)))"] assms(2)
  by (fastforce simp: handle_datagram_def)

lemma ns_loop_serves:
  assumes "armed w x sock" and "0 \<le> ns_sock (pr_ns p)" and "ns_inv (pr_ns p)"
    and "\<forall>k. length (fst (snd (sys_recv y k))) = 4096" and "\<forall>i. \<exists>j \<ge> i. readable y sock j"
    and "\<forall>k < n. 0 < fst (sys_recv y (pr_recvs p + k))" and "fst (sys_recv y (pr_recvs p + n)) \<le> 0"
  shows "\<exists>w' p'. ns_loop y w p = Some (w', p') \<and> armed w' x sock \<and> handle_datagrams y (Suc n) p = Some p'"
  using assms(1-3,6,7)
proof (induction n arbitrary: w p)
  case 0
  obtain p' where p': "handle_datagram y p = Some p'" "ns_sock (pr_ns p') = -1"
    using handle_datagram_result [OF 0(3) assms(4)] 0(5) by auto
  obtain j where "readable y sock j" "wt_polls w \<le> j" using assms(5) by blast
  from ns_loop_skip [OF 0(1) p'(1) 0(2) this] p' show ?case by (auto simp: ns_loop.simps [of y _ p'])
next
  case (Suc n)
  have "0 < fst (sys_recv y (pr_recvs p))" using Suc.prems(4) by (metis add.right_neutral zero_less_Suc)
  then obtain p' where p': "handle_datagram y p = Some p'" "ns_inv (pr_ns p')" "pr_recvs p' = pr_recvs p + 1"
    "0 \<le> ns_sock (pr_ns p')"
    using handle_datagram_result [OF Suc.prems(3) assms(4)] Suc.prems(2) by auto
  obtain j where "readable y sock j" "wt_polls w \<le> j" using assms(5) by blast
  from ns_loop_skip [OF Suc.prems(1) p'(1) Suc.prems(2) this] obtain w' where
    w': "armed w' x sock" "ns_loop y w p = ns_loop y w' p'" by blast
  have "\<forall>k<n. 0 < fst (sys_recv y (pr_recvs p' + k))" "fst (sys_recv y (pr_recvs p' + n)) \<le> 0"
    using Suc.prems(4,5) p'(3) by (auto simp: Suc_less_eq2)
  from Suc.IH [OF w'(1) p'(4,2) this] w'(2) p'(1) show ?case by auto
qed

lemma handle_datagram_reach:
  assumes "ns_reach sock local (pr_ns p)" and "0 \<le> ns_sock (pr_ns p)" and "\<forall>k. length (fst (snd (sys_recv y k))) = 4096"
    and "handle_datagram y p = Some q"
  shows "ns_reach sock local (pr_ns q) \<and> pr_recvs q = pr_recvs p + 1"
proof -
  obtain rc st where c: "ctrl_port_fn (sys_env y (pr_recvs p)) (pr_ns p) (fst (sys_recv y (pr_recvs p)))
      (fst (snd (sys_recv y (pr_recvs p)))) (snd (snd (sys_recv y (pr_recvs p)))) = Some (rc, st)"
    "q = \<lparr>pr_recvs = pr_recvs p + 1, pr_ns = st\<rparr>"
    using assms(4) by (auto simp: handle_datagram_def)
  then show ?thesis using ns_reach.packet [OF assms(1,2) _ c(1)] assms(3) by simp
qed

lemma handle_datagrams_reach:
  assumes "ns_reach sock local (pr_ns p)" and "0 \<le> ns_sock (pr_ns p)" and "\<forall>k. length (fst (snd (sys_recv y k))) = 4096"
    and "\<forall>k < n. 0 < fst (sys_recv y (pr_recvs p + k))" and "handle_datagrams y (Suc n) p = Some p'"
  shows "ns_reach sock local (pr_ns p') \<and> pr_recvs p' = pr_recvs p + Suc n"
  using assms(1,2,4,5)
proof (induction n arbitrary: p)
  case 0
  then obtain q where q: "handle_datagram y p = Some q" "p' = q" by (cases "handle_datagram y p") simp_all
  from handle_datagram_reach [OF 0(1,2) assms(3) q(1)] q(2) show ?case by simp
next
  case (Suc n)
  obtain q where q: "handle_datagram y p = Some q" "ns_inv (pr_ns q)" "pr_recvs q = pr_recvs p + 1"
    "0 \<le> ns_sock (pr_ns q)"
    using handle_datagram_result [OF conjunct1 [OF ns_reach_inv [OF Suc.prems(1)]] assms(3)] Suc.prems(2,3)
    by (metis add.right_neutral linorder_not_less zero_less_Suc)
  have "ns_reach sock local (pr_ns q)"
    using handle_datagram_reach [OF Suc.prems(1,2) assms(3) q(1)] by simp
  moreover have "\<forall>k<n. 0 < fst (sys_recv y (pr_recvs q + k))" using Suc.prems(3) q(3) by auto
  moreover have "handle_datagrams y (Suc n) q = Some p'" using Suc.prems(4) q(1) by simp
  ultimately show ?case using Suc.IH [of q] q(3,4) by auto
qed

section \<open>Start\<close>

lemma boot_armed:
  assumes "x \<noteq> 0" and "a \<noteq> 0" and "waiter_create True = Some w"
  shows "\<exists>w1 w2. waiter_add_fd w x a sock = Some (x, w1) \<and> waiter_ticket_callback w1 x (Some Ctrl_port_fn) = Some w2 \<and>
    armed w2 x sock"
proof -
  let ?t = "zero_ticket\<lparr>tk_type := WATCH_TYPE_FD, tk_word := of_int sock, tk_waiter := True\<rparr>"
  obtain w1 where w1: "waiter_add_fd w x a sock = Some (x, w1)" "wt_inv w1 [x]" "tickets_of w1 [x] = [?t]"
    using waiter_add_fd_inv [OF waiter_create_inv [OF assms(3)], of x a sock] assms(1,2) by auto
  have "x \<in> dom (wt_mem w1)" using wt_invD(2) [OF w1(2)] by simp
  then have "wt_mem w1 x = Some ?t" using w1(3) by auto
  then have "waiter_ticket_callback w1 x (Some Ctrl_port_fn) = Some (w1\<lparr>wt_mem := (wt_mem w1)(x \<mapsto> ctrl_ticket sock)\<rparr>)"
    by (simp add: waiter_ticket_callback_def on_ticket_def ctrl_ticket_def zero_ticket_def)
  moreover have "armed (w1\<lparr>wt_mem := (wt_mem w1)(x \<mapsto> ctrl_ticket sock)\<rparr>) x sock"
    using on_ticket_inv [OF w1(2), of x "ctrl_ticket sock"] by (simp add: armed_def)
  ultimately show ?thesis using w1(1) by blast
qed

section \<open>Properties\<close>

text \<open>C29: the name service from its start to its end. If the set-up succeeds and the kernel reports
  the control socket as readable again and again, whatever else \<open>poll\<close> returns in between
  (interruptions, other events), the process handles the datagrams in the order of their
  arrival, each exactly once, up to and including the first receive that returns no data,
  and then exits with status 0. Before it releases its tables it is in a reachable state of the service,
  with which the theorems about these states apply.\<close>

theorem ns_main_serves:
  assumes "bt_waiter b" and "0 \<le> bt_socket b" and "0 \<le> bt_getsockname b" and "0 \<le> bt_bind b"
    and "bt_ticket b \<noteq> 0" and "bt_pollset b \<noteq> 0" and "foreground \<or> bt_fork b = 0"
    and "say_hello e (ns_init (bt_socket b) (bt_node b)) = (0, st)"
    and "\<forall>k. length (fst (snd (sys_recv y k))) = 4096" and "\<forall>i. \<exists>j \<ge> i. readable y (bt_socket b) j"
    and "\<forall>k < n. 0 < fst (sys_recv y k)" and "fst (sys_recv y n) \<le> 0"
  shows "\<exists>p. handle_datagrams y (Suc n) \<lparr>pr_recvs = 0, pr_ns = st\<rparr> = Some p \<and> pr_recvs p = Suc n \<and>
    ns_reach (bt_socket b) (bt_node b) (pr_ns p) \<and>
    ns_main y e b foreground = Some (0, p\<lparr>pr_ns := snd (release_nodes (pr_ns p))\<rparr>)"
proof -
  let ?p = "\<lparr>pr_recvs = 0, pr_ns = st\<rparr>"
  have reach: "ns_reach (bt_socket b) (bt_node b) st" by (rule ns_reach.hello [OF assms(2,8)])
  have sock: "ns_sock st = bt_socket b"
    using assms(8) by (auto simp: say_hello_def ns_sendto_def ns_init_def split: if_splits)
  obtain w where w: "waiter_create True = Some (w :: ns_callback waiter)" by (simp add: waiter_create_def)
  obtain w1 w2 where w2: "waiter_add_fd w (bt_ticket b) (bt_pollset b) (bt_socket b) = Some (bt_ticket b, w1)"
    "waiter_ticket_callback w1 (bt_ticket b) (Some Ctrl_port_fn) = Some w2" "armed w2 (bt_ticket b) (bt_socket b)"
    using boot_armed [OF assms(5,6) w] by blast
  obtain w3 p where p: "ns_loop y w2 ?p = Some (w3, p)" "armed w3 (bt_ticket b) (bt_socket b)"
    "handle_datagrams y (Suc n) ?p = Some p"
    using ns_loop_serves [OF w2(3) _ _ assms(9,10), of ?p n] ns_reach_inv [OF reach] sock assms(2,11,12) by auto
  have "wt_inv w3 [bt_ticket b]" using p(2) by (simp add: armed_def)
  from waiter_destroy_all [OF this] wt_invD(4) [OF this]
  have "waiter_destroy (nat (wt_count w3)) w3 = Some (Map.empty, Map.empty)" by simp
  moreover have "ns_reach (bt_socket b) (bt_node b) (pr_ns p) \<and> pr_recvs p = Suc n"
    using handle_datagrams_reach [of "bt_socket b" "bt_node b" ?p y n p] reach sock assms(2,9,11) p(3) by simp
  ultimately show ?thesis using assms(1-4,7,8) w w2(1,2) p by (auto simp: ns_main_def)
qed

text \<open>A run that receives one server registration, then nothing.\<close>

definition demo_boot :: ns_boot where
  "demo_boot = \<lparr>bt_waiter = True, bt_socket = 3, bt_getsockname = 0, bt_node = 1, bt_bind = 0, bt_fork = 0,
     bt_ticket = 1, bt_pollset = 2\<rparr>"

definition demo_sys :: ns_sys where
  "demo_sys = \<lparr>sys_wait = \<lparr>poll_fn = \<lambda>i _ _. (if even i then -1 else 1, \<lambda>_. POLLIN), gettimeofday = \<lambda>_. (0, 0)\<rparr>,
     sys_recv = \<lambda>k. (if k = 0 then 20 else 0,
       ctrl_bytes \<lparr>pk_cmd = QRTR_TYPE_NEW_SERVER, pk_w0 = 66, pk_w1 = 1, pk_w2 = 1, pk_w3 = 40\<rparr> @ replicate 4076 0,
       \<lparr>sq_family = AF_QIPCRTR, sq_node = 1, sq_port = 40\<rparr>),
     sys_env = \<lambda>_. plain_env\<rparr>"

theorem ns_main_serves_witness:
  "\<exists>p. ns_main demo_sys plain_env demo_boot True = Some (0, p) \<and> pr_recvs p = 2"
proof -
  obtain st where st: "say_hello plain_env (ns_init 3 1) = (0, st)"
    by (simp add: say_hello_def ns_sendto_def plain_env_def)
  have rd: "readable demo_sys 3 j" if "odd j" for j using that by (simp add: readable_def demo_sys_def)
  have "\<exists>j \<ge> i. readable demo_sys 3 j" for i
    using rd [of i] rd [of "Suc i"] by (cases "odd i") (auto intro: exI [of _ i] exI [of _ "Suc i"])
  then show ?thesis
    using ns_main_serves [of demo_boot True plain_env st demo_sys 1] st
    by (auto simp: demo_boot_def demo_sys_def ctrl_bytes_def)
qed

end
