(* ===== verification/Numbers.thy ===== *)
theory Numbers
  imports Prelude "HOL-Library.Char_ord"
begin

text \<open>
  Numbers in text, as the programs read them with \<open>strtoul\<close> and \<open>strtoull\<close> of the C library on a
  64-bit system: white space, a sign, the prefix of octal and hexadecimal numbers where the
  base admits it, then the digits. The results are the value, the text behind the number
  (the whole text when there is no number) and whether the value is out of range, in which
  case it is the largest one. The last section has the decimal representation and its round trip.
\<close>

definition digit_of :: "nat \<Rightarrow> char \<Rightarrow> nat option" where
  "digit_of base c =
     (let n = (of_char c :: nat);
          d = (if 48 \<le> n \<and> n \<le> 57 then n - 48 else if 97 \<le> n \<and> n \<le> 122 then n - 87
               else if 65 \<le> n \<and> n \<le> 90 then n - 55 else 36)
      in if d < base then Some d else None)"

fun digits_value :: "nat \<Rightarrow> nat \<Rightarrow> string \<Rightarrow> nat \<times> string" where
  "digits_value base v [] = (v, [])"
| "digits_value base v (c # cs) =
     (case digit_of base c of None \<Rightarrow> (v, c # cs) | Some d \<Rightarrow> digits_value base (v * base + d) cs)"

definition strtoul :: "nat \<Rightarrow> string \<Rightarrow> u64 \<times> string \<times> bool" where
  "strtoul base str =
     (let s1 = dropWhile is_space str;
          neg = (s1 \<noteq> [] \<and> hd s1 = CHR ''-'');
          s2 = (if s1 \<noteq> [] \<and> hd s1 \<in> {CHR ''-'', CHR ''+''} then tl s1 else s1);
          hex = ((base = 0 \<or> base = 16) \<and> length s2 \<ge> 3 \<and> s2 ! 0 = CHR ''0'' \<and>
            s2 ! 1 \<in> {CHR ''x'', CHR ''X''} \<and> digit_of 16 (s2 ! 2) \<noteq> None);
          b = (if hex then 16 else if base \<noteq> 0 then base else if s2 \<noteq> [] \<and> hd s2 = CHR ''0'' then 8 else 10);
          s3 = (if hex then drop 2 s2 else s2)
      in if s3 = [] \<or> digit_of b (hd s3) = None then (0, str, False)
         else
           let (v, rest) = digits_value b 0 s3 in
           if v \<ge> 2 ^ 64 then (-1, rest, True)
           else (if neg then - of_nat v else of_nat v, rest, False))"

section \<open>Decimal numbers\<close>

definition digit_char :: "nat \<Rightarrow> char" where
  "digit_char d = char_of (48 + d)"

fun decimal :: "nat \<Rightarrow> string" where
  "decimal n = (if n < 10 then [digit_char n] else decimal (n div 10) @ [digit_char (n mod 10)])"

declare decimal.simps [simp del]

lemma digit_of_digit_char [simp]: "d < 10 \<Longrightarrow> digit_of 10 (digit_char d) = Some d"
  by (simp add: digit_of_def digit_char_def of_char_of Let_def)

lemma digits_value_append:
  "snd (digits_value b v xs) = [] \<Longrightarrow> digits_value b v (xs @ ys) = digits_value b (fst (digits_value b v xs)) ys"
  by (induction xs arbitrary: v) (auto split: option.splits)

lemma digits_value_decimal: "digits_value 10 0 (decimal n) = (n, [])"
proof (induction n rule: decimal.induct)
  case (1 n)
  show ?case
  proof (cases "n < 10")
    case True
    then show ?thesis by (simp add: decimal.simps [of n])
  next
    case False
    have "digits_value 10 0 (decimal n) = digits_value 10 (n div 10) [digit_char (n mod 10)]"
      using False 1 digits_value_append [of 10 0 "decimal (n div 10)"] by (simp add: decimal.simps [of n])
    then show ?thesis by simp
  qed
qed

lemma decimal_hd: "\<exists>d < 10. \<exists>cs. decimal n = digit_char d # cs"
proof (induction n rule: decimal.induct)
  case (1 n)
  then show ?case by (cases "n < 10") (auto simp: decimal.simps [of n])
qed

lemma digit_char_not_space: "d < 10 \<Longrightarrow> \<not> is_space (digit_char d) \<and> digit_char d \<notin> {CHR ''-'', CHR ''+''}"
proof -
  assume "d < 10"
  then have n: "(of_char (digit_char d) :: nat) = 48 + d" by (simp add: digit_char_def of_char_of)
  have "digit_char d \<noteq> c" if "(of_char c :: nat) < 48" for c using n that by auto
  then show ?thesis by (auto simp: is_space_def)
qed

lemma strtoul_decimal: "n < 2 ^ 64 \<Longrightarrow> strtoul 10 (decimal n) = (of_nat n, [], False)"
proof -
  assume n: "n < 2 ^ 64"
  obtain d cs where d: "d < 10" "decimal n = digit_char d # cs" using decimal_hd by blast
  have "dropWhile is_space (decimal n) = decimal n" "hd (decimal n) \<notin> {CHR ''-'', CHR ''+''}"
    "digit_of 10 (hd (decimal n)) \<noteq> None" "decimal n \<noteq> []"
    using d digit_char_not_space [OF d(1)] by auto
  then show ?thesis using n digits_value_decimal [of n] by (simp add: strtoul_def Let_def)
qed

end
