(* ===== verification/Diag.thy ===== *)
theory Diag
  imports Prelude
begin

text \<open>
  Diagnostic output: the hex dump of \<^verbatim>\<open>qcom/rmtfs/util.c\<close> with its fixed line buffer, the log of
  \<^verbatim>\<open>qcom/qrtr/lib/logging.c\<close>, and the initialisation of \<^verbatim>\<open>libmemtrack/memtrack_dragonboard.c\<close>. What is
  printed is a list of lines.
\<close>

unbundle bit_operations_syntax

section \<open>Hex dumps\<close>

definition to_hex :: "u8 \<Rightarrow> u8" where
  "to_hex ch = (let c = ch AND 0xf in if c \<le> 9 then 48 + c else 97 + c - 10)"

text \<open>The line buffer with the index \<open>li\<close>, and \<open>line[li++] = ch\<close>.\<close>

type_synonym line_buf = "bytes \<times> nat"

definition put :: "line_buf \<Rightarrow> u8 \<Rightarrow> line_buf option" where
  "put b ch = map_option (\<lambda>line. (line, snd b + 1)) (mem_write (fst b) (snd b) [ch])"

text \<open>\<open>isprint\<close> in the C locale.\<close>

definition isprint :: "u8 \<Rightarrow> bool" where
  "isprint ch \<longleftrightarrow> 32 \<le> ch \<and> ch \<le> 126"

fun hex_loop :: "line_buf \<Rightarrow> bytes \<Rightarrow> line_buf option" where
  "hex_loop b [] = Some b"
| "hex_loop b (ch # rest) = do {
     b1 \<leftarrow> put b (to_hex (drop_bit 4 ch));
     b2 \<leftarrow> put b1 (to_hex ch);
     b3 \<leftarrow> put b2 32;
     hex_loop b3 rest }"

fun pad_loop :: "line_buf \<Rightarrow> nat \<Rightarrow> line_buf option" where
  "pad_loop b 0 = Some b"
| "pad_loop b (Suc n) = do {
     b1 \<leftarrow> put b 32;
     b2 \<leftarrow> put b1 32;
     b3 \<leftarrow> put b2 32;
     pad_loop b3 n }"

fun text_loop :: "line_buf \<Rightarrow> bytes \<Rightarrow> line_buf option" where
  "text_loop b [] = Some b"
| "text_loop b (ch # rest) = do {
     b1 \<leftarrow> put b (if isprint ch then ch else 46);
     text_loop b1 rest }"

definition dump_line :: "bytes \<Rightarrow> bytes \<Rightarrow> bytes option" where
  "dump_line line chunk = do {
     b1 \<leftarrow> hex_loop (line, 0) chunk;
     b2 \<leftarrow> pad_loop b1 (16 - length chunk);
     b3 \<leftarrow> text_loop b2 chunk;
     b4 \<leftarrow> put b3 0;
     Some (fst b4) }"

text \<open>The loop over the lines; \<open>i\<close> is an \<open>int\<close>, whose overflow is undefined. A printed line is the
  offset and the string in the buffer.\<close>

function print_hex_dump :: "bytes \<Rightarrow> nat \<Rightarrow> nat \<Rightarrow> bytes \<Rightarrow> (nat \<times> bytes) list option" where
  "print_hex_dump buf len i line =
     (if len \<le> i then Some []
      else do {
        chunk \<leftarrow> mem_read buf i (min 16 (len - i));
        line1 \<leftarrow> dump_line line chunk;
        if 2 ^ 31 \<le> i + 16 then None
        else do {
          rest \<leftarrow> print_hex_dump buf len (i + 16) line1;
          Some ((i, takeWhile (\<lambda>c. c \<noteq> 0) line1) # rest) } })"
  by pat_completeness auto
termination by (relation "measure (\<lambda>(buf, len, i, line). len - i)") auto

declare print_hex_dump.simps [simp del]

section \<open>What is printed\<close>

definition cell :: "u8 \<Rightarrow> bytes" where
  "cell ch = [to_hex (drop_bit 4 ch), to_hex ch, 32]"

definition dot :: "u8 \<Rightarrow> u8" where
  "dot ch = (if isprint ch then ch else 46)"

definition line_text :: "bytes \<Rightarrow> bytes" where
  "line_text chunk = concat (map cell chunk) @ replicate (3 * (16 - length chunk)) 32 @ map dot chunk"

lemma put_append:
  "li < length line \<Longrightarrow> put (line, li) ch = Some (take li line @ [ch] @ drop (li + 1) line, li + 1)"
  by (simp add: put_def mem_write_def)

text \<open>Writing a text at the index, and what one step of the loops adds to it.\<close>

definition written :: "bytes \<Rightarrow> bytes \<Rightarrow> line_buf" where
  "written line t = (t @ drop (length t) line, length t)"

lemma put_written: "length t < length line \<Longrightarrow> put (written line t) ch = Some (written line (t @ [ch]))"
  by (simp add: written_def put_append)

lemma hex_loop_written:
  "length t + 3 * length chunk \<le> length line \<Longrightarrow>
    hex_loop (written line t) chunk = Some (written line (t @ concat (map cell chunk)))"
  by (induction chunk arbitrary: t) (simp_all add: put_written cell_def)

lemma pad_loop_written:
  "length t + 3 * n \<le> length line \<Longrightarrow> pad_loop (written line t) n = Some (written line (t @ replicate (3 * n) 32))"
  by (induction n arbitrary: t) (simp_all add: put_written numeral_3_eq_3)

lemma text_loop_written:
  "length t + length chunk \<le> length line \<Longrightarrow> text_loop (written line t) chunk = Some (written line (t @ map dot chunk))"
  by (induction chunk arbitrary: t) (simp_all add: put_written dot_def)

lemma length_cells [simp]: "length (concat (map cell chunk)) = 3 * length chunk"
  by (induction chunk) (simp_all add: cell_def)

lemma dump_line_result:
  assumes "length line = 65" and "length chunk \<le> 16"
  shows "dump_line line chunk = Some (line_text chunk @ [0] @ drop (length (line_text chunk) + 1) line)"
proof -
  let ?h = "concat (map cell chunk)" and ?p = "replicate (3 * (16 - length chunk)) 32 :: bytes"
  have "(line, 0) = written line []" by (simp add: written_def)
  then have "hex_loop (line, 0) chunk = Some (written line ?h)" using hex_loop_written [of "[]" chunk line] assms by simp
  moreover have "pad_loop (written line ?h) (16 - length chunk) = Some (written line (?h @ ?p))"
    using assms by (intro pad_loop_written) simp
  moreover have "text_loop (written line (?h @ ?p)) chunk = Some (written line (line_text chunk))"
    using assms text_loop_written [of "?h @ ?p" chunk line] by (simp add: line_text_def)
  moreover have "put (written line (line_text chunk)) 0 = Some (written line (line_text chunk @ [0]))"
    using assms by (intro put_written) (simp add: line_text_def)
  ultimately show ?thesis by (simp add: dump_line_def written_def)
qed

lemma add_small_nonzero:
  assumes "c < (16 :: u8)" and "unat k < 240" and "k \<noteq> 0"
  shows "k + c \<noteq> 0"
proof -
  have "unat c < 16" using assms(1) by (simp add: word_less_nat_alt)
  then have "unat (k + c) = unat k + unat c" using assms(2) by (simp add: unat_word_ariths)
  moreover have "0 < unat k" using assms(3) by (simp add: unat_gt_0)
  ultimately show ?thesis by auto
qed

lemma to_hex_nonzero: "to_hex ch \<noteq> 0"
proof -
  have "ch AND 15 = take_bit 4 ch" by (simp add: take_bit_eq_mask mask_eq_exp_minus_1)
  then have "unat (ch AND 15) = take_bit 4 (unat ch)" by (simp add: unsigned_take_bit_eq)
  then have c: "ch AND 15 < 16" by (simp add: word_less_nat_alt take_bit_eq_mod)
  have "48 + (ch AND 15) \<noteq> 0" using add_small_nonzero [OF c, of 48] by simp
  moreover have "87 + (ch AND 15) \<noteq> 0" using add_small_nonzero [OF c, of 87] by simp
  moreover have "97 + (ch AND 15) - 10 = 87 + (ch AND 15)" by (simp add: algebra_simps)
  ultimately show ?thesis by (simp add: to_hex_def Let_def)
qed

lemma line_text_nonzero: "0 \<notin> set (line_text chunk)"
proof -
  have "0 \<noteq> dot ch" for ch by (cases "ch = 0") (auto simp: dot_def isprint_def)
  moreover have "0 \<noteq> to_hex ch" for ch using to_hex_nonzero [of ch] by metis
  ultimately show ?thesis by (simp add: line_text_def cell_def image_iff)
qed

text \<open>The dump stays inside its line buffer, which a full line fills exactly, and prints all
  bytes, 16 in a line.\<close>

lemma print_hex_dump_result:
  assumes "len \<le> length buf" and "len + 16 < 2 ^ 31" and "length line = 65"
  shows "print_hex_dump buf len (16 * j) line =
    Some (map (\<lambda>k. (16 * k, line_text (take 16 (drop (16 * k) (take len buf))))) [j..<(len + 15) div 16])"
  using assms(3)
proof (induction "(len + 15) div 16 - j" arbitrary: j line)
  case 0
  then have "len \<le> 16 * j" by linarith
  moreover have "[j..<(len + 15) div 16] = []" using 0 by simp
  ultimately show ?case by (subst print_hex_dump.simps) simp
next
  case (Suc n)
  then have lt: "16 * j < len" "j < (len + 15) div 16" by linarith+
  let ?chunk = "take 16 (drop (16 * j) (take len buf))"
  have chunk: "mem_read buf (16 * j) (min 16 (len - 16 * j)) = Some ?chunk"
    using lt(1) assms(1) by (auto simp: mem_read_def drop_take min_def)
  let ?line = "line_text ?chunk @ [0] @ drop (length (line_text ?chunk) + 1) line"
  have line: "dump_line line ?chunk = Some ?line" using Suc.prems by (intro dump_line_result) simp_all
  have "length (line_text ?chunk) \<le> 64" by (simp add: line_text_def)
  then have len: "length ?line = 65" using Suc.prems by simp
  have "n = (len + 15) div 16 - Suc j" using Suc.hyps(2) by simp
  from Suc.hyps(1) [OF this len]
  have "print_hex_dump buf len (16 * j + 16) ?line =
      Some (map (\<lambda>k. (16 * k, line_text (take 16 (drop (16 * k) (take len buf))))) [Suc j..<(len + 15) div 16])"
    by (simp add: add.commute)
  moreover have "takeWhile (\<lambda>c. c \<noteq> 0) ?line = line_text ?chunk"
    using line_text_nonzero [of ?chunk] by (subst takeWhile_append2) auto
  ultimately show ?case
    using lt chunk line assms(2) by (subst print_hex_dump.simps) (simp add: upt_conv_Cons)
qed

section \<open>The log\<close>

abbreviation (input) LOG_EMERG :: int where "LOG_EMERG \<equiv> 0"
abbreviation (input) LOG_INFO :: int where "LOG_INFO \<equiv> 6"
abbreviation (input) LOG_DEBUG :: int where "LOG_DEBUG \<equiv> 7"

datatype log_line = Syslog int string | Stderr string

record qlog_state =
  ql_tag :: string
  ql_min_priority :: int
  ql_syslog :: bool
  ql_out :: "log_line list"

definition qlog_start :: qlog_state where
  "qlog_start = \<lparr>ql_tag = ''libqrtr'', ql_min_priority = LOG_INFO, ql_syslog = False, ql_out = []\<rparr>"

definition qlog_setup :: "qlog_state \<Rightarrow> string \<Rightarrow> bool \<Rightarrow> qlog_state" where
  "qlog_setup s tag use_syslog = s\<lparr>ql_tag := tag, ql_syslog := use_syslog\<rparr>"

definition qlog_set_min_priority :: "qlog_state \<Rightarrow> int \<Rightarrow> qlog_state" where
  "qlog_set_min_priority s priority =
     (if priority < LOG_EMERG \<or> priority > LOG_DEBUG then s else s\<lparr>ql_min_priority := priority\<rparr>)"

definition get_priority_string :: "int \<Rightarrow> string" where
  "get_priority_string priority =
     (if priority = 0 then ''EMERG'' else if priority = 1 then ''ALERT'' else if priority = 2 then ''CRIT''
      else if priority = 3 then ''ERROR'' else if priority = 4 then ''WARNING'' else if priority = 5 then ''NOTICE''
      else if priority = 6 then ''INFO'' else if priority = 7 then ''DEBUG'' else '''')"

text \<open>\<open>msg\<close> is the formatted message, of which the buffer of 512 bytes keeps 511 characters.\<close>

definition qlog :: "qlog_state \<Rightarrow> int \<Rightarrow> string \<Rightarrow> qlog_state" where
  "qlog s priority msg =
     (if priority > ql_min_priority s then s
      else if ql_syslog s then s\<lparr>ql_out := ql_out s @ [Syslog priority msg]\<rparr>
      else s\<lparr>ql_out := ql_out s @
        [Stderr (get_priority_string priority @ '' '' @ ql_tag s @ '': '' @ take 511 msg)]\<rparr>)"

text \<open>The threshold stays a priority whatever calls are made, so that an emergency is always logged, as one
  line.\<close>

inductive qlog_reach :: "qlog_state \<Rightarrow> bool" where
  start: "qlog_reach qlog_start"
| configured: "qlog_reach s \<Longrightarrow> qlog_reach (qlog_setup s tag use_syslog)"
| threshold: "qlog_reach s \<Longrightarrow> qlog_reach (qlog_set_min_priority s priority)"
| logged: "qlog_reach s \<Longrightarrow> qlog_reach (qlog s priority msg)"

lemma qlog_reach_threshold: "qlog_reach s \<Longrightarrow> ql_min_priority s \<in> {LOG_EMERG..LOG_DEBUG}"
  by (induction rule: qlog_reach.induct)
    (auto simp: qlog_start_def qlog_setup_def qlog_set_min_priority_def qlog_def)

lemma emergency_logged:
  assumes "qlog_reach s" and "priority \<le> LOG_EMERG"
  shows "length (ql_out (qlog s priority msg)) = length (ql_out s) + 1"
  using qlog_reach_threshold [OF assms(1)] assms(2) by (auto simp: qlog_def)

section \<open>The memory tracker\<close>

definition dragonboard_memtrack_init :: "nat \<Rightarrow> int" where
  "dragonboard_memtrack_init module = (if module = 0 then -1 else 0)"

end
