(* ===== verification/Addr.thy ===== *)
theory Addr
  imports NsMain Numbers Diag
begin

text \<open>
  Setting the address of the node: \<open>qrtr_set_address\<close> of \<^verbatim>\<open>qcom/qrtr/src/addr.c\<close>, which sends a netlink
  request, the tool \<^verbatim>\<open>qcom/qrtr/src/cfg.c\<close>, and the part of \<^verbatim>\<open>qcom/qrtr/src/ns.c\<close> that reads the options and the
  address from the command line, with which the name service is a program. A call of \<open>exit\<close> is the result \<open>Exit\<close> with its status.
\<close>

section \<open>The netlink request\<close>

abbreviation (input) RTM_NEWADDR :: nat where "RTM_NEWADDR \<equiv> 20"
abbreviation (input) NLM_F_REQUEST :: nat where "NLM_F_REQUEST \<equiv> 1"
abbreviation (input) NLM_F_ACK :: nat where "NLM_F_ACK \<equiv> 4"
abbreviation (input) NLMSG_ERROR :: nat where "NLMSG_ERROR \<equiv> 2"
abbreviation (input) IFA_LOCAL :: nat where "IFA_LOCAL \<equiv> 2"

text \<open>Messages and attributes are aligned to 4 bytes; the headers have 16 and 4 bytes.\<close>

definition NL_ALIGN :: "nat \<Rightarrow> nat" where "NL_ALIGN n = (n + 3) div 4 * 4"
definition NLMSG_SPACE :: "nat \<Rightarrow> nat" where "NLMSG_SPACE n = NL_ALIGN (n + 16)"
definition RTA_LENGTH :: "nat \<Rightarrow> nat" where "RTA_LENGTH n = NL_ALIGN 4 + n"

text \<open>The variable \<open>req\<close>: a header (length, type, flags, sequence number, port), an \<open>ifaddrmsg\<close>
  (family and seven more bytes), and 32 bytes for attributes, all cleared first. The
  attribute is written behind the aligned header; the message is what is sent of it.\<close>

definition set_address_request :: "u32 \<Rightarrow> bytes option" where
  "set_address_request addr = do {
     let req0 = replicate 56 0;
     let len0 = NLMSG_SPACE 8;
     req1 \<leftarrow> mem_write req0 0 (le_bytes 4 len0);
     req2 \<leftarrow> mem_write req1 6 (le_bytes 2 (NLM_F_REQUEST + NLM_F_ACK));
     req3 \<leftarrow> mem_write req2 4 (le_bytes 2 RTM_NEWADDR);
     req4 \<leftarrow> mem_write req3 16 (le_bytes 1 (unat AF_QIPCRTR));
     req5 \<leftarrow> mem_write req4 (len0 + 2) (le_bytes 2 IFA_LOCAL);
     req6 \<leftarrow> mem_write req5 len0 (le_bytes 2 (RTA_LENGTH 4));
     req7 \<leftarrow> mem_write req6 (len0 + RTA_LENGTH 0) (u32_bytes addr);
     req8 \<leftarrow> mem_write req7 0 (le_bytes 4 (len0 + RTA_LENGTH 4));
     mem_read req8 0 (len0 + RTA_LENGTH 4) }"

text \<open>The calls of \<open>qrtr_set_address\<close> and their results; the response is the message type and the
  error number in it.\<close>

record addr_sys =
  as_socket :: int
  as_getsockname :: int
  as_sl :: nat
  as_node :: u32
  as_netlink :: int
  as_send :: int
  as_recv :: int
  as_response :: "nat \<times> int"

datatype 'a exits = Exit int | Returned 'a

text \<open>The value is the list of requests that were sent.\<close>

definition qrtr_set_address :: "addr_sys \<Rightarrow> u32 \<Rightarrow> bytes list exits option" where
  "qrtr_set_address y addr =
     (if as_socket y < 0 then Some (Exit 1)
      else if as_getsockname y < 0 then Some (Exit 1)
      else if as_sl y = 12 \<and> as_node y = addr then Some (Returned [])
      else if as_netlink y < 0 then Some (Exit 1)
      else do {
        msg \<leftarrow> set_address_request addr;
        if as_send y < 0 then Some (Exit 1)
        else if as_recv y < 0 then Some (Exit 1)
        else if fst (as_response y) = NLMSG_ERROR \<and> snd (as_response y) \<noteq> 0 then Some (Exit 1)
        else Some (Returned [msg]) })"

section \<open>The command lines\<close>

text \<open>\<open>UINT_MAX\<close> is the broadcast address. \<open>check\<close> is the argument whose first character is
  tested, \<open>arg\<close> the one that is read: they are the same in \<^verbatim>\<open>cfg.c\<close>, while \<^verbatim>\<open>ns.c\<close> tests the first
  argument of the command line.\<close>

definition node_id_arg :: "string \<Rightarrow> string \<Rightarrow> u64 option" where
  "node_id_arg check arg =
     (let (addrul, ep, range) = strtoul 10 arg in
      if check = [] \<or> ep \<noteq> [] \<or> addrul \<ge> 0xffffffff then None else Some addrul)"

definition cfg_main :: "addr_sys \<Rightarrow> string list \<Rightarrow> bytes list exits option" where
  "cfg_main y args =
     (case args of
        [a] \<Rightarrow> (case node_id_arg a a of None \<Rightarrow> Some (Exit 1) | Some addrul \<Rightarrow> qrtr_set_address y (ucast addrul))
      | _ \<Rightarrow> Some (Exit 1))"

text \<open>The positional arguments of the name service: \<open>argv1\<close> is the first argument, \<open>pos\<close> the
  arguments behind the options.\<close>

definition ns_address_args :: "addr_sys \<Rightarrow> string \<Rightarrow> string list \<Rightarrow> bytes list exits option" where
  "ns_address_args y argv1 pos =
     (case pos of
        [] \<Rightarrow> Some (Returned [])
      | a # others \<Rightarrow>
          (case node_id_arg argv1 a of
             None \<Rightarrow> Some (Exit 1)
           | Some addr \<Rightarrow>
               (case qrtr_set_address y (ucast addr) of
                  None \<Rightarrow> None
                | Some (Exit c) \<Rightarrow> Some (Exit c)
                | Some (Returned out) \<Rightarrow> if others \<noteq> [] then Some (Exit 1) else Some (Returned out))))"

text \<open>The options of the name service: \<open>opts\<close> are the values of \<open>getopt\<close> before it returns -1, where
  an unknown option is a question mark. The usage message exits with status 1.\<close>

record ns_opts =
  op_foreground :: bool
  op_use_syslog :: bool
  op_verbose_log :: bool

fun ns_options :: "string \<Rightarrow> ns_opts \<Rightarrow> ns_opts exits" where
  "ns_options [] o1 = Returned o1"
| "ns_options (opt # opts) o1 =
     (if opt = CHR ''f'' then ns_options opts (o1\<lparr>op_foreground := True\<rparr>)
      else if opt = CHR ''s'' then ns_options opts (o1\<lparr>op_use_syslog := True\<rparr>)
      else if opt = CHR ''v'' then ns_options opts (o1\<lparr>op_verbose_log := True\<rparr>)
      else Exit 1)"

definition ns_defaults :: ns_opts where
  "ns_defaults = \<lparr>op_foreground = False, op_use_syslog = False, op_verbose_log = False\<rparr>"

text \<open>The program: the options, the log, the address, then the service. The state of the process is
  absent when it exits before the service starts.\<close>

definition ns_program ::
    "ns_sys \<Rightarrow> ns_env \<Rightarrow> ns_boot \<Rightarrow> addr_sys \<Rightarrow> string \<Rightarrow> string \<Rightarrow> string \<Rightarrow> string list \<Rightarrow>
     (int \<times> ns_proc option \<times> qlog_state) option" where
  "ns_program y e b a progname opts argv1 pos =
     (case ns_options opts ns_defaults of
        Exit c \<Rightarrow> Some (c, None, qlog_start)
      | Returned o1 \<Rightarrow>
          let lg = qlog_setup qlog_start progname (op_use_syslog o1);
              lg1 = (if op_verbose_log o1 then qlog_set_min_priority lg LOG_DEBUG else lg)
          in case ns_address_args a argv1 pos of
               None \<Rightarrow> None
             | Some (Exit c) \<Rightarrow> Some (c, None, lg1)
             | Some (Returned sent) \<Rightarrow>
                 map_option (\<lambda>(rc, p). (rc, Some p, lg1)) (ns_main y e b (op_foreground o1)))"

lemma ns_options_result:
  "ns_options opts o1 =
    (if set opts \<subseteq> set ''fsv''
     then Returned \<lparr>op_foreground = (op_foreground o1 \<or> CHR ''f'' \<in> set opts),
       op_use_syslog = (op_use_syslog o1 \<or> CHR ''s'' \<in> set opts),
       op_verbose_log = (op_verbose_log o1 \<or> CHR ''v'' \<in> set opts)\<rparr>
     else Exit 1)"
  by (induction opts o1 rule: ns_options.induct) auto

text \<open>An unknown option, too many arguments or a bad address stop the program before the service
  starts; otherwise it is the service, in the foreground with the option \<^verbatim>\<open>-f\<close>.\<close>

lemma ns_program_bad_option: "\<not> set opts \<subseteq> set ''fsv'' \<Longrightarrow> ns_program y e b a n opts argv1 pos = Some (1, None, qlog_start)"
  by (simp add: ns_program_def ns_options_result)

lemma ns_program_runs:
  assumes "set opts \<subseteq> set ''fsv''" and "ns_address_args a argv1 pos = Some (Returned sent)"
    and "ns_main y e b (CHR ''f'' \<in> set opts) = Some (rc, p)"
  shows "\<exists>lg. ns_program y e b a n opts argv1 pos = Some (rc, Some p, lg) \<and> qlog_reach lg \<and> ql_tag lg = n \<and>
    ql_min_priority lg = (if CHR ''v'' \<in> set opts then LOG_DEBUG else LOG_INFO) \<and>
    ql_syslog lg = (CHR ''s'' \<in> set opts)"
proof -
  let ?lg = "qlog_setup qlog_start n (CHR ''s'' \<in> set opts)"
  let ?lg1 = "if CHR ''v'' \<in> set opts then qlog_set_min_priority ?lg LOG_DEBUG else ?lg"
  have "qlog_reach ?lg1" by (simp add: qlog_reach.intros)
  moreover have "ns_program y e b a n opts argv1 pos = Some (rc, Some p, ?lg1)"
    using assms by (simp add: ns_program_def ns_options_result ns_defaults_def)
  ultimately show ?thesis
    by (intro exI [of _ ?lg1]) (simp add: qlog_setup_def qlog_set_min_priority_def qlog_start_def)
qed

section \<open>What is sent\<close>

text \<open>How the kernel reads the request: the message length and type, the family, and the attribute
  behind the aligned header.\<close>

definition parse_newaddr :: "bytes \<Rightarrow> (nat \<times> u32) option" where
  "parse_newaddr msg =
     (if length msg < 24 \<or> le_val (take 4 msg) \<noteq> length msg \<or> le_val (take 2 (drop 4 msg)) \<noteq> RTM_NEWADDR then None
      else
        let rta = drop 24 msg in
        if length rta < 8 \<or> le_val (take 2 rta) \<noteq> 8 \<or> le_val (take 2 (drop 2 rta)) \<noteq> IFA_LOCAL then None
        else Some (le_val (take 1 (drop 16 msg)), u32_at rta 4))"

lemma set_address_request_eq:
  "set_address_request addr = Some (le_bytes 4 32 @ le_bytes 2 20 @ le_bytes 2 5 @ replicate 8 0 @ [42] @ replicate 7 0 @
     le_bytes 2 8 @ le_bytes 2 2 @ u32_bytes addr)"
  by (simp add: set_address_request_def mem_write_def mem_read_def NLMSG_SPACE_def NL_ALIGN_def RTA_LENGTH_def
      length_u32_bytes)

lemma set_address_request_parse:
  "\<exists>msg. set_address_request addr = Some msg \<and> length msg = 32 \<and> parse_newaddr msg = Some (42, addr)"
  unfolding set_address_request_eq
  by (intro exI conjI, rule refl) (simp_all add: parse_newaddr_def Let_def u32_at_def)

text \<open>A surplus argument always ends the name service with the usage message.\<close>

lemma ns_address_args_surplus: "ns_address_args a argv1 (x # z # zs) = Some (Exit 1)"
  by (auto simp: ns_address_args_def qrtr_set_address_def set_address_request_eq split: option.splits)

text \<open>The empty string is a number for \<open>strtoul\<close>, and the name service looks for it in the wrong
  argument: with the option \<^verbatim>\<open>-f\<close> and an empty address the address 0 is set.\<close>

lemma ns_empty_address: "node_id_arg ''-f'' [] = Some 0" "node_id_arg [] [] = None"
  by code_simp+

text \<open>The configuration tool reads a decimal node id and sends the kernel one request, in which
  the kernel finds this id; ids from the broadcast address upwards are refused, and the id
  that is already set is not sent again.\<close>

lemma cfg_sets_address:
  assumes "n < 2 ^ 64" and "0 \<le> as_socket y" and "0 \<le> as_getsockname y" and "0 \<le> as_netlink y"
    and "0 \<le> as_send y" and "0 \<le> as_recv y" and "fst (as_response y) \<noteq> NLMSG_ERROR \<or> snd (as_response y) = 0"
  shows "if 2 ^ 32 - 1 \<le> n then cfg_main y [decimal n] = Some (Exit 1)
    else if as_sl y = 12 \<and> as_node y = of_nat n then cfg_main y [decimal n] = Some (Returned [])
    else \<exists>msg. cfg_main y [decimal n] = Some (Returned [msg]) \<and> length msg = 32 \<and>
      parse_newaddr msg = Some (42, of_nat n)"
proof -
  have u: "unat (of_nat n :: u64) = n" using assms(1) by (simp add: unat_of_nat)
  then have g: "(0xffffffff :: u64) \<le> of_nat n \<longleftrightarrow> 2 ^ 32 - 1 \<le> n" by (simp add: word_le_nat_alt)
  have "decimal n \<noteq> []" using decimal_hd [of n] by auto
  then have a: "node_id_arg (decimal n) (decimal n) = (if 2 ^ 32 - 1 \<le> n then None else Some (of_nat n))"
    using g by (simp add: node_id_arg_def strtoul_decimal [OF assms(1)])
  have c: "ucast (of_nat n :: u64) = (of_nat n :: u32)"
    using assms(1) by (simp add: word_unat_eq_iff unsigned_ucast_eq unsigned_of_nat take_bit_nat_def)
  show ?thesis using a c assms(2-7) set_address_request_parse [of "of_nat n"]
    by (auto simp: cfg_main_def qrtr_set_address_def)
qed

end
