(* ===== verification/Lookup.thy ===== *)
theory Lookup
  imports Ns Numbers
begin

unbundle bit_operations_syntax

text \<open>
  The command line tool \<^verbatim>\<open>qcom/qrtr/src/lookup.c\<close>: it asks the name service for the servers that match
  its arguments and prints a line for each. The results of the system calls are arguments; a
  printed line is a value with the fields of the format string. The last section runs the
  tool against the name service.
\<close>

section \<open>Names\<close>

definition DIAG_SERVICE :: u32 where "DIAG_SERVICE = 4097"

definition common_names :: "(u32 \<times> u32 \<times> string) list" where
  "common_names = [
     (0, 0, ''Control service''),
     (1, 0, ''Wireless Data Service''),
     (2, 0, ''Device Management Service''),
     (3, 0, ''Network Access Service''),
     (4, 0, ''Quality Of Service service''),
     (5, 0, ''Wireless Messaging Service''),
     (6, 0, ''Position Determination Service''),
     (7, 0, ''Authentication service''),
     (8, 0, ''AT service''),
     (9, 0, ''Voice service''),
     (10, 0, ''Card Application Toolkit service (v2)''),
     (11, 0, ''User Identity Module service''),
     (12, 0, ''Phonebook Management service''),
     (13, 0, ''QCHAT service''),
     (14, 0, ''Remote file system service''),
     (15, 0, ''Test service''),
     (16, 0, ''Location service (~ PDS v2)''),
     (17, 0, ''Specific absorption rate service''),
     (18, 0, ''IMS settings service''),
     (19, 0, ''Analog to digital converter driver service''),
     (20, 0, ''Core sound driver service''),
     (21, 0, ''Modem embedded file system service''),
     (22, 0, ''Time service''),
     (23, 0, ''Thermal sensors service''),
     (24, 0, ''Thermal mitigation device service''),
     (25, 0, ''Service access proxy service''),
     (26, 0, ''Wireless data administrative service''),
     (27, 0, ''TSYNC control service''),
     (28, 0, ''Remote file system access service''),
     (29, 0, ''Circuit switched videotelephony service''),
     (30, 0, ''Qualcomm mobile access point service''),
     (31, 0, ''IMS presence service''),
     (32, 0, ''IMS videotelephony service''),
     (33, 0, ''IMS application service''),
     (34, 0, ''Coexistence service''),
     (36, 0, ''Persistent device configuration service''),
     (38, 0, ''Simultaneous transmit service''),
     (39, 0, ''Bearer independent transport service''),
     (40, 0, ''IMS RTP service''),
     (41, 0, ''RF radiated performance enhancement service''),
     (42, 0, ''Data system determination service''),
     (43, 0, ''Subsystem control service''),
     (49, 0, ''IPA control service''),
     (51, 0, ''CoreSight remote tracing service''),
     (52, 0, ''Dynamic Heap Memory Sharing''),
     (64, 0, ''Service registry locator service''),
     (66, 0, ''Service registry notification service''),
     (69, 0, ''ATH10k WLAN firmware service''),
     (224, 0, ''Card Application Toolkit service (v1)''),
     (225, 0, ''Remote Management Service''),
     (226, 0, ''Open Mobile Alliance device management service''),
     (312, 0, ''QBT1000 Ultrasonic Fingerprint Sensor service''),
     (769, 0, ''SLIMbus control service''),
     (771, 0, ''Peripheral Access Control Manager service''),
     (DIAG_SERVICE, 0, ''DIAG service'')]"

fun diag_instance_base_str :: "nat \<Rightarrow> string" where
  "diag_instance_base_str n =
     (if n = 0 then ''MODEM'' else if n = 1 then ''LPASS'' else if n = 2 then ''WCNSS''
      else if n = 3 then ''SENSORS'' else if n = 4 then ''CDSP'' else if n = 5 then ''WDSP'' else ''<unk>'')"

fun diag_instance_str :: "nat \<Rightarrow> string" where
  "diag_instance_str n =
     (if n = 0 then ''CNTL'' else if n = 1 then ''CMD'' else if n = 2 then ''DATA''
      else if n = 3 then ''DCI_CMD'' else if n = 4 then ''DCI'' else ''<unk>'')"

text \<open>\<open>snprintf\<close> into a buffer of \<open>sz\<close> bytes keeps at most \<open>sz - 1\<close> characters.\<close>

definition get_diag_instance_info :: "nat \<Rightarrow> u32 \<Rightarrow> string" where
  "get_diag_instance_info sz inst =
     take (sz - 1) (diag_instance_base_str (unat (drop_bit 6 inst)) @ '':'' @
       diag_instance_str (unat (inst AND 0x3f)))"

text \<open>The loop over the table has no \<open>break\<close>: the last matching entry wins.\<close>

fun find_name :: "u32 \<Rightarrow> u32 \<Rightarrow> (u32 \<times> u32 \<times> string) list \<Rightarrow> string option \<Rightarrow> string option" where
  "find_name service inst [] name = name"
| "find_name service inst ((srv, ifilter, n) # rest) name =
     (if service \<noteq> srv then find_name service inst rest name
      else if inst \<noteq> 0 \<and> inst AND ifilter \<noteq> ifilter then find_name service inst rest name
      else find_name service inst rest (Some n))"

section \<open>Arguments\<close>

text \<open>\<open>read_num_le\<close>: the number (converted to \<open>unsigned int\<close>) and the new value of \<open>*rcp\<close>.\<close>

definition read_num_le :: "string \<Rightarrow> int \<Rightarrow> u32 \<times> int" where
  "read_num_le str rc =
     (if rc \<noteq> 0 then (0, rc)
      else
        let (ret, rest, range) = strtoul 0 str in
        (ucast ret, if range \<or> rest \<noteq> [] then -1 else 0))"

section \<open>The tool\<close>

datatype line =
    Server_line u32 u32 u32 u32 u32 string
  | Diag_line u32 u32 u32 u32 string string

text \<open>The line for a packet: service, version, instance, node, port, name; for the DIAG service the
  whole instance and its description.\<close>

definition server_line :: "qrtr_ctrl_pkt \<Rightarrow> line" where
  "server_line p =
     (let service = srv_service p; version = srv_instance p AND 0xff; inst = drop_bit 8 (srv_instance p);
          name = (case find_name service inst common_names None of None \<Rightarrow> ''<unknown>'' | Some n \<Rightarrow> n)
      in if service = DIAG_SERVICE
         then Diag_line service (srv_instance p) (srv_node p) (srv_port p) name (get_diag_instance_info 24 (srv_instance p))
         else Server_line service version inst (srv_node p) (srv_port p) name)"

text \<open>The receive loop. \<open>recv k\<close> is the result of the \<open>k\<close>-th receive and the datagram; \<open>pkt\<close>
  the 20 bytes of the packet variable. The value is the last length and the printed lines.\<close>

partial_function (option) lookup_loop ::
    "(nat \<Rightarrow> int \<times> bytes) \<Rightarrow> nat \<Rightarrow> bytes \<Rightarrow> line list \<Rightarrow> (int \<times> line list) option" where
  "lookup_loop recv k pkt lines =
     (let len = fst (recv k); pkt1 = take 20 (take (nat len) (snd (recv k)) @ drop (nat len) pkt) in
      if len \<le> 0 then Some (len, lines)
      else (case ctrl_of_bytes pkt1 of
          None \<Rightarrow> None
        | Some p \<Rightarrow>
            if len < 20 \<or> pk_cmd p \<noteq> QRTR_TYPE_NEW_SERVER then lookup_loop recv (k + 1) pkt1 lines
            else if srv_service p = 0 \<and> srv_instance p = 0 \<and> srv_node p = 0 \<and> srv_port p = 0 then Some (len, lines)
            else lookup_loop recv (k + 1) pkt1 (lines @ [server_line p])))"

record lookup_sys =
  ls_socket :: int
  ls_getsockname :: int
  ls_sq :: sockaddr_qrtr
  ls_sl :: nat
  ls_setsockopt :: int
  ls_sendto :: int
  ls_recv :: "nat \<Rightarrow> int \<times> bytes"

text \<open>\<open>args\<close> are the arguments behind the program name. The result is the exit status, the request
  handed to \<open>sendto\<close> and the printed lines.\<close>

definition lookup_args :: "string list \<Rightarrow> u32 \<times> u32 \<times> int" where
  "lookup_args args =
     (case args of
        [] \<Rightarrow> (0, 0, 0)
      | [a] \<Rightarrow> (let (service, rc) = read_num_le a 0 in (service, 0, rc))
      | [a, b] \<Rightarrow> (let (inst, rc) = read_num_le b 0; (service, rc1) = read_num_le a rc in (service, inst, rc1))
      | _ \<Rightarrow> (0, 0, -1))"

definition lookup_request :: "u32 \<Rightarrow> u32 \<Rightarrow> bytes" where
  "lookup_request service inst =
     ctrl_bytes \<lparr>pk_cmd = QRTR_TYPE_NEW_LOOKUP, pk_w0 = service, pk_w1 = inst, pk_w2 = 0, pk_w3 = 0\<rparr>"

definition lookup_main ::
    "lookup_sys \<Rightarrow> string list \<Rightarrow> (int \<times> (bytes \<times> sockaddr_qrtr) list \<times> line list) option" where
  "lookup_main y args =
     (let (service, inst, rc) = lookup_args args in
      if rc \<noteq> 0 then Some (1, [], [])
      else if ls_socket y < 0 then Some (1, [], [])
      else if ls_getsockname y \<noteq> 0 \<or> sq_family (ls_sq y) \<noteq> AF_QIPCRTR \<or> ls_sl y \<noteq> 12 then Some (1, [], [])
      else if ls_setsockopt y \<noteq> 0 then Some (1, [], [])
      else
        let pkt = lookup_request service inst; out = [(pkt, (ls_sq y)\<lparr>sq_port := QRTR_PORT_CTRL\<rparr>)] in
        if ls_sendto y < 0 then Some (1, out, [])
        else
          map_option (\<lambda>(len, lines). (if len < 0 then 1 else 0, out, lines)) (lookup_loop (ls_recv y) 0 pkt []))"

section \<open>The tool and the name service\<close>

lemma recv_full: "length d = 20 \<Longrightarrow> take 20 (take 20 d @ drop 20 pkt) = d"
  by simp

lemma lookup_loop_reply:
  assumes "\<forall>i < length srvs. recv (k + i) = (20, notice (srvs ! i) True)" and "recv (k + length srvs) = (20, end_of_list)"
    and "\<forall>s \<in> set srvs. sv_service s \<noteq> 0"
  shows "lookup_loop recv k pkt lines = Some (20, lines @ map (\<lambda>s. server_line (server_pkt QRTR_TYPE_NEW_SERVER s)) srvs)"
  using assms
proof (induction srvs arbitrary: k pkt lines)
  case Nil
  then have r: "recv k = (20, end_of_list)" by simp
  have "ctrl_of_bytes (end_of_list @ []) = Some \<lparr>pk_cmd = QRTR_TYPE_NEW_SERVER, pk_w0 = 0, pk_w1 = 0, pk_w2 = 0, pk_w3 = 0\<rparr>"
    unfolding end_of_list_def by (rule ctrl_of_bytes_ctrl_bytes)
  then show ?case by (simp add: lookup_loop.simps [of recv k] r Let_def end_of_list_def)
next
  case (Cons s srvs)
  let ?p = "server_pkt QRTR_TYPE_NEW_SERVER s"
  have r: "recv k = (20, ctrl_bytes ?p)" using Cons.prems(1) by (force simp: notice_def)
  have b: "ctrl_of_bytes (ctrl_bytes ?p @ []) = Some ?p" by (rule ctrl_of_bytes_ctrl_bytes)
  have f: "pk_cmd ?p = QRTR_TYPE_NEW_SERVER" "srv_service ?p \<noteq> 0" using Cons.prems(3) by (simp_all add: server_pkt_def)
  have "lookup_loop recv k pkt lines = lookup_loop recv (k + 1) (ctrl_bytes ?p) (lines @ [server_line ?p])"
    using b f by (simp add: lookup_loop.simps [of recv k] r Let_def)
  moreover have "\<forall>i < length srvs. recv (k + 1 + i) = (20, notice (srvs ! i) True)"
    "recv (k + 1 + length srvs) = (20, end_of_list)"
    using Cons.prems(1,2) by auto
  ultimately show ?case using Cons.IH [of "k + 1"] Cons.prems(3) by simp
qed

text \<open>C35: a lookup from the command line to the printed lines. The request of the tool, handled by the
  name service, and the datagrams the name service sends for it, received by the tool in their
  order, make the tool print one line for every server in the tables that the arguments admit, and
  exit with status 0. Every registered server that they admit has a line; if no table holds a
  port twice these are all lines, one for each server. (The system calls of the tool succeed,
  and the name service has memory for the observer.)\<close>

theorem lookup_lists_registry:
  assumes "ns_inv st" and "calloc_ok e Lookup_alloc 40" and "sq_node from = ns_local_node st"
    and "lookup_args args = (service, inst, 0)"
    and "0 \<le> ls_socket y" and "ls_getsockname y = 0" and "ls_sq y = from" and "sq_family from = AF_QIPCRTR"
    and "ls_sl y = 12" and "ls_setsockopt y = 0" and "0 \<le> ls_sendto y"
    and "ctrl_port_fn e st 20 (lookup_request service inst @ rest) from = Some (rc, st')"
    and "\<forall>k < length (ns_sent st') - length (ns_sent st). ls_recv y k = (20, fst (ns_sent st' ! (length (ns_sent st) + k)))"
    and "lk = \<lparr>lk_service = service, lk_instance = inst, lk_sq = from\<rparr>"
    and "matching = {s. (\<exists>i p. registered st i p = Some s) \<and> lookup_admits lk (sv_service s) (sv_instance s)}"
  shows "\<exists>srvs. set srvs = {s \<in> stored st. lookup_admits lk (sv_service s) (sv_instance s)} \<and> matching \<subseteq> set srvs \<and>
    (ns_uniq st \<longrightarrow> distinct srvs \<and> set srvs = matching) \<and>
    lookup_main y args = Some (0, [(lookup_request service inst, from\<lparr>sq_port := QRTR_PORT_CTRL\<rparr>)],
      map (\<lambda>s. server_line (server_pkt QRTR_TYPE_NEW_SERVER s)) srvs)"
proof -
  obtain srvs st1 where r: "ctrl_cmd_new_lookup e st from service inst = (0, st1)"
    "ns_sent st1 = ns_sent st @ map (\<lambda>s. (notice s True, from)) srvs @ [(end_of_list, from)]"
    "set srvs = {s \<in> stored st. lookup_admits lk (sv_service s) (sv_instance s)}" "ns_uniq st \<longrightarrow> distinct srvs"
    using new_lookup_result [OF assms(1-3,14)] by blast
  have m: "matching \<subseteq> set srvs" "ns_uniq st \<longrightarrow> set srvs = matching"
    using registered_stored [OF assms(1)] stored_registered [OF assms(1)] by (auto simp: r(3) assms(15))
  have "ctrl_of_bytes (lookup_request service inst @ rest) =
      Some \<lparr>pk_cmd = QRTR_TYPE_NEW_LOOKUP, pk_w0 = service, pk_w1 = inst, pk_w2 = 0, pk_w3 = 0\<rparr>"
    unfolding lookup_request_def by (rule ctrl_of_bytes_ctrl_bytes)
  then have st': "st' = st1" using assms(12) r(1) by (simp add: ctrl_port_fn_def)
  have n: "ls_recv y k = (20, fst ((map (\<lambda>s. (notice s True, from)) srvs @ [(end_of_list, from)]) ! k))"
    if "k < Suc (length srvs)" for k
    using assms(13) that r(2) st' by (simp add: nth_append)
  have "\<forall>i < length srvs. ls_recv y (0 + i) = (20, notice (srvs ! i) True)" "ls_recv y (0 + length srvs) = (20, end_of_list)"
    using n by (auto simp: nth_append)
  moreover have "\<forall>s \<in> set srvs. sv_service s \<noteq> 0" using r(3) stored_service [OF assms(1)] by auto
  ultimately have "lookup_loop (ls_recv y) 0 (lookup_request service inst) [] =
      Some (20, map (\<lambda>s. server_line (server_pkt QRTR_TYPE_NEW_SERVER s)) srvs)"
    using lookup_loop_reply [of srvs "ls_recv y" 0] by simp
  then show ?thesis using r(3,4) m assms(4-11) by (intro exI [of _ srvs]) (simp add: lookup_main_def)
qed

text \<open>Every packet that is not from the reply is skipped: a short datagram, or one that is not a
  server announcement.\<close>

lemma packet_of_20: "length b = 20 \<Longrightarrow> \<exists>p. ctrl_of_bytes b = Some p \<and> pk_cmd p = u32_at b 0"
  by (simp add: ctrl_of_bytes_def)

lemma lookup_loop_skips:
  assumes "recv k = (n, d)" and "0 < n" and "nat n = length d" and "length pkt = 20"
    and "n < 20 \<or> (n = 20 \<and> u32_at d 0 \<noteq> QRTR_TYPE_NEW_SERVER)"
  shows "lookup_loop recv k pkt lines = lookup_loop recv (k + 1) (take 20 (d @ drop (nat n) pkt)) lines"
proof -
  let ?p = "take 20 (d @ drop (nat n) pkt)"
  have "length ?p = 20" using assms(3-5) by auto
  then obtain p where p: "ctrl_of_bytes ?p = Some p" "pk_cmd p = u32_at ?p 0" using packet_of_20 [of ?p] by blast
  moreover have "u32_at ?p 0 = u32_at d 0" if "n = 20" using that assms(3) by (simp add: u32_at_def)
  ultimately show ?thesis using assms by (subst lookup_loop.simps) (auto simp: Let_def)
qed

text \<open>Numbers are converted to 32 bits without a check.\<close>

lemma read_num_truncates: "read_num_le ''4294967297'' 0 = (1, 0)"
  by code_simp

theorem lookup_lists_registry_witness:
  "\<exists>st e y st' rest. registered st 1 40 = Some (mk_server 66 1 1 40) \<and>
    ctrl_port_fn e st 20 (lookup_request 66 0 @ rest) (at_port 1 50) = Some (0, st') \<and>
    lookup_main y [''66''] = Some (0, [(lookup_request 66 0, at_port 1 QRTR_PORT_CTRL)],
      [server_line (server_pkt QRTR_TYPE_NEW_SERVER (mk_server 66 1 1 40))])"
proof -
  let ?sq = "at_port 1 50" and ?s = "mk_server 66 1 1 40"
  let ?lk = "\<lparr>lk_service = 66, lk_instance = 0, lk_sq = ?sq\<rparr>"
  obtain st where st: "ns_inv st" "ns_uniq st" "ns_local_node st = 1"
    "\<And>i p. registered st i p = (if i = 1 \<and> p = 40 then Some ?s else None)"
    by (rule one_server) blast
  have m: "{s. (\<exists>i p. registered st i p = Some s) \<and> lookup_admits ?lk (sv_service s) (sv_instance s)} = {?s}"
    by (auto simp: st(4) lookup_admits_def)
  have mem: "calloc_ok plain_env Lookup_alloc 40" by (simp add: plain_env_def)
  obtain srvs st' where r: "ctrl_cmd_new_lookup plain_env st ?sq 66 0 = (0, st')"
    "ns_sent st' = ns_sent st @ map (\<lambda>s. (notice s True, ?sq)) srvs @ [(end_of_list, ?sq)]"
    "set srvs = {s \<in> stored st. lookup_admits ?lk (sv_service s) (sv_instance s)}" "ns_uniq st \<longrightarrow> distinct srvs"
    using new_lookup_result [OF st(1) mem, of ?sq ?lk 66 0] st(3) by auto
  have "set srvs = {?s}" unfolding r(3) stored_registered [OF st(1,2)] m [symmetric] by simp
  then have srvs: "srvs = [?s]" using r(4) st(2) by (intro distinct_one) simp_all
  have "ctrl_of_bytes (lookup_request 66 0 @ replicate 4076 0) =
      Some \<lparr>pk_cmd = QRTR_TYPE_NEW_LOOKUP, pk_w0 = 66, pk_w1 = 0, pk_w2 = 0, pk_w3 = 0\<rparr>"
    unfolding lookup_request_def by (rule ctrl_of_bytes_ctrl_bytes)
  then have c: "ctrl_port_fn plain_env st 20 (lookup_request 66 0 @ replicate 4076 0) ?sq = Some (0, st')"
    using r(1) by (simp add: ctrl_port_fn_def)
  define y where "y = \<lparr>ls_socket = 3, ls_getsockname = 0, ls_sq = ?sq, ls_sl = 12, ls_setsockopt = 0, ls_sendto = 20,
    ls_recv = \<lambda>k. (20, if k = 0 then notice ?s True else end_of_list)\<rparr>"
  have y: "0 \<le> ls_socket y" "ls_getsockname y = 0" "ls_sq y = ?sq" "ls_sl y = 12" "ls_setsockopt y = 0" "0 \<le> ls_sendto y"
    by (simp_all add: y_def)
  have recv: "\<forall>k < length (ns_sent st') - length (ns_sent st). ls_recv y k = (20, fst (ns_sent st' ! (length (ns_sent st) + k)))"
    by (auto simp: r(2) srvs y_def nth_append less_Suc_eq)
  have a: "lookup_args [''66''] = (66, 0, 0)" by code_simp
  have l: "sq_node ?sq = ns_local_node st" "sq_family ?sq = AF_QIPCRTR" using st(3) by simp_all
  obtain srvs' where s': "distinct srvs'" "set srvs' = {?s}"
    "lookup_main y [''66''] = Some (0, [(lookup_request 66 0, ?sq\<lparr>sq_port := QRTR_PORT_CTRL\<rparr>)],
      map (\<lambda>s. server_line (server_pkt QRTR_TYPE_NEW_SERVER s)) srvs')"
    using lookup_lists_registry [OF st(1) mem l(1) a y(1-3) l(2) y(4-6) c recv refl m [symmetric]] st(2) by auto
  have "srvs' = [?s]" by (rule distinct_one [OF s'(1,2)])
  then show ?thesis
    using c s'(3) st(4) [of 1 40]
    by (intro exI [of _ st] exI [of _ plain_env] exI [of _ y] exI [of _ st'] exI [of _ "replicate 4076 0"]) simp
qed

end
