(* ===== verification/Cmem.thy ===== *)
theory Cmem
  imports Prelude
begin

text \<open>
  Objects of the C memory: a size and a byte per index. Structures that handlers keep on the
  stack, packet buffers and the tables a message is decoded into are such objects. Every
  read and write is checked against the size; \<^term>\<open>None\<close> is an access outside the object.
  Bytes are a function of the index, so that a 70 kB structure of zeros is as cheap to
  evaluate as a small one.
\<close>

record obj =
  osize :: nat
  obyte :: "nat \<Rightarrow> u8"

definition obj_zero :: "nat \<Rightarrow> obj" where
  "obj_zero n = \<lparr>osize = n, obyte = (\<lambda>_. 0)\<rparr>"

definition obj_of_bytes :: "bytes \<Rightarrow> obj" where
  "obj_of_bytes bs = \<lparr>osize = length bs, obyte = (\<lambda>i. if i < length bs then bs ! i else 0)\<rparr>"

definition obj_read :: "obj \<Rightarrow> nat \<Rightarrow> nat \<Rightarrow> bytes option" where
  "obj_read ob i n = (if i + n \<le> osize ob then Some (map (\<lambda>j. obyte ob (i + j)) [0..<n]) else None)"

definition obj_write :: "obj \<Rightarrow> nat \<Rightarrow> bytes \<Rightarrow> obj option" where
  "obj_write ob i bs =
     (if i + length bs \<le> osize ob
      then Some (ob\<lparr>obyte := (\<lambda>j. if i \<le> j \<and> j < i + length bs then bs ! (j - i) else obyte ob j)\<rparr>)
      else None)"

text \<open>\<open>strlen\<close> of the string that starts at an index: \<^term>\<open>None\<close> when it is not terminated
  within the object.\<close>

function obj_strlen :: "obj \<Rightarrow> nat \<Rightarrow> nat option" where
  "obj_strlen ob i =
     (if osize ob \<le> i then None
      else if obyte ob i = 0 then Some 0
      else map_option Suc (obj_strlen ob (Suc i)))"
  by pat_completeness auto
termination by (relation "measure (\<lambda>(ob, i). osize ob - i)") auto

declare obj_strlen.simps [simp del]

section \<open>Reading and writing\<close>

named_theorems obj_simps \<open>facts on objects\<close>

lemma obj_read_Some [obj_simps]:
  "obj_read ob i n = Some bs \<longleftrightarrow> i + n \<le> osize ob \<and> bs = map (\<lambda>j. obyte ob (i + j)) [0..<n]"
  by (auto simp: obj_read_def)

lemma obj_read_exists: "i + n \<le> osize ob \<Longrightarrow> \<exists>bs. obj_read ob i n = Some bs \<and> length bs = n"
  by (simp add: obj_read_def)

lemma obj_read_length: "obj_read ob i n = Some bs \<Longrightarrow> length bs = n"
  by (auto simp: obj_simps)

lemma obj_write_exists: "i + length bs \<le> osize ob \<Longrightarrow> \<exists>ob'. obj_write ob i bs = Some ob'"
  by (simp add: obj_write_def)

lemma obj_write_size: "obj_write ob i bs = Some ob' \<Longrightarrow> osize ob' = osize ob"
  by (auto simp: obj_write_def split: if_splits)

lemma obj_write_byte:
  "obj_write ob i bs = Some ob' \<Longrightarrow>
     obyte ob' j = (if i \<le> j \<and> j < i + length bs then bs ! (j - i) else obyte ob j)"
  by (auto simp: obj_write_def split: if_splits)

lemma obj_read_write_same:
  assumes "obj_write ob i bs = Some ob'" and "n = length bs"
  shows "obj_read ob' i n = Some bs"
  using assms by (auto simp: obj_write_def obj_read_def intro!: nth_equalityI split: if_splits)

lemma obj_read_write_other:
  assumes "obj_write ob i bs = Some ob'" and "j + n \<le> i \<or> i + length bs \<le> j"
  shows "obj_read ob' j n = obj_read ob j n"
  using assms by (auto simp: obj_write_def obj_read_def split: if_splits)

lemma obj_read_append:
  assumes "obj_read ob i n = Some xs" and "obj_read ob (i + n) m = Some ys"
  shows "obj_read ob i (n + m) = Some (xs @ ys)"
proof -
  have "[0..<n + m] = [0..<n] @ [n..<n + m]" by (rule upt_add_eq_append) simp
  moreover have "map (\<lambda>j. obyte ob (i + j)) [n..<n + m] = map (\<lambda>j. obyte ob (i + n + j)) [0..<m]"
    by (rule nth_equalityI) (simp_all add: add.assoc)
  ultimately show ?thesis using assms by (auto simp: obj_read_def split: if_splits)
qed

lemma obj_read_sub:
  assumes "obj_read ob i n = Some bs" and "a + m \<le> n"
  shows "obj_read ob (i + a) m = Some (take m (drop a bs))"
  using assms by (auto simp: obj_read_def add.assoc intro!: nth_equalityI split: if_splits)

lemma obj_write_append:
  assumes "obj_write ob i xs = Some ob1" and "obj_write ob1 (i + length xs) ys = Some ob2"
  shows "obj_write ob i (xs @ ys) = Some ob2"
  using assms
  by (cases ob) (auto simp: obj_write_def nth_append fun_eq_iff split: if_splits)

lemma obj_write_nil: "i \<le> osize ob \<Longrightarrow> obj_write ob i [] = Some ob"
  by (cases ob) (auto simp: obj_write_def fun_eq_iff)

lemma obj_read_of_bytes: "i + n \<le> length bs \<Longrightarrow> obj_read (obj_of_bytes bs) i n = Some (take n (drop i bs))"
  by (auto simp: obj_read_def obj_of_bytes_def intro!: nth_equalityI)

text \<open>An operation that changes an object between two indices only.\<close>

definition only_between :: "nat \<Rightarrow> nat \<Rightarrow> obj \<Rightarrow> obj \<Rightarrow> bool" where
  "only_between lo hi ob ob' \<longleftrightarrow>
     osize ob' = osize ob \<and> (\<forall>j. j < lo \<or> hi \<le> j \<longrightarrow> obyte ob' j = obyte ob j)"

lemma only_between_refl [simp]: "only_between lo hi ob ob"
  by (simp add: only_between_def)

lemma only_between_trans:
  "only_between lo hi ob ob1 \<Longrightarrow> only_between lo hi ob1 ob2 \<Longrightarrow> only_between lo hi ob ob2"
  by (simp add: only_between_def)

lemma only_between_mono:
  "only_between lo' hi' ob ob1 \<Longrightarrow> lo \<le> lo' \<Longrightarrow> hi' \<le> hi \<Longrightarrow> only_between lo hi ob ob1"
  by (auto simp: only_between_def)

lemma only_between_mono':
  "only_between lo' hi' ob ob1 \<Longrightarrow> hi' \<le> lo' \<or> lo \<le> lo' \<and> hi' \<le> hi \<Longrightarrow> only_between lo hi ob ob1"
  unfolding only_between_def by (meson le_less_trans less_le_trans not_less order_trans)

lemma obj_write_between:
  "obj_write ob i bs = Some ob' \<Longrightarrow> lo \<le> i \<Longrightarrow> i + length bs \<le> hi \<Longrightarrow> only_between lo hi ob ob'"
  using obj_write_size [of ob i bs ob'] obj_write_byte [of ob i bs ob']
  by (auto simp: only_between_def)

section \<open>Strings\<close>

text \<open>A C string in an object, and a 32-bit field of it.\<close>

definition obj_string :: "obj \<Rightarrow> nat \<Rightarrow> string option" where
  "obj_string ob i = do {
     n \<leftarrow> obj_strlen ob i;
     bs \<leftarrow> obj_read ob i n;
     Some (map (\<lambda>b. char_of (unat b)) bs) }"

definition obj_u32 :: "obj \<Rightarrow> nat \<Rightarrow> u32 option" where
  "obj_u32 ob i = map_option (\<lambda>bs. of_nat (le_val bs)) (obj_read ob i 4)"

text \<open>The bytes of a string.\<close>

definition path_bytes :: "string \<Rightarrow> bytes" where
  "path_bytes path = map (\<lambda>c. of_nat (of_char c)) path"

lemma strlen_of_read:
  "obj_read ob i (n + 1) = Some (bs @ [0]) \<Longrightarrow> 0 \<notin> set bs \<Longrightarrow> obj_strlen ob i = Some n"
proof (induction n arbitrary: i bs)
  case 0
  then have "bs = []" using obj_read_length [OF 0(1)] by simp
  then show ?case using 0 by (subst obj_strlen.simps) (auto simp: obj_read_def split: if_splits)
next
  case (Suc n)
  then obtain b cs where bs: "bs = b # cs" using obj_read_length [OF Suc.prems(1)] by (cases bs) auto
  have "obj_read ob (Suc i) (n + 1) = Some (cs @ [0])"
    using obj_read_sub [OF Suc.prems(1), of 1 "n + 1"] bs obj_read_length [OF Suc.prems(1)] by simp
  then have "obj_strlen ob (Suc i) = Some n" using Suc bs by simp
  moreover have "obyte ob i = b" "i < osize ob"
    using Suc.prems(1) bs by (auto simp: obj_read_def upt_rec [of 0] split: if_splits)
  ultimately show ?case using Suc.prems(2) bs by (subst obj_strlen.simps) auto
qed

lemma obj_string_of_read:
  assumes "obj_read ob i (length path + 1) = Some (path_bytes path @ [0])" and "CHR 0x00 \<notin> set path"
  shows "obj_string ob i = Some path"
proof -
  have u: "unat (of_nat (of_char c) :: u8) = of_char c" for c
    by (simp add: unat_of_nat)
  have b: "(of_nat (of_char c) :: u8) = 0 \<longleftrightarrow> c = CHR 0x00" for c
  proof -
    have z: "(of_char (CHR 0x00) :: nat) = 0" by simp
    have "(of_nat (of_char c) :: u8) = 0 \<longleftrightarrow> (of_char c :: nat) = 0"
    proof
      assume "(of_nat (of_char c) :: u8) = 0"
      then have "unat (of_nat (of_char c) :: u8) = 0" by (simp only: unat_0)
      then show "(of_char c :: nat) = 0" using u [of c] by (simp only:)
    next
      assume "(of_char c :: nat) = 0"
      then show "(of_nat (of_char c) :: u8) = 0" by auto
    qed
    also have "\<dots> \<longleftrightarrow> (of_char c :: nat) = of_char (CHR 0x00)" by (simp only: z)
    finally show ?thesis by (simp only: of_char_eq_iff)
  qed
  have nz: "0 \<notin> set (path_bytes path)"
  proof
    assume "0 \<in> set (path_bytes path)"
    then obtain c where "0 = (of_nat (of_char c) :: u8)" "c \<in> set path"
      unfolding path_bytes_def set_map by (rule imageE)
    then show False using b [of c] assms(2) by metis
  qed
  have "obj_strlen ob i = Some (length path)" by (rule strlen_of_read [OF assms(1) nz])
  moreover have "obj_read ob i (length path) = Some (path_bytes path)"
    using obj_read_sub [OF assms(1), of 0 "length path"] by (simp add: path_bytes_def)
  moreover have "map (\<lambda>b. char_of (unat b)) (path_bytes path) = path"
    unfolding path_bytes_def map_map comp_def u by simp
  ultimately show ?thesis by (simp add: obj_string_def)
qed

lemma string_terminated:
  assumes "obyte ob j = 0" and "i \<le> j" and "j < osize ob"
  shows "\<exists>str. obj_string ob i = Some str"
proof -
  have "\<exists>n. obj_strlen ob i = Some n \<and> i + n \<le> j"
    using assms
  proof (induction "j - i" arbitrary: i)
    case 0
    then show ?case by (subst obj_strlen.simps) simp
  next
    case (Suc m)
    show ?case
    proof (cases "obyte ob i = 0")
      case True
      then show ?thesis using Suc.prems by (subst obj_strlen.simps) simp
    next
      case False
      then have "i \<noteq> j" using Suc.prems(1) by auto
      then have "m = j - Suc i" "Suc i \<le> j" using Suc.hyps(2) Suc.prems(2) by auto
      then obtain n where "obj_strlen ob (Suc i) = Some n" "Suc i + n \<le> j"
        using Suc.hyps(1) [of "Suc i"] Suc.prems(1,3) by auto
      then show ?thesis using False Suc.prems by (subst obj_strlen.simps) auto
    qed
  qed
  then show ?thesis using assms(3) by (auto simp: obj_string_def obj_read_def)
qed

end
