(* ===== verification/Qmi.thy ===== *)
theory Qmi
  imports Cmem
begin

text \<open>
  The QMI message codec, \<^verbatim>\<open>qcom/qrtr/lib/qmi.c\<close>: a C structure is turned into a sequence of
  type-length-value elements and back, driven by a table of \<open>struct qmi_elem_info\<close>.

  Structures and buffers are objects (theory \<open>Cmem\<close>), pointers into them indices. A table is
  the list of its entries with the terminating \<open>QMI_EOTI\<close> entry; stepping past the end of the
  list is \<^term>\<open>None\<close>. The 32-bit counters of the source are natural numbers with their
  wrap-around written out (\<open>w32\<close>, \<open>sub32\<close>). \<open>qmi_encode\<close> and \<open>qmi_decode\<close> call themselves
  through the struct elements; in the model the function for the next nesting level is a
  parameter (\<open>enc\<close>, \<open>dec\<close>) of the loops, tied together by recursion on the nesting depth of
  the table.
\<close>

section \<open>Tables\<close>

datatype qmi_elem_type =
    QMI_EOTI | QMI_OPT_FLAG | QMI_DATA_LEN
  | QMI_UNSIGNED_1_BYTE | QMI_UNSIGNED_2_BYTE | QMI_UNSIGNED_4_BYTE | QMI_UNSIGNED_8_BYTE
  | QMI_SIGNED_1_BYTE_ENUM | QMI_SIGNED_2_BYTE_ENUM | QMI_SIGNED_4_BYTE_ENUM
  | QMI_STRUCT | QMI_STRING

datatype qmi_array_type = NO_ARRAY | STATIC_ARRAY | VAR_LEN_ARRAY

datatype qmi_elem_info = Elem
  (data_type: qmi_elem_type)
  (elem_len: nat)
  (elem_size: nat)
  (array_type: qmi_array_type)
  (tlv_type: u8)
  (offset: nat)
  (ei_array: "qmi_elem_info list option")

text \<open>The entry \<open>{}\<close> that ends a table.\<close>

definition eoti :: qmi_elem_info where
  "eoti = Elem QMI_EOTI 0 0 NO_ARRAY 0 0 None"

fun nesting :: "qmi_elem_info \<Rightarrow> nat" where
  "nesting (Elem t n sz a tv off None) = 0"
| "nesting (Elem t n sz a tv off (Some es)) = Suc (fold max (map nesting es) 0)"

definition depth :: "qmi_elem_info list option \<Rightarrow> nat" where
  "depth ei = (case ei of None \<Rightarrow> 0 | Some es \<Rightarrow> Suc (fold max (map nesting es) 0))"

definition w32 :: "nat \<Rightarrow> nat" where
  "w32 n = n mod 4294967296"

definition sub32 :: "nat \<Rightarrow> nat \<Rightarrow> nat" where
  "sub32 a b = (a + (4294967296 - b mod 4294967296)) mod 4294967296"

text \<open>\<open>skip_to_next_elem\<close>; its argument is the table from the current entry on.\<close>

fun skip_same_type :: "u8 \<Rightarrow> qmi_elem_info list \<Rightarrow> qmi_elem_info list option" where
  "skip_same_type t [] = None"
| "skip_same_type t (e # es) = (if tlv_type e = t then skip_same_type t es else Some (e # es))"

definition skip_to_next_elem :: "qmi_elem_info list \<Rightarrow> nat \<Rightarrow> qmi_elem_info list option" where
  "skip_to_next_elem ei level =
     (case ei of
        [] \<Rightarrow> None
      | e # es \<Rightarrow> if level > 1 then Some es else skip_same_type (tlv_type e) es)"

lemma skip_same_type_length: "skip_same_type t ei = Some ei' \<Longrightarrow> length ei' \<le> length ei"
  by (induction t ei rule: skip_same_type.induct) (auto split: if_splits)

lemma skip_to_next_elem_length: "skip_to_next_elem (e # es) level = Some ei' \<Longrightarrow> length ei' \<le> length es"
  by (auto simp: skip_to_next_elem_def dest: skip_same_type_length split: if_splits)

text \<open>\<open>qmi_calc_min_msg_len\<close>; \<open>calc\<close> is the function for nested tables.\<close>

function min_len_loop ::
    "(qmi_elem_info list option \<Rightarrow> nat \<Rightarrow> nat option) \<Rightarrow> nat \<Rightarrow> qmi_elem_info list \<Rightarrow> nat option" where
  "min_len_loop calc level [] = None"
| "min_len_loop calc level (e # es) =
     (if data_type e = QMI_EOTI then Some 0
      else if data_type e = QMI_OPT_FLAG then
        (case skip_to_next_elem (e # es) level of
           None \<Rightarrow> None
         | Some ei \<Rightarrow> min_len_loop calc level ei)
      else if data_type e = QMI_DATA_LEN then
        map_option (\<lambda>n. (if elem_size e = 1 then 1 else 2) + n) (min_len_loop calc level es)
      else do {
        len \<leftarrow> (if data_type e = QMI_STRUCT then calc (ei_array e) (level + 1)
               else if data_type e = QMI_STRING then
                 Some ((if level > 1 then if elem_len e \<le> 256 then 1 else 2 else 0) + elem_len e * elem_size e)
               else Some (elem_len e * elem_size e));
        n \<leftarrow> min_len_loop calc level es;
        Some (len + (if level = 1 then 3 else 0) + n) })"
  by pat_completeness auto
termination
  by (relation "measure (\<lambda>(calc, level, es). length es)")
    (auto dest: skip_to_next_elem_length)

fun qmi_calc_min_msg_len_n :: "nat \<Rightarrow> qmi_elem_info list option \<Rightarrow> nat \<Rightarrow> nat option" where
  "qmi_calc_min_msg_len_n d None level = Some 0"
| "qmi_calc_min_msg_len_n 0 (Some es) level = None"
| "qmi_calc_min_msg_len_n (Suc d) (Some es) level = min_len_loop (qmi_calc_min_msg_len_n d) level es"

definition qmi_calc_min_msg_len :: "qmi_elem_info list option \<Rightarrow> nat \<Rightarrow> nat option" where
  "qmi_calc_min_msg_len ei level = qmi_calc_min_msg_len_n (depth ei) ei level"

section \<open>Encoding\<close>

text \<open>\<open>qmi_encode_basic_elem\<close> and \<open>qmi_decode_basic_elem\<close> are the same loop of \<open>memcpy\<close>
  calls: \<open>elem_len\<close> pieces of \<open>elem_size\<close> bytes, from an index of one object to an index of
  another. The result is the number of bytes and the destination.\<close>

fun copy_elems :: "obj \<Rightarrow> nat \<Rightarrow> obj \<Rightarrow> nat \<Rightarrow> nat \<Rightarrow> nat \<Rightarrow> obj option" where
  "copy_elems out dst src sp 0 sz = Some out"
| "copy_elems out dst src sp (Suc n) sz = do {
     bs \<leftarrow> obj_read src sp sz;
     out1 \<leftarrow> obj_write out dst bs;
     copy_elems out1 (dst + sz) src (sp + sz) n sz }"

definition qmi_encode_basic_elem ::
    "obj \<Rightarrow> nat \<Rightarrow> obj \<Rightarrow> nat \<Rightarrow> nat \<Rightarrow> nat \<Rightarrow> (nat \<times> obj) option" where
  "qmi_encode_basic_elem out dst src sp n sz =
     map_option (\<lambda>out'. (w32 (n * sz), out')) (copy_elems out dst src sp n sz)"

definition qmi_decode_basic_elem ::
    "obj \<Rightarrow> nat \<Rightarrow> obj \<Rightarrow> nat \<Rightarrow> nat \<Rightarrow> nat \<Rightarrow> (nat \<times> obj) option" where
  "qmi_decode_basic_elem out dst src sp n sz =
     map_option (\<lambda>out'. (w32 (n * sz), out')) (copy_elems out dst src sp n sz)"

text \<open>The encoder of a nesting level: the source object, then table, destination object and
  index, source index, available space and level.\<close>

type_synonym encoder =
  "qmi_elem_info list option \<Rightarrow> obj \<Rightarrow> nat \<Rightarrow> nat \<Rightarrow> nat \<Rightarrow> nat \<Rightarrow> (int \<times> obj) option"

fun qmi_encode_struct_elem ::
    "encoder \<Rightarrow> qmi_elem_info \<Rightarrow> obj \<Rightarrow> nat \<Rightarrow> nat \<Rightarrow> nat \<Rightarrow> nat \<Rightarrow> nat \<Rightarrow> nat \<Rightarrow> (int \<times> obj) option" where
  "qmi_encode_struct_elem enc e out dst sp 0 lim level encoded = Some (int encoded, out)"
| "qmi_encode_struct_elem enc e out dst sp (Suc n) lim level encoded = do {
     (rc, out1) \<leftarrow> enc (ei_array e) out dst sp (sub32 lim encoded) level;
     if rc < 0 then Some (rc, out1)
     else qmi_encode_struct_elem enc e out1 (dst + nat rc) (sp + elem_size e) n lim level (encoded + nat rc) }"

definition qmi_encode_string_elem ::
    "qmi_elem_info \<Rightarrow> obj \<Rightarrow> nat \<Rightarrow> obj \<Rightarrow> nat \<Rightarrow> nat \<Rightarrow> nat \<Rightarrow> (int \<times> obj) option" where
  "qmi_encode_string_elem e out dst src sp lim level = do {
     len \<leftarrow> obj_strlen src sp;
     let string_len = w32 len;
     let string_len_sz = (if elem_len e \<le> 256 then 1 else 2);
     if string_len > elem_len e then Some (-EINVAL, out)
     else if level = 1 then
       if string_len + 3 > lim then Some (-EINVAL, out)
       else map_option (\<lambda>(n, out1). (int n, out1))
              (qmi_encode_basic_elem out dst src sp string_len (elem_size e))
     else if w32 (string_len + string_len_sz) > lim then Some (-EINVAL, out)
     else do {
       (k, out1) \<leftarrow> qmi_encode_basic_elem out dst (obj_of_bytes (le_bytes 4 string_len)) 0 1 string_len_sz;
       (n, out2) \<leftarrow> qmi_encode_basic_elem out1 (dst + k) src sp string_len (elem_size e);
       Some (int (k + n), out2) } }"

text \<open>The local variables of \<open>qmi_encode\<close>.\<close>

record enc_st =
  e_out :: obj
  e_dst :: nat
  e_tlv :: nat
  e_tlv_len :: nat
  e_bytes :: nat
  e_dlen :: nat
  e_flag :: bool

text \<open>\<open>UPDATE_ENCODE_VARIABLES\<close>, less the step to the next entry.\<close>

definition enc_update :: "enc_st \<Rightarrow> obj \<Rightarrow> nat \<Rightarrow> enc_st" where
  "enc_update st out rc =
     st\<lparr>e_out := out, e_dst := e_dst st + rc, e_bytes := w32 (e_bytes st + rc),
       e_tlv_len := w32 (e_tlv_len st + rc), e_flag := True\<rparr>"

text \<open>The end of the loop body: a complete element at the top level gets its header.\<close>

definition enc_close :: "nat \<Rightarrow> u8 \<Rightarrow> enc_st \<Rightarrow> enc_st option" where
  "enc_close level t st =
     (if e_flag st \<and> level = 1 then do {
        out \<leftarrow> obj_write (e_out st) (e_tlv st) (t # le_bytes 2 (e_tlv_len st));
        Some (st\<lparr>e_out := out, e_bytes := w32 (e_bytes st + 3), e_tlv := e_dst st, e_tlv_len := 0,
          e_dst := e_dst st + 3, e_flag := False\<rparr>) }
      else Some st)"

text \<open>\<open>data_len_value\<close> at the start of an iteration; \<^term>\<open>None\<close> is the invalid length.\<close>

definition enc_count :: "qmi_elem_info \<Rightarrow> nat \<Rightarrow> nat option" where
  "enc_count e dlen =
     (case array_type e of
        NO_ARRAY \<Rightarrow> Some 1
      | STATIC_ARRAY \<Rightarrow> Some (elem_len e)
      | VAR_LEN_ARRAY \<Rightarrow> if dlen = 0 \<or> elem_len e < dlen then None else Some dlen)"

text \<open>An iteration either returns from \<open>qmi_encode\<close> or goes on at an entry.\<close>

datatype enc_next = Ret int obj | Go "qmi_elem_info list" enc_st

definition enc_result :: "qmi_elem_info list \<Rightarrow> enc_st \<Rightarrow> int \<times> obj \<Rightarrow> enc_next" where
  "enc_result es st r =
     (case r of (rc, out) \<Rightarrow> if rc < 0 then Ret rc out else Go es (enc_update st out (nat rc)))"

definition enc_data_len ::
    "obj \<Rightarrow> nat \<Rightarrow> nat \<Rightarrow> nat \<Rightarrow> qmi_elem_info \<Rightarrow> qmi_elem_info list \<Rightarrow> enc_st \<Rightarrow> enc_next option" where
  "enc_data_len src sb lim level e es st =
     (if elem_size e > 4 then None
      else do {
        bs \<leftarrow> obj_read src (sb + offset e) (elem_size e);
        let v = le_val (bs @ drop (elem_size e) (le_bytes 4 (e_dlen st)));
        let data_len_sz = (if elem_size e = 1 then 1 else 2);
        if w32 (data_len_sz + e_bytes st) + 3 > lim then Some (Ret (-EINVAL) (e_out st))
        else do {
          (rc, out) \<leftarrow> qmi_encode_basic_elem (e_out st) (e_dst st) (obj_of_bytes (le_bytes 4 v)) 0 1 data_len_sz;
          let st1 = enc_update (st\<lparr>e_dlen := v\<rparr>) out rc;
          if v = 0 then map_option (\<lambda>ei. Go ei st1) (skip_to_next_elem es level)
          else Some (Go es (st1\<lparr>e_flag := False\<rparr>)) } })"

text \<open>The body of the loop, for the entry \<open>e\<close> followed by the entries \<open>es\<close>.\<close>

definition enc_elem ::
    "encoder \<Rightarrow> obj \<Rightarrow> nat \<Rightarrow> nat \<Rightarrow> nat \<Rightarrow> qmi_elem_info \<Rightarrow> qmi_elem_info list \<Rightarrow> enc_st \<Rightarrow> enc_next option" where
  "enc_elem enc src sb lim level e es st0 =
     (case enc_count e (e_dlen st0) of
        None \<Rightarrow> Some (Ret (-EINVAL) (e_out st0))
      | Some n \<Rightarrow>
          (let st = st0\<lparr>e_dlen := n\<rparr>; sp = sb + offset e in
           case data_type e of
             QMI_EOTI \<Rightarrow> Some (Ret (-EINVAL) (e_out st))
           | QMI_OPT_FLAG \<Rightarrow> do {
               bs \<leftarrow> obj_read src sp 1;
               ei \<leftarrow> (if bs \<noteq> [0] then Some es else skip_to_next_elem (e # es) level);
               Some (Go ei st) }
           | QMI_DATA_LEN \<Rightarrow> enc_data_len src sb lim level e es st
           | QMI_STRUCT \<Rightarrow>
               map_option (enc_result es st)
                 (qmi_encode_struct_elem enc e (e_out st) (e_dst st) sp n
                    (sub32 lim (e_bytes st)) (level + 1) 0)
           | QMI_STRING \<Rightarrow>
               map_option (enc_result es st)
                 (qmi_encode_string_elem e (e_out st) (e_dst st) src sp (sub32 lim (e_bytes st)) level)
           | _ \<Rightarrow>
               if w32 (w32 (n * elem_size e) + e_bytes st) + 3 > lim then Some (Ret (-EINVAL) (e_out st))
               else map_option (\<lambda>(rc, out). Go es (enc_update st out rc))
                      (qmi_encode_basic_elem (e_out st) (e_dst st) src sp n (elem_size e))))"

lemma enc_elem_length:
  assumes "enc_elem enc src sb lim level e es st = Some (Go ei st')"
  shows "length ei \<le> length es"
proof (cases "data_type e = QMI_DATA_LEN")
  case True
  then show ?thesis using assms
    by (cases es)
      (auto simp: enc_elem_def enc_data_len_def Let_def skip_to_next_elem_def split_beta
        dest!: skip_same_type_length split: option.splits if_splits Option.bind_splits)
next
  case False
  then show ?thesis using assms skip_to_next_elem_length [of e es level]
    by (auto simp: enc_elem_def enc_result_def Let_def split: option.splits if_splits
        qmi_elem_type.splits prod.splits Option.bind_splits)
qed

function enc_loop ::
    "encoder \<Rightarrow> obj \<Rightarrow> nat \<Rightarrow> nat \<Rightarrow> nat \<Rightarrow> qmi_elem_info list \<Rightarrow> enc_st \<Rightarrow> (int \<times> obj) option" where
  "enc_loop enc src sb lim level [] st = None"
| "enc_loop enc src sb lim level (e # es) st =
     (if data_type e = QMI_EOTI then Some (int (e_bytes st), e_out st)
      else
        (case enc_elem enc src sb lim level e es st of
           None \<Rightarrow> None
         | Some (Ret rc out) \<Rightarrow> Some (rc, out)
         | Some (Go ei st1) \<Rightarrow>
             (case enc_close level (tlv_type e) st1 of
                None \<Rightarrow> None
              | Some st2 \<Rightarrow> enc_loop enc src sb lim level ei st2)))"
  by pat_completeness auto
termination
  by (relation "measure (\<lambda>(enc, src, sb, lim, level, ei, st). length ei)")
    (auto dest: enc_elem_length)

fun qmi_encode_n :: "nat \<Rightarrow> obj \<Rightarrow> encoder" where
  "qmi_encode_n d src None out dst sb lim level = Some (0, out)"
| "qmi_encode_n 0 src (Some es) out dst sb lim level = None"
| "qmi_encode_n (Suc d) src (Some es) out dst sb lim level =
     enc_loop (qmi_encode_n d src) src sb lim level es
       \<lparr>e_out = out, e_dst = (if level = 1 then dst + 3 else dst), e_tlv = dst, e_tlv_len = 0,
        e_bytes = 0, e_dlen = 0, e_flag = False\<rparr>"

definition qmi_encode :: "obj \<Rightarrow> encoder" where
  "qmi_encode src ei out dst sb lim level = qmi_encode_n (depth ei) src ei out dst sb lim level"

section \<open>Decoding\<close>

text \<open>The decoder of a nesting level: the message object, then table, destination structure,
  index in it, index in the message, remaining length and level.\<close>

type_synonym decoder =
  "qmi_elem_info list option \<Rightarrow> obj \<Rightarrow> nat \<Rightarrow> nat \<Rightarrow> nat \<Rightarrow> nat \<Rightarrow> (int \<times> obj) option"

fun dec_struct_loop ::
    "decoder \<Rightarrow> qmi_elem_info \<Rightarrow> obj \<Rightarrow> nat \<Rightarrow> nat \<Rightarrow> nat \<Rightarrow> nat \<Rightarrow> nat \<Rightarrow> nat \<Rightarrow> (int \<times> nat \<times> obj) option" where
  "dec_struct_loop dec e out dp sp 0 tlv_len level decoded = Some (int decoded, 0, out)"
| "dec_struct_loop dec e out dp sp (Suc n) tlv_len level decoded =
     (if decoded < tlv_len then do {
        (rc, out1) \<leftarrow> dec (ei_array e) out dp sp (sub32 tlv_len decoded) level;
        if rc < 0 then Some (rc, Suc n, out1)
        else dec_struct_loop dec e out1 (dp + elem_size e) (sp + nat rc) n tlv_len level (decoded + nat rc) }
      else Some (int decoded, Suc n, out))"

text \<open>The second component of the loop's result is \<open>elem_len - i\<close>.\<close>

definition qmi_decode_struct_elem ::
    "decoder \<Rightarrow> qmi_elem_info \<Rightarrow> obj \<Rightarrow> nat \<Rightarrow> nat \<Rightarrow> nat \<Rightarrow> nat \<Rightarrow> nat \<Rightarrow> (int \<times> obj) option" where
  "qmi_decode_struct_elem dec e out dp sp n tlv_len level = do {
     (rc, left, out1) \<leftarrow> dec_struct_loop dec e out dp sp n tlv_len level 0;
     if rc < 0 then Some (rc, out1)
     else if level \<le> 2 \<and> nat rc \<noteq> tlv_len \<or> level > 2 \<and> (left > 0 \<or> nat rc > tlv_len)
       then Some (-EFAULT, out1)
     else Some (rc, out1) }"

definition qmi_decode_string_elem ::
    "qmi_elem_info \<Rightarrow> obj \<Rightarrow> nat \<Rightarrow> obj \<Rightarrow> nat \<Rightarrow> nat \<Rightarrow> nat \<Rightarrow> (int \<times> obj) option" where
  "qmi_decode_string_elem e out dp msg sp tlv_len level = do {
     (string_len, k) \<leftarrow>
       (if level = 1 then Some (tlv_len, 0)
        else let string_len_sz = (if elem_len e \<le> 256 then 1 else 2) in
          map_option (\<lambda>bs. (le_val bs, string_len_sz)) (obj_read msg sp string_len_sz));
     if string_len > elem_len e then Some (-EINVAL, out)
     else if string_len > tlv_len then Some (-EFAULT, out)
     else do {
       (rc, out1) \<leftarrow> qmi_decode_basic_elem out dp msg (sp + k) string_len (elem_size e);
       out2 \<leftarrow> obj_write out1 (dp + string_len) [0];
       Some (int (k + rc), out2) } }"

text \<open>\<open>find_ei\<close> returns the table from the entry with the type on.\<close>

fun find_ei :: "qmi_elem_info list \<Rightarrow> u8 \<Rightarrow> qmi_elem_info list option option" where
  "find_ei [] t = None"
| "find_ei (e # es) t =
     (if data_type e = QMI_EOTI then Some None
      else if tlv_type e = t then Some (Some (e # es))
      else find_ei es t)"

record dec_st =
  d_out :: obj
  d_src :: nat
  d_bytes :: nat
  d_dlen :: nat

datatype dec_next = DRet int obj | DGo "qmi_elem_info list" dec_st

definition dec_update :: "dec_st \<Rightarrow> nat \<Rightarrow> dec_st" where
  "dec_update st n = st\<lparr>d_src := d_src st + n, d_bytes := w32 (d_bytes st + n)\<rparr>"

text \<open>The head of an iteration of \<open>qmi_decode\<close>: at the top level the header of the next
  element is read and its entry looked up; below it, the entry is the next of the table and
  the length all that is left. The result is the entry (with those after it) and
  \<open>tlv_len\<close>, or no entry for an unknown optional element, which is skipped.\<close>

datatype dec_head = HRet int | HSkip nat | HElem "qmi_elem_info list" nat

definition dec_header ::
    "qmi_elem_info list \<Rightarrow> obj \<Rightarrow> nat \<Rightarrow> nat \<Rightarrow> qmi_elem_info list \<Rightarrow> dec_st \<Rightarrow> (dec_head \<times> dec_st) option" where
  "dec_header ei msg lim level cur st =
     (if level = 1 then do {
        bs \<leftarrow> obj_read msg (d_src st) 3;
        let tlv_len = le_val (drop 1 bs);
        found \<leftarrow> find_ei ei (bs ! 0);
        let st1 = dec_update st 3;
        Some (case found of
            Some es \<Rightarrow> HElem es tlv_len
          | None \<Rightarrow> if bs ! 0 < 0x10 then HRet (-EINVAL) else HSkip tlv_len, st1) }
      else Some (HElem cur (sub32 lim (d_bytes st)), st))"

text \<open>An optional flag entry: the flag is set and the next entry is the current one.\<close>

definition dec_opt_flag ::
    "qmi_elem_info list \<Rightarrow> nat \<Rightarrow> dec_st \<Rightarrow> (qmi_elem_info list \<times> dec_st) option" where
  "dec_opt_flag cur base st =
     (case cur of
        [] \<Rightarrow> None
      | e # es \<Rightarrow>
          if data_type e = QMI_OPT_FLAG then
            map_option (\<lambda>out. (es, st\<lparr>d_out := out\<rparr>)) (obj_write (d_out st) (base + offset e) [1])
          else Some (cur, st))"

definition dec_data_len ::
    "qmi_elem_info list \<Rightarrow> obj \<Rightarrow> nat \<Rightarrow> nat \<Rightarrow> dec_st \<Rightarrow> (qmi_elem_info list \<times> nat \<times> dec_st) option" where
  "dec_data_len cur msg base tlv_len st =
     (case cur of
        [] \<Rightarrow> None
      | e # es \<Rightarrow>
          if data_type e = QMI_DATA_LEN then do {
            let data_len_sz = (if elem_size e = 1 then 1 else 2);
            bs \<leftarrow> obj_read msg (d_src st) data_len_sz;
            let v = le_val (bs @ drop data_len_sz (le_bytes 4 (d_dlen st)));
            out \<leftarrow> obj_write (d_out st) (base + offset e) (le_bytes 4 v);
            Some (es, sub32 tlv_len data_len_sz,
              dec_update (st\<lparr>d_out := out, d_dlen := v\<rparr>) data_len_sz) }
          else Some (cur, tlv_len, st))"

text \<open>\<open>data_len_value\<close> of the entry; \<^term>\<open>None\<close> is more elements than the table allows.\<close>

definition dec_count :: "qmi_elem_info \<Rightarrow> nat \<Rightarrow> nat option" where
  "dec_count e dlen =
     (case array_type e of
        NO_ARRAY \<Rightarrow> Some 1
      | STATIC_ARRAY \<Rightarrow> Some (elem_len e)
      | VAR_LEN_ARRAY \<Rightarrow> if dlen > elem_len e then None else Some dlen)"

definition dec_result :: "qmi_elem_info list \<Rightarrow> dec_st \<Rightarrow> int \<times> obj \<Rightarrow> dec_next" where
  "dec_result es st r =
     (case r of (rc, out) \<Rightarrow>
        if rc < 0 then DRet rc out else DGo es (dec_update (st\<lparr>d_out := out\<rparr>) (nat rc)))"

definition dec_value ::
    "decoder \<Rightarrow> obj \<Rightarrow> nat \<Rightarrow> nat \<Rightarrow> nat \<Rightarrow> qmi_elem_info list \<Rightarrow> dec_st \<Rightarrow> dec_next option" where
  "dec_value dec msg base tlv_len level cur st0 =
     (case cur of
        [] \<Rightarrow> None
      | e # es \<Rightarrow>
          (case dec_count e (d_dlen st0) of
             None \<Rightarrow> Some (DRet (-EINVAL) (d_out st0))
           | Some n \<Rightarrow>
               (let st = st0\<lparr>d_dlen := n\<rparr>; dp = base + offset e in
                case data_type e of
                  QMI_EOTI \<Rightarrow> Some (DRet (-EINVAL) (d_out st))
                | QMI_OPT_FLAG \<Rightarrow> Some (DRet (-EINVAL) (d_out st))
                | QMI_DATA_LEN \<Rightarrow> Some (DRet (-EINVAL) (d_out st))
                | QMI_STRUCT \<Rightarrow>
                    map_option (dec_result es st)
                      (qmi_decode_struct_elem dec e (d_out st) dp (d_src st) n tlv_len (level + 1))
                | QMI_STRING \<Rightarrow>
                    map_option (dec_result es st)
                      (qmi_decode_string_elem e (d_out st) dp msg (d_src st) tlv_len level)
                | _ \<Rightarrow>
                    map_option (\<lambda>(rc, out). DGo es (dec_update (st\<lparr>d_out := out\<rparr>) rc))
                      (qmi_decode_basic_elem (d_out st) dp msg (d_src st) n (elem_size e)))))"

definition dec_elem ::
    "decoder \<Rightarrow> qmi_elem_info list \<Rightarrow> obj \<Rightarrow> nat \<Rightarrow> nat \<Rightarrow> nat \<Rightarrow> qmi_elem_info list \<Rightarrow> dec_st \<Rightarrow> dec_next option" where
  "dec_elem dec ei msg base lim level cur st = do {
     (h, st1) \<leftarrow> dec_header ei msg lim level cur st;
     case h of
       HRet rc \<Rightarrow> Some (DRet rc (d_out st1))
     | HSkip tlv_len \<Rightarrow> Some (DGo [] (dec_update st1 tlv_len))
     | HElem cur1 tlv_len1 \<Rightarrow> do {
         (cur2, st2) \<leftarrow> dec_opt_flag cur1 base st1;
         (cur3, tlv_len3, st3) \<leftarrow> dec_data_len cur2 msg base tlv_len1 st2;
         dec_value dec msg base tlv_len3 level cur3 st3 } }"

lemma dec_value_progress:
  "dec_value dec msg base tlv_len level cur st = Some (DGo cur' st') \<Longrightarrow>
     length cur' < length cur \<and> d_src st \<le> d_src st'"
  by (auto simp: dec_value_def dec_result_def dec_update_def Let_def
      split: list.splits option.splits if_splits qmi_elem_type.splits prod.splits)

lemma dec_opt_flag_progress:
  "dec_opt_flag cur base st = Some (cur', st') \<Longrightarrow> length cur' \<le> length cur \<and> d_src st' = d_src st"
  by (auto simp: dec_opt_flag_def split: list.splits if_splits)

lemma dec_data_len_progress:
  "dec_data_len cur msg base tlv_len st = Some (cur', tlv_len', st') \<Longrightarrow>
     length cur' \<le> length cur \<and> d_src st \<le> d_src st'"
  by (auto simp: dec_data_len_def dec_update_def Let_def split: list.splits if_splits Option.bind_splits)

lemma dec_elem_progress:
  assumes "dec_elem dec ei msg base lim level cur st = Some (DGo cur' st')"
  shows "if level = 1 then d_src st < d_src st' \<and> d_src st < osize msg else length cur' < length cur"
proof -
  obtain h st1 where h: "dec_header ei msg lim level cur st = Some (h, st1)"
    using assms by (auto simp: dec_elem_def split: Option.bind_splits)
  have top: "d_src st < d_src st1 \<and> d_src st < osize msg" if "level = 1"
    using h that
    by (auto simp: dec_header_def obj_read_def dec_update_def Let_def split: Option.bind_splits if_splits)
  show ?thesis
  proof (cases h)
    case (HRet rc)
    then show ?thesis using assms h by (simp add: dec_elem_def)
  next
    case (HSkip n)
    then have "level = 1" using h by (auto simp: dec_header_def split: if_splits)
    then show ?thesis using assms h HSkip top by (auto simp: dec_elem_def dec_update_def)
  next
    case (HElem cur1 n)
    obtain cur2 st2 cur3 n3 st3 where s: "dec_opt_flag cur1 base st1 = Some (cur2, st2)"
      "dec_data_len cur2 msg base n st2 = Some (cur3, n3, st3)"
      "dec_value dec msg base n3 level cur3 st3 = Some (DGo cur' st')"
      using assms h HElem by (auto simp: dec_elem_def split: Option.bind_splits)
    have "length cur' < length cur1" "d_src st1 \<le> d_src st'"
      using dec_opt_flag_progress [OF s(1)] dec_data_len_progress [OF s(2)] dec_value_progress [OF s(3)]
      by auto
    moreover have "level \<noteq> 1 \<longrightarrow> cur1 = cur" using h HElem by (auto simp: dec_header_def)
    ultimately show ?thesis using top by auto
  qed
qed

text \<open>The loop of \<open>qmi_decode\<close>. It ends: at the top level every iteration consumes at least
  a header, below it every iteration moves on in the table.\<close>

function dec_loop ::
    "decoder \<Rightarrow> qmi_elem_info list \<Rightarrow> obj \<Rightarrow> nat \<Rightarrow> nat \<Rightarrow> nat \<Rightarrow> qmi_elem_info list \<Rightarrow> dec_st \<Rightarrow> (int \<times> obj) option" where
  "dec_loop dec ei msg base lim level cur st =
     (if \<not> d_bytes st < lim then Some (int (d_bytes st), d_out st)
      else if level \<ge> 2 \<and> cur = [] then None
      else if level \<ge> 2 \<and> data_type (hd cur) = QMI_EOTI then Some (int (d_bytes st), d_out st)
      else
        (case dec_elem dec ei msg base lim level cur st of
           None \<Rightarrow> None
         | Some (DRet rc out) \<Rightarrow> Some (rc, out)
         | Some (DGo cur1 st1) \<Rightarrow> dec_loop dec ei msg base lim level cur1 st1))"
  by pat_completeness auto
termination
  by (relation "measure (\<lambda>(dec, ei, msg, base, lim, level, cur, st).
        if level = 1 then osize msg - d_src st else length cur)")
    (auto dest!: dec_elem_progress split: if_splits)

declare dec_loop.simps [simp del]

fun qmi_decode_n :: "nat \<Rightarrow> obj \<Rightarrow> decoder" where
  "qmi_decode_n d msg None out base sp lim level = (if lim = 0 then Some (0, out) else None)"
| "qmi_decode_n 0 msg (Some es) out base sp lim level = None"
| "qmi_decode_n (Suc d) msg (Some es) out base sp lim level =
     dec_loop (qmi_decode_n d msg) es msg base lim level es
       \<lparr>d_out = out, d_src = sp, d_bytes = 0, d_dlen = 0\<rparr>"

definition qmi_decode :: "obj \<Rightarrow> decoder" where
  "qmi_decode msg ei out base sp lim level = qmi_decode_n (depth ei) msg ei out base sp lim level"

section \<open>Messages\<close>

definition qmi_header :: "nat \<Rightarrow> nat \<Rightarrow> nat \<Rightarrow> nat \<Rightarrow> bytes" where
  "qmi_header type txn_id msg_id msg_len =
     le_bytes 1 type @ le_bytes 2 txn_id @ le_bytes 2 msg_id @ le_bytes 2 msg_len"

text \<open>\<open>qmi_encode_message\<close>: \<open>data\<close> and \<open>data_len\<close> are the fields of the packet; the result is
  the return value and both fields afterwards. (The packet's type becomes
  \<open>QRTR_TYPE_DATA\<close> when the return value is not negative.)\<close>

definition qmi_encode_message ::
    "obj \<Rightarrow> nat \<Rightarrow> nat \<Rightarrow> nat \<Rightarrow> nat \<Rightarrow> obj option \<Rightarrow> qmi_elem_info list option \<Rightarrow> (int \<times> obj \<times> nat) option" where
  "qmi_encode_message data data_len type msg_id txn_id c_struct ei = do {
     min_len \<leftarrow> (case c_struct of None \<Rightarrow> qmi_calc_min_msg_len ei 1 | Some _ \<Rightarrow> Some 0);
     if min_len \<noteq> 0 then Some (-EINVAL, data, data_len)
     else if data_len < 7 then Some (-EMSGSIZE, data, data_len)
     else do {
       (msglen, data1) \<leftarrow>
         (case c_struct of
            None \<Rightarrow> Some (0, data)
          | Some src \<Rightarrow> qmi_encode src ei data 7 0 (w32 (data_len - 7)) 1);
       if msglen < 0 then Some (msglen, data1, data_len)
       else do {
         data2 \<leftarrow> obj_write data1 0 (qmi_header type txn_id msg_id (nat msglen));
         Some (7 + msglen, data2, 7 + nat msglen) } } }"

definition qmi_decode_header :: "obj \<Rightarrow> nat \<Rightarrow> (int \<times> nat option) option" where
  "qmi_decode_header data data_len = do {
     msg_len \<leftarrow> obj_read data 5 2;
     if data_len < 7 \<or> le_val msg_len \<noteq> data_len - 7 then Some (-EINVAL, None)
     else do {
       msg_id \<leftarrow> obj_read data 3 2;
       Some (0, Some (le_val msg_id)) } }"

text \<open>\<open>qmi_decode_message\<close>: the second component of the result is what \<open>*txn\<close> was set to.\<close>

definition qmi_decode_message ::
    "obj option \<Rightarrow> obj option \<Rightarrow> nat \<Rightarrow> nat \<Rightarrow> nat \<Rightarrow> qmi_elem_info list option
      \<Rightarrow> (int \<times> nat option \<times> obj option) option" where
  "qmi_decode_message c_struct pkt_data data_len type msg_id ei =
     (if ei = None then Some (-EINVAL, None, c_struct)
      else
        (case (c_struct, pkt_data) of
           (Some out, Some data) \<Rightarrow>
             if data_len = 0 then Some (-EINVAL, None, c_struct)
             else do {
               ty \<leftarrow> obj_read data 0 1;
               if le_val ty \<noteq> type then Some (-EINVAL, None, c_struct)
               else do {
                 mid \<leftarrow> obj_read data 3 2;
                 if le_val mid \<noteq> msg_id then Some (-EINVAL, None, c_struct)
                 else do {
                   txn \<leftarrow> obj_read data 1 2;
                   (rc, out1) \<leftarrow> qmi_decode data ei out 0 7 (sub32 data_len 7) 1;
                   Some (rc, Some (le_val txn), Some out1) } } }
         | _ \<Rightarrow> Some (-EINVAL, None, c_struct)))"

text \<open>The table of the common response header.\<close>

definition qmi_response_type_v01_ei :: "qmi_elem_info list" where
  "qmi_response_type_v01_ei =
     [Elem QMI_SIGNED_2_BYTE_ENUM 1 2 NO_ARRAY 0 0 None,
      Elem QMI_SIGNED_2_BYTE_ENUM 1 2 NO_ARRAY 0 2 None,
      eoti]"

section \<open>Tables the encoder is safe for\<close>

fun is_basic :: "qmi_elem_type \<Rightarrow> bool" where
  "is_basic QMI_EOTI = False"
| "is_basic QMI_OPT_FLAG = False"
| "is_basic QMI_DATA_LEN = False"
| "is_basic QMI_STRUCT = False"
| "is_basic QMI_STRING = False"
| "is_basic t = True"

text \<open>What an entry may read of a structure of \<open>sz\<close> bytes. Strings are allowed at the top
  level only; \<open>nested e\<close> says that the table of a struct entry is fine.\<close>

definition elem_ok :: "(qmi_elem_info \<Rightarrow> bool) \<Rightarrow> bool \<Rightarrow> nat \<Rightarrow> qmi_elem_info \<Rightarrow> bool" where
  "elem_ok nested outer sz e \<longleftrightarrow>
     (outer \<longrightarrow> tlv_type e \<noteq> 0) \<and> elem_len e * elem_size e < 2 ^ 31 \<and>
     (if data_type e = QMI_OPT_FLAG then offset e + 1 \<le> sz
      else if data_type e = QMI_DATA_LEN then elem_size e \<le> 4 \<and> offset e + elem_size e \<le> sz
      else if data_type e = QMI_STRING then outer \<and> elem_size e = 1 \<and> offset e < sz
      else 0 < elem_len e \<and> offset e + elem_len e * elem_size e \<le> sz \<and>
        (data_type e = QMI_STRUCT \<longrightarrow> nested e))"

fun wf_elems :: "(qmi_elem_info \<Rightarrow> bool) \<Rightarrow> bool \<Rightarrow> nat \<Rightarrow> qmi_elem_info list \<Rightarrow> bool" where
  "wf_elems nested outer sz [] = False"
| "wf_elems nested outer sz (e # es) =
     (if data_type e = QMI_EOTI then tlv_type e = 0
      else elem_ok nested outer sz e \<and>
        (data_type e = QMI_DATA_LEN \<longrightarrow> es \<noteq> [] \<and> data_type (hd es) \<noteq> QMI_EOTI) \<and>
        wf_elems nested outer sz es)"

text \<open>A nested structure starts with an element that is always written.\<close>

definition starts_basic :: "qmi_elem_info list \<Rightarrow> bool" where
  "starts_basic es \<longleftrightarrow>
     es \<noteq> [] \<and> is_basic (data_type (hd es)) \<and> array_type (hd es) \<noteq> VAR_LEN_ARRAY \<and> 0 < elem_size (hd es)"

fun wf_nested :: "nat \<Rightarrow> qmi_elem_info \<Rightarrow> bool" where
  "wf_nested 0 e = False"
| "wf_nested (Suc d) e =
     (case ei_array e of
        None \<Rightarrow> False
      | Some es \<Rightarrow> starts_basic es \<and> wf_elems (wf_nested d) False (elem_size e) es)"

definition wf_table :: "nat \<Rightarrow> qmi_elem_info list \<Rightarrow> bool" where
  "wf_table sz es \<longleftrightarrow> wf_elems (wf_nested (depth (Some es) - 1)) True sz es"

text \<open>Every string of the structure is terminated within it.\<close>

definition strings_ok :: "obj \<Rightarrow> nat \<Rightarrow> qmi_elem_info list \<Rightarrow> bool" where
  "strings_ok src sb es \<longleftrightarrow>
     (\<forall>e \<in> set es. data_type e = QMI_STRING \<longrightarrow> obj_strlen src (sb + offset e) \<noteq> None)"

section \<open>Copying\<close>

lemma copy_elems_write:
  assumes "sp + n * sz \<le> osize src" and "dst + n * sz \<le> osize out"
  shows "copy_elems out dst src sp n sz = obj_write out dst (map (\<lambda>j. obyte src (sp + j)) [0..<n * sz])"
  using assms
proof (induction n arbitrary: out dst sp)
  case 0
  then show ?case by (simp add: obj_write_nil)
next
  case (Suc n)
  let ?b = "\<lambda>sp n. map (\<lambda>j. obyte src (sp + j)) [0..<n]"
  have r: "obj_read src sp sz = Some (?b sp sz)" "obj_read src (sp + sz) (n * sz) = Some (?b (sp + sz) (n * sz))"
    using Suc.prems(1) by (simp_all add: obj_read_def)
  obtain out1 where w: "obj_write out dst (?b sp sz) = Some out1"
    using obj_write_exists [of dst "?b sp sz" out] Suc.prems(2) by auto
  have sz: "osize out1 = osize out" using obj_write_size [OF w] .
  have IH: "copy_elems out1 (dst + sz) src (sp + sz) n sz = obj_write out1 (dst + sz) (?b (sp + sz) (n * sz))"
    using Suc.prems sz by (intro Suc.IH) simp_all
  obtain out2 where w2: "obj_write out1 (dst + sz) (?b (sp + sz) (n * sz)) = Some out2"
    using obj_write_exists [of "dst + sz" "?b (sp + sz) (n * sz)" out1] Suc.prems(2) sz by auto
  have "?b sp (Suc n * sz) = ?b sp sz @ ?b (sp + sz) (n * sz)"
    using obj_read_append [OF r] Suc.prems(1) by (simp add: obj_read_def)
  then show ?case using obj_write_append [OF w, of "?b (sp + sz) (n * sz)" out2] w2 r(1) w IH by simp
qed

lemma copy_elems_ok:
  assumes "sp + n * sz \<le> osize src" and "dst + n * sz \<le> osize out"
  shows "\<exists>out'. copy_elems out dst src sp n sz = Some out' \<and> only_between dst (dst + n * sz) out out'"
proof -
  let ?bs = "map (\<lambda>j. obyte src (sp + j)) [0..<n * sz]"
  obtain out' where "obj_write out dst ?bs = Some out'"
    using obj_write_exists [of dst ?bs out] assms(2) by auto
  then show ?thesis
    using copy_elems_write [OF assms] obj_write_between [of out dst ?bs out' dst "dst + n * sz"] by auto
qed

lemma obj_of_bytes_size [simp]: "osize (obj_of_bytes bs) = length bs"
  by (simp add: obj_of_bytes_def)

lemma w32_small [simp]: "n < 2 ^ 32 \<Longrightarrow> w32 n = n"
  by (simp add: w32_def)

lemma sub32_small: "b \<le> a \<Longrightarrow> a < 2 ^ 32 \<Longrightarrow> sub32 a b = a - b"
  by (cases "b = 0") (simp_all add: sub32_def mod_if)

section \<open>The encoder stays within its buffer\<close>

text \<open>The state of the loop of \<open>qmi_encode\<close>: at the top level the write position is three
  bytes ahead of the count, for the header still to be written.\<close>

abbreviation hdr :: "nat \<Rightarrow> nat" where
  "hdr level \<equiv> if level = 1 then 3 else 0"

definition enc_inv :: "obj \<Rightarrow> nat \<Rightarrow> nat \<Rightarrow> nat \<Rightarrow> enc_st \<Rightarrow> bool" where
  "enc_inv out0 base lim level st \<longleftrightarrow>
     e_dst st = base + e_bytes st + hdr level \<and> e_bytes st \<le> lim \<and>
     only_between base (base + (lim - (3 - hdr level))) out0 (e_out st) \<and>
     base + lim + hdr level \<le> osize out0 + 3 \<and> lim < 2 ^ 31 \<and>
     (if level = 1
      then e_tlv st + e_tlv_len st + 3 = e_dst st \<and> base \<le> e_tlv st \<and> (e_flag st \<longrightarrow> e_bytes st + 3 \<le> lim)
      else 0 < e_bytes st \<longrightarrow> e_bytes st + 3 \<le> lim)"

lemma enc_inv_size: "enc_inv out0 base lim level st \<Longrightarrow> osize (e_out st) = osize out0"
  by (simp add: enc_inv_def only_between_def)

lemma enc_inv_dlen [simp]: "enc_inv out0 base lim level (st\<lparr>e_dlen := n\<rparr>) = enc_inv out0 base lim level st"
  by (simp add: enc_inv_def)

lemma enc_inv_flag: "enc_inv out0 base lim level st \<Longrightarrow> enc_inv out0 base lim level (st\<lparr>e_flag := False\<rparr>)"
  by (simp add: enc_inv_def)

lemma enc_inv_update:
  assumes "enc_inv out0 base lim level st" and "e_bytes st + n + 3 \<le> lim"
    and "only_between (e_dst st) (e_dst st + (lim - e_bytes st - 3)) (e_out st) out"
  shows "enc_inv out0 base lim level (enc_update st out n)"
proof -
  have st: "e_dst st = base + e_bytes st + hdr level" "only_between base (base + (lim - (3 - hdr level))) out0 (e_out st)"
    "lim < 2 ^ 31" "base + lim + hdr level \<le> osize out0 + 3"
    using assms(1) by (simp_all add: enc_inv_def)
  have "only_between base (base + (lim - (3 - hdr level))) (e_out st) out"
    using assms(2) by (rule_tac only_between_mono [OF assms(3)]) (auto simp: st(1))
  from only_between_trans [OF st(2) this] show ?thesis
    using assms(1,2) by (auto simp: enc_inv_def enc_update_def)
qed

lemma basic_elem_safe:
  assumes inv: "enc_inv out0 base lim level st" and fits: "e_bytes st + n * sz + 3 \<le> lim"
    and src: "sp + n * sz \<le> osize src"
  shows "\<exists>out. qmi_encode_basic_elem (e_out st) (e_dst st) src sp n sz = Some (n * sz, out) \<and>
    enc_inv out0 base lim level (enc_update st out (n * sz))"
proof -
  have st: "e_dst st = base + e_bytes st + hdr level" "lim < 2 ^ 31" "base + lim + hdr level \<le> osize out0 + 3"
    using inv by (simp_all add: enc_inv_def)
  then have "e_dst st + n * sz \<le> osize (e_out st)" using fits enc_inv_size [OF inv] by auto
  then obtain out where out: "copy_elems (e_out st) (e_dst st) src sp n sz = Some out"
    "only_between (e_dst st) (e_dst st + n * sz) (e_out st) out"
    using copy_elems_ok [OF src] by blast
  have "only_between (e_dst st) (e_dst st + (lim - e_bytes st - 3)) (e_out st) out"
    using fits by (rule_tac only_between_mono [OF out(2)]) auto
  then show ?thesis
    using out(1) enc_inv_update [OF inv fits] fits st(2) by (auto simp: qmi_encode_basic_elem_def)
qed

lemma close_safe:
  assumes inv: "enc_inv out0 base lim level st"
  shows "\<exists>st'. enc_close level t st = Some st' \<and> enc_inv out0 base lim level st' \<and> e_bytes st \<le> e_bytes st' \<and>
    (level = 1 \<longrightarrow> \<not> e_flag st')"
proof (cases "e_flag st \<and> level = 1")
  case False
  then show ?thesis using inv by (auto simp: enc_close_def)
next
  case True
  let ?bs = "t # le_bytes 2 (e_tlv_len st)"
  have st: "e_dst st = base + e_bytes st + 3" "e_tlv st + e_tlv_len st + 3 = e_dst st" "base \<le> e_tlv st"
    "e_bytes st + 3 \<le> lim" "lim < 2 ^ 31" "base + lim \<le> osize out0"
    "only_between base (base + lim) out0 (e_out st)"
    using inv True by (simp_all add: enc_inv_def)
  have len: "length ?bs = 3" by simp
  have "e_tlv st + length ?bs \<le> osize (e_out st)" using st enc_inv_size [OF inv] len by linarith
  then obtain out where w: "obj_write (e_out st) (e_tlv st) ?bs = Some out" using obj_write_exists by blast
  have "only_between base (base + lim) (e_out st) out"
    using obj_write_between [OF w st(3), of "base + lim"] st len by linarith
  from only_between_trans [OF st(7) this] show ?thesis
    using True w st by (auto simp: enc_close_def enc_inv_def)
qed

definition nested_safe :: "encoder \<Rightarrow> obj \<Rightarrow> (qmi_elem_info \<Rightarrow> bool) \<Rightarrow> bool" where
  "nested_safe enc src nested \<longleftrightarrow>
     (\<forall>e out dst sp lim level. nested e \<longrightarrow> sp + elem_size e \<le> osize src \<longrightarrow> dst + lim \<le> osize out + 3 \<longrightarrow>
        lim < 2 ^ 31 \<longrightarrow> 2 \<le> level \<longrightarrow>
        (\<exists>rc out'. enc (ei_array e) out dst sp lim level = Some (rc, out') \<and>
           only_between dst (dst + (lim - 3)) out out' \<and> (rc = -EINVAL \<or> 0 < rc \<and> nat rc + 3 \<le> lim)))"

lemma struct_elem_safe:
  assumes "nested_safe enc src nested" and "nested e" and "sp + n * elem_size e \<le> osize src"
    and "encoded \<le> lim" and "dst + (lim - encoded) \<le> osize out + 3" and "lim < 2 ^ 31" and "2 \<le> level"
  shows "\<exists>rc out'. qmi_encode_struct_elem enc e out dst sp n lim level encoded = Some (rc, out') \<and>
    only_between dst (dst + (lim - encoded - 3)) out out' \<and>
    (rc = -EINVAL \<or> int encoded \<le> rc \<and> (0 < n \<longrightarrow> int encoded < rc \<and> nat rc + 3 \<le> lim))"
  using assms
proof (induction n arbitrary: out dst sp encoded)
  case 0
  then show ?case by simp
next
  case (Suc n)
  have sub: "sub32 lim encoded = lim - encoded" using Suc.prems by (intro sub32_small) auto
  have small: "lim - encoded < 2 ^ 31" using Suc.prems(6) by linarith
  obtain rc out1 where r: "enc (ei_array e) out dst sp (lim - encoded) level = Some (rc, out1)"
    "only_between dst (dst + (lim - encoded - 3)) out out1" "rc = -EINVAL \<or> 0 < rc \<and> nat rc + 3 \<le> lim - encoded"
    using Suc.prems(1)[unfolded nested_safe_def, rule_format, of e sp dst "lim - encoded" out level] Suc.prems(2-7) small
    by auto
  show ?case
  proof (cases "rc < 0")
    case True
    then show ?thesis using r sub by auto
  next
    case False
    then have pos: "0 < rc" "nat rc + 3 \<le> lim - encoded" using r(3) by auto
    have sz: "osize out1 = osize out" using r(2) by (simp add: only_between_def)
    have le: "encoded + nat rc \<le> lim" using pos by linarith
    obtain rc' out2 where s: "qmi_encode_struct_elem enc e out1 (dst + nat rc) (sp + elem_size e) n lim level (encoded + nat rc)
        = Some (rc', out2)"
      "only_between (dst + nat rc) (dst + nat rc + (lim - (encoded + nat rc) - 3)) out1 out2"
      "rc' = -EINVAL \<or> int (encoded + nat rc) \<le> rc' \<and> (0 < n \<longrightarrow> int (encoded + nat rc) < rc' \<and> nat rc' + 3 \<le> lim)"
      using Suc.IH [of "sp + elem_size e" "encoded + nat rc" "dst + nat rc" out1] Suc.prems pos sz le by auto
    have "only_between dst (dst + (lim - encoded - 3)) out1 out2"
      using pos by (rule_tac only_between_mono [OF s(2)]) auto
    moreover have "n = 0 \<Longrightarrow> rc' = int (encoded + nat rc)" using s(1) by simp
    ultimately show ?thesis
      using False r(1) sub s pos only_between_trans [OF r(2)] by (cases "n = 0") auto
  qed
qed

lemma wf_elems_skip_type:
  "wf_elems nested True sz es \<Longrightarrow> t \<noteq> 0 \<Longrightarrow> \<exists>ei. skip_same_type t es = Some ei \<and> wf_elems nested True sz ei \<and> set ei \<subseteq> set es"
  by (induction t es rule: skip_same_type.induct) (auto split: if_splits)

lemma wf_elems_skip:
  assumes "wf_elems nested (level = 1) sz (e # es)" and "data_type e \<noteq> QMI_EOTI" and "1 \<le> level"
  shows "\<exists>ei. skip_to_next_elem (e # es) level = Some ei \<and> wf_elems nested (level = 1) sz ei \<and> set ei \<subseteq> set es"
proof (cases "level = 1")
  case True
  then show ?thesis
    using assms wf_elems_skip_type [of nested sz es "tlv_type e"]
    by (simp add: skip_to_next_elem_def elem_ok_def)
next
  case False
  then show ?thesis using assms by (simp add: skip_to_next_elem_def)
qed

lemma enc_count_le:
  "enc_count e dlen = Some n \<Longrightarrow> 0 < elem_len e \<Longrightarrow> 0 < n \<and> n \<le> elem_len e"
  by (auto simp: enc_count_def split: qmi_array_type.splits if_splits)

definition elem_post ::
    "obj \<Rightarrow> nat \<Rightarrow> nat \<Rightarrow> nat \<Rightarrow> (qmi_elem_info \<Rightarrow> bool) \<Rightarrow> nat \<Rightarrow> qmi_elem_info \<Rightarrow> qmi_elem_info list \<Rightarrow> enc_st \<Rightarrow> enc_next \<Rightarrow> bool" where
  "elem_post out0 base lim level nested sz e es st r \<longleftrightarrow>
     (case r of
        Ret rc out \<Rightarrow> rc = -EINVAL \<and> only_between base (base + (lim - (3 - hdr level))) out0 out
      | Go ei st' \<Rightarrow>
          enc_inv out0 base lim level st' \<and> wf_elems nested (level = 1) sz ei \<and> set ei \<subseteq> set es \<and>
          e_bytes st \<le> e_bytes st' \<and>
          (is_basic (data_type e) \<and> array_type e \<noteq> VAR_LEN_ARRAY \<and> 0 < elem_size e \<longrightarrow> 0 < e_bytes st'))"

lemma elem_post_dlen [simp]:
  "elem_post out0 base lim level nested sz e es (st\<lparr>e_dlen := n\<rparr>) r = elem_post out0 base lim level nested sz e es st r"
  by (cases r) (simp_all add: elem_post_def)

lemma enc_bytes_update [simp]: "e_bytes st + n + 3 \<le> lim \<Longrightarrow> lim < 2 ^ 31 \<Longrightarrow> e_bytes (enc_update st out n) = e_bytes st + n"
  by (simp add: enc_update_def)

text \<open>The body of the loop, by the kind of the entry.\<close>

lemma enc_inv_ret:
  "enc_inv out0 base lim level st \<Longrightarrow> elem_post out0 base lim level nested sz e es st (Ret (-EINVAL) (e_out st))"
  by (simp add: elem_post_def enc_inv_def)

lemma opt_flag_safe:
  assumes "enc_inv out0 base lim level st" and "wf_elems nested (level = 1) sz (e # es)"
    and "data_type e = QMI_OPT_FLAG" and "sb + sz \<le> osize src" and "1 \<le> level" and "enc_count e (e_dlen st) = Some n"
  shows "\<exists>r. enc_elem enc src sb lim level e es st = Some r \<and> elem_post out0 base lim level nested sz e es st r"
proof -
  have "sb + offset e + 1 \<le> osize src" using assms(2-4) by (simp add: elem_ok_def)
  then obtain bs where bs: "obj_read src (sb + offset e) 1 = Some bs" using obj_read_exists by blast
  obtain ei where ei: "skip_to_next_elem (e # es) level = Some ei" "wf_elems nested (level = 1) sz ei" "set ei \<subseteq> set es"
    using wf_elems_skip [OF assms(2)] assms(3,5) by auto
  show ?thesis
    using assms bs ei by (cases "bs = [0]") (auto simp: enc_elem_def elem_post_def)
qed

lemma data_len_safe:
  assumes inv: "enc_inv out0 base lim level st" and wf: "wf_elems nested (level = 1) sz (e # es)"
    and ty: "data_type e = QMI_DATA_LEN" and room: "sb + sz \<le> osize src" and lvl: "1 \<le> level"
  shows "\<exists>r. enc_data_len src sb lim level e es st = Some r \<and> elem_post out0 base lim level nested sz e es st r"
proof -
  have ok: "elem_size e \<le> 4" "sb + offset e + elem_size e \<le> osize src" using wf ty room by (auto simp: elem_ok_def)
  obtain bs where bs: "obj_read src (sb + offset e) (elem_size e) = Some bs" using obj_read_exists [OF ok(2)] by blast
  define v where "v = le_val (bs @ drop (elem_size e) (le_bytes 4 (e_dlen st)))"
  define k :: nat where "k = (if elem_size e = 1 then 1 else 2)"
  have st: "e_bytes st \<le> lim" "lim < 2 ^ 31" using inv by (simp_all add: enc_inv_def)
  then have w: "w32 (k + e_bytes st) = k + e_bytes st" by (simp add: k_def)
  have run: "enc_data_len src sb lim level e es st =
      (if w32 (k + e_bytes st) + 3 > lim then Some (Ret (-EINVAL) (e_out st))
       else do {
         (rc, out) \<leftarrow> qmi_encode_basic_elem (e_out st) (e_dst st) (obj_of_bytes (le_bytes 4 v)) 0 1 k;
         if v = 0 then map_option (\<lambda>ei. Go ei (enc_update (st\<lparr>e_dlen := v\<rparr>) out rc)) (skip_to_next_elem es level)
         else Some (Go es ((enc_update (st\<lparr>e_dlen := v\<rparr>) out rc)\<lparr>e_flag := False\<rparr>)) })"
    using ok(1) bs unfolding enc_data_len_def Let_def k_def [symmetric] v_def by simp
  show ?thesis
  proof (cases "k + e_bytes st + 3 > lim")
    case True
    then show ?thesis
      using run w enc_inv_ret [OF inv] by simp
  next
    case False
    have fits: "e_bytes (st\<lparr>e_dlen := v\<rparr>) + 1 * k + 3 \<le> lim" and "k \<le> 4" using False by (simp_all add: k_def)
    obtain out where out: "qmi_encode_basic_elem (e_out st) (e_dst st) (obj_of_bytes (le_bytes 4 v)) 0 1 k = Some (k, out)"
      "enc_inv out0 base lim level (enc_update (st\<lparr>e_dlen := v\<rparr>) out k)"
      using basic_elem_safe [of out0 base lim level "st\<lparr>e_dlen := v\<rparr>" 1 k 0 "obj_of_bytes (le_bytes 4 v)"] inv fits \<open>k \<le> 4\<close>
      by auto
    obtain e' es' where es: "es = e' # es'" "data_type e' \<noteq> QMI_EOTI" "wf_elems nested (level = 1) sz es"
      using wf ty by (cases es) auto
    then obtain ei where ei: "skip_to_next_elem es level = Some ei" "wf_elems nested (level = 1) sz ei" "set ei \<subseteq> set es"
      using wf_elems_skip [of nested level sz e' es'] lvl by auto
    have "e_bytes (enc_update (st\<lparr>e_dlen := v\<rparr>) out k) = e_bytes st + k"
      using st fits by (simp add: enc_update_def)
    then show ?thesis
      using run w False out ei es(3) ty enc_inv_flag [OF out(2)]
      by (cases "v = 0") (auto simp: elem_post_def)
  qed
qed

lemma struct_safe:
  assumes inv: "enc_inv out0 base lim level st" and wf: "wf_elems nested (level = 1) sz (e # es)"
    and ty: "data_type e = QMI_STRUCT" and room: "sb + sz \<le> osize src" and lvl: "1 \<le> level"
    and enc: "nested_safe enc src nested" and n: "enc_count e (e_dlen st) = Some n"
  shows "\<exists>r. enc_elem enc src sb lim level e es st = Some r \<and> elem_post out0 base lim level nested sz e es st r"
proof -
  have ok: "nested e" "0 < elem_len e" "offset e + elem_len e * elem_size e \<le> sz" "wf_elems nested (level = 1) sz es"
    using wf ty by (auto simp: elem_ok_def)
  have n': "0 < n" "n \<le> elem_len e" using enc_count_le [OF n ok(2)] by auto
  have src: "sb + offset e + n * elem_size e \<le> osize src"
    using mult_le_mono1 [OF n'(2), of "elem_size e"] ok(3) room by linarith
  have st: "e_bytes st \<le> lim" "lim < 2 ^ 31" "e_dst st = base + e_bytes st + hdr level"
    "base + lim + hdr level \<le> osize out0 + 3" using inv by (simp_all add: enc_inv_def)
  have sub: "sub32 lim (e_bytes st) = lim - e_bytes st" using st by (intro sub32_small) auto
  have pre: "e_dst st + (lim - e_bytes st - 0) \<le> osize (e_out st) + 3" "lim - e_bytes st < 2 ^ 31" "2 \<le> level + 1"
    using st lvl enc_inv_size [OF inv] by auto
  obtain rc out where r: "qmi_encode_struct_elem enc e (e_out st) (e_dst st) (sb + offset e) n (lim - e_bytes st) (level + 1) 0
      = Some (rc, out)" "only_between (e_dst st) (e_dst st + (lim - e_bytes st - 0 - 3)) (e_out st) out"
    "rc = -EINVAL \<or> 0 < rc \<and> nat rc + 3 \<le> lim - e_bytes st"
    using struct_elem_safe [OF enc ok(1) src _ pre] n' by auto
  have run: "enc_elem enc src sb lim level e es st = Some (enc_result es (st\<lparr>e_dlen := n\<rparr>) (rc, out))"
    using n ty r(1) sub by (simp add: enc_elem_def)
  show ?thesis
  proof (cases "rc < 0")
    case True
    have b: "only_between base (base + (lim - (3 - hdr level))) (e_out st) out"
      using st by (rule_tac only_between_mono' [OF r(2)]) auto
    have "only_between base (base + (lim - (3 - hdr level))) out0 (e_out st)"
      using inv by (simp add: enc_inv_def)
    from only_between_trans [OF this b] show ?thesis
      using run True r(3) by (auto simp: enc_result_def elem_post_def)
  next
    case False
    then have fit: "e_bytes (st\<lparr>e_dlen := n\<rparr>) + nat rc + 3 \<le> lim" using r(3) st(1) by auto
    have "enc_inv out0 base lim level (enc_update (st\<lparr>e_dlen := n\<rparr>) out (nat rc))"
      using enc_inv_update [of out0 base lim level "st\<lparr>e_dlen := n\<rparr>" "nat rc" out] inv fit r(2) by simp
    then show ?thesis
      using run False ok(4) ty enc_bytes_update [OF fit st(2)] by (auto simp: enc_result_def elem_post_def)
  qed
qed

lemma string_safe:
  assumes inv: "enc_inv out0 base lim level st" and wf: "wf_elems nested (level = 1) sz (e # es)"
    and ty: "data_type e = QMI_STRING" and len: "obj_strlen src (sb + offset e) = Some len"
    and n: "enc_count e (e_dlen st) = Some n" and src: "sb + offset e + len \<le> osize src"
  shows "\<exists>r. enc_elem enc src sb lim level e es st = Some r \<and> elem_post out0 base lim level nested sz e es st r"
proof -
  have ok: "level = 1" "elem_size e = 1" "elem_len e < 2 ^ 31" "wf_elems nested (level = 1) sz es"
    using wf ty by (auto simp: elem_ok_def)
  have st: "e_bytes st \<le> lim" "lim < 2 ^ 31" using inv by (simp_all add: enc_inv_def)
  have sub: "sub32 lim (e_bytes st) = lim - e_bytes st" using st by (intro sub32_small) auto
  let ?st = "st\<lparr>e_dlen := n\<rparr>"
  have le: "w32 len \<le> len" by (simp add: w32_def)
  show ?thesis
  proof (cases "w32 len > elem_len e \<or> w32 len + 3 > lim - e_bytes st")
    case True
    then have "enc_elem enc src sb lim level e es st = Some (Ret (-EINVAL) (e_out st))"
      using n ty ok(1) len sub by (auto simp: enc_elem_def qmi_encode_string_elem_def enc_result_def Let_def)
    then show ?thesis using enc_inv_ret [OF inv] by simp
  next
    case False
    then have fits: "e_bytes ?st + w32 len * 1 + 3 \<le> lim" using st(1) by auto
    obtain out where out: "qmi_encode_basic_elem (e_out st) (e_dst st) src (sb + offset e) (w32 len) 1 = Some (w32 len, out)"
      "enc_inv out0 base lim level (enc_update ?st out (w32 len))"
      using basic_elem_safe [of out0 base lim level ?st "w32 len" 1 "sb + offset e" src] inv fits src le by auto
    have "enc_elem enc src sb lim level e es st = Some (Go es (enc_update ?st out (w32 len)))"
      using n ty ok(1,2) len sub False out(1)
      by (auto simp: enc_elem_def qmi_encode_string_elem_def enc_result_def Let_def)
    then show ?thesis
      using out(2) ok(4) ty enc_bytes_update [of ?st "w32 len" lim out] fits st(2) by (auto simp: elem_post_def)
  qed
qed

lemma basic_safe:
  assumes inv: "enc_inv out0 base lim level st" and wf: "wf_elems nested (level = 1) sz (e # es)"
    and ty: "is_basic (data_type e)" and room: "sb + sz \<le> osize src" and n: "enc_count e (e_dlen st) = Some n"
  shows "\<exists>r. enc_elem enc src sb lim level e es st = Some r \<and> elem_post out0 base lim level nested sz e es st r"
proof -
  have nt: "data_type e \<noteq> QMI_EOTI" "data_type e \<noteq> QMI_OPT_FLAG" "data_type e \<noteq> QMI_DATA_LEN"
    "data_type e \<noteq> QMI_STRING" "data_type e \<noteq> QMI_STRUCT" using ty by auto
  then have ok: "0 < elem_len e" "offset e + elem_len e * elem_size e \<le> sz" "elem_len e * elem_size e < 2 ^ 31"
    "wf_elems nested (level = 1) sz es" using wf by (auto simp: elem_ok_def)
  have n': "0 < n" "n \<le> elem_len e" using enc_count_le [OF n ok(1)] by auto
  have le: "n * elem_size e \<le> elem_len e * elem_size e" using n'(2) by (rule mult_le_mono1)
  have st: "e_bytes st \<le> lim" "lim < 2 ^ 31" using inv by (simp_all add: enc_inv_def)
  have "n * elem_size e < 2 ^ 31" using le ok(3) by linarith
  then have w: "w32 (w32 (n * elem_size e) + e_bytes st) = n * elem_size e + e_bytes st"
    using st by simp
  let ?st = "st\<lparr>e_dlen := n\<rparr>"
  have run: "enc_elem enc src sb lim level e es st =
      (if n * elem_size e + e_bytes st + 3 > lim then Some (Ret (-EINVAL) (e_out st))
       else map_option (\<lambda>(rc, out). Go es (enc_update ?st out rc))
         (qmi_encode_basic_elem (e_out st) (e_dst st) src (sb + offset e) n (elem_size e)))"
    using n ty w by (cases "data_type e") (simp_all add: enc_elem_def Let_def)
  show ?thesis
  proof (cases "n * elem_size e + e_bytes st + 3 > lim")
    case True
    then show ?thesis using run enc_inv_ret [OF inv] by simp
  next
    case False
    then have fits: "e_bytes ?st + n * elem_size e + 3 \<le> lim" by simp
    obtain out where out: "qmi_encode_basic_elem (e_out st) (e_dst st) src (sb + offset e) n (elem_size e)
        = Some (n * elem_size e, out)" "enc_inv out0 base lim level (enc_update ?st out (n * elem_size e))"
      using basic_elem_safe [of out0 base lim level ?st n "elem_size e" "sb + offset e" src] inv fits le ok(2) room
      by auto
    then show ?thesis
      using run False ok(4) n' enc_bytes_update [OF fits st(2), of out] by (auto simp: elem_post_def)
  qed
qed

lemma strlen_within: "obj_strlen ob i = Some n \<Longrightarrow> i + n < osize ob"
proof (induction ob i arbitrary: n rule: obj_strlen.induct)
  case (1 ob i)
  show ?case
  proof (cases "osize ob \<le> i \<or> obyte ob i = 0")
    case True
    then show ?thesis using "1.prems" by (auto simp: obj_strlen.simps [of ob i] split: if_splits)
  next
    case False
    then obtain k where "obj_strlen ob (Suc i) = Some k" "n = Suc k"
      using "1.prems" by (auto simp: obj_strlen.simps [of ob i])
    then show ?thesis using "1.IH" False by auto
  qed
qed

lemma enc_elem_safe:
  assumes inv: "enc_inv out0 base lim level st" and wf: "wf_elems nested (level = 1) sz (e # es)"
    and ty: "data_type e \<noteq> QMI_EOTI" and room: "sb + sz \<le> osize src" and lvl: "1 \<le> level"
    and enc: "nested_safe enc src nested" and str: "level = 1 \<longrightarrow> strings_ok src sb (e # es)"
  shows "\<exists>r. enc_elem enc src sb lim level e es st = Some r \<and> elem_post out0 base lim level nested sz e es st r"
proof (cases "enc_count e (e_dlen st)")
  case None
  then show ?thesis using enc_inv_ret [OF inv] by (simp add: enc_elem_def)
next
  case (Some n)
  consider "data_type e = QMI_OPT_FLAG" | "data_type e = QMI_DATA_LEN" | "data_type e = QMI_STRUCT"
    | "data_type e = QMI_STRING" | "is_basic (data_type e)" using ty by (cases "data_type e") auto
  then show ?thesis
  proof cases
    case 1
    then show ?thesis using opt_flag_safe [OF inv wf _ room lvl Some] by blast
  next
    case 2
    have "enc_elem enc src sb lim level e es st = enc_data_len src sb lim level e es (st\<lparr>e_dlen := n\<rparr>)"
      using 2 Some by (simp add: enc_elem_def)
    then show ?thesis
      using data_len_safe [of out0 base lim level "st\<lparr>e_dlen := n\<rparr>" nested sz e es sb src] inv wf 2 room lvl
      by auto
  next
    case 3
    then show ?thesis using struct_safe [OF inv wf _ room lvl enc Some] by blast
  next
    case 4
    then have "level = 1" using wf by (auto simp: elem_ok_def)
    then obtain len where len: "obj_strlen src (sb + offset e) = Some len"
      using str 4 by (auto simp: strings_ok_def)
    then have "sb + offset e + len \<le> osize src" using strlen_within [OF len] by simp
    then show ?thesis using string_safe [OF inv wf 4 len Some] by blast
  next
    case 5
    then show ?thesis using basic_safe [OF inv wf _ room Some] by blast
  qed
qed

text \<open>The whole loop: it returns \<open>-EINVAL\<close> or a count that fits, and writes within the space
  it was given.\<close>

lemma enc_loop_safe:
  assumes "enc_inv out0 base lim level st" and "wf_elems nested (level = 1) sz ei"
    and "sb + sz \<le> osize src" and "1 \<le> level" and "nested_safe enc src nested"
    and "level = 1 \<longrightarrow> strings_ok src sb ei"
  shows "\<exists>rc out. enc_loop enc src sb lim level ei st = Some (rc, out) \<and>
    only_between base (base + (lim - (3 - hdr level))) out0 out \<and>
    (rc = -EINVAL \<or> int (e_bytes st) \<le> rc \<and> (starts_basic ei \<longrightarrow> 0 < rc) \<and>
       nat rc \<le> lim \<and> (level \<noteq> 1 \<and> 0 < rc \<longrightarrow> nat rc + 3 \<le> lim))"
  using assms
proof (induction "length ei" arbitrary: ei st rule: less_induct)
  case less
  obtain e es where ei: "ei = e # es" using less.prems(2) by (cases ei) auto
  show ?case
  proof (cases "data_type e = QMI_EOTI")
    case True
    then show ?thesis using less.prems(1) by (auto simp: ei enc_inv_def starts_basic_def)
  next
    case False
    obtain r where r: "enc_elem enc src sb lim level e es st = Some r" "elem_post out0 base lim level nested sz e es st r"
      using enc_elem_safe [OF less.prems(1) _ False less.prems(3-5)] less.prems(2,6) ei by blast
    show ?thesis
    proof (cases r)
      case (Ret rc out)
      then show ?thesis using r False by (simp add: ei elem_post_def)
    next
      case (Go ei1 st1)
      have g: "enc_inv out0 base lim level st1" "wf_elems nested (level = 1) sz ei1" "set ei1 \<subseteq> set es"
        "e_bytes st \<le> e_bytes st1" "starts_basic ei \<longrightarrow> 0 < e_bytes st1"
        using r(2) Go by (auto simp: elem_post_def starts_basic_def ei)
      have len: "length ei1 < length ei" using enc_elem_length r(1) Go ei by fastforce
      obtain st2 where c: "enc_close level (tlv_type e) st1 = Some st2" "enc_inv out0 base lim level st2"
        "e_bytes st1 \<le> e_bytes st2"
        using close_safe [OF g(1), of "tlv_type e"] by blast
      have "level = 1 \<longrightarrow> strings_ok src sb ei1" using less.prems(6) g(3) ei by (auto simp: strings_ok_def)
      then obtain rc out where l: "enc_loop enc src sb lim level ei1 st2 = Some (rc, out)"
        "only_between base (base + (lim - (3 - hdr level))) out0 out"
        "rc = -EINVAL \<or> int (e_bytes st2) \<le> rc \<and> nat rc \<le> lim \<and> (level \<noteq> 1 \<and> 0 < rc \<longrightarrow> nat rc + 3 \<le> lim)"
        using less.hyps [OF len c(2) g(2) less.prems(3-5)] by blast
      have run: "enc_loop enc src sb lim level ei st = Some (rc, out)" using False r(1) Go c(1) l(1) by (simp add: ei)
      show ?thesis using run l(2,3) g(4,5) c(3) by auto
    qed
  qed
qed

lemma enc_init_inv:
  assumes "dst + lim + hdr level \<le> osize out + 3" and "lim < 2 ^ 31"
  shows "enc_inv out dst lim level
    \<lparr>e_out = out, e_dst = (if level = 1 then dst + 3 else dst), e_tlv = dst, e_tlv_len = 0,
     e_bytes = 0, e_dlen = 0, e_flag = False\<rparr>"
  using assms by (simp add: enc_inv_def)

lemma nested_encode_safe: "nested_safe (qmi_encode_n d src) src (wf_nested d)"
proof (induction d)
  case 0
  then show ?case by (simp add: nested_safe_def)
next
  case (Suc d)
  show ?case
    unfolding nested_safe_def
  proof (intro allI impI)
    fix e dst sp lim level and out :: obj
    assume a: "wf_nested (Suc d) e" "sp + elem_size e \<le> osize src" "dst + lim \<le> osize out + 3"
      "lim < (2 :: nat) ^ 31" "2 \<le> (level :: nat)"
    obtain es where es: "ei_array e = Some es" "starts_basic es" "wf_elems (wf_nested d) False (elem_size e) es"
      using a(1) by (auto split: option.splits)
    have l: "(level = 1) = False" "1 \<le> level" using a(5) by auto
    let ?st = "\<lparr>e_out = out, e_dst = (if level = 1 then dst + 3 else dst), e_tlv = dst, e_tlv_len = 0,
     e_bytes = 0, e_dlen = 0, e_flag = False\<rparr>"
    have "enc_inv out dst lim level ?st" using a l by (intro enc_init_inv) auto
    from enc_loop_safe [OF this, of "wf_nested d" "elem_size e" es sp src "qmi_encode_n d src"]
    show "\<exists>rc out'. qmi_encode_n (Suc d) src (ei_array e) out dst sp lim level = Some (rc, out') \<and>
        only_between dst (dst + (lim - 3)) out out' \<and> (rc = -EINVAL \<or> 0 < rc \<and> nat rc + 3 \<le> lim)"
      using es a l Suc by auto
  qed
qed

lemma qmi_encode_top_safe:
  assumes "wf_table sz es" and "sb + sz \<le> osize src" and "strings_ok src sb es"
    and "dst + lim \<le> osize out" and "lim < 2 ^ 31"
  shows "\<exists>rc out'. qmi_encode src (Some es) out dst sb lim 1 = Some (rc, out') \<and>
    only_between dst (dst + lim) out out' \<and> (rc = -EINVAL \<or> 0 \<le> rc \<and> nat rc \<le> lim)"
proof -
  define d where "d = depth (Some es) - 1"
  have d: "depth (Some es) = Suc d" by (simp add: d_def depth_def)
  let ?st = "\<lparr>e_out = out, e_dst = dst + 3, e_tlv = dst, e_tlv_len = 0,
     e_bytes = 0, e_dlen = 0, e_flag = False\<rparr>"
  have i: "enc_inv out dst lim 1 ?st" using assms(4,5) by (simp add: enc_inv_def)
  have "wf_elems (wf_nested d) (1 = 1) sz es" using assms(1) by (simp add: wf_table_def d_def)
  from enc_loop_safe [OF i this assms(2) _ nested_encode_safe [of d src]] assms(3)
  show ?thesis by (auto simp: qmi_encode_def d)
qed

section \<open>Properties\<close>

lemma length_qmi_header [simp]: "length (qmi_header type txn_id msg_id msg_len) = 7"
  by (simp add: qmi_header_def)

lemma qmi_header_fields:
  assumes "obj_read data 0 7 = Some (qmi_header type txn_id msg_id msg_len)"
  shows "obj_read data 5 2 = Some (le_bytes 2 msg_len)" and "obj_read data 3 2 = Some (le_bytes 2 msg_id)"
    and "obj_read data 1 2 = Some (le_bytes 2 txn_id)" and "obj_read data 0 1 = Some (le_bytes 1 type)"
  using obj_read_sub [OF assms, of 5 2] obj_read_sub [OF assms, of 3 2] obj_read_sub [OF assms, of 1 2]
    obj_read_sub [OF assms, of 0 1]
  by (simp_all add: qmi_header_def)

lemma encode_message_safe:
  assumes "wf_table sz es" and "sz \<le> osize src" and "strings_ok src 0 es"
    and "data_len \<le> osize data" and "data_len < 65536 + 7" and "msg_id < 65536"
  shows "\<exists>rc data' len'. qmi_encode_message data data_len type msg_id txn_id (Some src) (Some es) = Some (rc, data', len') \<and>
    only_between 0 data_len data data' \<and>
    (data_len < 7 \<and> rc = -EMSGSIZE \<or> 7 \<le> data_len \<and> rc = -EINVAL \<or>
     7 \<le> rc \<and> nat rc \<le> data_len \<and> len' = nat rc \<and> qmi_decode_header data' len' = Some (0, Some msg_id))"
proof (cases "data_len < 7")
  case True
  then show ?thesis by (simp add: qmi_encode_message_def)
next
  case False
  have w: "w32 (data_len - 7) = data_len - 7" using assms(5) by simp
  have fit: "7 + (data_len - 7) \<le> osize data" "data_len - 7 < 2 ^ 31" using assms(4,5) False by auto
  obtain rc d1 where e: "qmi_encode src (Some es) data 7 0 (data_len - 7) 1 = Some (rc, d1)"
    "only_between 7 (7 + (data_len - 7)) data d1" "rc = -EINVAL \<or> 0 \<le> rc \<and> nat rc \<le> data_len - 7"
    using qmi_encode_top_safe [OF assms(1) _ assms(3) fit] assms(2) by auto
  have b1: "only_between 0 data_len data d1" using False by (intro only_between_mono [OF e(2)]) auto
  show ?thesis
  proof (cases "rc < 0")
    case True
    then show ?thesis using False w e b1 by (auto simp: qmi_encode_message_def)
  next
    case pos: False
    let ?h = "qmi_header type txn_id msg_id (nat rc)"
    have sz: "osize d1 = osize data" using b1 by (simp add: only_between_def)
    obtain d2 where d2: "obj_write d1 0 ?h = Some d2" using obj_write_exists [of 0 ?h d1] sz assms(4) False by auto
    have b2: "only_between 0 data_len d1 d2" using obj_write_between [OF d2] False by simp
    have run: "qmi_encode_message data data_len type msg_id txn_id (Some src) (Some es) = Some (7 + rc, d2, 7 + nat rc)"
      using False w e(1) pos d2 by (simp add: qmi_encode_message_def)
    have small: "nat rc < 65536" using e(3) pos assms(5) False by auto
    have "obj_read d2 0 7 = Some ?h" using obj_read_write_same [OF d2] by simp
    then have "qmi_decode_header d2 (7 + nat rc) = Some (0, Some msg_id)"
      using qmi_header_fields small assms(6) by (simp add: qmi_decode_header_def le_val_le_bytes)
    then show ?thesis
      using run only_between_trans [OF b1 b2] pos e(3) False by (auto simp: nat_add_distrib)
  qed
qed

text \<open>C2: encoding a message does not write outside the packet, for the tables that have no strings in
  nested structures (for others it does, see \<open>nested_string_overrun\<close>). For every such table that
  describes the structure within its size, any content of the structure in which the strings of the table are
  terminated, any buffer and any \<open>data_len\<close> up to its size and below 65543, \<open>qmi_encode_message\<close>
  returns; it changes nothing beyond \<open>data_len\<close>; it fails with \<open>-EMSGSIZE\<close> or \<open>-EINVAL\<close>, or
  returns the new length of the packet, at most the old one, and then \<open>qmi_decode_header\<close>
  accepts the packet and reports the message id.\<close>

theorem qmi_encode_message_safe:
  assumes "wf_table sz es" and "sz \<le> osize src" and "strings_ok src 0 es"
    and "data_len \<le> osize data" and "data_len < 65536 + 7" and "msg_id < 65536"
  shows "\<exists>rc data' len'. qmi_encode_message data data_len type msg_id txn_id (Some src) (Some es) = Some (rc, data', len') \<and>
    only_between 0 data_len data data' \<and>
    (data_len < 7 \<and> rc = -EMSGSIZE \<or> 7 \<le> data_len \<and> rc = -EINVAL \<or>
     7 \<le> rc \<and> nat rc \<le> data_len \<and> len' = nat rc \<and> qmi_decode_header data' len' = Some (0, Some msg_id))"
  by (rule encode_message_safe [OF assms])

definition caller_id_ei :: "qmi_elem_info list" where
  "caller_id_ei = [Elem QMI_UNSIGNED_4_BYTE 1 4 NO_ARRAY 1 0 None, eoti]"

theorem qmi_encode_message_safe_witness:
  "\<exists>rc data' len'. qmi_encode_message (obj_zero 256) 256 0 2 77 (Some (obj_zero 4)) (Some caller_id_ei) = Some (rc, data', len') \<and>
    only_between 0 256 (obj_zero 256) data'"
proof -
  have "wf_table 4 caller_id_ei" by code_simp
  moreover have "strings_ok (obj_zero 4) 0 caller_id_ei" by (simp add: strings_ok_def caller_id_ei_def eoti_def)
  ultimately show ?thesis
    using qmi_encode_message_safe [of 4 caller_id_ei "obj_zero 4" 256 "obj_zero 256" 2 0 77]
    by (auto simp: obj_zero_def)
qed

text \<open>Decoding a string of the maximum length writes one byte too many. A string entry at
  the top level whose field ends the structure (or any object) and is \<open>elem_len\<close> bytes long
  is overrun by the terminating zero when the element in the message has exactly
  \<open>elem_len\<close> bytes, which the length check lets through.\<close>

lemma decode_string_overrun:
  assumes "osize out = dp + elem_len e" and "tlv_len = elem_len e"
  shows "qmi_decode_string_elem e out dp msg sp tlv_len 1 = None"
proof -
  have size: "osize out' = osize ob" if "copy_elems ob dst src i n sz = Some out'" for ob dst src i n sz out'
    using that
  proof (induction n arbitrary: ob dst i)
    case 0
    then show ?case by simp
  next
    case (Suc n)
    then show ?case by (auto dest!: obj_write_size split: Option.bind_splits)
  qed
  show ?thesis
    using assms
    by (auto simp: qmi_decode_string_elem_def qmi_decode_basic_elem_def obj_write_def dest!: size split: Option.bind_splits)
qed

end
