(* ===== verification/QmiDecode.thy ===== *)
theory QmiDecode
  imports Qmi
begin

text \<open>
  The decoder of \<^verbatim>\<open>qcom/qrtr/lib/qmi.c\<close> on arbitrary messages: for which tables and buffers it
  stays inside the structure it fills and inside the buffer it reads.

  \<open>qmi_decode\<close> does not compare the length of an element with what is left of the message. How
  far it can read past the end is bounded by the table: \<open>total_reads\<close>.
\<close>

section \<open>Tables the decoder is safe for\<close>

text \<open>How many bytes of the message an entry can make the decoder read; \<open>T e\<close> is the number
  for one structure of a struct entry.\<close>

definition elem_reads :: "(qmi_elem_info \<Rightarrow> nat) \<Rightarrow> qmi_elem_info \<Rightarrow> nat" where
  "elem_reads T e =
     (case data_type e of
        QMI_EOTI \<Rightarrow> 0
      | QMI_OPT_FLAG \<Rightarrow> 0
      | QMI_DATA_LEN \<Rightarrow> 2
      | QMI_STRING \<Rightarrow> 2 + elem_len e
      | QMI_STRUCT \<Rightarrow> elem_len e * T e
      | _ \<Rightarrow> elem_len e * elem_size e)"

definition total_reads :: "(qmi_elem_info \<Rightarrow> nat) \<Rightarrow> qmi_elem_info list \<Rightarrow> nat" where
  "total_reads T es = sum_list (map (elem_reads T) es)"

fun nested_reads :: "nat \<Rightarrow> qmi_elem_info \<Rightarrow> nat" where
  "nested_reads 0 e = 0"
| "nested_reads (Suc d) e = (case ei_array e of None \<Rightarrow> 0 | Some es \<Rightarrow> total_reads (nested_reads d) es)"

definition table_reads :: "qmi_elem_info list \<Rightarrow> nat" where
  "table_reads es = total_reads (nested_reads (depth (Some es) - 1)) es"

text \<open>An entry fits a structure of \<open>sz\<close> bytes. A string needs room for its terminating zero.\<close>

definition dec_ok :: "(qmi_elem_info \<Rightarrow> bool) \<Rightarrow> nat \<Rightarrow> qmi_elem_info \<Rightarrow> bool" where
  "dec_ok nested sz e \<longleftrightarrow>
     (if data_type e = QMI_OPT_FLAG then offset e + 1 \<le> sz
      else if data_type e = QMI_DATA_LEN then offset e + 4 \<le> sz
      else if data_type e = QMI_STRING then elem_size e = 1 \<and> offset e + elem_len e + 1 \<le> sz
      else 0 < elem_len e \<and> offset e + elem_len e * elem_size e \<le> sz \<and>
        (data_type e = QMI_STRUCT \<longrightarrow> nested e))"

fun dec_elems_ok :: "(qmi_elem_info \<Rightarrow> bool) \<Rightarrow> nat \<Rightarrow> qmi_elem_info list \<Rightarrow> bool" where
  "dec_elems_ok nested sz [] = False"
| "dec_elems_ok nested sz (e # es) =
     (if data_type e = QMI_EOTI then True else dec_ok nested sz e \<and> dec_elems_ok nested sz es)"

fun dec_nested_ok :: "nat \<Rightarrow> qmi_elem_info \<Rightarrow> bool" where
  "dec_nested_ok 0 e = False"
| "dec_nested_ok (Suc d) e =
     (case ei_array e of
        None \<Rightarrow> False
      | Some es \<Rightarrow> dec_elems_ok (dec_nested_ok d) (elem_size e) es)"

definition dec_table :: "nat \<Rightarrow> qmi_elem_info list \<Rightarrow> bool" where
  "dec_table sz es \<longleftrightarrow> dec_elems_ok (dec_nested_ok (depth (Some es) - 1)) sz es"

lemma total_reads_Cons [simp]: "total_reads T (e # es) = elem_reads T e + total_reads T es"
  by (simp add: total_reads_def)

lemma dec_count_le: "dec_count e dlen = Some n \<Longrightarrow> 0 < elem_len e \<Longrightarrow> n \<le> elem_len e"
  by (auto simp: dec_count_def split: qmi_array_type.splits if_splits)

section \<open>One element\<close>

text \<open>What the decoder for the next level must do.\<close>

definition nested_dec_safe ::
    "decoder \<Rightarrow> obj \<Rightarrow> (qmi_elem_info \<Rightarrow> bool) \<Rightarrow> (qmi_elem_info \<Rightarrow> nat) \<Rightarrow> bool" where
  "nested_dec_safe dec msg nested T \<longleftrightarrow>
     (\<forall>e out dp sp lim level.
        nested e \<and> dp + elem_size e \<le> osize out \<and> sp + T e \<le> osize msg \<and> 2 \<le> level \<longrightarrow>
        (\<exists>rc out'. dec (ei_array e) out dp sp lim level = Some (rc, out') \<and> osize out' = osize out \<and>
           (0 \<le> rc \<longrightarrow> nat rc \<le> T e)))"

lemma dec_struct_loop_safe:
  assumes "nested_dec_safe dec msg nested T" and "nested e" and "2 \<le> level"
    and "dp + n * elem_size e \<le> osize out" and "sp + n * T e \<le> osize msg"
  shows "\<exists>rc left out'. dec_struct_loop dec e out dp sp n tlv_len level decoded = Some (rc, left, out') \<and>
    osize out' = osize out \<and> (0 \<le> rc \<longrightarrow> nat rc \<le> decoded + n * T e)"
  using assms(4,5)
proof (induction n arbitrary: out dp sp decoded)
  case 0
  then show ?case by simp
next
  case (Suc n)
  show ?case
  proof (cases "decoded < tlv_len")
    case False
    then show ?thesis by simp
  next
    case True
    obtain rc out1 where r: "dec (ei_array e) out dp sp (sub32 tlv_len decoded) level = Some (rc, out1)"
      "osize out1 = osize out" "0 \<le> rc \<longrightarrow> nat rc \<le> T e"
      using assms(1)[unfolded nested_dec_safe_def, rule_format, of e dp out sp level "sub32 tlv_len decoded"]
        assms(2,3) Suc.prems by auto
    show ?thesis
    proof (cases "rc < 0")
      case neg: True
      then show ?thesis using True r by simp
    next
      case False
      have "dp + elem_size e + n * elem_size e \<le> osize out1" "sp + nat rc + n * T e \<le> osize msg"
        using Suc.prems r False by auto
      from Suc.IH [OF this, of "decoded + nat rc"] show ?thesis using True False r by fastforce
    qed
  qed
qed

lemma decode_struct_safe:
  assumes "nested_dec_safe dec msg nested T" and "nested e" and "2 \<le> level"
    and "dp + n * elem_size e \<le> osize out" and "sp + n * T e \<le> osize msg"
  shows "\<exists>rc out'. qmi_decode_struct_elem dec e out dp sp n tlv_len level = Some (rc, out') \<and>
    osize out' = osize out \<and> (0 \<le> rc \<longrightarrow> nat rc \<le> n * T e)"
  using dec_struct_loop_safe [OF assms, of tlv_len 0] by (fastforce simp: qmi_decode_struct_elem_def)

lemma decode_basic_safe:
  assumes "dp + n * sz \<le> osize out" and "sp + n * sz \<le> osize msg" and "osize msg < 2 ^ 31"
  shows "\<exists>out'. qmi_decode_basic_elem out dp msg sp n sz = Some (n * sz, out') \<and> osize out' = osize out"
  using copy_elems_ok [OF assms(2,1)] assms by (auto simp: qmi_decode_basic_elem_def only_between_def)

lemma decode_string_safe:
  assumes "elem_size e = 1" and "dp + elem_len e + 1 \<le> osize out" and "sp + (2 + elem_len e) \<le> osize msg"
    and "osize msg < 2 ^ 31"
  shows "\<exists>rc out'. qmi_decode_string_elem e out dp msg sp tlv_len level = Some (rc, out') \<and>
    osize out' = osize out \<and> (0 \<le> rc \<longrightarrow> nat rc \<le> 2 + elem_len e)"
proof -
  let ?sz = "if elem_len e \<le> 256 then 1 else 2 :: nat"
  obtain bs where bs: "obj_read msg sp ?sz = Some bs" using obj_read_exists [of sp ?sz msg] assms(3) by (cases "elem_len e \<le> 256") auto
  define k where "k = (if level = 1 then 0 else ?sz)"
  define n where "n = (if level = 1 then tlv_len else le_val bs)"
  have k: "k \<le> 2" by (simp add: k_def)
  have eq: "qmi_decode_string_elem e out dp msg sp tlv_len level =
    (if n > elem_len e then Some (-EINVAL, out)
     else if n > tlv_len then Some (-EFAULT, out)
     else do {
       (rc, out1) \<leftarrow> qmi_decode_basic_elem out dp msg (sp + k) n (elem_size e);
       out2 \<leftarrow> obj_write out1 (dp + n) [0];
       Some (int (k + rc), out2) })"
    using bs by (auto simp: qmi_decode_string_elem_def k_def n_def Let_def)
  show ?thesis
  proof (cases "n > elem_len e \<or> n > tlv_len")
    case True
    then show ?thesis by (auto simp: eq)
  next
    case False
    obtain out1 where o1: "qmi_decode_basic_elem out dp msg (sp + k) n 1 = Some (n, out1)" "osize out1 = osize out"
      using decode_basic_safe [of dp n 1 out "sp + k" msg] False assms k by auto
    obtain out2 where o2: "obj_write out1 (dp + n) [0] = Some out2"
      using obj_write_exists [of "dp + n" "[0]" out1] False assms(2) o1(2) by auto
    show ?thesis using False o1 o2 obj_write_size [OF o2] assms(1) k by (auto simp: eq nat_int_add)
  qed
qed

text \<open>The next state after an entry: the decoder has moved on by at most what the entries up
  to there allow.\<close>

definition next_ok ::
    "(qmi_elem_info \<Rightarrow> bool) \<Rightarrow> (qmi_elem_info \<Rightarrow> nat) \<Rightarrow> nat \<Rightarrow> qmi_elem_info list \<Rightarrow> dec_st \<Rightarrow> dec_next \<Rightarrow> bool" where
  "next_ok nested T sz cur st nx \<longleftrightarrow>
     (case nx of
        DRet rc out \<Rightarrow> rc < 0 \<and> osize out = osize (d_out st)
      | DGo cur' st' \<Rightarrow>
          dec_elems_ok nested sz cur' \<and> length cur' < length cur \<and> osize (d_out st') = osize (d_out st) \<and>
          (\<exists>k. d_src st' = d_src st + k \<and> d_bytes st' = w32 (d_bytes st + k) \<and>
             k + total_reads T cur' \<le> total_reads T cur))"

lemma dec_result_ok:
  assumes "dec_elems_ok nested sz es" and "osize out = osize (d_out st)" and "0 \<le> rc \<longrightarrow> nat rc \<le> elem_reads T e"
  shows "next_ok nested T sz (e # es) st (dec_result es (st\<lparr>d_dlen := n\<rparr>) (rc, out))"
  using assms by (auto simp: dec_result_def next_ok_def dec_update_def)

lemma dec_value_safe:
  assumes dec: "nested_dec_safe dec msg nested T" and ok: "dec_elems_ok nested sz (e # es)"
    and room: "base + sz \<le> osize (d_out st)" and src: "d_src st + elem_reads T e \<le> osize msg"
    and small: "osize msg < 2 ^ 31" and level: "1 \<le> level"
  shows "\<exists>nx. dec_value dec msg base tlv_len level (e # es) st = Some nx \<and> next_ok nested T sz (e # es) st nx"
proof (cases "dec_count e (d_dlen st)")
  case None
  then show ?thesis by (simp add: dec_value_def next_ok_def)
next
  case (Some n)
  note run = dec_value_def [of dec msg base tlv_len level "e # es" st]
  have rest: "dec_elems_ok nested sz es" if "data_type e \<noteq> QMI_EOTI" using ok that by simp
  consider (ret) "data_type e = QMI_EOTI \<or> data_type e = QMI_OPT_FLAG \<or> data_type e = QMI_DATA_LEN"
    | (struct) "data_type e = QMI_STRUCT" | (str) "data_type e = QMI_STRING" | (basic) "is_basic (data_type e)"
    by (cases "data_type e") auto
  then show ?thesis
  proof cases
    case ret
    then show ?thesis using Some by (auto simp: run Let_def next_ok_def)
  next
    case struct
    then have f: "0 < elem_len e" "offset e + elem_len e * elem_size e \<le> sz" "nested e" using ok by (simp_all add: dec_ok_def)
    have n: "n \<le> elem_len e" using dec_count_le [OF Some f(1)] .
    have r: "elem_reads T e = elem_len e * T e" using struct by (simp add: elem_reads_def)
    have "base + offset e + n * elem_size e \<le> osize (d_out st)" "d_src st + n * T e \<le> osize msg"
      "n * T e \<le> elem_reads T e"
      using mult_le_mono1 [OF n, of "elem_size e"] mult_le_mono1 [OF n, of "T e"] f(2) room src r by linarith+
    moreover obtain rc out where "qmi_decode_struct_elem dec e (d_out st) (base + offset e) (d_src st) n tlv_len (level + 1) = Some (rc, out)"
      "osize out = osize (d_out st)" "0 \<le> rc \<longrightarrow> nat rc \<le> n * T e"
      using decode_struct_safe [OF dec f(3), of "level + 1"] level calculation(1,2) by fastforce
    ultimately show ?thesis
      using Some struct rest dec_result_ok [of nested sz es out st rc T e n] by (auto simp: run Let_def)
  next
    case str
    then have f: "elem_size e = 1" "offset e + elem_len e + 1 \<le> sz" using ok by (simp_all add: dec_ok_def)
    have r: "elem_reads T e = 2 + elem_len e" using str by (simp add: elem_reads_def)
    obtain rc out where "qmi_decode_string_elem e (d_out st) (base + offset e) msg (d_src st) tlv_len level = Some (rc, out)"
      "osize out = osize (d_out st)" "0 \<le> rc \<longrightarrow> nat rc \<le> elem_reads T e"
      using decode_string_safe [OF f(1), of "base + offset e" "d_out st" "d_src st" msg tlv_len level] f room src small r
      by fastforce
    then show ?thesis
      using Some str rest dec_result_ok [of nested sz es out st rc T e n] by (auto simp: run Let_def)
  next
    case basic
    then have t: "data_type e \<noteq> QMI_OPT_FLAG" "data_type e \<noteq> QMI_DATA_LEN" "data_type e \<noteq> QMI_STRING"
      "data_type e \<noteq> QMI_EOTI" "data_type e \<noteq> QMI_STRUCT" by auto
    then have f: "0 < elem_len e" "offset e + elem_len e * elem_size e \<le> sz" using ok by (simp_all add: dec_ok_def)
    have r: "elem_reads T e = elem_len e * elem_size e" using basic by (cases "data_type e") (auto simp: elem_reads_def)
    have b: "base + offset e + n * elem_size e \<le> osize (d_out st)" "d_src st + n * elem_size e \<le> osize msg"
      "n * elem_size e \<le> elem_reads T e"
      using mult_le_mono1 [OF dec_count_le [OF Some f(1)], of "elem_size e"] f(2) room src r by linarith+
    define m where "m = n * elem_size e"
    from decode_basic_safe [OF b(1,2) small] obtain out where
      o: "qmi_decode_basic_elem (d_out st) (base + offset e) msg (d_src st) n (elem_size e) = Some (m, out)"
      "osize out = osize (d_out st)" by (auto simp: m_def)
    then have "dec_value dec msg base tlv_len level (e # es) st = Some (dec_result es (st\<lparr>d_dlen := n\<rparr>) (int m, out))"
      using Some basic by (cases "data_type e") (auto simp: run Let_def dec_result_def)
    moreover have "next_ok nested T sz (e # es) st (dec_result es (st\<lparr>d_dlen := n\<rparr>) (int m, out))"
      by (rule dec_result_ok) (use rest [OF t(4)] b(3) [folded m_def] o(2) in auto)
    ultimately show ?thesis by blast
  qed
qed

section \<open>The loops\<close>

text \<open>What one iteration does with the entry it found: an optional flag, a length, a value.\<close>

lemma opt_flag_step:
  assumes "dec_elems_ok nested sz cur" and "data_type (hd cur) \<noteq> QMI_EOTI" and "base + sz \<le> osize (d_out st)"
  shows "\<exists>cur' st'. dec_opt_flag cur base st = Some (cur', st') \<and> dec_elems_ok nested sz cur' \<and>
    length cur' \<le> length cur \<and> osize (d_out st') = osize (d_out st) \<and> d_src st' = d_src st \<and>
    d_bytes st' = d_bytes st \<and> total_reads T cur' \<le> total_reads T cur"
proof (cases cur)
  case Nil
  then show ?thesis using assms(1) by simp
next
  case (Cons e es)
  show ?thesis
  proof (cases "data_type e = QMI_OPT_FLAG")
    case False
    then show ?thesis using Cons assms(1) by (simp add: dec_opt_flag_def)
  next
    case True
    then have ok: "offset e + 1 \<le> sz" "dec_elems_ok nested sz es" using assms(1,2) Cons by (auto simp: dec_ok_def)
    then obtain out where "obj_write (d_out st) (base + offset e) [1] = Some out"
      using obj_write_exists [of "base + offset e" "[1]" "d_out st"] assms(3) by auto
    then show ?thesis using True Cons ok(2) obj_write_size by (fastforce simp: dec_opt_flag_def)
  qed
qed

lemma data_len_step:
  assumes "dec_elems_ok nested sz cur" and "base + sz \<le> osize (d_out st)"
    and "d_src st + total_reads T cur \<le> osize msg"
  shows "\<exists>cur' n' st' k. dec_data_len cur msg base n st = Some (cur', n', st') \<and> dec_elems_ok nested sz cur' \<and>
    length cur' \<le> length cur \<and> osize (d_out st') = osize (d_out st) \<and> d_src st' = d_src st + k \<and>
    d_bytes st' = (if k = 0 then d_bytes st else w32 (d_bytes st + k)) \<and> k + total_reads T cur' \<le> total_reads T cur"
proof (cases cur)
  case Nil
  then show ?thesis using assms(1) by simp
next
  case (Cons e es)
  show ?thesis
  proof (cases "data_type e = QMI_DATA_LEN")
    case False
    then show ?thesis using Cons assms(1) by (simp add: dec_data_len_def)
  next
    case True
    define k where "k = (if elem_size e = 1 then 1 else 2 :: nat)"
    have ok: "offset e + 4 \<le> sz" "dec_elems_ok nested sz es" using assms(1) Cons True by (auto simp: dec_ok_def)
    have k: "0 < k" "k \<le> 2" by (simp_all add: k_def)
    have r: "total_reads T cur = 2 + total_reads T es" using Cons True by (simp add: elem_reads_def)
    obtain bs where bs: "obj_read msg (d_src st) k = Some bs"
      using obj_read_exists [of "d_src st" k msg] assms(3) k r by auto
    define v where "v = le_val (bs @ drop k (le_bytes 4 (d_dlen st)))"
    obtain out where out: "obj_write (d_out st) (base + offset e) (le_bytes 4 v) = Some out"
      using obj_write_exists [of "base + offset e" "le_bytes 4 v" "d_out st"] assms(2) ok(1) by auto
    have "dec_data_len cur msg base n st =
        Some (es, sub32 n k, dec_update (st\<lparr>d_out := out, d_dlen := v\<rparr>) k)"
      using Cons True bs out unfolding dec_data_len_def v_def k_def by (simp add: Let_def del: One_nat_def)
    then show ?thesis using ok(2) k r Cons obj_write_size [OF out] by (simp add: dec_update_def)
  qed
qed

lemma w32_w32 [simp]: "w32 (w32 a + b) = w32 (a + b)"
  by (simp add: w32_def mod_add_left_eq)

lemma body_safe:
  assumes dec: "nested_dec_safe dec msg nested T" and ok: "dec_elems_ok nested sz cur" "data_type (hd cur) \<noteq> QMI_EOTI"
    and room: "base + sz \<le> osize (d_out st)" and src: "d_src st + total_reads T cur \<le> osize msg"
    and small: "osize msg < 2 ^ 31" and level: "1 \<le> level"
  shows "\<exists>nx. (do {
         (cur2, st2) \<leftarrow> dec_opt_flag cur base st;
         (cur3, tlv_len3, st3) \<leftarrow> dec_data_len cur2 msg base n st2;
         dec_value dec msg base tlv_len3 level cur3 st3 }) = Some nx \<and> next_ok nested T sz cur st nx"
proof -
  obtain cur2 st2 where s2: "dec_opt_flag cur base st = Some (cur2, st2)" "dec_elems_ok nested sz cur2"
    "length cur2 \<le> length cur" "osize (d_out st2) = osize (d_out st)" "d_src st2 = d_src st"
    "d_bytes st2 = d_bytes st" "total_reads T cur2 \<le> total_reads T cur"
    using opt_flag_step [OF ok room, of T] by auto
  obtain cur3 n3 st3 k where s3: "dec_data_len cur2 msg base n st2 = Some (cur3, n3, st3)" "dec_elems_ok nested sz cur3"
    "length cur3 \<le> length cur2" "osize (d_out st3) = osize (d_out st2)" "d_src st3 = d_src st2 + k"
    "d_bytes st3 = (if k = 0 then d_bytes st2 else w32 (d_bytes st2 + k))" "k + total_reads T cur3 \<le> total_reads T cur2"
    using data_len_step [OF s2(2), of base st2 T msg n] room src s2 by auto
  obtain e es where c: "cur3 = e # es" using s3(2) by (cases cur3) auto
  obtain nx where nx: "dec_value dec msg base n3 level cur3 st3 = Some nx" "next_ok nested T sz cur3 st3 nx"
    using dec_value_safe [OF dec s3(2) [unfolded c], of base st3 level n3] room src small level s2 s3 c by auto
  have b: "w32 (d_bytes st3 + j) = w32 (d_bytes st + k + j)" for j
    using s3(6) s2(6) by auto
  have "next_ok nested T sz cur st nx"
  proof (cases nx)
    case (DRet rc out)
    then show ?thesis using nx s2 s3 by (simp add: next_ok_def)
  next
    case (DGo cur' st')
    then obtain j where j: "d_src st' = d_src st3 + j" "d_bytes st' = w32 (d_bytes st3 + j)"
      "j + total_reads T cur' \<le> total_reads T cur3" using nx(2) by (auto simp: next_ok_def)
    show ?thesis
      using DGo nx(2) s2 s3 j b [of j] by (auto simp: next_ok_def add.assoc intro!: exI [of _ "k + j"])
  qed
  then show ?thesis using s2(1) s3(1) nx(1) by auto
qed

text \<open>Below the top level the loop runs once through the table.\<close>

lemma nested_loop_safe:
  assumes dec: "nested_dec_safe dec msg nested T" and level: "2 \<le> level" and small: "osize msg < 2 ^ 31"
    and "dec_elems_ok nested sz cur" and "base + sz \<le> osize (d_out st)"
    and "d_src st + total_reads T cur \<le> osize msg" and "d_src st = sp + d_bytes st"
  shows "\<exists>rc out. dec_loop dec ei msg base lim level cur st = Some (rc, out) \<and> osize out = osize (d_out st) \<and>
    (0 \<le> rc \<longrightarrow> nat rc \<le> d_bytes st + total_reads T cur)"
  using assms(4-)
proof (induction "length cur" arbitrary: cur st rule: less_induct)
  case less
  have ne: "cur \<noteq> []" using less.prems(1) by auto
  show ?case
  proof (cases "\<not> d_bytes st < lim \<or> data_type (hd cur) = QMI_EOTI")
    case True
    then show ?thesis using ne level by (subst dec_loop.simps) auto
  next
    case False
    then have go: "d_bytes st < lim" "data_type (hd cur) \<noteq> QMI_EOTI" by auto
    obtain nx where nx: "dec_elem dec ei msg base lim level cur st = Some nx" "next_ok nested T sz cur st nx"
      using body_safe [OF dec less.prems(1) go(2) less.prems(2,3) small, of level "sub32 lim (d_bytes st)"] level
      by (auto simp: dec_elem_def dec_header_def)
    show ?thesis
    proof (cases nx)
      case (DRet rc out)
      then show ?thesis using nx go ne level by (subst dec_loop.simps) (auto simp: next_ok_def)
    next
      case (DGo cur' st')
      then obtain k where k: "d_src st' = d_src st + k" "d_bytes st' = w32 (d_bytes st + k)"
        "k + total_reads T cur' \<le> total_reads T cur" "dec_elems_ok nested sz cur'" "length cur' < length cur"
        "osize (d_out st') = osize (d_out st)"
        using nx(2) by (auto simp: next_ok_def)
      have b: "d_bytes st' = d_bytes st + k" using k less.prems(3,4) small by simp
      have "\<exists>rc out. dec_loop dec ei msg base lim level cur' st' = Some (rc, out) \<and> osize out = osize (d_out st') \<and>
          (0 \<le> rc \<longrightarrow> nat rc \<le> d_bytes st' + total_reads T cur')"
        by (rule less.hyps) (use k b less.prems in auto)
      then show ?thesis using nx(1) DGo go ne level k(3,6) b by (subst dec_loop.simps) auto
    qed
  qed
qed

lemma nested_decode_safe:
  assumes "osize msg < 2 ^ 31"
  shows "nested_dec_safe (qmi_decode_n d msg) msg (dec_nested_ok d) (nested_reads d)"
proof (induction d)
  case 0
  then show ?case by (simp add: nested_dec_safe_def)
next
  case (Suc d)
  show ?case
    unfolding nested_dec_safe_def
  proof (intro allI impI)
    fix e dp sp lim and level :: nat and out :: obj
    assume a: "dec_nested_ok (Suc d) e \<and> dp + elem_size e \<le> osize out \<and> sp + nested_reads (Suc d) e \<le> osize msg \<and> 2 \<le> level"
    then obtain es where es: "ei_array e = Some es" "dec_elems_ok (dec_nested_ok d) (elem_size e) es"
      by (auto split: option.splits)
    from nested_loop_safe [OF Suc _ assms es(2), of level dp "\<lparr>d_out = out, d_src = sp, d_bytes = 0, d_dlen = 0\<rparr>" sp]
    show "\<exists>rc out'. qmi_decode_n (Suc d) msg (ei_array e) out dp sp lim level = Some (rc, out') \<and>
        osize out' = osize out \<and> (0 \<le> rc \<longrightarrow> nat rc \<le> nested_reads (Suc d) e)"
      using a es by auto
  qed
qed

text \<open>At the top level every iteration reads a header and looks its type up in the table.\<close>

lemma find_ei_ok:
  "dec_elems_ok nested sz es \<Longrightarrow> \<exists>r. find_ei es t = Some r \<and>
     (\<forall>cur. r = Some cur \<longrightarrow> dec_elems_ok nested sz cur \<and> data_type (hd cur) \<noteq> QMI_EOTI \<and>
        total_reads T cur \<le> total_reads T es)"
proof (induction es)
  case Nil
  then show ?case by simp
next
  case (Cons e es)
  then show ?case by (cases "data_type e = QMI_EOTI \<or> tlv_type e = t") (auto simp: trans_le_add2)
qed

lemma top_elem_safe:
  assumes dec: "nested_dec_safe dec msg nested T" and ok: "dec_elems_ok nested sz ei"
    and room: "base + sz \<le> osize (d_out st)" and src: "d_src st + 3 + total_reads T ei \<le> osize msg"
    and small: "osize msg < 2 ^ 31" "d_bytes st < 2 ^ 31"
  shows "\<exists>nx. dec_elem dec ei msg base lim 1 cur st = Some nx \<and>
    (case nx of
       DRet rc out \<Rightarrow> rc < 0 \<and> osize out = osize (d_out st)
     | DGo cur' st' \<Rightarrow> osize (d_out st') = osize (d_out st) \<and>
         (\<exists>k. 3 \<le> k \<and> d_src st' = d_src st + k \<and> d_bytes st' = d_bytes st + k))"
proof -
  obtain bs where bs: "obj_read msg (d_src st) 3 = Some bs" "length bs = 3"
    using obj_read_exists [of "d_src st" 3 msg] src by auto
  have tlv: "le_val (drop 1 bs) < 65536" using le_val_bound [of "drop 1 bs"] bs(2) by simp
  obtain r where r: "find_ei ei (bs ! 0) = Some r" "\<And>cur. r = Some cur \<Longrightarrow> dec_elems_ok nested sz cur \<and>
      data_type (hd cur) \<noteq> QMI_EOTI \<and> total_reads T cur \<le> total_reads T ei"
    using find_ei_ok [OF ok, of "bs ! 0" T] by auto
  show ?thesis
  proof (cases r)
    case None
    then show ?thesis using bs r(1) tlv small by (auto simp: dec_elem_def dec_header_def dec_update_def Let_def)
  next
    case (Some cur1)
    note c = r(2) [OF Some]
    let ?st = "dec_update st 3"
    have "base + sz \<le> osize (d_out ?st)" "d_src ?st + total_reads T cur1 \<le> osize msg"
      using room src c by (auto simp: dec_update_def)
    from body_safe [OF dec conjunct1 [OF c] conjunct1 [OF conjunct2 [OF c]] this small(1), of 1 "le_val (drop 1 bs)"]
    obtain nx where nx: "dec_elem dec ei msg base lim 1 cur st = Some nx" "next_ok nested T sz cur1 ?st nx"
      using bs r(1) Some by (auto simp: dec_elem_def dec_header_def Let_def)
    show ?thesis
    proof (cases nx)
      case (DRet rc out)
      then show ?thesis using nx by (simp add: next_ok_def dec_update_def)
    next
      case (DGo cur' st')
      then obtain k where k: "d_src st' = d_src st + 3 + k" "d_bytes st' = w32 (d_bytes st + 3 + k)"
        "k + total_reads T cur' \<le> total_reads T cur1" "osize (d_out st') = osize (d_out st)"
        using nx(2) by (auto simp: next_ok_def dec_update_def)
      have "d_bytes st + 3 + k < 2 ^ 32" using k(3) c src small by simp
      then show ?thesis using nx(1) DGo k by (auto intro!: exI [of _ "3 + k"])
    qed
  qed
qed

lemma top_loop_safe:
  assumes dec: "nested_dec_safe dec msg nested T" and ok: "dec_elems_ok nested sz ei" and small: "osize msg < 2 ^ 31"
    and lim: "sp + lim + 3 + total_reads T ei \<le> osize msg"
    and "base + sz \<le> osize (d_out st)" and "d_src st = sp + d_bytes st"
  shows "\<exists>rc out. dec_loop dec ei msg base lim 1 cur st = Some (rc, out) \<and> osize out = osize (d_out st)"
  using assms(5,6)
proof (induction "lim - d_bytes st" arbitrary: cur st rule: less_induct)
  case less
  show ?case
  proof (cases "d_bytes st < lim")
    case False
    then show ?thesis by (subst dec_loop.simps) simp
  next
    case True
    have "d_src st + 3 + total_reads T ei \<le> osize msg" "d_bytes st < 2 ^ 31"
      using True lim less.prems small by auto
    from top_elem_safe [OF dec ok less.prems(1) this(1) small this(2), of lim cur]
    obtain nx where nx: "dec_elem dec ei msg base lim 1 cur st = Some nx"
      "case nx of DRet rc out \<Rightarrow> rc < 0 \<and> osize out = osize (d_out st)
       | DGo cur' st' \<Rightarrow> osize (d_out st') = osize (d_out st) \<and>
         (\<exists>k. 3 \<le> k \<and> d_src st' = d_src st + k \<and> d_bytes st' = d_bytes st + k)" by auto
    show ?thesis
    proof (cases nx)
      case (DRet rc out)
      then show ?thesis using nx True by (subst dec_loop.simps) auto
    next
      case (DGo cur' st')
      then obtain k where k: "3 \<le> k" "d_src st' = d_src st + k" "d_bytes st' = d_bytes st + k"
        "osize (d_out st') = osize (d_out st)" using nx(2) by auto
      have "\<exists>rc out. dec_loop dec ei msg base lim 1 cur' st' = Some (rc, out) \<and> osize out = osize (d_out st')"
        by (rule less.hyps) (use k True less.prems in auto)
      then show ?thesis using nx(1) DGo True k(4) by (subst dec_loop.simps) auto
    qed
  qed
qed

lemma qmi_decode_top_safe:
  assumes "dec_table sz es" and "osize out = sz" and "sp + lim + 3 + table_reads es \<le> osize msg" and "osize msg < 2 ^ 31"
  shows "\<exists>rc out'. qmi_decode msg (Some es) out 0 sp lim 1 = Some (rc, out') \<and> osize out' = sz"
proof -
  define d where "d = depth (Some es) - 1"
  have d: "depth (Some es) = Suc d" by (simp add: d_def depth_def)
  from top_loop_safe [OF nested_decode_safe [OF assms(4), of d], of sz es sp lim 0
      "\<lparr>d_out = out, d_src = sp, d_bytes = 0, d_dlen = 0\<rparr>" es] assms
  show ?thesis by (simp add: qmi_decode_def d dec_table_def table_reads_def d_def [symmetric])
qed

section \<open>Well-formed messages\<close>

text \<open>On a message whose elements are complete, the decoder copies them. One lemma per kind of
  element.\<close>

lemma dec_loop_go:
  assumes "dec_elem dec ei msg base lim level cur st = Some (DGo cur1 st1)" and "d_bytes st < lim"
    and "level = 1 \<or> cur \<noteq> [] \<and> data_type (hd cur) \<noteq> QMI_EOTI"
  shows "dec_loop dec ei msg base lim level cur st = dec_loop dec ei msg base lim level cur1 st1"
  using assms by (subst dec_loop.simps) auto

lemma dec_loop_stop:
  "\<not> d_bytes st < lim \<or> level \<ge> 2 \<and> cur \<noteq> [] \<and> data_type (hd cur) = QMI_EOTI \<Longrightarrow>
     dec_loop dec ei msg base lim level cur st = Some (int (d_bytes st), d_out st)"
  by (subst dec_loop.simps) auto

lemma copy_one:
  "obj_read msg sp sz = Some bs \<Longrightarrow> copy_elems out dp msg sp 1 sz = obj_write out dp bs"
  by (cases "obj_write out dp bs") simp_all

lemma obj_read_split:
  assumes "obj_read ob i (n + m) = Some (xs @ ys)" and "length xs = n"
  shows "obj_read ob i n = Some xs" and "obj_read ob (i + n) m = Some ys"
proof -
  have "length ys = m" using obj_read_length [OF assms(1)] assms(2) by simp
  then show "obj_read ob i n = Some xs" "obj_read ob (i + n) m = Some ys"
    using obj_read_sub [OF assms(1), of 0 n] obj_read_sub [OF assms(1), of n m] assms(2) by simp_all
qed

lemma dec_value_basic:
  assumes "is_basic (data_type e)" and "array_type e = NO_ARRAY"
    and "obj_read msg (d_src st) (elem_size e) = Some bs" and "obj_write (d_out st) (base + offset e) bs = Some out"
    and "d_bytes st + elem_size e < 2 ^ 32"
  shows "dec_value dec msg base tlv_len level (e # es) st =
    Some (DGo es \<lparr>d_out = out, d_src = d_src st + elem_size e, d_bytes = d_bytes st + elem_size e, d_dlen = 1\<rparr>)"
proof -
  have "qmi_decode_basic_elem (d_out st) (base + offset e) msg (d_src st) 1 (elem_size e) = Some (elem_size e, out)"
    unfolding qmi_decode_basic_elem_def copy_one [OF assms(3)] using assms(4,5) by simp
  then show ?thesis
    using assms(1,2,5)
    by (cases "data_type e") (simp_all add: dec_value_def dec_count_def dec_update_def Let_def)
qed

lemma dec_basic_top:
  assumes "obj_read msg (d_src st) (3 + elem_size e) = Some ([ty, l0, l1] @ bs)" and "find_ei ei ty = Some (Some (e # es))"
    and "is_basic (data_type e)" and "array_type e = NO_ARRAY"
    and "obj_write (d_out st) (base + offset e) bs = Some out" and "d_bytes st + 3 + elem_size e < 2 ^ 32"
  shows "dec_elem dec ei msg base lim 1 cur st =
    Some (DGo es \<lparr>d_out = out, d_src = d_src st + 3 + elem_size e, d_bytes = d_bytes st + 3 + elem_size e, d_dlen = 1\<rparr>)"
proof -
  note r = obj_read_split [OF assms(1)]
  have "obj_read msg (d_src (dec_update st 3)) (elem_size e) = Some bs" using r(2) by (simp add: dec_update_def)
  from dec_value_basic [OF assms(3,4) this, of base out dec "le_val [l0, l1]" 1 es] assms(5,6)
  show ?thesis
    using assms(2,3,6) r(1)
    by (cases "data_type e") (simp_all add: dec_elem_def dec_header_def dec_opt_flag_def dec_data_len_def dec_update_def)
qed

lemma dec_basic_nested:
  assumes "obj_read msg (d_src st) (elem_size e) = Some bs" and "2 \<le> level"
    and "is_basic (data_type e)" and "array_type e = NO_ARRAY"
    and "obj_write (d_out st) (base + offset e) bs = Some out" and "d_bytes st + elem_size e < 2 ^ 32"
  shows "dec_elem dec ei msg base lim level (e # es) st =
    Some (DGo es \<lparr>d_out = out, d_src = d_src st + elem_size e, d_bytes = d_bytes st + elem_size e, d_dlen = 1\<rparr>)"
  using dec_value_basic [OF assms(3,4,1,5,6), of dec "sub32 lim (d_bytes st)" level es] assms(2,3)
  by (cases "data_type e") (simp_all add: dec_elem_def dec_header_def dec_opt_flag_def dec_data_len_def)

lemma dec_string_top:
  assumes r: "obj_read msg (d_src st) (3 + n) = Some ([ty, l0, l1] @ bs)" and ei: "find_ei ei ty = Some (Some (e # es))"
    and n: "le_val [l0, l1] = n" "n \<le> elem_len e" and e: "data_type e = QMI_STRING" "elem_size e = 1"
    and c: "dec_count e (d_dlen st) = Some c"
    and w: "obj_write (d_out st) (base + offset e) (bs @ [0]) = Some out" and small: "d_bytes st + 3 + n < 2 ^ 32"
  shows "dec_elem dec ei msg base lim 1 cur st =
    Some (DGo es \<lparr>d_out = out, d_src = d_src st + 3 + n, d_bytes = d_bytes st + 3 + n, d_dlen = c\<rparr>)"
proof -
  note s = obj_read_split [OF r]
  have len: "length bs = n" using obj_read_length [OF s(2)] by simp
  have fit: "base + offset e + n + 1 \<le> osize (d_out st)" using w len by (simp add: obj_write_def split: if_splits)
  obtain out1 where o1: "obj_write (d_out st) (base + offset e) bs = Some out1"
    using obj_write_exists [of "base + offset e" bs "d_out st"] fit len by auto
  obtain out2 where o2: "obj_write out1 (base + offset e + n) [0] = Some out2"
    using obj_write_exists [of "base + offset e + n" "[0]" out1] fit obj_write_size [OF o1] by auto
  have "out2 = out" using obj_write_append [OF o1, of "[0]" out2] o2 w len by simp
  moreover have "map (\<lambda>j. obyte msg (d_src st + 3 + j)) [0..<n] = bs"
    using s(2) by (simp add: obj_read_def split: if_splits)
  ultimately have "qmi_decode_string_elem e (d_out st) (base + offset e) msg (d_src st + 3) n 1 = Some (int n, out)"
    using copy_elems_write [of "d_src st + 3" n 1 msg "base + offset e" "d_out st"] s(2) o1 o2 e n(2) fit small
    by (simp add: qmi_decode_string_elem_def qmi_decode_basic_elem_def obj_read_def split: if_splits)
  then show ?thesis
    using s(1) ei n(1) e c small
    by (simp add: dec_elem_def dec_header_def dec_opt_flag_def dec_data_len_def dec_value_def dec_result_def dec_update_def)
qed

text \<open>An array of structures whose decoder copies them unchanged (\<open>m\<close> bytes each).\<close>

definition copies :: "decoder \<Rightarrow> obj \<Rightarrow> qmi_elem_info \<Rightarrow> bool" where
  "copies dec msg e \<longleftrightarrow>
     (\<forall>out dp sp lim bs out'. obj_read msg sp (elem_size e) = Some bs \<and> elem_size e \<le> lim \<and> lim < 2 ^ 32 \<and>
        obj_write out dp bs = Some out' \<longrightarrow> dec (ei_array e) out dp sp lim 2 = Some (int (elem_size e), out'))"

lemma copiesD:
  "copies dec msg e \<Longrightarrow> obj_read msg sp (elem_size e) = Some bs \<Longrightarrow> obj_write out dp bs = Some out' \<Longrightarrow>
     elem_size e \<le> lim \<Longrightarrow> lim < 2 ^ 32 \<Longrightarrow> dec (ei_array e) out dp sp lim 2 = Some (int (elem_size e), out')"
  unfolding copies_def by blast

lemma dec_struct_copies:
  assumes c: "copies dec msg e" and m: "0 < elem_size e"
    and "obj_read msg sp (n * elem_size e) = Some bs" and "obj_write out dp bs = Some out'"
    and "decoded + n * elem_size e \<le> tlv_len" and "tlv_len < 2 ^ 32"
  shows "dec_struct_loop dec e out dp sp n tlv_len 2 decoded = Some (int (decoded + n * elem_size e), 0, out')"
  using assms(3-)
proof (induction n arbitrary: out dp sp decoded bs)
  case 0
  then show ?case by (cases out) (auto simp: obj_read_def obj_write_def fun_eq_iff split: if_splits)
next
  case (Suc n)
  let ?m = "elem_size e"
  define xs ys where "xs = take ?m bs" and "ys = drop ?m bs"
  have len: "length bs = ?m + n * ?m" using obj_read_length [OF Suc.prems(1)] by simp
  have r: "obj_read msg sp ?m = Some xs" "obj_read msg (sp + ?m) (n * ?m) = Some ys"
    using obj_read_split [of msg sp ?m "n * ?m" xs ys] Suc.prems(1) len by (simp_all add: xs_def ys_def)
  obtain out1 where o1: "obj_write out dp xs = Some out1"
    using obj_write_exists [of dp xs out] Suc.prems(2) len by (auto simp: obj_write_def xs_def split: if_splits)
  have lx: "length xs = ?m" using obj_read_length [OF r(1)] .
  have "dp + ?m + length ys \<le> osize out1"
    using Suc.prems(2) len obj_write_size [OF o1] by (simp add: obj_write_def ys_def split: if_splits)
  then obtain out2 where o2: "obj_write out1 (dp + ?m) ys = Some out2"
    using obj_write_exists [of "dp + ?m" ys out1] by auto
  have "out2 = out'" using obj_write_append [OF o1, of ys out2] o2 lx Suc.prems(2) by (simp add: xs_def ys_def)
  moreover have lim: "sub32 tlv_len decoded = tlv_len - decoded" using Suc.prems(3,4) by (intro sub32_small) auto
  moreover have "dec (ei_array e) out dp sp (tlv_len - decoded) 2 = Some (int ?m, out1)"
    by (rule copiesD [OF c r(1) o1]) (use Suc.prems(3,4) in auto)
  moreover have "decoded < tlv_len" using Suc.prems(3) m by simp
  ultimately show ?case
    using Suc.IH [OF r(2), of out1 "dp + ?m" "decoded + ?m"] o2 Suc.prems(3,4) by (simp add: algebra_simps)
qed

lemma dec_array_top:
  assumes r: "obj_read msg (d_src st) (4 + n * elem_size e) = Some ([ty, l0, l1, cnt] @ bs)"
    and ei: "find_ei ei ty = Some (Some (el # e # es))" and el: "data_type el = QMI_DATA_LEN" "elem_size el = 1"
    and e: "data_type e = QMI_STRUCT" "array_type e = VAR_LEN_ARRAY" "0 < elem_size e"
    and n: "n = unat cnt" "n \<le> elem_len e" "le_val [l0, l1] = 1 + n * elem_size e"
    and c: "copies dec msg e" and dlen: "d_dlen st < 256"
    and w: "obj_write (d_out st) (base + offset el) (le_bytes 4 n) = Some out1" "obj_write out1 (base + offset e) bs = Some out"
    and small: "d_bytes st + 4 + n * elem_size e < 2 ^ 32"
  shows "dec_elem dec ei msg base lim 1 cur st =
    Some (DGo es \<lparr>d_out = out, d_src = d_src st + 4 + n * elem_size e,
      d_bytes = d_bytes st + 4 + n * elem_size e, d_dlen = n\<rparr>)"
proof -
  have "obj_read msg (d_src st + 0) 3 = Some (take 3 (drop 0 ([ty, l0, l1, cnt] @ bs)))"
    "obj_read msg (d_src st + 3) 1 = Some (take 1 (drop 3 ([ty, l0, l1, cnt] @ bs)))"
    by (rule obj_read_sub [OF r], simp)+
  then have s: "obj_read msg (d_src st) 3 = Some [ty, l0, l1]" "obj_read msg (d_src st + 3) 1 = Some [cnt]"
    by simp_all
  have bs: "obj_read msg (d_src st + 4) (n * elem_size e) = Some bs"
    by (rule obj_read_split(2) [OF r]) simp
  have four: "4 = Suc (Suc (Suc (Suc 0)))" by simp
  have "le_bytes 4 (d_dlen st) = [of_nat (d_dlen st), 0, 0, 0]" unfolding four using dlen by simp
  then have v: "le_val ([cnt] @ drop 1 (le_bytes 4 (d_dlen st))) = n" using n(1) by simp
  let ?m = "n * elem_size e"
  have t: "sub32 (1 + ?m) 1 = ?m" using small by (subst sub32_small) auto
  have "dec_struct_loop dec e out1 (base + offset e) (d_src st + 4) n ?m 2 0 = Some (int ?m, 0, out)"
    using dec_struct_copies [OF c e(3) bs w(2), of 0 ?m] small by simp
  then have loop: "qmi_decode_struct_elem dec e out1 (base + offset e) (d_src st + 4) n ?m 2 = Some (int ?m, out)"
    by (simp add: qmi_decode_struct_elem_def del: of_nat_mult)
  have head: "dec_header ei msg lim 1 cur st = Some (HElem (el # e # es) (1 + ?m), dec_update st 3)"
    using s(1) ei n(3) by (simp add: dec_header_def)
  have len: "dec_data_len (el # e # es) msg base (1 + ?m) (dec_update st 3) =
      Some (e # es, ?m, dec_update (dec_update (st\<lparr>d_out := out1, d_dlen := n\<rparr>) 3) 1)"
    using s(2) v w(1) el t by (simp add: dec_data_len_def dec_update_def del: One_nat_def)
  have "dec_value dec msg base ?m 1 (e # es) (dec_update (dec_update (st\<lparr>d_out := out1, d_dlen := n\<rparr>) 3) 1) =
      Some (DGo es \<lparr>d_out = out, d_src = d_src st + 4 + ?m, d_bytes = d_bytes st + 4 + ?m, d_dlen = n\<rparr>)"
    using loop [unfolded add.commute [of "d_src st" 4] numeral_2_eq_2] e n(2) small
    by (simp add: dec_value_def dec_count_def dec_update_def dec_result_def del: of_nat_mult)
  then show ?thesis using head len el by (simp add: dec_elem_def dec_opt_flag_def del: One_nat_def)
qed

text \<open>A table of consecutive scalars copies the structure.\<close>

fun flat_from :: "nat \<Rightarrow> qmi_elem_info list \<Rightarrow> nat option" where
  "flat_from off [] = None"
| "flat_from off (e # es) =
     (if data_type e = QMI_EOTI then Some off
      else if is_basic (data_type e) \<and> array_type e = NO_ARRAY \<and> offset e = off \<and> 0 < elem_size e
        then flat_from (off + elem_size e) es
      else None)"

lemma flat_from_le: "flat_from off es = Some m \<Longrightarrow> off \<le> m"
proof (induction off es rule: flat_from.induct)
  case (2 off e es)
  then show ?case by (fastforce split: if_splits)
qed simp

lemma flat_loop:
  assumes "flat_from k cur = Some m" and "obj_read msg (sp + k) (m - k) = Some bs"
    and "obj_write out (dp + k) bs = Some out'" and "m \<le> lim" and "m < 2 ^ 32"
  shows "dec_loop dec ei msg dp lim 2 cur \<lparr>d_out = out, d_src = sp + k, d_bytes = k, d_dlen = dl\<rparr> = Some (int m, out')"
  using assms
proof (induction k cur arbitrary: out dl bs rule: flat_from.induct)
  case (1 off)
  then show ?case by simp
next
  case (2 k e cur)
  show ?case
  proof (cases "data_type e = QMI_EOTI")
    case True
    then have "out' = out" using 2 by (cases out) (auto simp: obj_read_def obj_write_def fun_eq_iff split: if_splits)
    then show ?thesis using 2 True by (subst dec_loop_stop) auto
  next
    case False
    let ?z = "elem_size e"
    have e: "is_basic (data_type e)" "array_type e = NO_ARRAY" "offset e = k" "0 < ?z" "flat_from (k + ?z) cur = Some m"
      using "2.prems"(1) False by (auto split: if_splits)
    have m: "k + ?z \<le> m" using flat_from_le [OF e(5)] .
    define xs ys where "xs = take ?z bs" and "ys = drop ?z bs"
    have len: "length bs = m - k" using obj_read_length [OF "2.prems"(2)] .
    have r: "obj_read msg (sp + k) ?z = Some xs" "obj_read msg (sp + k + ?z) (m - (k + ?z)) = Some ys"
      using obj_read_split [of msg "sp + k" ?z "m - (k + ?z)" xs ys] "2.prems"(2) m len by (simp_all add: xs_def ys_def)
    have fit: "dp + k + (m - k) \<le> osize out" using "2.prems"(3) len by (simp add: obj_write_def split: if_splits)
    obtain out1 where o1: "obj_write out (dp + k) xs = Some out1"
      using obj_write_exists [of "dp + k" xs out] fit m len by (auto simp: xs_def)
    obtain out2 where o2: "obj_write out1 (dp + k + ?z) ys = Some out2"
      using obj_write_exists [of "dp + k + ?z" ys out1] fit m len obj_write_size [OF o1] by (auto simp: ys_def)
    have lx: "length xs = ?z" using obj_read_length [OF r(1)] .
    have eq: "out2 = out'" using obj_write_append [OF o1, of ys out2] o2 lx "2.prems"(3) by (simp add: xs_def ys_def)
    have step: "dec_elem dec ei msg dp lim 2 (e # cur) \<lparr>d_out = out, d_src = sp + k, d_bytes = k, d_dlen = dl\<rparr> =
        Some (DGo cur \<lparr>d_out = out1, d_src = sp + (k + ?z), d_bytes = k + ?z, d_dlen = 1\<rparr>)"
      using dec_basic_nested [of msg "\<lparr>d_out = out, d_src = sp + k, d_bytes = k, d_dlen = dl\<rparr>" e xs 2 dp out1 dec ei lim cur]
        r(1) e o1 m "2.prems"(5) by (simp add: add.assoc)
    have "dec_loop dec ei msg dp lim 2 cur \<lparr>d_out = out1, d_src = sp + (k + ?z), d_bytes = k + ?z, d_dlen = 1\<rparr> = Some (int m, out')"
      by (rule "2.IH") (use False e r(2) o2 eq "2.prems"(4,5) in \<open>auto simp: add.assoc\<close>)
    moreover have "k < lim" using m e(4) "2.prems"(4) by simp
    ultimately show ?thesis using dec_loop_go [OF step] False by simp
  qed
qed

lemma flat_copies:
  assumes "ei_array e = Some es" and "flat_from 0 es = Some (elem_size e)"
  shows "copies (qmi_decode_n (Suc d) msg) msg e"
  unfolding copies_def
  using flat_loop [OF assms(2), of msg _ _ _ _ _ _ "qmi_decode_n d msg" es 0] assms(1) by auto

lemma message_safe:
  assumes "dec_table sz es" and "osize c_struct = sz"
    and "7 \<le> data_len" and "data_len + 3 + table_reads es \<le> osize data" and "osize data < 2 ^ 31"
  shows "\<exists>rc txn out. qmi_decode_message (Some c_struct) (Some data) data_len type msg_id (Some es) = Some (rc, txn, Some out) \<and>
    osize out = sz \<and> (0 \<le> rc \<longrightarrow> txn = map_option le_val (obj_read data 1 2))"
proof -
  have "sub32 data_len 7 = data_len - 7" using assms by (intro sub32_small) auto
  then obtain rc out where d: "qmi_decode data (Some es) c_struct 0 7 (sub32 data_len 7) 1 = Some (rc, out)" "osize out = sz"
    using qmi_decode_top_safe [OF assms(1,2), of 7 "data_len - 7" data] assms by auto
  obtain ty mid txn where r: "obj_read data 0 1 = Some ty" "obj_read data 3 2 = Some mid" "obj_read data 1 2 = Some txn"
    using obj_read_exists [of 0 1 data] obj_read_exists [of 3 2 data] obj_read_exists [of 1 2 data] assms(3,4) by auto
  show ?thesis using d r assms(2,3) by (auto simp: qmi_decode_message_def)
qed

section \<open>Properties\<close>

text \<open>C16: decoding is memory safe on every message, with a known slack. For a table that
  fits the structure (strings with room for the terminating zero) and a message of at least a
  header, decoding returns and never leaves the structure or the buffer, provided the buffer
  is larger than the message by a header and what the table can make the decoder read
  (\<open>table_reads\<close>). The slack is needed: the length of an element is not compared with what is
  left of the message.\<close>

theorem qmi_decode_message_safe:
  assumes "dec_table sz es" and "osize c_struct = sz"
    and "7 \<le> data_len" and "data_len + 3 + table_reads es \<le> osize data" and "osize data < 2 ^ 31"
  shows "\<exists>rc txn out. qmi_decode_message (Some c_struct) (Some data) data_len type msg_id (Some es) = Some (rc, txn, Some out) \<and>
    osize out = sz \<and> (0 \<le> rc \<longrightarrow> txn = map_option le_val (obj_read data 1 2))"
  using assms by (rule message_safe)

theorem qmi_decode_message_safe_witness:
  "\<exists>rc txn out. qmi_decode_message (Some (obj_zero 4)) (Some (obj_zero 64)) 14 0 0 (Some caller_id_ei) = Some (rc, txn, Some out) \<and>
    osize out = 4 \<and> (0 \<le> rc \<longrightarrow> txn = map_option le_val (obj_read (obj_zero 64) 1 2))"
proof (rule qmi_decode_message_safe)
  show "dec_table 4 caller_id_ei" "14 + 3 + table_reads caller_id_ei \<le> osize (obj_zero 64)" by code_simp+
qed (simp_all add: obj_zero_def)

text \<open>Without the slack the decoder reads past the message. A message that ends in the middle
  of an element is accepted, and the value is made of the bytes behind it in the buffer:
  whatever an earlier message left there.\<close>

lemma decode_reads_stale_bytes:
  "map_option (\<lambda>(rc, txn, req). (rc, map_option (\<lambda>ob. obj_read ob 0 4) req))
     (qmi_decode_message (Some (obj_zero 4)) (Some (obj_of_bytes [0, 1, 0, 2, 0, 3, 0, 1, 4, 0, a, b, c, d])) 10 0 2
       (Some caller_id_ei)) = Some (7, Some (Some [a, b, c, d]))"
  by code_simp

end
