(* ===== verification/QmiService.thy ===== *)
theory QmiService
  imports QmiDecode Qrtr
begin

text \<open>
  What the services that speak QMI over QRTR have in common (\<^verbatim>\<open>qcom/rmtfs/rmtfs.c\<close>,
  \<^verbatim>\<open>qcom/pd-mapper/pd-mapper.c\<close>): a handler decodes the packet into a zeroed structure, and
  encodes its response into a packet of 256 bytes that it sends back to the sender.
\<close>

section \<open>Requests and responses\<close>

abbreviation (input) QMI_REQUEST :: nat where "QMI_REQUEST \<equiv> 0"
abbreviation (input) QMI_RESPONSE :: nat where "QMI_RESPONSE \<equiv> 2"

text \<open>The call of \<open>qmi_decode_message\<close> on the packet with a zeroed structure of \<open>sz\<close> bytes. When
  the message is refused, the variable \<open>txn\<close> keeps the value \<open>txn0\<close> it never got.\<close>

definition decode_request ::
    "nat \<Rightarrow> qrtr_packet \<Rightarrow> nat \<Rightarrow> nat \<Rightarrow> qmi_elem_info list \<Rightarrow> (int \<times> nat \<times> obj) option" where
  "decode_request txn0 pkt sz msg_id ei = do {
     (ret, txn, req) \<leftarrow> qmi_decode_message (Some (obj_zero sz)) (map_option obj_of_bytes (p_data pkt))
       (p_data_len pkt) QMI_REQUEST msg_id (Some ei);
     req1 \<leftarrow> req;
     Some (ret, case txn of Some t \<Rightarrow> t | None \<Rightarrow> txn0, req1) }"

text \<open>The end of a handler: \<open>junk\<close> is the content of the uninitialised response buffer,
  \<open>sendto_rc\<close> what \<open>sendto\<close> returns.\<close>

definition send_response ::
    "sock_state \<Rightarrow> int \<Rightarrow> (nat \<Rightarrow> u8) \<Rightarrow> qrtr_packet \<Rightarrow> nat \<Rightarrow> nat \<Rightarrow> obj \<Rightarrow> qmi_elem_info list \<Rightarrow> sock_state option" where
  "send_response st sendto_rc junk pkt msg_id txn resp ei = do {
     (len, data, data_len) \<leftarrow>
       qmi_encode_message \<lparr>osize = 256, obyte = junk\<rparr> 256 QMI_RESPONSE msg_id txn (Some resp) (Some ei);
     if len < 0 then Some st
     else do {
       bs \<leftarrow> obj_read data 0 data_len;
       Some (snd (qrtr_sendto st sendto_rc (p_node pkt) (p_port pkt) bs)) } }"

section \<open>Replies\<close>

text \<open>The bytes the encoder produces.\<close>

definition encoded :: "(nat \<Rightarrow> u8) \<Rightarrow> nat \<Rightarrow> nat \<Rightarrow> obj \<Rightarrow> qmi_elem_info list \<Rightarrow> bytes option" where
  "encoded junk msg_id txn resp ei =
     (case qmi_encode_message \<lparr>osize = 256, obyte = junk\<rparr> 256 QMI_RESPONSE msg_id txn (Some resp) (Some ei) of
        Some (len, data, data_len) \<Rightarrow> if len < 0 then None else obj_read data 0 data_len
      | None \<Rightarrow> None)"

lemma send_response_encoded:
  "encoded junk msg_id txn resp ei = Some bs \<Longrightarrow>
     send_response st rc junk pkt msg_id txn resp ei = Some (snd (qrtr_sendto st rc (p_node pkt) (p_port pkt) bs))"
  by (auto simp: send_response_def encoded_def split: option.splits prod.splits if_splits)

lemma length_4: "length xs = 4 \<Longrightarrow> \<exists>a b c d. xs = [a, b, c, d]"
  by (auto simp: length_Suc_conv eval_nat_numeral)

lemma length_8: "length xs = 8 \<Longrightarrow> \<exists>a b c d a' b' c' d'. xs = [a, b, c, d, a', b', c', d']"
  by (auto simp: length_Suc_conv eval_nat_numeral)

section \<open>Complete requests\<close>

text \<open>A datagram: a header with the length of the body, and the body; the rest of the buffer is
  whatever it was.\<close>

definition request :: "nat \<Rightarrow> nat \<Rightarrow> bytes \<Rightarrow> bytes" where
  "request txn msg_id body = qmi_header 0 txn msg_id (length body) @ body"

lemma length_request [simp]: "length (request txn msg_id body) = 7 + length body"
  by (simp add: request_def)

lemma request_read:
  "obj_read (obj_of_bytes (request txn msg_id body @ rest)) 0 7 = Some (qmi_header 0 txn msg_id (length body))"
  by (subst obj_read_of_bytes) (simp_all add: request_def)

lemma request_header:
  assumes "length body < 65536" and "msg_id < 65536"
  shows "qmi_decode_header (obj_of_bytes (request txn msg_id body @ rest)) (7 + length body) = Some (0, Some msg_id)"
  using qmi_header_fields [OF request_read, of txn msg_id body rest] assms
  by (simp add: qmi_decode_header_def le_val_le_bytes)

lemma body_read:
  assumes "i + n \<le> length body"
  shows "obj_read (obj_of_bytes (request txn msg_id body @ rest)) (7 + i) n = Some (take n (drop i body))"
  using assms by (subst obj_read_of_bytes) (simp_all add: request_def)

lemma obj_zero_size [simp]: "osize (obj_zero n) = n"
  by (simp add: obj_zero_def)

lemma decode_request_data:
  assumes "p_data pkt = Some (request txn msg_id body @ rest)" and "p_data_len pkt = 7 + length body"
    and "length (request txn msg_id body @ rest) = 4096" and "msg_id < 65536"
    and "qmi_decode (obj_of_bytes (request txn msg_id body @ rest)) (Some ei) (obj_zero sz) 0 7 (length body) 1 = Some (rc, ob)"
  shows "decode_request txn0 pkt sz msg_id ei = Some (rc, txn mod 65536, ob)"
proof -
  have "sub32 (7 + length body) 7 = length body" using assms(3) by (subst sub32_small) auto
  then show ?thesis
    using qmi_header_fields [OF request_read, of txn msg_id body rest] assms
    by (simp add: decode_request_def qmi_decode_message_def le_val_le_bytes)
qed

lemma obj_u32_read: "obj_read ob i 4 = Some (le_bytes 4 (unat w)) \<Longrightarrow> obj_u32 ob i = Some w"
  using unat_u32_less [of w] by (simp add: obj_u32_def le_val_le_bytes)

lemma le_val_zeros: "le_val (xs @ [0, 0, 0, 0]) = le_val xs"
  by (induction xs) auto

lemma le_bytes_2_split: "n < 65536 \<Longrightarrow> \<exists>l0 l1. le_bytes 2 n = [l0, l1] \<and> le_val [l0, l1] = n"
  using le_val_le_bytes_id [of n 2] by (auto simp: numeral_2_eq_2)

section \<open>Strings\<close>

text \<open>A request whose only element is a string of at most 255 bytes, for the tables that start
  with a string of 256 bytes at offset 4.\<close>

definition string_body :: "bytes \<Rightarrow> bytes" where
  "string_body bs = [1] @ le_bytes 2 (length bs) @ bs"

lemma length_string_body [simp]: "length (string_body bs) = 3 + length bs" "length (path_bytes path) = length path"
  by (simp_all add: string_body_def path_bytes_def)

lemma decode_string_body:
  assumes r: "obj_read d 7 (3 + length bs) = Some (string_body bs)" and n: "length bs \<le> 255"
    and ei: "ei = Elem QMI_STRING 256 1 VAR_LEN_ARRAY 1 4 None # es" and sz: "260 \<le> sz"
  shows "\<exists>ob. qmi_decode d (Some ei) (obj_zero sz) 0 7 (3 + length bs) 1 = Some (int (3 + length bs), ob) \<and>
    obj_read ob 4 (length bs + 1) = Some (bs @ [0]) \<and> osize ob = sz"
proof -
  let ?st = "\<lparr>d_out = obj_zero sz, d_src = 7, d_bytes = 0, d_dlen = 0\<rparr>"
  let ?e = "Elem QMI_STRING 256 1 VAR_LEN_ARRAY 1 4 None"
  define k where "k = depth (Some ei) - 1"
  have k: "depth (Some ei) = Suc k" by (simp add: k_def depth_def)
  obtain l0 l1 where l: "le_bytes 2 (length bs) = [l0, l1]" "le_val [l0, l1] = length bs"
    using le_bytes_2_split [of "length bs"] n by auto
  obtain ob where ob: "obj_write (obj_zero sz) 4 (bs @ [0]) = Some ob"
    using obj_write_exists [of 4 "bs @ [0]" "obj_zero sz"] n sz by auto
  have f: "find_ei ei 1 = Some (Some (?e # es))" by (simp add: ei)
  have r': "obj_read d (d_src ?st) (3 + length bs) = Some ([1, l0, l1] @ bs)" using r l by (simp add: string_body_def)
  have s: "dec_elem (qmi_decode_n k d) ei d 0 (3 + length bs) 1 ei ?st =
      Some (DGo es \<lparr>d_out = ob, d_src = 10 + length bs, d_bytes = 3 + length bs, d_dlen = 0\<rparr>)"
    using dec_string_top [OF r' f l(2), of 0 0 ob] n ob by (simp add: dec_count_def)
  have "dec_loop (qmi_decode_n k d) ei d 0 (3 + length bs) 1 ei ?st = Some (int (3 + length bs), ob)"
    by (subst dec_loop_go [OF s]) (simp_all add: dec_loop_stop)
  then show ?thesis
    using obj_read_write_same [OF ob] obj_write_size [OF ob] by (simp add: qmi_decode_def k)
qed

end
