(* ===== verification/Storage.thy ===== *)
theory Storage
  imports Prelude
begin

text \<open>
  The storage of the remote file system service, \<^verbatim>\<open>qcom/rmtfs/storage.c\<close>: ten handles on four
  known partitions, either open files or, in read-only mode, copies in memory. The files of
  the system and its descriptors are a \<open>posix\<close> state, which also says how each system call ends;
  whether memory can be allocated is a \<open>st_env\<close>.
\<close>

section \<open>Files and descriptors\<close>

text \<open>A descriptor refers to a path, a path to its content. Descriptors are numbered in the
  order of the calls of \<open>open\<close>; the code compares them with -1 only. \<open>px_io k\<close> is the outcome of the
  \<open>k\<close>-th call: \<^term>\<open>None\<close> when it fails, otherwise the number of bytes it transfers at most (a
  call may transfer fewer bytes than it was asked for). \<open>px_calls\<close> counts the calls.\<close>

record posix =
  px_files :: "string \<Rightarrow> bytes option"
  px_fds :: "int \<Rightarrow> string option"
  px_next :: int
  px_io :: "nat \<Rightarrow> nat option"
  px_calls :: nat

definition px_call :: "posix \<Rightarrow> nat option \<times> posix" where
  "px_call px = (px_io px (px_calls px), px\<lparr>px_calls := px_calls px + 1\<rparr>)"

text \<open>\<open>open\<close> fails for a file that does not exist, and for any other reason the system may have.\<close>

definition px_open :: "posix \<Rightarrow> string \<Rightarrow> int \<times> posix" where
  "px_open px path =
     (let (r, px1) = px_call px in
      if r = None \<or> px_files px path = None then (-1, px1)
      else (px_next px, px1\<lparr>px_fds := (px_fds px)(px_next px \<mapsto> path), px_next := px_next px + 1\<rparr>))"

definition px_close :: "posix \<Rightarrow> int \<Rightarrow> posix" where
  "px_close px fd = px\<lparr>px_fds := (px_fds px)(fd := None)\<rparr>"

definition px_content :: "posix \<Rightarrow> int \<Rightarrow> bytes option" where
  "px_content px fd = (case px_fds px fd of None \<Rightarrow> None | Some path \<Rightarrow> px_files px path)"

text \<open>\<open>pread\<close>: what was read, or \<^term>\<open>None\<close> for the return value -1.\<close>

definition px_pread :: "posix \<Rightarrow> int \<Rightarrow> nat \<Rightarrow> nat \<Rightarrow> bytes option \<times> posix" where
  "px_pread px fd n off =
     (let (r, px1) = px_call px in
      (case r of
         None \<Rightarrow> None
       | Some m \<Rightarrow> map_option (\<lambda>bs. take (min n m) (drop off bs)) (px_content px fd), px1))"

text \<open>The content of a file after \<open>bs\<close> was written at \<open>off\<close>; a gap is filled with zeros.\<close>

definition file_write :: "bytes \<Rightarrow> nat \<Rightarrow> bytes \<Rightarrow> bytes" where
  "file_write file off bs =
     take off file @ replicate (off - length file) 0 @ bs @ drop (off + length bs) file"

definition px_pwrite :: "posix \<Rightarrow> int \<Rightarrow> bytes \<Rightarrow> nat \<Rightarrow> int \<times> posix" where
  "px_pwrite px fd bs off =
     (let (r, px1) = px_call px in
      case (r, px_fds px fd) of
        (Some m, Some path) \<Rightarrow>
          (case px_files px path of
             None \<Rightarrow> (-1, px1)
           | Some file \<Rightarrow>
               let done = take m bs in
               (int (length done),
                if done = [] then px1 else px1\<lparr>px_files := (px_files px)(path \<mapsto> file_write file off done)\<rparr>))
      | _ \<Rightarrow> (-1, px1))"

text \<open>The next call transfers \<open>n\<close> bytes if there are so many.\<close>

definition whole :: "posix \<Rightarrow> nat \<Rightarrow> bool" where
  "whole px n \<longleftrightarrow> (\<exists>m \<ge> n. px_io px (px_calls px) = Some m)"

section \<open>Handles\<close>

abbreviation (input) MAX_CALLERS :: nat where "MAX_CALLERS \<equiv> 10"
abbreviation (input) STORAGE_MAX_SIZE :: nat where "STORAGE_MAX_SIZE \<equiv> 16777216"

record partition =
  pt_path :: string
  pt_actual :: string
  pt_partlabel :: string

definition partition_table :: "partition list" where
  "partition_table =
     [\<lparr>pt_path = ''/boot/modem_fs1'', pt_actual = ''modem_fs1'', pt_partlabel = ''modemst1''\<rparr>,
      \<lparr>pt_path = ''/boot/modem_fs2'', pt_actual = ''modem_fs2'', pt_partlabel = ''modemst2''\<rparr>,
      \<lparr>pt_path = ''/boot/modem_fsc'', pt_actual = ''modem_fsc'', pt_partlabel = ''fsc''\<rparr>,
      \<lparr>pt_path = ''/boot/modem_fsg'', pt_actual = ''modem_fsg'', pt_partlabel = ''fsg''\<rparr>]"

text \<open>\<open>rf_partition\<close> is the index of the entry of the table the pointer \<open>partition\<close> points to,
  \<open>rf_shadow\<close> the object \<open>shadow_buf\<close> points to.\<close>

record rmtfd =
  rf_id :: nat
  rf_node :: u32
  rf_fd :: int
  rf_dev_error :: nat
  rf_partition :: "nat option"
  rf_shadow :: "bytes option"
  rf_shadow_len :: nat

record storage =
  st_dir :: string
  st_read_only :: bool
  st_use_partitions :: bool
  st_fds :: "rmtfd list"

record st_env =
  ev_alloc :: "nat \<Rightarrow> bool"

text \<open>\<open>android\<close> says for which system the code is built.\<close>

definition BY_PARTLABEL_PATH :: "bool \<Rightarrow> string" where
  "BY_PARTLABEL_PATH android =
     (if android then ''/dev/block/platform/soc@0/1d84000.ufshc/by-name'' else ''/dev/disk/by-partlabel'')"

text \<open>\<open>storage_init\<close>: the static array starts zeroed, and the other fields of the handles stay
  as they were.\<close>

definition blank_storage :: storage where
  "blank_storage =
     \<lparr>st_dir = ''/boot'', st_read_only = False, st_use_partitions = False,
      st_fds = replicate MAX_CALLERS \<lparr>rf_id = 0, rf_node = 0, rf_fd = 0, rf_dev_error = 0,
        rf_partition = None, rf_shadow = None, rf_shadow_len = 0\<rparr>\<rparr>"

definition storage_init :: "bool \<Rightarrow> storage \<Rightarrow> string option \<Rightarrow> bool \<Rightarrow> bool \<Rightarrow> storage" where
  "storage_init android st storage_root read_only use_partitions =
     st\<lparr>st_dir := (if use_partitions then BY_PARTLABEL_PATH android
          else case storage_root of Some d \<Rightarrow> d | None \<Rightarrow> st_dir st),
       st_use_partitions := (use_partitions \<or> st_use_partitions st),
       st_read_only := read_only,
       st_fds := map (\<lambda>(i, f). f\<lparr>rf_id := i, rf_fd := -1, rf_shadow := None\<rparr>)
         (zip [0..<MAX_CALLERS] (st_fds st))\<rparr>"

definition in_use :: "rmtfd \<Rightarrow> bool" where
  "in_use f \<longleftrightarrow> rf_fd f \<noteq> -1 \<or> rf_shadow f \<noteq> None"

text \<open>A \<open>for\<close> loop over an array that stops at the first hit.\<close>

fun first_index :: "('a \<Rightarrow> bool) \<Rightarrow> 'a list \<Rightarrow> nat option" where
  "first_index P [] = None"
| "first_index P (x # xs) = (if P x then Some 0 else map_option Suc (first_index P xs))"

text \<open>\<open>storage_populate_shadow_buf\<close>: return value, system and handle afterwards. The length is found with
  \<open>lseek\<close>; the buffer has it all, \<open>shadow_len\<close> is what \<open>read\<close> returned.\<close>

definition storage_populate_shadow_buf :: "st_env \<Rightarrow> posix \<Rightarrow> rmtfd \<Rightarrow> string \<Rightarrow> int \<times> posix \<times> rmtfd" where
  "storage_populate_shadow_buf e px f file =
     (let (fd, px1) = px_open px file in
      if fd < 0 then (-1, px1, f)
      else
        let (seek, px2) = px_call px1 in
        (case (seek, px_content px2 fd) of
           (Some _, Some bs) \<Rightarrow>
             if \<not> ev_alloc e (length bs) then (-1, px_close px2 fd, f)
             else
               let (r, px3) = px_call px2 in
               (case r of
                  None \<Rightarrow> (-1, px_close px3 fd, f)
                | Some m \<Rightarrow>
                    (0, px_close px3 fd,
                     f\<lparr>rf_shadow := Some (take m bs @ replicate (length bs - m) 0), rf_shadow_len := min m (length bs)\<rparr>))
         | _ \<Rightarrow> (-1, px_close px2 fd, f)))"

text \<open>The part of \<open>storage_open\<close> that opens the file for a free handle.\<close>

definition storage_open_file :: "st_env \<Rightarrow> posix \<Rightarrow> bool \<Rightarrow> rmtfd \<Rightarrow> string \<Rightarrow> int \<times> posix \<times> rmtfd" where
  "storage_open_file e px read_only f fspath =
     (if \<not> read_only then
        let (fd, px1) = px_open px fspath in
        if fd < 0 then (-1, px1, f) else (0, px1, f\<lparr>rf_fd := fd, rf_shadow_len := 0\<rparr>)
      else storage_populate_shadow_buf e px f fspath)"

text \<open>\<open>storage_open\<close>: the index of the handle (\<^term>\<open>None\<close> for \<open>NULL\<close>), the system and the
  handles afterwards.\<close>

definition storage_open ::
    "st_env \<Rightarrow> posix \<Rightarrow> storage \<Rightarrow> u32 \<Rightarrow> string \<Rightarrow> nat option \<times> posix \<times> storage" where
  "storage_open e px st node path =
     (case first_index (\<lambda>p. pt_path p = path) partition_table of
        None \<Rightarrow> (None, px, st)
      | Some part \<Rightarrow>
          (case first_index (\<lambda>f. in_use f \<and> rf_node f = node \<and> rf_partition f = Some part) (st_fds st) of
             Some i \<Rightarrow> (Some i, px, st)
           | None \<Rightarrow>
               (case first_index (\<lambda>f. \<not> in_use f) (st_fds st) of
                  None \<Rightarrow> (None, px, st)
                | Some i \<Rightarrow>
                    (let p = partition_table ! part;
                         file = (if st_use_partitions st then pt_partlabel p else pt_actual p);
                         fspath = st_dir st @ ''/'' @ file;
                         f = st_fds st ! i;
                         (ret, px1, f1) = storage_open_file e px (st_read_only st) f fspath
                     in if ret < 0 then (None, px1, st)
                        else (Some i, px1,
                          st\<lparr>st_fds := (st_fds st)[i := f1\<lparr>rf_node := node, rf_partition := Some part\<rparr>]\<rparr>)))))"

definition storage_close :: "posix \<Rightarrow> storage \<Rightarrow> nat \<Rightarrow> posix \<times> storage" where
  "storage_close px st i =
     (let f = st_fds st ! i in
      (px_close px (rf_fd f),
       st\<lparr>st_fds := (st_fds st)[i := f\<lparr>rf_fd := -1, rf_shadow := None, rf_shadow_len := 0, rf_partition := None\<rparr>]\<rparr>))"

text \<open>\<open>storage_get\<close>: the outer option is the array access, the inner one the pointer. The
  second argument is a signed \<open>int\<close>.\<close>

definition storage_get :: "storage \<Rightarrow> u32 \<Rightarrow> int \<Rightarrow> nat option option" where
  "storage_get st node caller_id =
     (if caller_id \<ge> int MAX_CALLERS then Some None
      else if caller_id < 0 then None
      else Some (if rf_node (st_fds st ! nat caller_id) \<noteq> node then None else Some (nat caller_id)))"

definition storage_get_caller_id :: "storage \<Rightarrow> nat \<Rightarrow> nat" where
  "storage_get_caller_id st i = rf_id (st_fds st ! i)"

text \<open>\<open>storage_get_error\<close> of a pointer that may be \<open>NULL\<close>.\<close>

definition storage_get_error :: "storage \<Rightarrow> nat option \<Rightarrow> nat option" where
  "storage_get_error st h = map_option (\<lambda>i. rf_dev_error (st_fds st ! i)) h"

fun storage_exit_loop :: "posix \<Rightarrow> rmtfd list \<Rightarrow> posix" where
  "storage_exit_loop px [] = px"
| "storage_exit_loop px (f # fs) = storage_exit_loop (if rf_fd f \<ge> 0 then px_close px (rf_fd f) else px) fs"

definition storage_exit :: "posix \<Rightarrow> storage \<Rightarrow> posix" where
  "storage_exit px st = storage_exit_loop px (st_fds st)"

text \<open>The difference of two \<open>size_t\<close> values.\<close>

definition sub64 :: "nat \<Rightarrow> nat \<Rightarrow> nat" where
  "sub64 a b = (2 ^ 64 + a - b) mod 2 ^ 64"

text \<open>\<open>storage_pread\<close> into a buffer of \<open>nbyte\<close> bytes with the content \<open>buf\<close>: the return value,
  the buffer and the system. The return value of a failed \<open>pread\<close> is -1, which the comparison with the
  unsigned \<open>nbyte\<close> takes for a large number: nothing is cleared. The difference of
  \<open>shadow_len\<close> and \<open>offset\<close> is unsigned too.\<close>

definition storage_pread :: "posix \<Rightarrow> storage \<Rightarrow> nat \<Rightarrow> bytes \<Rightarrow> nat \<Rightarrow> nat \<Rightarrow> (int \<times> bytes \<times> posix) option" where
  "storage_pread px st i buf nbyte off =
     (let f = st_fds st ! i in
      if \<not> st_read_only st then
        (case px_pread px (rf_fd f) nbyte off of
           (None, px1) \<Rightarrow> Some (int nbyte, buf, px1)
         | (Some bs, px1) \<Rightarrow> Some (int nbyte, bs @ replicate (nbyte - length bs) 0, px1))
      else
        let avail = sub64 (rf_shadow_len f) off; n = min nbyte avail in
        if n > 0 then do {
          shadow \<leftarrow> rf_shadow f;
          bs \<leftarrow> mem_read shadow off n;
          Some (int nbyte, bs @ replicate (nbyte - n) 0, px) }
        else Some (int nbyte, replicate nbyte 0, px))"

text \<open>\<open>storage_pwrite\<close>: \<open>new_len\<close> is a \<open>size_t\<close>; the bytes \<open>realloc\<close> adds are whatever \<open>junk\<close> says.\<close>

definition storage_pwrite ::
    "st_env \<Rightarrow> (nat \<Rightarrow> u8) \<Rightarrow> posix \<Rightarrow> storage \<Rightarrow> nat \<Rightarrow> bytes \<Rightarrow> nat \<Rightarrow> (int \<times> posix \<times> storage) option" where
  "storage_pwrite e junk px st i bs off =
     (let f = st_fds st ! i; nbyte = length bs; new_len = (off + nbyte) mod 2 ^ 64 in
      if \<not> st_read_only st then
        let (n, px1) = px_pwrite px (rf_fd f) bs off in Some (n, px1, st)
      else if new_len \<ge> STORAGE_MAX_SIZE then Some (-1, px, st)
      else if new_len > rf_shadow_len f \<and> \<not> ev_alloc e new_len then Some (-1, px, st)
      else do {
        let old = (case rf_shadow f of Some b \<Rightarrow> b | None \<Rightarrow> []);
        buf \<leftarrow> (if new_len > rf_shadow_len f
               then Some (take new_len old @ map junk [length old..<new_len])
               else rf_shadow f);
        buf1 \<leftarrow> mem_write buf off bs;
        let f1 = f\<lparr>rf_shadow := Some buf1, rf_shadow_len := max (rf_shadow_len f) new_len\<rparr>;
        Some (int nbyte, px, st\<lparr>st_fds := (st_fds st)[i := f1]\<rparr>) })"

section \<open>The invariant\<close>

lemma first_index_Some:
  "first_index P xs = Some i \<Longrightarrow> i < length xs \<and> P (xs ! i) \<and> (\<forall>j < i. \<not> P (xs ! j))"
proof (induction xs arbitrary: i)
  case Nil
  then show ?case by simp
next
  case (Cons x xs)
  then show ?case by (cases i) (auto simp: less_Suc_eq_0_disj split: if_splits)
qed

lemma first_index_None: "first_index P xs = None \<Longrightarrow> x \<in> set xs \<Longrightarrow> \<not> P x"
  by (induction xs) (auto split: if_splits)

lemma first_index_unique:
  assumes "i < length xs" and "P (xs ! i)" and "\<And>j. j < length xs \<Longrightarrow> P (xs ! j) \<Longrightarrow> j = i"
  shows "first_index P xs = Some i"
proof (cases "first_index P xs")
  case None
  then show ?thesis using first_index_None [OF None, of "xs ! i"] assms(1,2) by simp
next
  case (Some j)
  then show ?thesis using first_index_Some [OF Some] assms(3) by auto
qed

text \<open>Every handle is free, or holds an open descriptor, or (read-only) a copy of at least
  \<open>shadow_len\<close> bytes. (A handle in use need not have a partition: a write to a closed handle in
  read-only mode allocates a copy again.)\<close>

definition handle_ok :: "posix \<Rightarrow> bool \<Rightarrow> rmtfd \<Rightarrow> bool" where
  "handle_ok px read_only f \<longleftrightarrow>
     (\<forall>p. rf_partition f = Some p \<longrightarrow> p < length partition_table) \<and>
     (\<not> in_use f \<longrightarrow> rf_partition f = None) \<and>
     (if read_only
      then rf_fd f = -1 \<and> rf_shadow_len f \<le> (case rf_shadow f of None \<Rightarrow> 0 | Some b \<Rightarrow> length b)
      else rf_shadow f = None \<and> (rf_fd f \<noteq> -1 \<longrightarrow> px_content px (rf_fd f) \<noteq> None))"

definition px_ok :: "posix \<Rightarrow> bool" where
  "px_ok px \<longleftrightarrow> 0 \<le> px_next px \<and> (\<forall>fd. px_fds px fd \<noteq> None \<longrightarrow> 0 \<le> fd \<and> fd < px_next px)"

text \<open>No two handles share a descriptor, and no two handles in use have the same node and the
  same partition.\<close>

definition apart :: "rmtfd \<Rightarrow> rmtfd \<Rightarrow> bool" where
  "apart f g \<longleftrightarrow>
     (rf_fd f \<noteq> -1 \<longrightarrow> rf_fd f \<noteq> rf_fd g) \<and>
     (in_use f \<and> in_use g \<and> rf_node f = rf_node g \<and> rf_partition f \<noteq> None \<longrightarrow> rf_partition f \<noteq> rf_partition g)"

lemma apart_sym: "apart f g \<Longrightarrow> apart g f"
  by (auto simp: apart_def)

definition storage_inv :: "posix \<Rightarrow> storage \<Rightarrow> bool" where
  "storage_inv px st \<longleftrightarrow>
     px_ok px \<and> length (st_fds st) = MAX_CALLERS \<and>
     (\<forall>i < MAX_CALLERS. rf_id (st_fds st ! i) = i \<and> handle_ok px (st_read_only st) (st_fds st ! i)) \<and>
     (\<forall>i < MAX_CALLERS. \<forall>j < MAX_CALLERS. i \<noteq> j \<longrightarrow> apart (st_fds st ! i) (st_fds st ! j))"

lemma storage_invD:
  assumes "storage_inv px st"
  shows "px_ok px" and "length (st_fds st) = MAX_CALLERS"
    and "\<And>i. i < MAX_CALLERS \<Longrightarrow> rf_id (st_fds st ! i) = i"
    and "\<And>i. i < MAX_CALLERS \<Longrightarrow> handle_ok px (st_read_only st) (st_fds st ! i)"
  using assms by (simp_all add: storage_inv_def)

lemma storage_inv_apart:
  assumes "storage_inv px st" and "i < MAX_CALLERS" and "j < MAX_CALLERS" and "i \<noteq> j"
  shows "apart (st_fds st ! i) (st_fds st ! j)"
  using assms by (simp add: storage_inv_def)

lemma storage_init_inv:
  assumes "px_ok px"
  shows "storage_inv px (storage_init android blank_storage root ro parts)"
proof -
  have f: "st_fds (storage_init android blank_storage root ro parts) ! i =
      \<lparr>rf_id = i, rf_node = 0, rf_fd = -1, rf_dev_error = 0, rf_partition = None, rf_shadow = None, rf_shadow_len = 0\<rparr>"
    if "i < 10" for i
    using that by (simp add: storage_init_def blank_storage_def)
  have "length (st_fds (storage_init android blank_storage root ro parts)) = 10"
    by (simp add: storage_init_def blank_storage_def)
  then show ?thesis using assms f by (auto simp: storage_inv_def handle_ok_def in_use_def apart_def)
qed

text \<open>Changing one handle.\<close>

lemma storage_inv_change:
  assumes inv: "storage_inv px st" and i: "i < MAX_CALLERS" and px: "px_ok px'"
    and ok: "rf_id f = i" "handle_ok px' (st_read_only st) f"
    and others: "\<And>j. j < MAX_CALLERS \<Longrightarrow> j \<noteq> i \<Longrightarrow> handle_ok px' (st_read_only st) (st_fds st ! j)"
    and new: "\<And>j. j < MAX_CALLERS \<Longrightarrow> j \<noteq> i \<Longrightarrow> apart f (st_fds st ! j)"
  shows "storage_inv px' (st\<lparr>st_fds := (st_fds st)[i := f]\<rparr>)"
proof -
  have len: "length (st_fds st) = MAX_CALLERS" using storage_invD(2) [OF inv] .
  have nth: "(st_fds st)[i := f] ! j = (if j = i then f else st_fds st ! j)" if "j < MAX_CALLERS" for j
    using that len by (simp add: nth_list_update)
  have pair: "apart ((st_fds st)[i := f] ! a) ((st_fds st)[i := f] ! b)"
    if ab: "a < MAX_CALLERS" "b < MAX_CALLERS" "a \<noteq> b" for a b
    using ab storage_inv_apart [OF inv ab] new [of a] new [of b] by (auto simp: nth intro: apart_sym)
  show ?thesis
    unfolding storage_inv_def using px len ok others pair storage_invD(3) [OF inv] by (simp add: nth)
qed

section \<open>Opening and closing\<close>

lemma px_call_fields:
  assumes "px_call px = (r, px1)"
  shows "px_files px1 = px_files px" and "px_fds px1 = px_fds px" and "px_next px1 = px_next px" and "px_io px1 = px_io px"
    and "px_content px1 = px_content px" and "px_ok px1 = px_ok px"
  using assms by (auto simp: px_call_def px_ok_def px_content_def fun_eq_iff split: option.splits)

lemma px_open_ok:
  assumes "px_ok px" and "px_open px path = (fd, px1)" and "0 \<le> fd"
  shows "px_ok px1" and "px_content px1 fd = px_files px path" and "px_files px path \<noteq> None"
    and "px_fds px fd = None" and "px_files px1 = px_files px" and "px_fds px1 fd = Some path"
    and "\<And>x. x \<noteq> fd \<Longrightarrow> px_content px1 x = px_content px x"
proof -
  have eq: "fd = px_next px" "px_fds px1 = (px_fds px)(px_next px \<mapsto> path)" "px_next px1 = px_next px + 1"
    "px_files px1 = px_files px" "px_files px path \<noteq> None"
    using assms(2,3) by (auto simp: px_open_def px_call_def split: if_splits)
  have old: "px_fds px x \<noteq> None \<Longrightarrow> 0 \<le> x \<and> x < px_next px" for x using assms(1) by (auto simp: px_ok_def)
  show "px_ok px1"
    unfolding px_ok_def
  proof (intro conjI allI impI)
    show "0 \<le> px_next px1" using assms(3) eq by simp
    fix x
    assume "px_fds px1 x \<noteq> None"
    then show "0 \<le> x" "x < px_next px1" using old [of x] assms(3) eq by (auto split: if_splits)
  qed
  show "px_fds px fd = None" using old [of fd] eq by fastforce
  show "px_content px1 fd = px_files px path" "px_files px path \<noteq> None" "px_files px1 = px_files px"
    "px_fds px1 fd = Some path"
    using eq by (simp_all add: px_content_def)
  show "px_content px1 x = px_content px x" if "x \<noteq> fd" for x
    using eq that by (simp add: px_content_def split: option.split)
qed

lemma px_open_fails:
  assumes "px_ok px" and "px_open px path = (fd, px1)" and "fd < 0"
  shows "px_ok px1" and "px_files px1 = px_files px" and "px_content px1 = px_content px"
proof -
  have "px1 = snd (px_call px)" using assms by (auto simp: px_open_def px_ok_def px_call_def split: if_splits)
  then show "px_ok px1" "px_files px1 = px_files px" "px_content px1 = px_content px"
    using px_call_fields [of px "fst (px_call px)" px1] assms(1) by simp_all
qed

lemma px_close_ok: "px_ok px \<Longrightarrow> px_ok (px_close px fd)"
  by (simp add: px_ok_def px_close_def)

lemma px_close_content: "x \<noteq> fd \<Longrightarrow> px_content (px_close px fd) x = px_content px x"
  by (simp add: px_content_def px_close_def split: option.split)

lemma handle_ok_px:
  assumes "handle_ok px ro f" and "rf_fd f \<noteq> -1 \<longrightarrow> px_content px' (rf_fd f) = px_content px (rf_fd f)"
  shows "handle_ok px' ro f"
  using assms by (auto simp: handle_ok_def split: if_splits)

text \<open>\<open>populate\<close> leaves the files and the open descriptors as it found them.\<close>

lemma populate_result:
  assumes px: "px_ok px" and r: "storage_populate_shadow_buf e px f file = (ret, px1, f1)"
  shows "px_ok px1 \<and> px_files px1 = px_files px \<and> px_content px1 = px_content px \<and>
    (if ret < 0 then f1 = f
     else ret = 0 \<and> (\<exists>bs m. px_files px file = Some bs \<and> m \<le> length bs \<and>
       f1 = f\<lparr>rf_shadow := Some (take m bs @ replicate (length bs - m) 0), rf_shadow_len := m\<rparr>))"
proof -
  obtain fd px2 where o: "px_open px file = (fd, px2)" by fastforce
  show ?thesis
  proof (cases "fd < 0")
    case True
    then show ?thesis using r px_open_fails [OF px o True] o by (auto simp: storage_populate_shadow_buf_def)
  next
    case False
    then have nn: "0 \<le> fd" by simp
    note p = px_open_ok [OF px o nn]
    obtain bs where bs: "px_files px file = Some bs" using p(3) by auto
    obtain seek px3 where k: "px_call px2 = (seek, px3)" by fastforce
    obtain rd px4 where d: "px_call px3 = (rd, px4)" by fastforce
    note c = px_call_fields [OF k] px_call_fields [OF d]
    have c3: "px_content px3 fd = Some bs" using p(2) bs c by simp
    have px1: "px1 = px_close px3 fd \<or> px1 = px_close px4 fd" using r o k d False c3
      by (auto simp: storage_populate_shadow_buf_def split: if_splits option.splits)
    have same: "px_ok x" "px_content x = px_content px2" "px_files x = px_files px" if "x = px3 \<or> x = px4" for x
      using that c p(1,5) by auto
    have "px_content (px_close x fd) y = px_content px y" if "x = px3 \<or> x = px4" for x y
    proof (cases "y = fd")
      case True
      then show ?thesis using p(4) by (simp add: px_close_def px_content_def)
    next
      case ne: False
      then show ?thesis using p(7) [OF ne] px_close_content [OF ne] same(2) [OF that] by simp
    qed
    then have "px_content px1 = px_content px" using px1 by (auto simp: fun_eq_iff)
    moreover have "px_files (px_close x fd) = px_files px \<and> px_ok (px_close x fd)" if "x = px3 \<or> x = px4" for x
      using same(1,3) [OF that] px_close_ok by (simp add: px_close_def)
    then have "px_files px1 = px_files px" "px_ok px1" using px1 by blast+
    moreover have "if ret < 0 then f1 = f else ret = 0 \<and> (\<exists>m. m \<le> length bs \<and>
        f1 = f\<lparr>rf_shadow := Some (take m bs @ replicate (length bs - m) 0), rf_shadow_len := m\<rparr>)"
    proof (cases "seek = None \<or> \<not> ev_alloc e (length bs) \<or> rd = None")
      case True
      then show ?thesis using r o k d False c3
        by (auto simp: storage_populate_shadow_buf_def split: if_splits option.splits)
    next
      case ok: False
      then obtain m where m: "rd = Some m" by auto
      have "f1 = f\<lparr>rf_shadow := Some (take m bs @ replicate (length bs - m) 0), rf_shadow_len := min m (length bs)\<rparr>" "ret = 0"
        using r o k d False c3 ok m by (auto simp: storage_populate_shadow_buf_def)
      moreover have "take (min m (length bs)) bs = take m bs" "length bs - min m (length bs) = length bs - m"
        by (simp_all add: min_def)
      ultimately show ?thesis by (auto intro!: exI [of _ "min m (length bs)"])
    qed
    ultimately show ?thesis using bs by simp
  qed
qed

text \<open>What an open handle stands for: the bytes a reader sees.\<close>

definition handle_content :: "posix \<Rightarrow> storage \<Rightarrow> nat \<Rightarrow> bytes option" where
  "handle_content px st i =
     (if st_read_only st then map_option (take (rf_shadow_len (st_fds st ! i))) (rf_shadow (st_fds st ! i))
      else px_content px (rf_fd (st_fds st ! i)))"

lemma storage_open_new:
  assumes inv: "storage_inv px st" and part: "part < length partition_table"
    and none: "\<forall>j < MAX_CALLERS. in_use (st_fds st ! j) \<longrightarrow> rf_node (st_fds st ! j) \<noteq> node \<or> rf_partition (st_fds st ! j) \<noteq> Some part"
    and i: "i < MAX_CALLERS" "\<not> in_use (st_fds st ! i)"
    and f: "f = st_fds st ! i"
    and r: "storage_open_file e px (st_read_only st) f fspath = (ret, px1, f1)"
  shows "if ret < 0 then storage_inv px1 st \<and> px_files px1 = px_files px
    else storage_inv px1 (st\<lparr>st_fds := (st_fds st)[i := f1\<lparr>rf_node := node, rf_partition := Some part\<rparr>]\<rparr>) \<and>
      in_use f1 \<and> px_files px1 = px_files px \<and> px_files px fspath \<noteq> None"
proof -
  have px: "px_ok px" and len: "length (st_fds st) = MAX_CALLERS" using storage_invD [OF inv] by auto
  have h: "handle_ok px (st_read_only st) (st_fds st ! j)" "rf_id (st_fds st ! j) = j" if "j < MAX_CALLERS" for j
    using storage_invD(3,4) [OF inv that] by auto
  have free: "rf_fd f = -1" "rf_shadow f = None" using i(2) f by (simp_all add: in_use_def)
  show ?thesis
  proof (cases "st_read_only st")
    case True
    then have p: "storage_populate_shadow_buf e px f fspath = (ret, px1, f1)" using r by (simp add: storage_open_file_def)
    note pr = populate_result [OF px p]
    have others: "handle_ok px1 (st_read_only st) (st_fds st ! j)" if "j < MAX_CALLERS" for j
      by (rule handle_ok_px [OF h(1) [OF that]]) (use pr in simp)
    show ?thesis
    proof (cases "ret < 0")
      case neg: True
      then show ?thesis using pr inv others by (auto simp: storage_inv_def)
    next
      case False
      then obtain bs m where bs: "px_files px fspath = Some bs" "m \<le> length bs"
        "f1 = f\<lparr>rf_shadow := Some (take m bs @ replicate (length bs - m) 0), rf_shadow_len := m\<rparr>"
        using pr by auto
      have "storage_inv px1 (st\<lparr>st_fds := (st_fds st)[i := f1\<lparr>rf_node := node, rf_partition := Some part\<rparr>]\<rparr>)"
        by (rule storage_inv_change [OF inv i(1)])
          (use pr h(2) [OF i(1)] True free others none part in \<open>auto simp: bs f handle_ok_def in_use_def apart_def\<close>)
      then show ?thesis using False pr bs True by (auto simp: in_use_def)
    qed
  next
    case False
    obtain fd px2 where o: "px_open px fspath = (fd, px2)" by fastforce
    show ?thesis
    proof (cases "fd < 0")
      case True
      then have "storage_inv px2 st"
        using inv px_open_fails(1,3) [OF px o True] by (simp add: storage_inv_def handle_ok_def)
      then show ?thesis using r False o True px_open_fails(2) [OF px o True] by (simp add: storage_open_file_def)
    next
      case nn: False
      then have eq: "ret = 0" "px1 = px2" "f1 = f\<lparr>rf_fd := fd, rf_shadow_len := 0\<rparr>" "0 \<le> fd" using r False o by (auto simp: storage_open_file_def)
      note p = px_open_ok [OF px o eq(4)]
      have valid: "fd \<noteq> -1" using eq(4) by simp
      have fresh: "rf_fd (st_fds st ! j) \<noteq> fd" if "j < MAX_CALLERS" for j
        using h(1) [OF that] p(4) False eq(4) by (auto simp: handle_ok_def px_content_def)
      have others: "handle_ok px1 (st_read_only st) (st_fds st ! j)" if "j < MAX_CALLERS" for j
        by (rule handle_ok_px [OF h(1) [OF that]]) (use p(7) fresh [OF that] eq in auto)
      have "apart (f1\<lparr>rf_node := node, rf_partition := Some part\<rparr>) (st_fds st ! j)" if "j < MAX_CALLERS" for j
        using fresh [OF that] none that by (auto simp: eq apart_def)
      then have "storage_inv px1 (st\<lparr>st_fds := (st_fds st)[i := f1\<lparr>rf_node := node, rf_partition := Some part\<rparr>]\<rparr>)"
        by (intro storage_inv_change [OF inv i(1)])
          (use p h(2) [OF i(1)] False free others part valid in \<open>auto simp: eq(1-3) f handle_ok_def in_use_def\<close>)
      then show ?thesis using False eq p by (auto simp: in_use_def)
    qed
  qed
qed

lemma partition_found:
  "first_index (\<lambda>p. pt_path p = path) partition_table = Some part \<Longrightarrow>
     part < length partition_table \<and> pt_path (partition_table ! part) = path"
  using first_index_Some by fastforce

lemma storage_open_result:
  assumes inv: "storage_inv px st" and r: "storage_open e px st node path = (h, px', st')"
  shows "storage_inv px' st' \<and> px_files px' = px_files px \<and>
    (case h of
       None \<Rightarrow> st' = st
     | Some i \<Rightarrow> i < MAX_CALLERS \<and> in_use (st_fds st' ! i) \<and> rf_node (st_fds st' ! i) = node \<and>
         (\<exists>p. rf_partition (st_fds st' ! i) = Some p \<and> p < length partition_table \<and> pt_path (partition_table ! p) = path) \<and>
         (\<forall>j < MAX_CALLERS. j \<noteq> i \<longrightarrow> st_fds st' ! j = st_fds st ! j))"
proof (cases "first_index (\<lambda>p. pt_path p = path) partition_table")
  case None
  then show ?thesis using inv r by (simp add: storage_open_def)
next
  case (Some part)
  note part = partition_found [OF Some]
  have len: "length (st_fds st) = MAX_CALLERS" using storage_invD(2) [OF inv] .
  let ?P = "\<lambda>f. in_use f \<and> rf_node f = node \<and> rf_partition f = Some part"
  show ?thesis
  proof (cases "first_index ?P (st_fds st)")
    case hit: (Some i)
    have eq: "h = Some i" "px' = px" "st' = st" using r Some hit by (simp_all add: storage_open_def)
    show ?thesis using first_index_Some [OF hit] part inv len by (simp add: eq)
  next
    case miss: None
    then have none: "\<forall>j < MAX_CALLERS. in_use (st_fds st ! j) \<longrightarrow> rf_node (st_fds st ! j) \<noteq> node \<or> rf_partition (st_fds st ! j) \<noteq> Some part"
      using first_index_None [OF miss] len nth_mem [of _ "st_fds st"] by auto
    show ?thesis
    proof (cases "first_index (\<lambda>f. \<not> in_use f) (st_fds st)")
      case None
      then show ?thesis using r Some miss inv by (simp add: storage_open_def)
    next
      case free: (Some i)
      then have i: "i < MAX_CALLERS" "\<not> in_use (st_fds st ! i)" using first_index_Some [OF free] len by auto
      let ?p = "partition_table ! part"
      define fspath where "fspath = st_dir st @ ''/'' @ (if st_use_partitions st then pt_partlabel ?p else pt_actual ?p)"
      obtain ret px1 f1 where q: "storage_open_file e px (st_read_only st) (st_fds st ! i) fspath = (ret, px1, f1)"
        by (rule prod_cases3)
      have run: "storage_open e px st node path = (if ret < 0 then (None, px1, st)
          else (Some i, px1, st\<lparr>st_fds := (st_fds st)[i := f1\<lparr>rf_node := node, rf_partition := Some part\<rparr>]\<rparr>))"
        using Some miss free q by (simp add: storage_open_def fspath_def Let_def)
      have new: "if ret < 0 then storage_inv px1 st \<and> px_files px1 = px_files px
        else storage_inv px1 (st\<lparr>st_fds := (st_fds st)[i := f1\<lparr>rf_node := node, rf_partition := Some part\<rparr>]\<rparr>) \<and>
          in_use f1 \<and> px_files px1 = px_files px \<and> px_files px fspath \<noteq> None"
        using storage_open_new [OF inv conjunct1 [OF part] none i refl q] .
      show ?thesis
      proof (cases "ret < 0")
        case True
        then show ?thesis using run r new by auto
      next
        case False
        then have eq: "h = Some i" "px' = px1"
          "st' = st\<lparr>st_fds := (st_fds st)[i := f1\<lparr>rf_node := node, rf_partition := Some part\<rparr>]\<rparr>"
          using run r by auto
        show ?thesis using False new part i(1) len by (auto simp: eq in_use_def)
      qed
    qed
  qed
qed

text \<open>An open handle is found again.\<close>

lemma storage_open_hit:
  assumes inv: "storage_inv px st" and i: "i < MAX_CALLERS" and use: "in_use (st_fds st ! i)"
    and p: "rf_partition (st_fds st ! i) = Some p" "p < length partition_table"
  shows "storage_open e px st (rf_node (st_fds st ! i)) (pt_path (partition_table ! p)) = (Some i, px, st)"
proof -
  have len: "length (st_fds st) = MAX_CALLERS" using storage_invD(2) [OF inv] .
  have "distinct (map pt_path partition_table)" by (simp add: partition_table_def)
  then have "first_index (\<lambda>q. pt_path q = pt_path (partition_table ! p)) partition_table = Some p"
    using p(2) by (intro first_index_unique) (auto simp: distinct_conv_nth)
  moreover have "first_index (\<lambda>f. in_use f \<and> rf_node f = rf_node (st_fds st ! i) \<and> rf_partition f = Some p) (st_fds st) = Some i"
    using i use p(1) len storage_inv_apart [OF inv _ i] by (intro first_index_unique) (auto simp: apart_def)
  ultimately show ?thesis by (simp add: storage_open_def)
qed

lemma storage_close_inv:
  assumes inv: "storage_inv px st" and i: "i < MAX_CALLERS" and r: "storage_close px st i = (px', st')"
  shows "storage_inv px' st' \<and> \<not> in_use (st_fds st' ! i) \<and> px_files px' = px_files px \<and>
    (\<forall>j < MAX_CALLERS. j \<noteq> i \<longrightarrow> st_fds st' ! j = st_fds st ! j \<and> handle_content px' st' j = handle_content px st j)"
proof -
  have px: "px_ok px" and len: "length (st_fds st) = MAX_CALLERS" using storage_invD [OF inv] by auto
  define f where "f = (st_fds st ! i)\<lparr>rf_fd := -1, rf_shadow := None, rf_shadow_len := 0, rf_partition := None\<rparr>"
  have eq: "px' = px_close px (rf_fd (st_fds st ! i))" "st' = st\<lparr>st_fds := (st_fds st)[i := f]\<rparr>"
    using r by (simp_all add: storage_close_def f_def Let_def)
  have same: "px_content px' (rf_fd (st_fds st ! j)) = px_content px (rf_fd (st_fds st ! j))"
    if "j < MAX_CALLERS" "j \<noteq> i" for j
  proof (cases "rf_fd (st_fds st ! i) = rf_fd (st_fds st ! j)")
    case True
    then have "rf_fd (st_fds st ! j) = -1" using storage_inv_apart [OF inv that(1) i that(2)] by (auto simp: apart_def)
    then have "px_fds px (rf_fd (st_fds st ! j)) = None" using px by (fastforce simp: px_ok_def)
    then show ?thesis by (simp add: eq px_content_def px_close_def split: option.split)
  next
    case False
    then show ?thesis using px_close_content [of "rf_fd (st_fds st ! j)"] by (simp add: eq)
  qed
  have h: "handle_ok px (st_read_only st) (st_fds st ! j)" "rf_id (st_fds st ! j) = j" if "j < MAX_CALLERS" for j
    using storage_invD(3,4) [OF inv that] by auto
  have f: "rf_id f = i" "handle_ok px' (st_read_only st) f" "rf_fd f = -1" "\<not> in_use f"
    using h(2) [OF i] by (simp_all add: f_def handle_ok_def in_use_def)
  have "handle_ok px' (st_read_only st) (st_fds st ! j)" if "j < MAX_CALLERS" "j \<noteq> i" for j
    using handle_ok_px [OF h(1) [OF that(1)], of px'] same [OF that] by simp
  then have "storage_inv px' st'"
    unfolding eq(2) using f px_close_ok [OF px]
    by (intro storage_inv_change [OF inv i]) (auto simp: eq(1) apart_def)
  then show ?thesis
    using i len same by (auto simp: eq(2) f_def in_use_def handle_content_def) (auto simp: eq(1) px_close_def)
qed

section \<open>Reading and writing\<close>

text \<open>A file or copy read like a disk: bytes beyond the end are zero.\<close>

definition disk_read :: "bytes \<Rightarrow> nat \<Rightarrow> nat \<Rightarrow> bytes" where
  "disk_read bs off n = take n (drop off bs) @ replicate (n - (length bs - off)) 0"

lemma length_disk_read [simp]: "length (disk_read bs off n) = n"
  by (simp add: disk_read_def)

lemma length_file_write: "length (file_write file off bs) = max (length file) (off + length bs)"
  by (simp add: file_write_def)

lemma disk_read_nth: "i < n \<Longrightarrow> disk_read bs off n ! i = (if off + i < length bs then bs ! (off + i) else 0)"
  by (simp add: disk_read_def nth_append min_def) (auto intro: arg_cong)

lemma file_write_nth:
  "i < length (file_write file off bs) \<Longrightarrow> file_write file off bs ! i =
     (if off \<le> i \<and> i < off + length bs then bs ! (i - off) else if i < length file then file ! i else 0)"
  by (auto simp: file_write_def nth_append min_def)

text \<open>Reading back what was written, and reading elsewhere.\<close>

lemma disk_read_write_same: "disk_read (file_write file off bs) off (length bs) = bs"
  by (rule nth_equalityI) (auto simp: disk_read_nth file_write_nth length_file_write max_def)

lemma disk_read_write_other:
  "off' + n \<le> off \<or> off + length bs \<le> off' \<Longrightarrow> disk_read (file_write file off bs) off' n = disk_read file off' n"
  by (rule nth_equalityI) (auto simp: disk_read_nth file_write_nth length_file_write)

lemma pread_file:
  assumes "\<not> st_read_only st" and "px_content px (rf_fd (st_fds st ! i)) = Some bs" and "whole px n"
  shows "storage_pread px st i buf n off = Some (int n, disk_read bs off n, snd (px_call px))"
proof -
  obtain m where "n \<le> m" "px_io px (px_calls px) = Some m" using assms(3) by (auto simp: whole_def)
  then have "px_pread px (rf_fd (st_fds st ! i)) n off = (Some (take n (drop off bs)), snd (px_call px))"
    using assms(2) by (simp add: px_pread_def px_call_def min_absorb1)
  then show ?thesis using assms(1) by (simp add: storage_pread_def disk_read_def min_def)
qed

lemma pread_shadow:
  assumes ro: "st_read_only st" and sh: "rf_shadow (st_fds st ! i) = Some bs"
    and len: "rf_shadow_len (st_fds st ! i) = k" "k \<le> length bs" and off: "off \<le> k" and small: "k < 2 ^ 64"
  shows "storage_pread px st i buf n off = Some (int n, disk_read (take k bs) off n, px)"
proof -
  have avail: "sub64 k off = k - off"
  proof -
    have "2 ^ 64 + k - off = (k - off) + 2 ^ 64" using off by simp
    then show ?thesis using small unfolding sub64_def by (simp only: mod_add_self2) simp
  qed
  show ?thesis
    using ro sh len off
    by (auto simp: storage_pread_def avail Let_def mem_read_def disk_read_def min_def drop_take)
qed

text \<open>What a write that does not fail does to the content of the handle.\<close>

lemma pwrite_file:
  assumes "\<not> st_read_only st" and c: "px_content px (rf_fd (st_fds st ! i)) = Some file"
    and ok: "storage_pwrite e junk px st i bs off = Some (n, px', st')" "0 \<le> n"
  shows "st' = st \<and> nat n \<le> length bs \<and> (whole px (length bs) \<longrightarrow> n = int (length bs)) \<and>
    px_content px' (rf_fd (st_fds st ! i)) = Some (if n = 0 then file else file_write file off (take (nat n) bs))"
proof -
  let ?fd = "rf_fd (st_fds st ! i)"
  obtain path where path: "px_fds px ?fd = Some path" "px_files px path = Some file"
    using c by (auto simp: px_content_def split: option.splits)
  have w: "px_pwrite px ?fd bs off = (n, px')" "st' = st" using assms(1) ok(1) by (auto simp: storage_pwrite_def split: prod.splits)
  obtain m where m: "px_io px (px_calls px) = Some m"
    using w(1) ok(2) path by (cases "px_io px (px_calls px)") (auto simp: px_pwrite_def px_call_def)
  have n: "n = int (length (take m bs))" "take (nat n) bs = take m bs"
    using w(1) path m by (auto simp: px_pwrite_def px_call_def min_def)
  have "px_content px' ?fd = Some (if take m bs = [] then file else file_write file off (take m bs))"
    using w(1) path m by (auto simp: px_pwrite_def px_call_def px_content_def Let_def)
  moreover have "n = 0 \<longleftrightarrow> take m bs = []" using n(1) by (metis length_0_conv of_nat_eq_0_iff)
  ultimately have "px_content px' ?fd = Some (if n = 0 then file else file_write file off (take (nat n) bs))"
    using n(2) by simp
  moreover have "whole px (length bs) \<longrightarrow> n = int (length bs)" using n(1) m by (auto simp: whole_def)
  ultimately show ?thesis using w(2) n(1) by simp
qed

lemma pwrite_shadow:
  assumes ro: "st_read_only st" and sh: "rf_shadow (st_fds st ! i) = Some old" and i: "i < length (st_fds st)"
    and len: "rf_shadow_len (st_fds st ! i) = k" "k \<le> length old" and small: "length old < 2 ^ 64"
    and ok: "storage_pwrite e junk px st i bs off = Some (n, px', st')" "0 \<le> n"
  shows "n = int (length bs) \<and> px' = px \<and> off + length bs < STORAGE_MAX_SIZE \<and>
    (\<exists>buf. rf_shadow (st_fds st' ! i) = Some buf \<and> rf_shadow_len (st_fds st' ! i) = max k (off + length bs) \<and>
      st' = st\<lparr>st_fds := (st_fds st)[i := (st_fds st ! i)\<lparr>rf_shadow := Some buf, rf_shadow_len := max k (off + length bs)\<rparr>]\<rparr> \<and>
      max k (off + length bs) \<le> length buf \<and> take (length bs) (drop off buf) = bs \<and>
      (\<forall>j < k. j < off \<or> off + length bs \<le> j \<longrightarrow> buf ! j = old ! j))"
proof -
  let ?n = "off + length bs" and ?w = "(off + length bs) mod 2 ^ 64"
  define b where "b = (if ?w > k then take ?w old @ map junk [length old..<?w] else old)"
  have lb: "length b = (if ?w > k then ?w else length old)" by (auto simp: b_def)
  obtain buf where w: "mem_write b off bs = Some buf"
    using ok ro sh len by (auto simp: storage_pwrite_def Let_def b_def split: if_splits Option.bind_splits)
  then have fit: "?n \<le> length b" "buf = take off b @ bs @ drop ?n b" by (auto simp: mem_write_def split: if_splits)
  have "?w < 2 ^ 64" by simp
  then have nw: "?w = ?n" using fit(1) lb small by (intro mod_less) (auto split: if_splits)
  have f: "n = int (length bs)" "px' = px" "?n < STORAGE_MAX_SIZE"
    "st' = st\<lparr>st_fds := (st_fds st)[i := (st_fds st ! i)\<lparr>rf_shadow := Some buf, rf_shadow_len := max k ?n\<rparr>]\<rparr>"
    using ok ro sh len w nw by (auto simp: storage_pwrite_def Let_def b_def split: if_splits)
  have bo: "j < k \<Longrightarrow> b ! j = old ! j" for j using len(2) by (auto simp: b_def nth_append)
  have nth: "j < length buf \<Longrightarrow> buf ! j = (if off \<le> j \<and> j < ?n then bs ! (j - off) else b ! j)" for j
    using fit by (auto simp: nth_append min_def)
  have "length buf = length b" using fit by simp
  moreover have "max k ?n \<le> length b" using lb nw fit(1) len(2) by auto
  moreover have "take (length bs) (drop off buf) = bs" using fit by simp
  ultimately show ?thesis using f nth bo i by auto
qed

lemma pwrite_read_only:
  "st_read_only st \<Longrightarrow> storage_pwrite e junk px st i bs off = Some (n, px', st') \<Longrightarrow> px' = px"
  by (auto simp: storage_pwrite_def Let_def split: if_splits Option.bind_splits)

text \<open>A write keeps the invariant, whatever the state of the handle.\<close>

lemma px_pwrite_ok:
  assumes "px_ok px" and "px_pwrite px fd bs off = (n, px')"
  shows "px_ok px'" and "px_content px x \<noteq> None \<Longrightarrow> px_content px' x \<noteq> None" and "px_fds px' = px_fds px"
  using assms by (auto simp: px_pwrite_def px_call_def px_ok_def px_content_def Let_def split: option.splits if_splits)

lemma storage_inv_px:
  assumes "storage_inv px st" and "px_ok px'" and "\<And>x. px_content px x \<noteq> None \<Longrightarrow> px_content px' x \<noteq> None"
  shows "storage_inv px' st"
proof -
  have "handle_ok px' ro f" if "handle_ok px ro f" for ro f
    using that assms(3) by (auto simp: handle_ok_def split: if_splits)
  then show ?thesis using assms(1,2) by (simp add: storage_inv_def)
qed

lemma storage_pwrite_inv:
  assumes inv: "storage_inv px st" and i: "i < MAX_CALLERS"
    and r: "storage_pwrite e junk px st i bs off = Some (n, px', st')"
  shows "storage_inv px' st'"
proof (cases "st_read_only st")
  case False
  then have eq: "st' = st" and w: "px_pwrite px (rf_fd (st_fds st ! i)) bs off = (n, px')"
    using r by (auto simp: storage_pwrite_def Let_def split: prod.splits)
  note ok = px_pwrite_ok [OF storage_invD(1) [OF inv] w]
  show ?thesis unfolding eq by (rule storage_inv_px [OF inv ok(1,2)])
next
  case True
  let ?f = "st_fds st ! i"
  have px: "px' = px" by (rule pwrite_read_only [OF True r])
  note h = storage_invD(3,4) [OF inv i]
  show ?thesis
  proof (cases "st' = st")
    case same: True
    then show ?thesis using inv px by simp
  next
    case False
    let ?l = "max (rf_shadow_len ?f) ((off + length bs) mod 2 ^ 64)"
    let ?w = "(off + length bs) mod 2 ^ 64"
    define old where "old = (case rf_shadow ?f of Some b \<Rightarrow> b | None \<Rightarrow> [])"
    define buf where "buf = (if ?w > rf_shadow_len ?f then take ?w old @ map junk [length old..<?w] else old)"
    have "rf_shadow_len ?f \<le> length old" using h(2) True by (auto simp: handle_ok_def old_def split: option.splits)
    then have len: "?l \<le> length buf" by (auto simp: buf_def)
    obtain buf1 where w: "mem_write buf off bs = Some buf1"
      and st': "st' = st\<lparr>st_fds := (st_fds st)[i := ?f\<lparr>rf_shadow := Some buf1, rf_shadow_len := ?l\<rparr>]\<rparr>"
      using r True False unfolding storage_pwrite_def Let_def old_def [symmetric] buf_def
      by (auto simp: old_def split: if_splits option.splits Option.bind_splits)
    show ?thesis
      unfolding st' px
    proof (rule storage_inv_change [OF inv i storage_invD(1) [OF inv]])
      fix j assume j: "j < MAX_CALLERS" "j \<noteq> i"
      show "handle_ok px (st_read_only st) (st_fds st ! j)" by (rule storage_invD(4) [OF inv j(1)])
      show "apart (?f\<lparr>rf_shadow := Some buf1, rf_shadow_len := ?l\<rparr>) (st_fds st ! j)"
        using storage_inv_apart [OF inv i j(1)] j(2) h(2) True by (auto simp: apart_def in_use_def handle_ok_def)
    qed (use h True mem_write_length [OF w] len in \<open>auto simp: handle_ok_def in_use_def\<close>)
  qed
qed

lemma write_read_back:
  assumes inv: "storage_inv px st" and i: "i < MAX_CALLERS" and use: "in_use (st_fds st ! i)"
    and small: "\<forall>b. rf_shadow (st_fds st ! i) = Some b \<longrightarrow> length b < 2 ^ 63"
    and ok: "storage_pwrite e junk px st i bs off = Some (n, px', st')" "0 \<le> n"
  shows "nat n \<le> length bs \<and> (st_read_only st \<or> whole px (length bs) \<longrightarrow> n = int (length bs)) \<and>
    (st_read_only st \<or> whole px' (nat n) \<longrightarrow>
      (\<exists>px''. storage_pread px' st' i buf (nat n) off = Some (n, take (nat n) bs, px'')))"
proof -
  have h: "handle_ok px (st_read_only st) (st_fds st ! i)" and len: "length (st_fds st) = MAX_CALLERS"
    using storage_invD(2,4) [OF inv] i by auto
  show ?thesis
  proof (cases "st_read_only st")
    case False
    then obtain old where c: "px_content px (rf_fd (st_fds st ! i)) = Some old"
      using h use by (auto simp: handle_ok_def in_use_def)
    note w = pwrite_file [OF False c ok]
    have "disk_read (if n = 0 then old else file_write old off (take (nat n) bs)) off (nat n) = take (nat n) bs"
      using disk_read_write_same [of old off "take (nat n) bs"] w by (auto simp: disk_read_def min_absorb2)
    then show ?thesis using w pread_file [of st px' i _ "nat n" buf off] False ok(2) by auto
  next
    case True
    then obtain old where old: "rf_shadow (st_fds st ! i) = Some old" "rf_shadow_len (st_fds st ! i) \<le> length old"
      using h use by (auto simp: handle_ok_def in_use_def split: option.splits)
    have "length old < 2 ^ 64" using small old(1) by (auto intro: less_trans)
    from pwrite_shadow [OF True old(1) _ refl old(2) this ok] obtain b where b: "n = int (length bs)"
      "rf_shadow (st_fds st' ! i) = Some b" "rf_shadow_len (st_fds st' ! i) = max (rf_shadow_len (st_fds st ! i)) (off + length bs)"
      "max (rf_shadow_len (st_fds st ! i)) (off + length bs) \<le> length b" "take (length bs) (drop off b) = bs"
      "off + length bs < STORAGE_MAX_SIZE" "st_read_only st'"
      using i len True by auto
    let ?k = "max (rf_shadow_len (st_fds st ! i)) (off + length bs)"
    have k: "?k < 2 ^ 64" using b(6) small old by auto
    have "length bs \<le> ?k - off" by (simp add: le_diff_conv2 max.coboundedI2)
    then have "take (length bs) (drop off (take ?k b)) = bs" using b(5) by (simp add: drop_take min_absorb1)
    then have "disk_read (take ?k b) off (length bs) = bs" using b(4) by (simp add: disk_read_def)
    then show ?thesis using pread_shadow [OF b(7) b(2,3,4) _ k, of off px' buf "length bs"] b(1) True by simp
  qed
qed

section \<open>Properties\<close>

text \<open>C11: opening. In every state with the invariant, opening a path keeps the invariant and
  changes no file; a handle that is returned is open, belongs to the node and to the
  partition with that path, and no other handle has changed; and opening the same path again
  from the same node returns the same handle and changes nothing at all.\<close>

theorem storage_open_idempotent:
  assumes "storage_inv px st" and "storage_open e px st node path = (Some i, px', st')"
  shows "storage_inv px' st' \<and> px_files px' = px_files px \<and>
    in_use (st_fds st' ! i) \<and> rf_node (st_fds st' ! i) = node \<and>
    (\<forall>j < MAX_CALLERS. j \<noteq> i \<longrightarrow> st_fds st' ! j = st_fds st ! j) \<and>
    storage_open e' px' st' node path = (Some i, px', st')"
  using storage_open_result [OF assms] storage_open_hit [of px' st' i] by auto

text \<open>Closing. Closing a handle keeps the invariant, frees the handle, changes no file and
  no other handle, and every other handle still reads what it read.\<close>

lemma storage_close_isolated:
  assumes "storage_inv px st" and "i < MAX_CALLERS" and "storage_close px st i = (px', st')"
  shows "storage_inv px' st' \<and> \<not> in_use (st_fds st' ! i) \<and> px_files px' = px_files px \<and>
    (\<forall>j < MAX_CALLERS. j \<noteq> i \<longrightarrow> st_fds st' ! j = st_fds st ! j \<and> handle_content px' st' j = handle_content px st j)"
  by (rule storage_close_inv [OF assms])

text \<open>C5: what is written is read back, in both modes: after a write through an open handle that
  does not fail, a read of as many bytes from the same place through the handle returns exactly
  the bytes written. In read-only mode, where both work on a copy in memory, these are all bytes;
  otherwise the system may write fewer, and they are all bytes and are read back unless the
  system cuts the write or the read short.\<close>

theorem storage_write_read:
  assumes "storage_inv px st" and "i < MAX_CALLERS" and "in_use (st_fds st ! i)"
    and "\<forall>b. rf_shadow (st_fds st ! i) = Some b \<longrightarrow> length b < 2 ^ 63"
    and "storage_pwrite e junk px st i bs off = Some (n, px', st')" and "0 \<le> n"
  shows "nat n \<le> length bs \<and> (st_read_only st \<or> whole px (length bs) \<longrightarrow> n = int (length bs)) \<and>
    (st_read_only st \<or> whole px' (nat n) \<longrightarrow>
      (\<exists>px''. storage_pread px' st' i buf (nat n) off = Some (n, take (nat n) bs, px'')))"
  by (rule write_read_back [OF assms])

text \<open>A system with one file, and the storage before and after that file was opened.\<close>

definition demo_px :: posix where
  "demo_px = \<lparr>px_files = [''/boot/modem_fs1'' \<mapsto> [1, 2, 3]], px_fds = (\<lambda>_. None), px_next = 3,
     px_io = (\<lambda>_. Some 4096), px_calls = 0\<rparr>"

definition demo_env :: st_env where
  "demo_env = \<lparr>ev_alloc = (\<lambda>_. True)\<rparr>"

definition demo_storage :: "bool \<Rightarrow> storage" where
  "demo_storage ro = storage_init True blank_storage None ro False"

definition demo_open :: "bool \<Rightarrow> nat option \<times> posix \<times> storage" where
  "demo_open ro = storage_open demo_env demo_px (demo_storage ro) 7 ''/boot/modem_fs1''"

lemma demo_inv: "storage_inv demo_px (demo_storage ro)"
  by (simp add: demo_storage_def storage_init_inv px_ok_def demo_px_def)

lemma demo_open_some: "fst (demo_open True) = Some 0" "fst (demo_open False) = Some 0"
  by code_simp+

lemma demo_open_state:
  obtains px st where "demo_open ro = (Some 0, px, st)" and "storage_inv px st" and "in_use (st_fds st ! 0)"
proof -
  obtain h px st where o: "demo_open ro = (h, px, st)" by (rule prod_cases3)
  have "h = Some 0" using demo_open_some o by (cases ro) auto
  then show ?thesis
    using that o storage_open_result [OF demo_inv [of ro], of demo_env 7 "''/boot/modem_fs1''" h px st]
    by (auto simp: demo_open_def)
qed

theorem storage_open_idempotent_witness:
  "\<exists>px st. demo_open False = (Some 0, px, st) \<and> storage_inv px st \<and>
     storage_open demo_env px st 7 ''/boot/modem_fs1'' = (Some 0, px, st)"
proof -
  obtain px st where o: "demo_open False = (Some 0, px, st)" by (rule demo_open_state)
  then show ?thesis
    using storage_open_idempotent [OF demo_inv o [unfolded demo_open_def], of demo_env] by blast
qed

lemma demo_write:
  "map_option fst (storage_pwrite demo_env (\<lambda>_. 0) (fst (snd (demo_open ro))) (snd (snd (demo_open ro))) 0 [9, 8] 5) = Some 2"
  by (cases ro) (simp_all only:, code_simp+)

lemma demo_shadow: "map_option length (rf_shadow (st_fds (snd (snd (demo_open True))) ! 0)) = Some 3"
  by code_simp

theorem storage_write_read_witness:
  "\<exists>px st px' st' px''. demo_open True = (Some 0, px, st) \<and>
     storage_pwrite demo_env (\<lambda>_. 0) px st 0 [9, 8] 5 = Some (2, px', st') \<and>
     storage_pread px' st' 0 [0, 0] 2 5 = Some (2, [9, 8], px'')"
proof -
  obtain px st where o: "demo_open True = (Some 0, px, st)" "storage_inv px st" "in_use (st_fds st ! 0)"
    by (rule demo_open_state)
  obtain px' st' where w: "storage_pwrite demo_env (\<lambda>_. 0) px st 0 [9, 8] 5 = Some (2, px', st')"
    using demo_write [of True] o(1) by auto
  have sh: "\<forall>b. rf_shadow (st_fds st ! 0) = Some b \<longrightarrow> length b < 2 ^ 63" using demo_shadow o(1) by auto
  have "st_read_only st" using o(1) by (auto simp: demo_open_def storage_open_def Let_def demo_storage_def storage_init_def
      split: option.splits if_splits prod.splits)
  then show ?thesis using storage_write_read [OF o(2) _ o(3) sh w, of "[0, 0]"] o(1) w by auto
qed

text \<open>C12: with the option \<open>-r\<close> storage is never written. In read-only mode opening, closing and
  writing leave every file as it was, whatever the result.\<close>

theorem read_only_keeps_files:
  assumes "storage_inv px st" and "st_read_only st"
  shows "px_files (fst (snd (storage_open e px st node path))) = px_files px \<and>
    px_files (fst (storage_close px st i)) = px_files px \<and>
    (case storage_pwrite e junk px st i bs off of Some (n, px', st') \<Rightarrow> px_files px' = px_files px | None \<Rightarrow> True)"
proof -
  have "px_files (fst (snd (storage_open e px st node path))) = px_files px"
    using storage_open_result [OF assms(1), of e node path]
    by (cases "storage_open e px st node path") auto
  moreover have "px_files (fst (storage_close px st i)) = px_files px"
    by (simp add: storage_close_def px_close_def Let_def)
  ultimately show ?thesis
    using pwrite_read_only [OF assms(2), of e junk px i bs off] by (auto split: option.split)
qed

theorem read_only_keeps_files_witness:
  "px_files (fst (snd (storage_open demo_env demo_px (demo_storage True) 7 ''/boot/modem_fs1''))) = px_files demo_px"
  using read_only_keeps_files [OF demo_inv [of True], of demo_env 7 "''/boot/modem_fs1''"]
  by (simp add: demo_storage_def storage_init_def)

text \<open>\<open>storage_get\<close> checks the upper bound of a caller id only: exactly for the negative
  ones it reads outside the table of handles.\<close>

lemma storage_get_negative:
  "storage_get st node caller_id = None \<longleftrightarrow> caller_id < 0"
  by (simp add: storage_get_def)

text \<open>A failed read is reported as a success. When \<open>pread\<close> fails, or the descriptor of a handle is not
  open (as after \<open>storage_close\<close>, which leaves the node in the handle), \<open>storage_pread\<close> returns
  the full length and leaves the buffer as it was. When \<open>pread\<close> reads less than there is, the rest
  is reported as zeros.\<close>

lemma pread_error_is_success:
  assumes "\<not> st_read_only st" and "px_io px (px_calls px) = None \<or> px_content px (rf_fd (st_fds st ! i)) = None"
  shows "storage_pread px st i buf n off = Some (int n, buf, snd (px_call px))"
  using assms by (cases "px_io px (px_calls px)") (auto simp: storage_pread_def px_pread_def px_call_def)

lemma short_read_zeros:
  assumes "\<not> st_read_only st" and "px_io px (px_calls px) = Some m" and "m < n"
    and "px_content px (rf_fd (st_fds st ! i)) = Some bs" and "off + n \<le> length bs"
  shows "storage_pread px st i buf n off = Some (int n, take m (drop off bs) @ replicate (n - m) 0, snd (px_call px))"
  using assms by (simp add: storage_pread_def px_pread_def px_call_def min_def)

text \<open>Reading behind the end of a copy leaves the copy. In read-only mode the unsigned
  difference of \<open>shadow_len\<close> and an offset beyond it is huge, so the read copies from outside
  the allocated memory instead of returning zeros.\<close>

lemma pread_past_shadow:
  assumes "storage_inv px st" and "st_read_only st" and "i < MAX_CALLERS"
    and "rf_shadow_len (st_fds st ! i) < off" and "off < 2 ^ 64 - n" and "0 < n"
    and "\<forall>b. rf_shadow (st_fds st ! i) = Some b \<longrightarrow> length b < off + n"
  shows "storage_pread px st i buf n off = None"
proof -
  let ?f = "st_fds st ! i"
  have "sub64 (rf_shadow_len ?f) off = 2 ^ 64 + rf_shadow_len ?f - off"
    unfolding sub64_def using assms(4,5) by (intro mod_less) simp
  then have "n \<le> sub64 (rf_shadow_len ?f) off" using assms(4,5) by simp
  then have "min n (sub64 (rf_shadow_len ?f) off) = n" by simp
  then show ?thesis
    using assms(2,6,7) by (auto simp: storage_pread_def Let_def mem_read_def split: Option.bind_splits)
qed

end
