(* ===== verification/Sharedmem.thy ===== *)
theory Sharedmem
  imports Storage Numbers
begin

text \<open>
  The memory shared with the modem, \<^verbatim>\<open>qcom/rmtfs/sharedmem.c\<close>: a range of physical addresses,
  mapped (\<open>base\<close>) or accessed through a device file. Addresses are 64-bit words; the checks
  wrap as the C arithmetic does.
\<close>

record rmtfs_mem =
  rm_address :: u64
  rm_size :: u64
  rm_base :: "bytes option"
  rm_fd :: int

text \<open>\<open>rmtfs_mem_enumerate\<close> decodes the \<open>reg\<close> property of the reserved memory node: \<open>n\<close> bytes of
  it were read, big-endian.\<close>

definition be_word :: "bytes \<Rightarrow> u64" where
  "be_word bs = of_nat (le_val (rev bs))"

definition enumerate_reg :: "bytes \<Rightarrow> rmtfs_mem \<Rightarrow> int \<times> rmtfs_mem" where
  "enumerate_reg reg rmem =
     (if length reg = 8 then
        (0, rmem\<lparr>rm_address := be_word (take 4 reg), rm_size := be_word (drop 4 reg)\<rparr>)
      else if length reg = 16 then
        (0, rmem\<lparr>rm_address := be_word (take 8 reg), rm_size := be_word (drop 8 reg)\<rparr>)
      else (-1, rmem))"

text \<open>The search for the node: the entries of the directory with whether the node and its \<open>reg\<close> file
  can be opened, and the bytes read from it.\<close>

definition rmtfs_mem_enumerate :: "bool \<Rightarrow> (string \<times> bool \<times> bool \<times> bytes) list \<Rightarrow> rmtfs_mem \<Rightarrow> int \<times> rmtfs_mem" where
  "rmtfs_mem_enumerate dir entries rmem =
     (if \<not> dir then (-1, rmem)
      else case find (\<lambda>(name, _). take 5 name = ''rmtfs'') entries of
          None \<Rightarrow> (0, rmem)
        | Some (name, dirfd, regfd, reg) \<Rightarrow>
            if \<not> dirfd then (-1, rmem) else if \<not> regfd then (-1, rmem) else enumerate_reg reg rmem)"

text \<open>\<open>rmtfs_mem_open_rfsa\<close> on Android: the result and the error number of each \<open>open\<close>, and the text in
  the buffer after the two reads. \<open>errno\<close> is 0 when the function starts.\<close>

abbreviation (input) ERANGE :: int where "ERANGE \<equiv> 34"

record rfsa_sys =
  rf_dev :: "int \<times> int"
  rf_addr :: "int \<times> int"
  rf_addr_text :: string
  rf_size :: "int \<times> int"
  rf_size_text :: string

text \<open>The value of an attribute file, and whether the test behind \<open>strtoull\<close> takes it for an error;
  the last component is \<open>errno\<close>.\<close>

definition hex_attribute :: "string \<Rightarrow> u64 \<times> bool \<times> int" where
  "hex_attribute val =
     (let (v, endptr, range) = strtoul 16 val; errno = (if range then ERANGE else 0)
      in (v, (v = -1 \<and> errno = ERANGE) \<or> endptr = val, errno))"

definition rmtfs_mem_open_rfsa :: "rfsa_sys \<Rightarrow> rmtfs_mem \<Rightarrow> int \<times> rmtfs_mem" where
  "rmtfs_mem_open_rfsa y rmem =
     (let rmem1 = rmem\<lparr>rm_fd := fst (rf_dev y)\<rparr> in
      if fst (rf_dev y) < 0 then (- snd (rf_dev y), rmem1)
      else if fst (rf_addr y) < 0 then (- snd (rf_addr y), rmem1)
      else
        let (address, bad, errno) = hex_attribute (rf_addr_text y); rmem2 = rmem1\<lparr>rm_address := address\<rparr> in
        if bad then (- errno, rmem2)
        else if fst (rf_size y) < 0 then (- snd (rf_size y), rmem2)
        else
          let (sz, bad2, errno2) = hex_attribute (rf_size_text y); rmem3 = rmem2\<lparr>rm_size := sz\<rparr> in
          if bad2 then (- errno2, rmem3) else (0, rmem3))"

definition rmtfs_mem_open_uio :: "rmtfs_mem \<Rightarrow> int \<times> rmtfs_mem" where
  "rmtfs_mem_open_uio rmem = (-EINVAL, rmem)"

definition rmtfs_mem_close :: "rmtfs_mem \<Rightarrow> posix \<Rightarrow> posix" where
  "rmtfs_mem_close rmem px = px_close px (rm_fd rmem)"

text \<open>The same two functions outside Android, where libudev finds the attributes. \<open>ud_open\<close>, \<open>ud_fstat\<close>,
  \<open>ud_new\<close> and \<open>ud_device\<close> are the results of the calls with their error numbers, \<open>ud_attr\<close> the
  attributes of the device, \<open>ud_mmap\<close> the mapping. Each result comes with the descriptors
  that were closed, in order.\<close>

record udev_sys =
  ud_open :: "int \<times> int"
  ud_fstat :: "int \<times> int"
  ud_new :: "bool \<times> int"
  ud_device :: "bool \<times> int"
  ud_attr :: "string \<Rightarrow> string option"
  ud_mmap :: "bytes option \<times> int"

definition parse_hex_sysattr :: "udev_sys \<Rightarrow> string \<Rightarrow> u64 \<Rightarrow> int \<times> u64" where
  "parse_hex_sysattr y name old =
     (case ud_attr y name of
        None \<Rightarrow> (-ENOENT, old)
      | Some buf \<Rightarrow> (case hex_attribute buf of (val, bad, errno) \<Rightarrow> if bad then (- errno, old) else (0, val)))"

text \<open>What both have in common: everything up to the two attributes.\<close>

definition udev_probe :: "udev_sys \<Rightarrow> string \<Rightarrow> string \<Rightarrow> rmtfs_mem \<Rightarrow> int \<times> rmtfs_mem \<times> int list" where
  "udev_probe y addr_attr size_attr rmem =
     (let fd = fst (ud_open y) in
      if fd < 0 then (- snd (ud_open y), rmem, [])
      else
        let rmem1 = rmem\<lparr>rm_fd := fd\<rparr> in
        if fst (ud_fstat y) < 0 then (- snd (ud_fstat y), rmem1, [fd, fd])
        else if \<not> fst (ud_new y) then (- snd (ud_new y), rmem1, [fd])
        else if \<not> fst (ud_device y) then (- snd (ud_device y), rmem1, [fd])
        else
          let (ret, address) = parse_hex_sysattr y addr_attr (rm_address rmem1);
              rmem2 = rmem1\<lparr>rm_address := address\<rparr> in
          if ret < 0 then (ret, rmem2, [fd])
          else
            let (ret2, sz) = parse_hex_sysattr y size_attr (rm_size rmem2); rmem3 = rmem2\<lparr>rm_size := sz\<rparr> in
            if ret2 < 0 then (ret2, rmem3, [fd]) else (0, rmem3, []))"

definition rmtfs_mem_open_rfsa_udev :: "udev_sys \<Rightarrow> rmtfs_mem \<Rightarrow> int \<times> rmtfs_mem \<times> int list" where
  "rmtfs_mem_open_rfsa_udev y rmem = udev_probe y ''phys_addr'' ''size'' rmem"

definition rmtfs_mem_open_uio_udev :: "udev_sys \<Rightarrow> rmtfs_mem \<Rightarrow> int \<times> rmtfs_mem \<times> int list" where
  "rmtfs_mem_open_uio_udev y rmem =
     (case udev_probe y ''maps/map0/addr'' ''maps/map0/size'' rmem of (ret, rmem1, closed) \<Rightarrow>
        if ret \<noteq> 0 \<or> fst (ud_open y) < 0 then (ret, rmem1, closed)
        else if closed \<noteq> [] then (ret, rmem1, closed)
        else
          (case fst (ud_mmap y) of
             None \<Rightarrow> (- snd (ud_mmap y), rmem1, [rm_fd rmem1])
           | Some base \<Rightarrow> (0, rmem1\<lparr>rm_base := Some base\<rparr>, [])))"

text \<open>\<open>rmtfs_mem_open\<close>: which of the three ways to reach the memory is taken. The arguments are
  the result of each attempt: \<open>rmtfs_mem_open_rfsa\<close> and \<open>rmtfs_mem_open_uio\<close> (return value
  and structure), the device tree, the descriptor of \<open>/dev/mem\<close> and the mapping.\<close>

definition rmtfs_mem_open ::
    "int \<times> rmtfs_mem \<Rightarrow> int \<times> rmtfs_mem \<Rightarrow> int \<times> rmtfs_mem \<Rightarrow> int \<Rightarrow> bytes option \<Rightarrow> rmtfs_mem option" where
  "rmtfs_mem_open rfsa uio dt memfd mapping =
     (if fst rfsa < 0 \<and> fst rfsa \<noteq> -ENOENT then None
      else if \<not> fst rfsa < 0 then Some (snd rfsa)
      else if fst uio < 0 \<and> fst uio \<noteq> -ENOENT then None
      else if \<not> fst uio < 0 then Some (snd uio)
      else if fst dt < 0 then None
      else if memfd < 0 then None
      else if mapping = None then None
      else Some ((snd dt)\<lparr>rm_base := mapping, rm_fd := memfd\<rparr>))"

definition rmtfs_mem_alloc :: "rmtfs_mem \<Rightarrow> nat \<Rightarrow> int" where
  "rmtfs_mem_alloc rmem alloc_size =
     (if alloc_size > unat (rm_size rmem) then -EINVAL else sint (rm_address rmem))"

text \<open>\<open>rmtfs_mem_ptr\<close>: the index into the mapping, \<^term>\<open>None\<close> for \<open>NULL\<close>.\<close>

definition rmtfs_mem_ptr :: "rmtfs_mem \<Rightarrow> u64 \<Rightarrow> int \<Rightarrow> nat option" where
  "rmtfs_mem_ptr rmem phys_address len =
     (if len < 0 then None
      else
        let start = phys_address; endp = start + of_int len in
        if start < rm_address rmem \<or> endp > rm_address rmem + rm_size rmem then None
        else Some (unat (phys_address - rm_address rmem)))"

text \<open>\<open>rmtfs_mem_read\<close> into the buffer \<open>buf\<close>: the return value, the buffer and the system.\<close>

definition rmtfs_mem_read :: "rmtfs_mem \<Rightarrow> posix \<Rightarrow> u64 \<Rightarrow> bytes \<Rightarrow> int \<Rightarrow> (int \<times> bytes \<times> posix) option" where
  "rmtfs_mem_read rmem px phys_address buf len =
     (case rm_base rmem of
        Some base \<Rightarrow>
          (case rmtfs_mem_ptr rmem phys_address len of
             None \<Rightarrow> Some (-EINVAL, buf, px)
           | Some i \<Rightarrow> do {
               bs \<leftarrow> mem_read base i (nat len);
               buf1 \<leftarrow> mem_write buf 0 bs;
               Some (len, buf1, px) })
      | None \<Rightarrow>
          let offset = sint (phys_address - rm_address rmem) in
          if offset < 0 then Some (-1, buf, px)
          else
            (case px_pread px (rm_fd rmem) (nat len) (nat offset) of
               (None, px1) \<Rightarrow> Some (-1, buf, px1)
             | (Some bs, px1) \<Rightarrow> map_option (\<lambda>buf1. (int (length bs), buf1, px1)) (mem_write buf 0 bs)))"

definition rmtfs_mem_write :: "rmtfs_mem \<Rightarrow> posix \<Rightarrow> u64 \<Rightarrow> bytes \<Rightarrow> int \<Rightarrow> (int \<times> rmtfs_mem \<times> posix) option" where
  "rmtfs_mem_write rmem px phys_address buf len =
     (case rm_base rmem of
        Some base \<Rightarrow>
          (case rmtfs_mem_ptr rmem phys_address len of
             None \<Rightarrow> Some (-EINVAL, rmem, px)
           | Some i \<Rightarrow> do {
               bs \<leftarrow> mem_read buf 0 (nat len);
               base1 \<leftarrow> mem_write base i bs;
               Some (len, rmem\<lparr>rm_base := Some base1\<rparr>, px) })
      | None \<Rightarrow>
          let offset = sint (phys_address - rm_address rmem) in
          if offset < 0 then Some (-1, rmem, px)
          else do {
            bs \<leftarrow> mem_read buf 0 (nat len);
            let (n, px1) = px_pwrite px (rm_fd rmem) bs (nat offset);
            Some (n, rmem, px1) })"

section \<open>Bounds\<close>

text \<open>The mapping covers the whole range, and the range does not wrap around.\<close>

definition rmem_ok :: "rmtfs_mem \<Rightarrow> bool" where
  "rmem_ok rmem \<longleftrightarrow>
     unat (rm_address rmem) + unat (rm_size rmem) < 2 ^ 64 \<and>
     (\<forall>base. rm_base rmem = Some base \<longrightarrow> length base = unat (rm_size rmem))"

lemma rmtfs_mem_ptr_mod:
  assumes ok: "rmem_ok rmem" and len: "0 \<le> len" and size: "nat len < 2 ^ 64"
  shows "rmtfs_mem_ptr rmem phys len =
    (if unat (rm_address rmem) \<le> unat phys \<and>
        (unat phys + nat len) mod 2 ^ 64 \<le> unat (rm_address rmem) + unat (rm_size rmem)
     then Some (unat phys - unat (rm_address rmem)) else None)"
proof -
  have l: "unat (of_int len :: u64) = nat len"
    using len size by (simp add: unsigned_of_int take_bit_int_eq_self nat_less_iff)
  have e: "unat (phys + of_int len) = (unat phys + nat len) mod 2 ^ 64"
    using l by (simp add: unat_word_ariths)
  have a: "unat (rm_address rmem + rm_size rmem) = unat (rm_address rmem) + unat (rm_size rmem)"
    using ok unat_add_lem [of "rm_address rmem" "rm_size rmem"] by (simp add: rmem_ok_def)
  have s: "rm_address rmem \<le> phys \<Longrightarrow> unat (phys - rm_address rmem) = unat phys - unat (rm_address rmem)"
    by (simp add: unat_sub)
  show ?thesis
    using len by (auto simp: rmtfs_mem_ptr_def Let_def word_less_nat_alt word_le_nat_alt e a s not_less)
qed

lemma rmtfs_mem_ptr_iff:
  assumes "rmem_ok rmem" and "0 \<le> len" and "unat phys + nat len < 2 ^ 64"
  shows "rmtfs_mem_ptr rmem phys len =
    (if unat (rm_address rmem) \<le> unat phys \<and> unat phys + nat len \<le> unat (rm_address rmem) + unat (rm_size rmem)
     then Some (unat phys - unat (rm_address rmem)) else None)"
  using rmtfs_mem_ptr_mod [OF assms(1,2)] assms(3) by simp

text \<open>The part of the range an access touches, when it is within the range.\<close>

definition in_range :: "rmtfs_mem \<Rightarrow> u64 \<Rightarrow> nat \<Rightarrow> bool" where
  "in_range rmem phys n \<longleftrightarrow>
     unat (rm_address rmem) \<le> unat phys \<and> unat phys + n \<le> unat (rm_address rmem) + unat (rm_size rmem)"

abbreviation rm_index :: "rmtfs_mem \<Rightarrow> u64 \<Rightarrow> nat" where
  "rm_index rmem phys \<equiv> unat phys - unat (rm_address rmem)"

lemma in_range_index:
  assumes "rmem_ok rmem" and "rm_base rmem = Some base" and "in_range rmem phys n"
  shows "rm_index rmem phys + n \<le> length base"
  using assms by (auto simp: rmem_ok_def in_range_def)

lemma mem_read_mapped:
  assumes "rmem_ok rmem" and "rm_base rmem = Some base" and "unat phys + n < 2 ^ 64" and "length buf = n"
  shows "rmtfs_mem_read rmem px phys buf (int n) =
    Some (if in_range rmem phys n then (int n, take n (drop (rm_index rmem phys) base), px) else (-EINVAL, buf, px))"
  using assms rmtfs_mem_ptr_iff [OF assms(1), of "int n" phys] in_range_index [OF assms(1,2), of phys n]
  by (auto simp: rmtfs_mem_read_def in_range_def mem_read_def mem_write_def)

lemma mem_write_mapped:
  assumes "rmem_ok rmem" and "rm_base rmem = Some base" and "unat phys + n < 2 ^ 64" and "length buf = n"
  shows "rmtfs_mem_write rmem px phys buf (int n) =
    Some (if in_range rmem phys n
          then (int n, rmem\<lparr>rm_base := Some (take (rm_index rmem phys) base @ buf @ drop (rm_index rmem phys + n) base)\<rparr>, px)
          else (-EINVAL, rmem, px))"
  using assms rmtfs_mem_ptr_iff [OF assms(1), of "int n" phys] in_range_index [OF assms(1,2), of phys n]
  by (auto simp: rmtfs_mem_write_def in_range_def mem_read_def mem_write_def)

lemma mem_write_ok:
  assumes "rmem_ok rmem" and "rm_base rmem = Some base" and "unat phys + n < 2 ^ 64" and "length buf = n"
    and "rmtfs_mem_write rmem px phys buf (int n) = Some (rc, rmem', px')"
  shows "rmem_ok rmem' \<and> rm_address rmem' = rm_address rmem \<and> rm_size rmem' = rm_size rmem \<and>
    (\<exists>base'. rm_base rmem' = Some base' \<and> length base' = length base)"
  using mem_write_mapped [OF assms(1-4), of px] assms in_range_index [OF assms(1,2), of phys n]
  by (auto simp: rmem_ok_def split: if_splits)

section \<open>Properties\<close>

text \<open>An access whose end wraps around the address space and is then not beyond the end of the range:
  the check passes it.\<close>

definition wraps_into :: "rmtfs_mem \<Rightarrow> u64 \<Rightarrow> nat \<Rightarrow> bool" where
  "wraps_into rmem phys n \<longleftrightarrow>
     unat (rm_address rmem) \<le> unat phys \<and> 2 ^ 64 \<le> unat phys + n \<and>
     unat phys + n - 2 ^ 64 \<le> unat (rm_address rmem) + unat (rm_size rmem)"

lemma wrapping_access:
  assumes ok: "rmem_ok rmem" and base: "rm_base rmem = Some base" and wrap: "2 ^ 64 \<le> unat phys + n" and n: "n < 2 ^ 63"
    and len: "length buf = n"
  shows "rmtfs_mem_write rmem px phys buf (int n) = (if wraps_into rmem phys n then None else Some (-EINVAL, rmem, px)) \<and>
    rmtfs_mem_read rmem px phys buf (int n) = (if wraps_into rmem phys n then None else Some (-EINVAL, buf, px))"
proof -
  have phys: "unat phys < 2 ^ 64" using unsigned_less [of phys, where ?'a = nat] by simp
  have m: "(unat phys + n) mod 2 ^ 64 = unat phys + n - 2 ^ 64"
    using wrap phys n by (subst le_mod_geq) simp_all
  have p: "rmtfs_mem_ptr rmem phys (int n) = (if wraps_into rmem phys n then Some (rm_index rmem phys) else None)"
    using rmtfs_mem_ptr_mod [OF ok, of "int n" phys] n wrap unfolding nat_int m by (simp add: wraps_into_def)
  have out: "\<not> rm_index rmem phys + n \<le> length base" if "wraps_into rmem phys n"
    using that ok base wrap by (auto simp: wraps_into_def rmem_ok_def)
  show ?thesis using p out base len by (simp add: rmtfs_mem_write_def rmtfs_mem_read_def mem_read_def mem_write_def)
qed

text \<open>C13: accesses to mapped shared memory, for every physical address and every length: reading
  and writing succeed when the whole access is within the range, and what was written is read
  back. Any other access fails with \<open>-EINVAL\<close> and changes nothing, with one exception: when the
  end of the access wraps around the 64-bit address space and is then not beyond the end of the
  range, the check passes and the access leaves the mapping. Accesses that do not wrap are thus
  never outside the mapping. (The range itself does not wrap, and the mapping covers it.)\<close>

theorem shared_memory_bounds:
  assumes "rmem_ok rmem" and "rm_base rmem = Some base" and "length buf = n" and "n < 2 ^ 63"
  shows "if in_range rmem phys n
    then \<exists>rmem'. rmtfs_mem_write rmem px phys buf (int n) = Some (int n, rmem', px) \<and> rmem_ok rmem' \<and>
      rmtfs_mem_read rmem' px phys (replicate n 0) (int n) = Some (int n, buf, px)
    else if wraps_into rmem phys n
    then rmtfs_mem_write rmem px phys buf (int n) = None \<and> rmtfs_mem_read rmem px phys buf (int n) = None
    else rmtfs_mem_write rmem px phys buf (int n) = Some (-EINVAL, rmem, px) \<and>
      rmtfs_mem_read rmem px phys buf (int n) = Some (-EINVAL, buf, px)"
proof (cases "in_range rmem phys n")
  case False
  show ?thesis
  proof (cases "unat phys + n < 2 ^ 64")
    case True
    then show ?thesis
      using False mem_read_mapped [OF assms(1,2) True assms(3), of px] mem_write_mapped [OF assms(1,2) True assms(3), of px]
      by (simp add: wraps_into_def)
  next
    case wrap: False
    then show ?thesis using False wrapping_access [OF assms(1,2) _ assms(4,3), of phys px] by simp
  qed
next
  case True
  let ?i = "rm_index rmem phys"
  have nw: "unat phys + n < 2 ^ 64" using True assms(1) by (auto simp: in_range_def rmem_ok_def)
  define base' where "base' = take ?i base @ buf @ drop (?i + n) base"
  define rmem' where "rmem' = rmem\<lparr>rm_base := Some base'\<rparr>"
  have w: "rmtfs_mem_write rmem px phys buf (int n) = Some (int n, rmem', px)"
    using True mem_write_mapped [OF assms(1,2) nw assms(3), of px] by (simp add: rmem'_def base'_def)
  have ok: "rmem_ok rmem'" using mem_write_ok [OF assms(1,2) nw assms(3) w] by simp
  have i: "?i \<le> length base" using in_range_index [OF assms(1,2) True] by simp
  have "rmtfs_mem_read rmem' px phys (replicate n 0) (int n) = Some (int n, take n (drop ?i base'), px)"
    using mem_read_mapped [OF ok, of base' phys n "replicate n 0" px] nw True
    by (simp add: rmem'_def in_range_def)
  then show ?thesis using True w ok i assms(3) by (simp add: base'_def)
qed

definition demo_rmem :: rmtfs_mem where
  "demo_rmem = \<lparr>rm_address = 4096, rm_size = 8, rm_base = Some (replicate 8 0), rm_fd = 4\<rparr>"

theorem shared_memory_bounds_witness:
  "(\<exists>rmem'. rmtfs_mem_write demo_rmem demo_px 4098 [1, 2] 2 = Some (2, rmem', demo_px) \<and>
     rmtfs_mem_read rmem' demo_px 4098 (replicate 2 0) 2 = Some (2, [1, 2], demo_px)) \<and>
   rmtfs_mem_write demo_rmem demo_px 4103 [1, 2] 2 = Some (-EINVAL, demo_rmem, demo_px) \<and>
   rmtfs_mem_write demo_rmem demo_px (-2) (replicate 16 1) 16 = None"
proof -
  have ok: "rmem_ok demo_rmem" "rm_base demo_rmem = Some (replicate 8 0)"
    by (simp_all add: rmem_ok_def demo_rmem_def)
  have "in_range demo_rmem 4098 2" "\<not> in_range demo_rmem 4103 2" "\<not> wraps_into demo_rmem 4103 2"
    "\<not> in_range demo_rmem (-2) 16" "wraps_into demo_rmem (-2) 16"
    by code_simp+
  then show ?thesis
    using shared_memory_bounds [OF ok, of "[1, 2]" 2 4098 demo_px] shared_memory_bounds [OF ok, of "[1, 2]" 2 4103 demo_px]
      shared_memory_bounds [OF ok, of "replicate 16 1" 16 "-2" demo_px] by auto
qed

text \<open>The range check of \<open>rmtfs_mem_ptr\<close> wraps. An access that starts below the end of the
  address space and ends beyond it passes the check of a range far below, and the write
  lands outside the mapping.\<close>

lemma mem_ptr_wraps:
  "rmtfs_mem_ptr demo_rmem (-2) 16 \<noteq> None \<and>
   rmtfs_mem_write demo_rmem demo_px (-2) (replicate 16 1) 16 = None"
  by code_simp

text \<open>Allocation: a request is granted exactly when it fits, with the physical address of the
  range as a signed number.\<close>

lemma mem_alloc_value:
  "rmtfs_mem_alloc rmem n =
     (if unat (rm_size rmem) < n then -EINVAL
      else if unat (rm_address rmem) < 2 ^ 63 then int (unat (rm_address rmem))
      else int (unat (rm_address rmem)) - 2 ^ 64)"
proof -
  let ?a = "uint (rm_address rmem)"
  have a: "0 \<le> ?a" "?a < 2 ^ 64" using unsigned_less [of "rm_address rmem", where ?'a = int] by simp_all
  have "int (unat (rm_address rmem)) = ?a" by simp
  then have lt: "unat (rm_address rmem) < 2 ^ 63 \<longleftrightarrow> ?a < 2 ^ 63"
    using of_nat_less_iff [of "unat (rm_address rmem)" "2 ^ 63", where ?'a = int] by simp
  have "sint (rm_address rmem) = (?a + 2 ^ 63) mod 2 ^ 64 - 2 ^ 63"
    by (simp add: sint_uint signed_take_bit_eq_take_bit_shift take_bit_eq_mod)
  also have "\<dots> = (if ?a < 2 ^ 63 then ?a else ?a - 2 ^ 64)"
  proof (cases "?a < 2 ^ 63")
    case True
    then show ?thesis using a by simp
  next
    case False
    have "(?a + 2 ^ 63) mod 2 ^ 64 = (?a - 2 ^ 63 + 2 ^ 64) mod 2 ^ 64" by (simp add: add.commute)
    also have "\<dots> = ?a - 2 ^ 63" unfolding mod_add_self2 using a False by (intro mod_pos_pos_trivial) auto
    finally show ?thesis using False by simp
  qed
  finally have "sint (rm_address rmem) =
      (if unat (rm_address rmem) < 2 ^ 63 then int (unat (rm_address rmem)) else int (unat (rm_address rmem)) - 2 ^ 64)"
    using lt by simp
  then show ?thesis by (simp add: rmtfs_mem_alloc_def)
qed

section \<open>Opening the device on Android\<close>

lemma hex_attribute_no_number: "snd (strtoul 16 val) = (val, False) \<Longrightarrow> fst (strtoul 16 val) = 0 \<Longrightarrow>
    hex_attribute val = (0, True, 0)"
  by (cases "strtoul 16 val") (simp add: hex_attribute_def)

text \<open>When the address file holds no number the function returns \<open>-errno\<close> with \<open>errno\<close> still 0: the
  caller takes it for success, with a memory of address 0 and the size unset.\<close>

lemma rfsa_unparsable_is_success:
  assumes "0 \<le> fst (rf_dev y)" and "0 \<le> fst (rf_addr y)" and "hex_attribute (rf_addr_text y) = (0, True, 0)"
    and "rmem = \<lparr>rm_address = 0, rm_size = 0, rm_base = None, rm_fd = 0\<rparr>"
  shows "rmtfs_mem_open_rfsa y rmem = (0, rmem\<lparr>rm_fd := fst (rf_dev y)\<rparr>)"
    and "rmtfs_mem_open (rmtfs_mem_open_rfsa y rmem) uio dt memfd mapping = Some (rmem\<lparr>rm_fd := fst (rf_dev y)\<rparr>)"
  using assms by (auto simp: rmtfs_mem_open_rfsa_def rmtfs_mem_open_def Let_def)

lemma rfsa_unparsable_example: "hex_attribute ''(null)'' = (0, True, 0)"
  by code_simp

text \<open>On Android a missing device is final: the fallback to \<open>/dev/mem\<close> is never taken, since
  \<open>rmtfs_mem_open_uio\<close> fails with another error than \<open>ENOENT\<close>.\<close>

lemma android_no_fallback:
  assumes "fst (rmtfs_mem_open_rfsa y rmem) < 0"
  shows "rmtfs_mem_open (rmtfs_mem_open_rfsa y rmem) (rmtfs_mem_open_uio rmem) dt memfd mapping = None"
  using assms by (simp add: rmtfs_mem_open_def rmtfs_mem_open_uio_def)

text \<open>With the two numbers in the attribute files, what is opened is the device with that range.\<close>

lemma rfsa_opens_device:
  assumes "0 \<le> fst (rf_dev y)" and "0 \<le> fst (rf_addr y)" and "0 \<le> fst (rf_size y)"
    and "hex_attribute (rf_addr_text y) = (a, False, 0)" and "hex_attribute (rf_size_text y) = (n, False, 0)"
  shows "rmtfs_mem_open (rmtfs_mem_open_rfsa y rmem) uio dt memfd mapping =
    Some (rmem\<lparr>rm_fd := fst (rf_dev y), rm_address := a, rm_size := n\<rparr>)"
  using assms by (simp add: rmtfs_mem_open_rfsa_def rmtfs_mem_open_def Let_def)

text \<open>Outside Android: the device with its two attributes, or, when there is no such device, the mapped
  one, is what is opened, and no descriptor is closed.\<close>

lemma udev_opens_device:
  assumes "0 \<le> fst (ud_open y)" and "0 \<le> fst (ud_fstat y)" and "fst (ud_new y)" and "fst (ud_device y)"
    and "ud_attr y ''phys_addr'' = Some ta" and "hex_attribute ta = (a, False, 0)"
    and "ud_attr y ''size'' = Some tn" and "hex_attribute tn = (n, False, 0)"
  shows "rmtfs_mem_open_rfsa_udev y rmem = (0, rmem\<lparr>rm_fd := fst (ud_open y), rm_address := a, rm_size := n\<rparr>, [])"
  using assms by (simp add: rmtfs_mem_open_rfsa_udev_def udev_probe_def parse_hex_sysattr_def Let_def)

lemma udev_falls_back:
  assumes "ud_open y = (-1, ENOENT)" and "0 \<le> fst (ud_open z)" and "0 \<le> fst (ud_fstat z)" and "fst (ud_new z)" and "fst (ud_device z)"
    and "ud_attr z ''maps/map0/addr'' = Some ta" and "hex_attribute ta = (a, False, 0)"
    and "ud_attr z ''maps/map0/size'' = Some tn" and "hex_attribute tn = (n, False, 0)" and "fst (ud_mmap z) = Some base"
    and "rfsa = rmtfs_mem_open_rfsa_udev y rmem" and "uio = rmtfs_mem_open_uio_udev z (fst (snd rfsa))"
  shows "rmtfs_mem_open (fst rfsa, fst (snd rfsa)) (fst uio, fst (snd uio)) dt memfd mapping =
    Some (rmem\<lparr>rm_fd := fst (ud_open z), rm_address := a, rm_size := n, rm_base := Some base\<rparr>)"
  using assms
  by (simp add: rmtfs_mem_open_def rmtfs_mem_open_rfsa_udev_def rmtfs_mem_open_uio_udev_def udev_probe_def
      parse_hex_sysattr_def Let_def)

text \<open>After a failed \<open>fstat\<close> the descriptor is closed twice.\<close>

lemma udev_closes_twice:
  assumes "0 \<le> fst (ud_open y)" and "fst (ud_fstat y) < 0"
  shows "snd (snd (rmtfs_mem_open_rfsa_udev y rmem)) = [fst (ud_open y), fst (ud_open y)]"
  using assms by (simp add: rmtfs_mem_open_rfsa_udev_def udev_probe_def Let_def)

end
