(* ===== verification/Rmtfs.thy ===== *)
theory Rmtfs
  imports QmiService Sharedmem
begin

text \<open>
  The remote file system service, \<^verbatim>\<open>qcom/rmtfs/rmtfs.c\<close>, with its message tables
  \<^verbatim>\<open>qcom/rmtfs/qmi_rmtfs.c\<close>. A request is decoded with the QMI codec (theory \<open>Qmi\<close>) into a
  structure, served by the storage (theory \<open>Storage\<close>) and the shared memory (theory
  \<open>Sharedmem\<close>), and answered to its sender with an encoded structure.

  The structures are objects with the layout of the arm64 ABI; the offsets of the tables are
  those of that layout. Debug output is not modelled.
\<close>

section \<open>Message tables\<close>

text \<open>Layouts: the results are two 16-bit numbers, an iovec entry three 32-bit numbers.\<close>

definition rmtfs_qmi_result_ei :: "qmi_elem_info list" where
  "rmtfs_qmi_result_ei =
     [Elem QMI_UNSIGNED_2_BYTE 1 2 NO_ARRAY 0 0 None,
      Elem QMI_UNSIGNED_2_BYTE 1 2 NO_ARRAY 0 2 None,
      eoti]"

definition rmtfs_iovec_entry_ei :: "qmi_elem_info list" where
  "rmtfs_iovec_entry_ei =
     [Elem QMI_UNSIGNED_4_BYTE 1 4 NO_ARRAY 0 0 None,
      Elem QMI_UNSIGNED_4_BYTE 1 4 NO_ARRAY 0 4 None,
      Elem QMI_UNSIGNED_4_BYTE 1 4 NO_ARRAY 0 8 None,
      eoti]"

definition rmtfs_open_req_ei :: "qmi_elem_info list" where
  "rmtfs_open_req_ei = [Elem QMI_STRING 256 1 VAR_LEN_ARRAY 1 4 None, eoti]"

definition rmtfs_open_resp_ei :: "qmi_elem_info list" where
  "rmtfs_open_resp_ei =
     [Elem QMI_STRUCT 1 4 NO_ARRAY 2 0 (Some rmtfs_qmi_result_ei),
      Elem QMI_OPT_FLAG 1 1 NO_ARRAY 16 4 None,
      Elem QMI_UNSIGNED_4_BYTE 1 4 NO_ARRAY 16 8 None,
      eoti]"

definition rmtfs_close_req_ei :: "qmi_elem_info list" where
  "rmtfs_close_req_ei = [Elem QMI_UNSIGNED_4_BYTE 1 4 NO_ARRAY 1 0 None, eoti]"

definition rmtfs_close_resp_ei :: "qmi_elem_info list" where
  "rmtfs_close_resp_ei = [Elem QMI_STRUCT 1 4 NO_ARRAY 2 0 (Some rmtfs_qmi_result_ei), eoti]"

definition rmtfs_iovec_req_ei :: "qmi_elem_info list" where
  "rmtfs_iovec_req_ei =
     [Elem QMI_UNSIGNED_4_BYTE 1 4 NO_ARRAY 1 0 None,
      Elem QMI_UNSIGNED_1_BYTE 1 1 NO_ARRAY 2 4 None,
      Elem QMI_DATA_LEN 1 1 NO_ARRAY 3 8 None,
      Elem QMI_STRUCT 255 12 VAR_LEN_ARRAY 3 16 (Some rmtfs_iovec_entry_ei),
      Elem QMI_UNSIGNED_1_BYTE 1 1 NO_ARRAY 4 3076 None,
      eoti]"

definition rmtfs_iovec_resp_ei :: "qmi_elem_info list" where
  "rmtfs_iovec_resp_ei = [Elem QMI_STRUCT 1 4 NO_ARRAY 2 0 (Some rmtfs_qmi_result_ei), eoti]"

definition rmtfs_alloc_buf_req_ei :: "qmi_elem_info list" where
  "rmtfs_alloc_buf_req_ei =
     [Elem QMI_UNSIGNED_4_BYTE 1 4 NO_ARRAY 1 0 None,
      Elem QMI_UNSIGNED_4_BYTE 1 4 NO_ARRAY 2 4 None,
      eoti]"

definition rmtfs_alloc_buf_resp_ei :: "qmi_elem_info list" where
  "rmtfs_alloc_buf_resp_ei =
     [Elem QMI_STRUCT 1 4 NO_ARRAY 2 0 (Some rmtfs_qmi_result_ei),
      Elem QMI_OPT_FLAG 1 1 NO_ARRAY 16 4 None,
      Elem QMI_UNSIGNED_8_BYTE 1 8 NO_ARRAY 16 8 None,
      eoti]"

definition rmtfs_dev_error_req_ei :: "qmi_elem_info list" where
  "rmtfs_dev_error_req_ei = [Elem QMI_UNSIGNED_4_BYTE 1 4 NO_ARRAY 1 0 None, eoti]"

definition rmtfs_dev_error_resp_ei :: "qmi_elem_info list" where
  "rmtfs_dev_error_resp_ei =
     [Elem QMI_STRUCT 1 4 NO_ARRAY 2 0 (Some rmtfs_qmi_result_ei),
      Elem QMI_OPT_FLAG 1 1 NO_ARRAY 16 4 None,
      Elem QMI_UNSIGNED_1_BYTE 1 1 NO_ARRAY 16 5 None,
      eoti]"

definition rmtfs_force_sync_ei :: "qmi_elem_info list" where
  "rmtfs_force_sync_ei =
     [Elem QMI_DATA_LEN 1 1 NO_ARRAY 1 0 None,
      Elem QMI_UNSIGNED_1_BYTE 10 4 VAR_LEN_ARRAY 1 8 None,
      eoti]"

text \<open>The structures the service fills in, and their objects. Padding is zero: every response
  is initialised with \<open>{}\<close>.\<close>

record rmtfs_qmi_result =
  qr_result :: u16
  qr_error :: u16

record rmtfs_open_resp =
  or_result :: rmtfs_qmi_result
  or_caller_id_valid :: bool
  or_caller_id :: u32

record rmtfs_alloc_buf_resp =
  ar_result :: rmtfs_qmi_result
  ar_buff_address_valid :: bool
  ar_buff_address :: u64

record rmtfs_dev_error_resp =
  dr_result :: rmtfs_qmi_result
  dr_status_valid :: bool
  dr_status :: u8

record rmtfs_iovec_entry =
  ie_sector_addr :: u32
  ie_phys_offset :: u32
  ie_num_sector :: u32

definition bool_byte :: "bool \<Rightarrow> u8" where
  "bool_byte b = (if b then 1 else 0)"

definition result_bytes :: "rmtfs_qmi_result \<Rightarrow> bytes" where
  "result_bytes r = le_bytes 2 (unat (qr_result r)) @ le_bytes 2 (unat (qr_error r))"

definition result_obj :: "rmtfs_qmi_result \<Rightarrow> obj" where
  "result_obj r = obj_of_bytes (result_bytes r)"

definition open_resp_obj :: "rmtfs_open_resp \<Rightarrow> obj" where
  "open_resp_obj r = obj_of_bytes (result_bytes (or_result r) @
     [bool_byte (or_caller_id_valid r), 0, 0, 0] @ le_bytes 4 (unat (or_caller_id r)))"

definition alloc_buf_resp_obj :: "rmtfs_alloc_buf_resp \<Rightarrow> obj" where
  "alloc_buf_resp_obj r = obj_of_bytes (result_bytes (ar_result r) @
     [bool_byte (ar_buff_address_valid r), 0, 0, 0] @ le_bytes 8 (unat (ar_buff_address r)))"

definition dev_error_resp_obj :: "rmtfs_dev_error_resp \<Rightarrow> obj" where
  "dev_error_resp_obj r = obj_of_bytes (result_bytes (dr_result r) @
     [bool_byte (dr_status_valid r), dr_status r])"

definition success :: rmtfs_qmi_result where
  "success = \<lparr>qr_result = 0, qr_error = 0\<rparr>"

abbreviation (input) QMI_RMTFS_RESULT_FAILURE :: u16 where "QMI_RMTFS_RESULT_FAILURE \<equiv> 1"
abbreviation (input) QMI_RMTFS_ERR_INTERNAL :: u16 where "QMI_RMTFS_ERR_INTERNAL \<equiv> 1"
abbreviation (input) QMI_RMTFS_ERR_MALFORMED_MSG :: u16 where "QMI_RMTFS_ERR_MALFORMED_MSG \<equiv> 2"
abbreviation (input) QMI_RMTFS_OPEN :: nat where "QMI_RMTFS_OPEN \<equiv> 1"
abbreviation (input) QMI_RMTFS_CLOSE :: nat where "QMI_RMTFS_CLOSE \<equiv> 2"
abbreviation (input) QMI_RMTFS_RW_IOVEC :: nat where "QMI_RMTFS_RW_IOVEC \<equiv> 3"
abbreviation (input) QMI_RMTFS_ALLOC_BUFF :: nat where "QMI_RMTFS_ALLOC_BUFF \<equiv> 4"
abbreviation (input) QMI_RMTFS_GET_DEV_ERROR :: nat where "QMI_RMTFS_GET_DEV_ERROR \<equiv> 5"

section \<open>Handlers\<close>

text \<open>The state of the process, and what its environment decides: memory, the results of
  \<open>sendto\<close>, and the values of uninitialised memory (the transaction number that a request
  which fails to decode leaves unset, the packet buffer of the response, the sector buffer,
  the bytes \<open>realloc\<close> adds, the fields of the packet that \<open>qrtr_decode\<close> does not set).\<close>

record rmtfs_state =
  rs_px :: posix
  rs_st :: storage
  rs_mem :: rmtfs_mem
  rs_sock :: sock_state

record rmtfs_env =
  re_st :: st_env
  re_send :: int
  re_txn :: nat
  re_resp :: "nat \<Rightarrow> u8"
  re_buf :: "nat \<Rightarrow> u8"
  re_junk :: "nat \<Rightarrow> u8"
  re_pkt :: qrtr_packet

definition qmi_result_error :: "rmtfs_qmi_result \<Rightarrow> u16 \<Rightarrow> rmtfs_qmi_result" where
  "qmi_result_error result error =
     (if qr_result result = QMI_RMTFS_RESULT_FAILURE then result
      else \<lparr>qr_result = QMI_RMTFS_RESULT_FAILURE, qr_error = error\<rparr>)"

text \<open>What follows the label \<open>respond\<close> in the handlers.\<close>

definition respond ::
    "rmtfs_env \<Rightarrow> rmtfs_state \<Rightarrow> qrtr_packet \<Rightarrow> nat \<Rightarrow> nat \<Rightarrow> obj \<Rightarrow> qmi_elem_info list \<Rightarrow> rmtfs_state option" where
  "respond e s pkt msg_id txn resp ei =
     map_option (\<lambda>k. s\<lparr>rs_sock := k\<rparr>) (send_response (rs_sock s) (re_send e) (re_resp e) pkt msg_id txn resp ei)"

definition rmtfs_open :: "rmtfs_env \<Rightarrow> rmtfs_state \<Rightarrow> qrtr_packet \<Rightarrow> rmtfs_state option" where
  "rmtfs_open e s pkt = do {
     (ret, txn, req) \<leftarrow> decode_request (re_txn e) pkt 260 QMI_RMTFS_OPEN rmtfs_open_req_ei;
     let resp = \<lparr>or_result = success, or_caller_id_valid = False, or_caller_id = 0\<rparr>;
     if ret < 0 then
       respond e s pkt QMI_RMTFS_OPEN txn
         (open_resp_obj (resp\<lparr>or_result := qmi_result_error success QMI_RMTFS_ERR_MALFORMED_MSG\<rparr>))
         rmtfs_open_resp_ei
     else do {
       path \<leftarrow> obj_string req 4;
       let (rmtfd, px, st) = storage_open (re_st e) (rs_px s) (rs_st s) (p_node pkt) path;
       let s1 = s\<lparr>rs_px := px, rs_st := st\<rparr>;
       respond e s1 pkt QMI_RMTFS_OPEN txn
         (open_resp_obj
            (case rmtfd of
               None \<Rightarrow> resp\<lparr>or_result := qmi_result_error success QMI_RMTFS_ERR_INTERNAL\<rparr>
             | Some i \<Rightarrow> resp\<lparr>or_caller_id := of_nat (storage_get_caller_id st i), or_caller_id_valid := True\<rparr>))
         rmtfs_open_resp_ei } }"

text \<open>\<open>rmtfs_mem_free\<close> does nothing.\<close>

definition rmtfs_mem_free :: "rmtfs_mem \<Rightarrow> rmtfs_mem" where
  "rmtfs_mem_free rmem = rmem"

definition rmtfs_close :: "rmtfs_env \<Rightarrow> rmtfs_state \<Rightarrow> qrtr_packet \<Rightarrow> rmtfs_state option" where
  "rmtfs_close e s pkt = do {
     (ret, txn, req) \<leftarrow> decode_request (re_txn e) pkt 4 QMI_RMTFS_CLOSE rmtfs_close_req_ei;
     if ret < 0 then
       respond e s pkt QMI_RMTFS_CLOSE txn
         (result_obj (qmi_result_error success QMI_RMTFS_ERR_MALFORMED_MSG)) rmtfs_close_resp_ei
     else do {
       caller_id \<leftarrow> obj_u32 req 0;
       rmtfd \<leftarrow> storage_get (rs_st s) (p_node pkt) (sint caller_id);
       (case rmtfd of
          None \<Rightarrow>
            respond e s pkt QMI_RMTFS_CLOSE txn
              (result_obj (qmi_result_error success QMI_RMTFS_ERR_INTERNAL)) rmtfs_close_resp_ei
        | Some i \<Rightarrow>
            let (px, st) = storage_close (rs_px s) (rs_st s) i in
            respond e (s\<lparr>rs_px := px, rs_st := st, rs_mem := rmtfs_mem_free (rs_mem s)\<rparr>) pkt QMI_RMTFS_CLOSE txn
              (result_obj success) rmtfs_close_resp_ei) } }"

text \<open>The inner loop of \<open>rmtfs_iovec\<close>: one sector, then \<open>k\<close> sectors. \<open>phys\<close> is \<open>phys_base +
  offset\<close>, \<open>sector\<close> is \<open>sector_base + offset\<close>; \<open>buf\<close> is the sector buffer. The result says
  whether all sectors were transferred.\<close>

abbreviation (input) SECTOR_SIZE :: nat where "SECTOR_SIZE \<equiv> 512"

definition iovec_sector ::
    "rmtfs_env \<Rightarrow> bool \<Rightarrow> nat \<Rightarrow> nat \<Rightarrow> nat \<Rightarrow> bytes \<times> rmtfs_state \<Rightarrow> (int \<times> bytes \<times> rmtfs_state) option" where
  "iovec_sector e is_write rmtfd phys sector bs =
     (case bs of (buf, s) \<Rightarrow>
        if is_write then do {
          (n, buf1, px) \<leftarrow> rmtfs_mem_read (rs_mem s) (rs_px s) (of_nat phys) buf (int SECTOR_SIZE);
          if n = int SECTOR_SIZE then do {
            (n1, px1, st) \<leftarrow> storage_pwrite (re_st e) (re_junk e) px (rs_st s) rmtfd buf1 sector;
            Some (n1, buf1, s\<lparr>rs_px := px1, rs_st := st\<rparr>) }
          else Some (n, buf1, s\<lparr>rs_px := px\<rparr>) }
        else do {
          (n, buf1, px) \<leftarrow> storage_pread (rs_px s) (rs_st s) rmtfd buf SECTOR_SIZE sector;
          if n \<ge> 0 then do {
            let buf2 = (if n < int SECTOR_SIZE then take (nat n) buf1 @ replicate (SECTOR_SIZE - nat n) 0 else buf1);
            (n1, mem, px1) \<leftarrow> rmtfs_mem_write (rs_mem s) px (of_nat phys) buf2 (int SECTOR_SIZE);
            Some (n1, buf2, s\<lparr>rs_mem := mem, rs_px := px1\<rparr>) }
          else Some (n, buf1, s\<lparr>rs_px := px\<rparr>) })"

fun iovec_sectors ::
    "rmtfs_env \<Rightarrow> bool \<Rightarrow> nat \<Rightarrow> nat \<Rightarrow> nat \<Rightarrow> nat \<Rightarrow> bytes \<times> rmtfs_state \<Rightarrow> (bool \<times> bytes \<times> rmtfs_state) option" where
  "iovec_sectors e is_write rmtfd phys sector 0 bs = Some (True, bs)"
| "iovec_sectors e is_write rmtfd phys sector (Suc k) bs = do {
     (n, bs1) \<leftarrow> iovec_sector e is_write rmtfd phys sector bs;
     if n \<noteq> int SECTOR_SIZE then Some (False, bs1)
     else iovec_sectors e is_write rmtfd (phys + SECTOR_SIZE) (sector + SECTOR_SIZE) k bs1 }"

text \<open>The outer loop. \<open>entries[i].sector_addr * SECTOR_SIZE\<close> is a product of 32-bit numbers.\<close>

fun iovec_entries ::
    "rmtfs_env \<Rightarrow> bool \<Rightarrow> nat \<Rightarrow> rmtfs_iovec_entry list \<Rightarrow> bytes \<times> rmtfs_state \<Rightarrow> (bool \<times> bytes \<times> rmtfs_state) option" where
  "iovec_entries e is_write rmtfd [] bs = Some (True, bs)"
| "iovec_entries e is_write rmtfd (en # ens) bs = do {
     (ok, bs1) \<leftarrow> iovec_sectors e is_write rmtfd (unat (ie_phys_offset en)) (unat (ie_sector_addr en * 512))
       (unat (ie_num_sector en)) bs;
     if \<not> ok then Some (False, bs1) else iovec_entries e is_write rmtfd ens bs1 }"

definition obj_iovec_entry :: "obj \<Rightarrow> nat \<Rightarrow> rmtfs_iovec_entry option" where
  "obj_iovec_entry req i = do {
     a \<leftarrow> obj_u32 req (16 + 12 * i);
     p \<leftarrow> obj_u32 req (20 + 12 * i);
     n \<leftarrow> obj_u32 req (24 + 12 * i);
     Some \<lparr>ie_sector_addr = a, ie_phys_offset = p, ie_num_sector = n\<rparr> }"

fun obj_iovec_entries :: "obj \<Rightarrow> nat \<Rightarrow> nat \<Rightarrow> rmtfs_iovec_entry list option" where
  "obj_iovec_entries req i 0 = Some []"
| "obj_iovec_entries req i (Suc k) = do {
     en \<leftarrow> obj_iovec_entry req i;
     ens \<leftarrow> obj_iovec_entries req (Suc i) k;
     Some (en # ens) }"

definition rmtfs_iovec :: "rmtfs_env \<Rightarrow> rmtfs_state \<Rightarrow> qrtr_packet \<Rightarrow> rmtfs_state option" where
  "rmtfs_iovec e s pkt = do {
     (ret, txn, req) \<leftarrow> decode_request (re_txn e) pkt 3080 QMI_RMTFS_RW_IOVEC rmtfs_iovec_req_ei;
     if ret < 0 then
       respond e s pkt QMI_RMTFS_RW_IOVEC txn
         (result_obj (qmi_result_error success QMI_RMTFS_ERR_MALFORMED_MSG)) rmtfs_iovec_resp_ei
     else do {
       caller_id \<leftarrow> obj_u32 req 0;
       direction \<leftarrow> obj_read req 4 1;
       iovec_len \<leftarrow> obj_read req 8 8;
       rmtfd \<leftarrow> storage_get (rs_st s) (p_node pkt) (sint caller_id);
       (case rmtfd of
          None \<Rightarrow>
            respond e s pkt QMI_RMTFS_RW_IOVEC txn
              (result_obj (qmi_result_error success QMI_RMTFS_ERR_INTERNAL)) rmtfs_iovec_resp_ei
        | Some i \<Rightarrow> do {
            entries \<leftarrow> obj_iovec_entries req 0 (le_val iovec_len);
            (ok, buf, s1) \<leftarrow> iovec_entries e (direction \<noteq> [0]) i entries (map (re_buf e) [0..<SECTOR_SIZE], s);
            respond e s1 pkt QMI_RMTFS_RW_IOVEC txn
              (result_obj (if ok then success else qmi_result_error success QMI_RMTFS_ERR_INTERNAL))
              rmtfs_iovec_resp_ei }) } }"

definition rmtfs_alloc_buf :: "rmtfs_env \<Rightarrow> rmtfs_state \<Rightarrow> qrtr_packet \<Rightarrow> rmtfs_state option" where
  "rmtfs_alloc_buf e s pkt = do {
     (ret, txn, req) \<leftarrow> decode_request (re_txn e) pkt 8 QMI_RMTFS_ALLOC_BUFF rmtfs_alloc_buf_req_ei;
     let resp = \<lparr>ar_result = success, ar_buff_address_valid = False, ar_buff_address = 0\<rparr>;
     if ret < 0 then
       respond e s pkt QMI_RMTFS_ALLOC_BUFF txn
         (alloc_buf_resp_obj (resp\<lparr>ar_result := qmi_result_error success QMI_RMTFS_ERR_MALFORMED_MSG\<rparr>))
         rmtfs_alloc_buf_resp_ei
     else do {
       alloc_size \<leftarrow> obj_u32 req 4;
       let address = rmtfs_mem_alloc (rs_mem s) (unat alloc_size);
       respond e s pkt QMI_RMTFS_ALLOC_BUFF txn
         (alloc_buf_resp_obj
            (if address < 0 then resp\<lparr>ar_result := qmi_result_error success QMI_RMTFS_ERR_INTERNAL\<rparr>
             else resp\<lparr>ar_buff_address := of_int address, ar_buff_address_valid := True\<rparr>))
         rmtfs_alloc_buf_resp_ei } }"

text \<open>\<open>rmtfs_get_dev_error\<close> answers an error when the handle exists, and reads it when it does
  not.\<close>

definition rmtfs_get_dev_error :: "rmtfs_env \<Rightarrow> rmtfs_state \<Rightarrow> qrtr_packet \<Rightarrow> rmtfs_state option" where
  "rmtfs_get_dev_error e s pkt = do {
     (ret, txn, req) \<leftarrow> decode_request (re_txn e) pkt 4 QMI_RMTFS_GET_DEV_ERROR rmtfs_dev_error_req_ei;
     let resp = \<lparr>dr_result = success, dr_status_valid = False, dr_status = 0\<rparr>;
     if ret < 0 then
       respond e s pkt QMI_RMTFS_GET_DEV_ERROR txn
         (dev_error_resp_obj (resp\<lparr>dr_result := qmi_result_error success QMI_RMTFS_ERR_MALFORMED_MSG\<rparr>))
         rmtfs_dev_error_resp_ei
     else do {
       caller_id \<leftarrow> obj_u32 req 0;
       rmtfd \<leftarrow> storage_get (rs_st s) (p_node pkt) (sint caller_id);
       if rmtfd \<noteq> None then
         respond e s pkt QMI_RMTFS_GET_DEV_ERROR txn
           (dev_error_resp_obj (resp\<lparr>dr_result := qmi_result_error success QMI_RMTFS_ERR_INTERNAL\<rparr>))
           rmtfs_dev_error_resp_ei
       else do {
         status \<leftarrow> storage_get_error (rs_st s) rmtfd;
         respond e s pkt QMI_RMTFS_GET_DEV_ERROR txn
           (dev_error_resp_obj (resp\<lparr>dr_status := of_nat status, dr_status_valid := True\<rparr>))
           rmtfs_dev_error_resp_ei } } }"

definition rmtfs_bye :: "u32 \<Rightarrow> int" where
  "rmtfs_bye node = 0"

definition rmtfs_del_client :: "u32 \<Rightarrow> u32 \<Rightarrow> int" where
  "rmtfs_del_client node port = 0"

text \<open>\<open>handle_rmtfs\<close>: \<open>len\<close> is the result of \<open>recvfrom\<close> (the negative error number when it
  fails), \<open>buf\<close> the 4096 bytes of the stack buffer after it.\<close>

definition handle_rmtfs ::
    "rmtfs_env \<Rightarrow> rmtfs_state \<Rightarrow> int \<Rightarrow> bytes \<Rightarrow> sockaddr_qrtr \<Rightarrow> (int \<times> rmtfs_state) option" where
  "handle_rmtfs e s len buf sq =
     (if len < 0 then Some (len, s)
      else do {
        (ret, pkt) \<leftarrow> qrtr_decode (re_pkt e) buf (nat len) sq;
        if ret < 0 then Some (ret, s)
        else if p_type pkt = QRTR_TYPE_BYE then Some (rmtfs_bye (p_node pkt), s)
        else if p_type pkt = QRTR_TYPE_DEL_CLIENT then Some (rmtfs_del_client (p_node pkt) (p_port pkt), s)
        else if p_type pkt = QRTR_TYPE_DATA then do {
          data \<leftarrow> p_data pkt;
          (ret1, msg_id) \<leftarrow> qmi_decode_header (obj_of_bytes data) (p_data_len pkt);
          if ret1 < 0 then Some (ret1, s)
          else
            map_option (Pair 0)
              (if msg_id = Some QMI_RMTFS_OPEN then rmtfs_open e s pkt
               else if msg_id = Some QMI_RMTFS_CLOSE then rmtfs_close e s pkt
               else if msg_id = Some QMI_RMTFS_RW_IOVEC then rmtfs_iovec e s pkt
               else if msg_id = Some QMI_RMTFS_ALLOC_BUFF then rmtfs_alloc_buf e s pkt
               else if msg_id = Some QMI_RMTFS_GET_DEV_ERROR then rmtfs_get_dev_error e s pkt
               else Some s) }
        else Some (ret, s) })"

end
