(* ===== verification/RmtfsCorrect.thy ===== *)
theory RmtfsCorrect
  imports Rmtfs
begin

text \<open>
  What the handlers of \<^verbatim>\<open>qcom/rmtfs/rmtfs.c\<close> do with complete requests and with arbitrary
  datagrams: the exact replies, the transfer of sectors between the shared memory and the
  storage, the invariant of the service, and the requests it does not survive.
\<close>

section \<open>Replies\<close>

text \<open>Every response fits the buffer: the encoder returns its bytes, whatever the buffer held.\<close>

definition send :: "rmtfs_env \<Rightarrow> rmtfs_state \<Rightarrow> qrtr_packet \<Rightarrow> bytes \<Rightarrow> rmtfs_state" where
  "send e s pkt bs = s\<lparr>rs_sock := snd (qrtr_sendto (rs_sock s) (re_send e) (p_node pkt) (p_port pkt) bs)\<rparr>"

lemma respond_encoded:
  "encoded (re_resp e) msg_id txn resp ei = Some bs \<Longrightarrow> respond e s pkt msg_id txn resp ei = Some (send e s pkt bs)"
  by (simp add: respond_def send_def send_response_encoded)

lemma length_result_bytes [simp]: "length (result_bytes r) = 4"
  by (simp add: result_bytes_def)

lemma encode_open_resp:
  "encoded junk 1 txn (obj_of_bytes [a, b, c, d, 0, 0, 0, 0, p, q, r, t]) rmtfs_open_resp_ei =
     Some (qmi_header 2 txn 1 7 @ [2, 4, 0, a, b, c, d])"
  "encoded junk 1 txn (obj_of_bytes [a, b, c, d, 1, 0, 0, 0, p, q, r, t]) rmtfs_open_resp_ei =
     Some (qmi_header 2 txn 1 14 @ [2, 4, 0, a, b, c, d, 16, 4, 0, p, q, r, t])"
  by code_simp+

lemma encode_alloc_resp:
  "encoded junk 4 txn (obj_of_bytes [a, b, c, d, 0, 0, 0, 0, p, q, r, t, p', q', r', t']) rmtfs_alloc_buf_resp_ei =
     Some (qmi_header 2 txn 4 7 @ [2, 4, 0, a, b, c, d])"
  "encoded junk 4 txn (obj_of_bytes [a, b, c, d, 1, 0, 0, 0, p, q, r, t, p', q', r', t']) rmtfs_alloc_buf_resp_ei =
     Some (qmi_header 2 txn 4 18 @ [2, 4, 0, a, b, c, d, 16, 8, 0, p, q, r, t, p', q', r', t'])"
  by code_simp+

lemma encode_dev_error_resp:
  "encoded junk 5 txn (obj_of_bytes [a, b, c, d, 0, p]) rmtfs_dev_error_resp_ei =
     Some (qmi_header 2 txn 5 7 @ [2, 4, 0, a, b, c, d])"
  "encoded junk 5 txn (obj_of_bytes [a, b, c, d, 1, p]) rmtfs_dev_error_resp_ei =
     Some (qmi_header 2 txn 5 11 @ [2, 4, 0, a, b, c, d, 16, 1, 0, p])"
  by code_simp+

lemma encode_result:
  "encoded junk 2 txn (obj_of_bytes [a, b, c, d]) rmtfs_close_resp_ei = Some (qmi_header 2 txn 2 7 @ [2, 4, 0, a, b, c, d])"
  "encoded junk 3 txn (obj_of_bytes [a, b, c, d]) rmtfs_iovec_resp_ei = Some (qmi_header 2 txn 3 7 @ [2, 4, 0, a, b, c, d])"
  by code_simp+

text \<open>The replies, and that the handlers send them.\<close>

definition open_reply :: "nat \<Rightarrow> rmtfs_open_resp \<Rightarrow> bytes" where
  "open_reply txn r =
     (let tail = (if or_caller_id_valid r then [16, 4, 0] @ le_bytes 4 (unat (or_caller_id r)) else [])
      in qmi_header 2 txn 1 (7 + length tail) @ [2, 4, 0] @ result_bytes (or_result r) @ tail)"

definition alloc_buf_reply :: "nat \<Rightarrow> rmtfs_alloc_buf_resp \<Rightarrow> bytes" where
  "alloc_buf_reply txn r =
     (let tail = (if ar_buff_address_valid r then [16, 8, 0] @ le_bytes 8 (unat (ar_buff_address r)) else [])
      in qmi_header 2 txn 4 (7 + length tail) @ [2, 4, 0] @ result_bytes (ar_result r) @ tail)"

definition dev_error_reply :: "nat \<Rightarrow> rmtfs_dev_error_resp \<Rightarrow> bytes" where
  "dev_error_reply txn r =
     (let tail = (if dr_status_valid r then [16, 1, 0, dr_status r] else [])
      in qmi_header 2 txn 5 (7 + length tail) @ [2, 4, 0] @ result_bytes (dr_result r) @ tail)"

definition result_reply :: "nat \<Rightarrow> nat \<Rightarrow> rmtfs_qmi_result \<Rightarrow> bytes" where
  "result_reply msg_id txn r = qmi_header 2 txn msg_id 7 @ [2, 4, 0] @ result_bytes r"

lemma respond_open: "respond e s pkt 1 txn (open_resp_obj r) rmtfs_open_resp_ei = Some (send e s pkt (open_reply txn r))"
  using length_4 [OF length_result_bytes, of "or_result r"] length_4 [OF length_le_bytes, of "unat (or_caller_id r)"]
  by (intro respond_encoded) (auto simp: open_resp_obj_def open_reply_def encode_open_resp [unfolded One_nat_def] bool_byte_def)

lemma respond_alloc_buf:
  "respond e s pkt 4 txn (alloc_buf_resp_obj r) rmtfs_alloc_buf_resp_ei = Some (send e s pkt (alloc_buf_reply txn r))"
  using length_4 [OF length_result_bytes, of "ar_result r"] length_8 [OF length_le_bytes, of "unat (ar_buff_address r)"]
  by (intro respond_encoded) (auto simp: alloc_buf_resp_obj_def alloc_buf_reply_def encode_alloc_resp bool_byte_def)

lemma respond_dev_error:
  "respond e s pkt 5 txn (dev_error_resp_obj r) rmtfs_dev_error_resp_ei = Some (send e s pkt (dev_error_reply txn r))"
  using length_4 [OF length_result_bytes, of "dr_result r"]
  by (intro respond_encoded) (auto simp: dev_error_resp_obj_def dev_error_reply_def encode_dev_error_resp bool_byte_def)

lemma respond_result:
  "respond e s pkt 2 txn (result_obj r) rmtfs_close_resp_ei = Some (send e s pkt (result_reply 2 txn r))"
  "respond e s pkt 3 txn (result_obj r) rmtfs_iovec_resp_ei = Some (send e s pkt (result_reply 3 txn r))"
  using length_4 [OF length_result_bytes, of r]
  by (intro respond_encoded; auto simp: result_obj_def result_reply_def encode_result)+

section \<open>Requests\<close>

definition data_pkt :: "rmtfs_env \<Rightarrow> bytes \<Rightarrow> nat \<Rightarrow> sockaddr_qrtr \<Rightarrow> qrtr_packet" where
  "data_pkt e buf len sq = (re_pkt e)\<lparr>p_type := QRTR_TYPE_DATA, p_node := sq_node sq, p_port := sq_port sq,
     p_data := Some buf, p_data_len := len\<rparr>"

definition dispatch :: "rmtfs_env \<Rightarrow> rmtfs_state \<Rightarrow> qrtr_packet \<Rightarrow> nat \<Rightarrow> rmtfs_state option" where
  "dispatch e s pkt msg_id =
     (if msg_id = QMI_RMTFS_OPEN then rmtfs_open e s pkt
      else if msg_id = QMI_RMTFS_CLOSE then rmtfs_close e s pkt
      else if msg_id = QMI_RMTFS_RW_IOVEC then rmtfs_iovec e s pkt
      else if msg_id = QMI_RMTFS_ALLOC_BUFF then rmtfs_alloc_buf e s pkt
      else if msg_id = QMI_RMTFS_GET_DEV_ERROR then rmtfs_get_dev_error e s pkt
      else Some s)"

lemma handle_data:
  assumes "sq_port sq \<noteq> QRTR_PORT_CTRL" and "length body < 65536" and "msg_id < 65536"
  shows "handle_rmtfs e s (int (7 + length body)) (request txn msg_id body @ rest) sq =
    map_option (Pair 0) (dispatch e s (data_pkt e (request txn msg_id body @ rest) (7 + length body) sq) msg_id)"
proof -
  have "qmi_decode_header (obj_of_bytes (request txn msg_id body @ rest)) (7 + length body) = Some (0, Some msg_id)"
    by (rule request_header [OF assms(2,3)])
  then show ?thesis
    using assms(1) by (simp add: handle_rmtfs_def qrtr_decode_def dispatch_def data_pkt_def nat_add_distrib)
qed

lemma decode_data_pkt:
  assumes "length (request txn msg_id body @ rest) = 4096" and "msg_id < 65536"
    and "qmi_decode (obj_of_bytes (request txn msg_id body @ rest)) (Some ei) (obj_zero sz) 0 7 (length body) 1 = Some (rc, ob)"
  shows "decode_request (re_txn e) (data_pkt e (request txn msg_id body @ rest) (7 + length body) sq) sz msg_id ei =
    Some (rc, txn mod 65536, ob)"
  using assms by (intro decode_request_data) (simp_all add: data_pkt_def)

definition caller_body :: "u32 \<Rightarrow> bytes" where
  "caller_body caller_id = [1, 4, 0] @ le_bytes 4 (unat caller_id)"

definition alloc_body :: "u32 \<Rightarrow> u32 \<Rightarrow> bytes" where
  "alloc_body caller_id alloc_size = caller_body caller_id @ [2, 4, 0] @ le_bytes 4 (unat alloc_size)"

definition entry_bytes :: "rmtfs_iovec_entry \<Rightarrow> bytes" where
  "entry_bytes en = le_bytes 4 (unat (ie_sector_addr en)) @ le_bytes 4 (unat (ie_phys_offset en)) @
     le_bytes 4 (unat (ie_num_sector en))"

definition iovec_body :: "u32 \<Rightarrow> u8 \<Rightarrow> rmtfs_iovec_entry list \<Rightarrow> u8 \<Rightarrow> bytes" where
  "iovec_body caller_id direction entries force =
     caller_body caller_id @ [2, 1, 0, direction] @
     [3] @ le_bytes 2 (1 + length entries * 12) @ [of_nat (length entries)] @ concat (map entry_bytes entries) @
     [4, 1, 0, force]"

text \<open>Decoding the body of each request. In these lemmas the body starts at index 7 of the
  buffer \<open>d\<close>.\<close>

lemma caller_exact:
  assumes r: "obj_read d 7 7 = Some (caller_body c)" and ei: "find_ei ei 1 = Some (Some (Elem QMI_UNSIGNED_4_BYTE 1 4 NO_ARRAY 1 0 None # es))"
    and w: "obj_write out 0 (le_bytes 4 (unat c)) = Some ob"
  shows "dec_elem dec ei d 0 lim 1 cur \<lparr>d_out = out, d_src = 7, d_bytes = 0, d_dlen = 0\<rparr> =
    Some (DGo es \<lparr>d_out = ob, d_src = 14, d_bytes = 7, d_dlen = 1\<rparr>)"
  using dec_basic_top [of d "\<lparr>d_out = out, d_src = 7, d_bytes = 0, d_dlen = 0\<rparr>" "Elem QMI_UNSIGNED_4_BYTE 1 4 NO_ARRAY 1 0 None"
      1 4 0 "le_bytes 4 (unat c)" ei es 0 ob] r ei w by (simp add: caller_body_def)

lemma decode_caller:
  assumes "obj_read d 7 7 = Some (caller_body c)"
  shows "\<exists>ob. qmi_decode d (Some rmtfs_close_req_ei) (obj_zero 4) 0 7 7 1 = Some (7, ob) \<and> obj_u32 ob 0 = Some c"
proof -
  let ?bs = "le_bytes 4 (unat c)"
  obtain ob where ob: "obj_write (obj_zero 4) 0 ?bs = Some ob" using obj_write_exists [of 0 ?bs "obj_zero 4"] by auto
  have "dec_loop (qmi_decode_n 0 d) rmtfs_close_req_ei d 0 7 1 rmtfs_close_req_ei
      \<lparr>d_out = obj_zero 4, d_src = 7, d_bytes = 0, d_dlen = 0\<rparr> = Some (7, ob)"
    by (subst dec_loop_go [OF caller_exact [OF assms _ ob]]) (simp_all add: rmtfs_close_req_ei_def dec_loop_stop)
  then show ?thesis
    using obj_read_write_same [OF ob] by (auto simp: qmi_decode_def depth_def rmtfs_close_req_ei_def eoti_def intro: obj_u32_read)
qed

lemma decode_alloc:
  assumes "obj_read d 7 14 = Some (alloc_body c n)"
  shows "\<exists>ob. qmi_decode d (Some rmtfs_alloc_buf_req_ei) (obj_zero 8) 0 7 14 1 = Some (14, ob) \<and> obj_u32 ob 4 = Some n"
proof -
  let ?b1 = "le_bytes 4 (unat c)" and ?b2 = "le_bytes 4 (unat n)"
  let ?e = "Elem QMI_UNSIGNED_4_BYTE 1 4 NO_ARRAY 2 4 None"
  obtain o1 where o1: "obj_write (obj_zero 8) 0 ?b1 = Some o1" using obj_write_exists [of 0 ?b1 "obj_zero 8"] by auto
  obtain o2 where o2: "obj_write o1 4 ?b2 = Some o2"
    using obj_write_exists [of 4 ?b2 o1] obj_write_size [OF o1] by auto
  let ?st = "\<lparr>d_out = o1, d_src = 14, d_bytes = 7, d_dlen = 1\<rparr>"
  have r: "obj_read d 7 7 = Some (caller_body c)" "obj_read d 14 7 = Some ([2, 4, 0] @ ?b2)"
    using obj_read_sub [OF assms, of 0 7] obj_read_sub [OF assms, of 7 7] by (simp_all add: alloc_body_def caller_body_def)
  have s: "dec_elem (qmi_decode_n 0 d) rmtfs_alloc_buf_req_ei d 0 14 1 [?e, eoti] ?st =
      Some (DGo [eoti] \<lparr>d_out = o2, d_src = 21, d_bytes = 14, d_dlen = 1\<rparr>)"
    using dec_basic_top [of d ?st ?e 2 4 0 ?b2 rmtfs_alloc_buf_req_ei "[eoti]" 0 o2] r(2) o2
    by (simp add: rmtfs_alloc_buf_req_ei_def)
  have "dec_loop (qmi_decode_n 0 d) rmtfs_alloc_buf_req_ei d 0 14 1 rmtfs_alloc_buf_req_ei
      \<lparr>d_out = obj_zero 8, d_src = 7, d_bytes = 0, d_dlen = 0\<rparr> = dec_loop (qmi_decode_n 0 d) rmtfs_alloc_buf_req_ei d 0 14 1 [?e, eoti] ?st"
    by (rule dec_loop_go [OF caller_exact [OF r(1) _ o1]]) (simp_all add: rmtfs_alloc_buf_req_ei_def)
  also have "\<dots> = Some (14, o2)"
    by (subst dec_loop_go [OF s]) (simp_all add: dec_loop_stop)
  finally show ?thesis
    using obj_read_write_same [OF o2] by (auto simp: qmi_decode_def depth_def rmtfs_alloc_buf_req_ei_def eoti_def intro: obj_u32_read)
qed

lemma length_entry_bytes [simp]: "length (entry_bytes en) = 12"
  by (simp add: entry_bytes_def)

lemma length_entries [simp]: "length (concat (map entry_bytes ens)) = length ens * 12"
  by (induction ens) auto

lemma read_entries:
  "obj_read ob (16 + 12 * i) (length ens * 12) = Some (concat (map entry_bytes ens)) \<Longrightarrow>
     obj_iovec_entries ob i (length ens) = Some ens"
proof (induction ens arbitrary: i)
  case Nil
  then show ?case by simp
next
  case (Cons en ens)
  have r: "obj_read ob (16 + 12 * i) (12 + length ens * 12) = Some (entry_bytes en @ concat (map entry_bytes ens))"
    using Cons.prems by simp
  note split = obj_read_split [OF r, simplified]
  have "obj_read ob (16 + 12 * i + 0) 4 = Some (take 4 (drop 0 (entry_bytes en)))"
    "obj_read ob (16 + 12 * i + 4) 4 = Some (take 4 (drop 4 (entry_bytes en)))"
    "obj_read ob (16 + 12 * i + 8) 4 = Some (take 4 (drop 8 (entry_bytes en)))"
    by (rule obj_read_sub [OF split(1)], simp)+
  then have "obj_u32 ob (16 + 12 * i) = Some (ie_sector_addr en)" "obj_u32 ob (20 + 12 * i) = Some (ie_phys_offset en)"
    "obj_u32 ob (24 + 12 * i) = Some (ie_num_sector en)"
    by (auto simp: entry_bytes_def intro!: obj_u32_read)
  then have "obj_iovec_entry ob i = Some en" by (simp add: obj_iovec_entry_def)
  moreover have "obj_iovec_entries ob (Suc i) (length ens) = Some ens"
    using split(2) by (intro Cons.IH) (simp add: algebra_simps)
  ultimately show ?case by simp
qed

lemma iovec_entry_copies:
  "copies (qmi_decode_n (Suc k) d) d (Elem QMI_STRUCT 255 12 VAR_LEN_ARRAY 3 16 (Some rmtfs_iovec_entry_ei))"
  by (rule flat_copies [of _ rmtfs_iovec_entry_ei]) (simp_all add: rmtfs_iovec_entry_ei_def eoti_def)

lemma decode_iovec:
  assumes r: "obj_read d 7 (19 + length ens * 12) = Some (iovec_body c w ens force)" and n: "length ens \<le> 255"
  shows "\<exists>ob. qmi_decode d (Some rmtfs_iovec_req_ei) (obj_zero 3080) 0 7 (19 + length ens * 12) 1 =
      Some (int (19 + length ens * 12), ob) \<and>
    obj_u32 ob 0 = Some c \<and> obj_read ob 4 1 = Some [w] \<and> obj_read ob 8 8 = Some (le_bytes 4 (length ens) @ [0, 0, 0, 0]) \<and>
    obj_iovec_entries ob 0 (length ens) = Some ens"
proof -
  let ?n = "length ens" and ?bs = "concat (map entry_bytes ens)" and ?ei = rmtfs_iovec_req_ei
  let ?dec = "qmi_decode_n 1 d" and ?lim = "19 + length ens * 12"
  let ?ew = "Elem QMI_UNSIGNED_1_BYTE 1 1 NO_ARRAY 2 4 None" and ?el = "Elem QMI_DATA_LEN 1 1 NO_ARRAY 3 8 None"
  let ?es = "Elem QMI_STRUCT 255 12 VAR_LEN_ARRAY 3 16 (Some rmtfs_iovec_entry_ei)"
  let ?ef = "Elem QMI_UNSIGNED_1_BYTE 1 1 NO_ARRAY 4 3076 None"
  obtain l0 l1 where l: "le_bytes 2 (1 + ?n * 12) = [l0, l1]" "le_val [l0, l1] = 1 + ?n * 12"
    using le_bytes_2_split [of "1 + ?n * 12"] n by auto
  obtain o1 where o1: "obj_write (obj_zero 3080) 0 (le_bytes 4 (unat c)) = Some o1"
    using obj_write_exists [of 0 "le_bytes 4 (unat c)" "obj_zero 3080"] by auto
  obtain o2 where o2: "obj_write o1 4 [w] = Some o2"
    using obj_write_exists [of 4 "[w]" o1] obj_write_size [OF o1] by auto
  obtain o3 where o3: "obj_write o2 8 (le_bytes 4 ?n) = Some o3"
    using obj_write_exists [of 8 "le_bytes 4 ?n" o2] obj_write_size [OF o1] obj_write_size [OF o2] by auto
  obtain o4 where o4: "obj_write o3 16 ?bs = Some o4"
    using obj_write_exists [of 16 ?bs o3] obj_write_size [OF o1] obj_write_size [OF o2] obj_write_size [OF o3] n by auto
  obtain o5 where o5: "obj_write o4 3076 [force] = Some o5"
    using obj_write_exists [of 3076 "[force]" o4] obj_write_size [OF o1] obj_write_size [OF o2]
      obj_write_size [OF o3] obj_write_size [OF o4] by auto
  let ?s1 = "\<lparr>d_out = o1, d_src = 14, d_bytes = 7, d_dlen = 1\<rparr>"
  let ?s2 = "\<lparr>d_out = o2, d_src = 18, d_bytes = 11, d_dlen = 1\<rparr>"
  let ?s3 = "\<lparr>d_out = o4, d_src = 22 + ?n * 12, d_bytes = 15 + ?n * 12, d_dlen = ?n\<rparr>"
  let ?s4 = "\<lparr>d_out = o5, d_src = 26 + ?n * 12, d_bytes = 19 + ?n * 12, d_dlen = 1\<rparr>"
  have "obj_read d 7 (7 + (4 + ((4 + ?n * 12) + 4))) =
      Some (caller_body c @ [2, 1, 0, w] @ ([3, l0, l1, of_nat ?n] @ ?bs) @ [4, 1, 0, force])"
    using r l(1) by (simp add: iovec_body_def)
  note p1 = obj_read_split [OF this, simplified]
  note p2 = obj_read_split [of d 14 4 "(4 + ?n * 12) + 4" "[2, 1, 0, w]" "([3, l0, l1, of_nat ?n] @ ?bs) @ [4, 1, 0, force]"]
  note p3 = obj_read_split [of d 18 "4 + ?n * 12" 4 "[3, l0, l1, of_nat ?n] @ ?bs" "[4, 1, 0, force]"]
  have r1: "obj_read d 7 7 = Some (caller_body c)" and r2: "obj_read d 14 (3 + 1) = Some ([2, 1, 0] @ [w])"
    and r3: "obj_read d 18 (4 + ?n * 12) = Some ([3, l0, l1, of_nat ?n] @ ?bs)"
    and r4: "obj_read d (22 + ?n * 12) (3 + 1) = Some ([4, 1, 0] @ [force])"
    using p1 p2 p3 by (simp_all add: caller_body_def)
  have s2: "dec_elem ?dec ?ei d 0 ?lim 1 [?ew, ?el, ?es, ?ef, eoti] ?s1 = Some (DGo [?el, ?es, ?ef, eoti] ?s2)"
    using dec_basic_top [of d ?s1 ?ew 2 1 0 "[w]" ?ei "[?el, ?es, ?ef, eoti]" 0 o2] r2 o2
    by (simp add: rmtfs_iovec_req_ei_def)
  have un: "unat (of_nat ?n :: u8) = ?n" using n by (simp add: unat_of_nat)
  have s3: "dec_elem ?dec ?ei d 0 ?lim 1 [?el, ?es, ?ef, eoti] ?s2 = Some (DGo [?ef, eoti] ?s3)"
    using dec_array_top [of d ?s2 ?n ?es 3 l0 l1 "of_nat ?n" ?bs ?ei ?el "[?ef, eoti]" ?dec 0 o3 o4]
      r3 o3 o4 n l(2) un iovec_entry_copies [of 0 d] by (simp add: rmtfs_iovec_req_ei_def)
  have s4: "dec_elem ?dec ?ei d 0 ?lim 1 [?ef, eoti] ?s3 = Some (DGo [eoti] ?s4)"
    using dec_basic_top [of d ?s3 ?ef 4 1 0 "[force]" ?ei "[eoti]" 0 o5] r4 o5 n
    by (simp add: rmtfs_iovec_req_ei_def)
  have "dec_loop ?dec ?ei d 0 ?lim 1 ?ei \<lparr>d_out = obj_zero 3080, d_src = 7, d_bytes = 0, d_dlen = 0\<rparr> =
      dec_loop ?dec ?ei d 0 ?lim 1 [?ew, ?el, ?es, ?ef, eoti] ?s1"
    by (rule dec_loop_go [OF caller_exact [OF r1 _ o1]]) (simp_all add: rmtfs_iovec_req_ei_def)
  also have "\<dots> = Some (int (19 + ?n * 12), o5)"
    by (subst dec_loop_go [OF s2], simp, simp, subst dec_loop_go [OF s3], simp, simp,
        subst dec_loop_go [OF s4], simp, simp, subst dec_loop_stop) simp_all
  finally have "qmi_decode d (Some ?ei) (obj_zero 3080) 0 7 ?lim 1 = Some (int (19 + ?n * 12), o5)"
    by (simp add: qmi_decode_def depth_def rmtfs_iovec_req_ei_def rmtfs_iovec_entry_ei_def eoti_def)
  moreover note f5 = obj_read_write_other [OF o5] and f4 = obj_read_write_other [OF o4] and
    f3 = obj_read_write_other [OF o3] and f2 = obj_read_write_other [OF o2] and f1 = obj_read_write_other [OF o1]
  have "obj_u32 o5 0 = Some c" "obj_read o5 4 1 = Some [w]"
    using f5 f4 f3 f2 obj_read_write_same [OF o1] obj_read_write_same [OF o2] by (simp_all add: obj_u32_read)
  moreover have "obj_read (obj_zero 3080) 12 4 = Some [0, 0, 0, 0]" by (simp add: obj_read_def obj_zero_def upt_rec)
  then have "obj_read o5 8 4 = Some (le_bytes 4 ?n)" "obj_read o5 (8 + 4) 4 = Some [0, 0, 0, 0]"
    using f5 f4 f3 f2 f1 obj_read_write_same [OF o3] by simp_all
  then have "obj_read o5 8 8 = Some (le_bytes 4 ?n @ [0, 0, 0, 0])" using obj_read_append [of o5 8 4 _ 4] by simp
  moreover have "obj_read o5 16 (?n * 12) = Some ?bs"
    using f5 obj_read_write_same [OF o4] n by simp
  then have "obj_iovec_entries o5 0 ?n = Some ens" using read_entries [of o5 0 ens] by simp
  ultimately show ?thesis by blast
qed

section \<open>Sectors\<close>

text \<open>The specification of a transfer of \<open>k\<close> sectors at the physical address \<open>phys\<close>: it stops at
  the first sector that is not within the shared memory; the \<open>fits\<close> sectors before it are
  copied as one block.\<close>

definition fits :: "rmtfs_mem \<Rightarrow> nat \<Rightarrow> nat \<Rightarrow> nat" where
  "fits rmem phys k =
     (if unat (rm_address rmem) \<le> phys
      then min k ((unat (rm_address rmem) + unat (rm_size rmem) - phys) div 512) else 0)"


definition read_block :: "rmtfs_mem \<Rightarrow> bytes \<Rightarrow> nat \<Rightarrow> nat \<Rightarrow> nat \<Rightarrow> bytes \<Rightarrow> bytes" where
  "read_block rmem file phys sector k base =
     (let i = phys - unat (rm_address rmem)
      in take i base @ disk_read file sector (512 * k) @ drop (i + 512 * k) base)"


definition read_entry :: "rmtfs_mem \<Rightarrow> bytes \<Rightarrow> rmtfs_iovec_entry \<Rightarrow> bytes \<Rightarrow> bool \<times> bytes" where
  "read_entry rmem file en base =
     (let n = fits rmem (unat (ie_phys_offset en)) (unat (ie_num_sector en))
      in (n = unat (ie_num_sector en),
          read_block rmem file (unat (ie_phys_offset en)) (512 * unat (ie_sector_addr en)) n base))"

text \<open>The entries in turn, up to the first that fails.\<close>

fun in_turn :: "('a \<Rightarrow> 'b \<Rightarrow> bool \<times> 'b) \<Rightarrow> 'a list \<Rightarrow> 'b \<Rightarrow> bool \<times> 'b" where
  "in_turn f [] x = (True, x)"
| "in_turn f (y # ys) x = (if fst (f y x) then in_turn f ys (snd (f y x)) else f y x)"


definition read_spec :: "rmtfs_mem \<Rightarrow> bytes \<Rightarrow> rmtfs_iovec_entry list \<Rightarrow> bytes \<Rightarrow> bool \<times> bytes" where
  "read_spec rmem file = in_turn (read_entry rmem file)"

lemma fits_0 [simp]: "fits rmem phys 0 = 0"
  by (simp add: fits_def)

lemma fits_Suc:
  assumes "unat (rm_address rmem) \<le> phys" and "phys + 512 \<le> unat (rm_address rmem) + unat (rm_size rmem)"
  shows "fits rmem phys (Suc k) = Suc (fits rmem (phys + 512) k)"
proof -
  let ?e = "unat (rm_address rmem) + unat (rm_size rmem)"
  define q where "q = ?e - (phys + 512)"
  have "?e - phys = 512 + q" using assms(2) by (simp add: q_def)
  then have "(?e - phys) div 512 = Suc (q div 512)" by simp
  moreover have "unat (rm_address rmem) \<le> phys + 512" using assms(1) by simp
  ultimately show ?thesis using assms(1) unfolding fits_def q_def [symmetric] by (simp only: if_True min_Suc_Suc)
qed

lemma fits_none:
  assumes "\<not> (unat (rm_address rmem) \<le> phys \<and> phys + 512 \<le> unat (rm_address rmem) + unat (rm_size rmem))"
  shows "fits rmem phys k = 0"
  using assms by (auto simp: fits_def div_eq_0_iff)

lemma fits_le:
  assumes "fits rmem phys k = n" and "0 < n"
  shows "unat (rm_address rmem) \<le> phys \<and> phys + 512 * n \<le> unat (rm_address rmem) + unat (rm_size rmem) \<and> n \<le> k"
proof -
  let ?q = "(unat (rm_address rmem) + unat (rm_size rmem) - phys) div 512"
  have a: "unat (rm_address rmem) \<le> phys" "n \<le> k" "n \<le> ?q" using assms by (auto simp: fits_def split: if_splits)
  have "512 * n \<le> 512 * ?q" using a(3) by simp
  also have "\<dots> \<le> unat (rm_address rmem) + unat (rm_size rmem) - phys" by simp
  finally show ?thesis using a assms(2) by simp
qed


lemma disk_read_append: "disk_read file off (n + m) = disk_read file off n @ disk_read file (off + n) m"
  by (rule nth_equalityI) (auto simp: disk_read_nth nth_append)

text \<open>A handle open for writing on a file, and shared memory with the content \<open>base\<close>: mapped, or behind
  a device file of its size that is not the file of the handle.\<close>

definition transfer_ok :: "rmtfs_state \<Rightarrow> nat \<Rightarrow> string \<Rightarrow> bytes \<Rightarrow> bytes \<Rightarrow> bool" where
  "transfer_ok s i path file base \<longleftrightarrow>
     \<not> st_read_only (rs_st s) \<and> px_fds (rs_px s) (rf_fd (st_fds (rs_st s) ! i)) = Some path \<and>
     px_files (rs_px s) path = Some file \<and>
     unat (rm_address (rs_mem s)) + unat (rm_size (rs_mem s)) < 2 ^ 64 \<and> length base = unat (rm_size (rs_mem s)) \<and>
     (case rm_base (rs_mem s) of
        Some b \<Rightarrow> b = base
      | None \<Rightarrow> unat (rm_address (rs_mem s)) < 2 ^ 63 \<and>
          (\<exists>dev. px_fds (rs_px s) (rm_fd (rs_mem s)) = Some dev \<and> dev \<noteq> path \<and> px_files (rs_px s) dev = Some base))"

text \<open>Every system call transfers at least a sector when it is asked for one.\<close>

definition io_whole :: "rmtfs_state \<Rightarrow> bool" where
  "io_whole s \<longleftrightarrow> (\<forall>k. \<exists>m \<ge> 512. px_io (rs_px s) k = Some m)"

text \<open>The states with another content of the file or of the shared memory, after \<open>c\<close> system calls.\<close>

definition set_file :: "rmtfs_state \<Rightarrow> string \<Rightarrow> bytes \<Rightarrow> nat \<Rightarrow> rmtfs_state" where
  "set_file s path file c = s\<lparr>rs_px := (rs_px s)\<lparr>px_files := (px_files (rs_px s))(path \<mapsto> file), px_calls := c\<rparr>\<rparr>"

definition set_mem :: "rmtfs_state \<Rightarrow> bytes \<Rightarrow> nat \<Rightarrow> rmtfs_state" where
  "set_mem s base c =
     (case rm_base (rs_mem s) of
        Some b \<Rightarrow> s\<lparr>rs_mem := (rs_mem s)\<lparr>rm_base := Some base\<rparr>, rs_px := (rs_px s)\<lparr>px_calls := c\<rparr>\<rparr>
      | None \<Rightarrow> set_file s (the (px_fds (rs_px s) (rm_fd (rs_mem s)))) base c)"

abbreviation sector_in :: "rmtfs_mem \<Rightarrow> nat \<Rightarrow> bool" where
  "sector_in rmem phys \<equiv> unat (rm_address rmem) \<le> phys \<and> phys + 512 \<le> unat (rm_address rmem) + unat (rm_size rmem)"


lemma transfer_set_mem:
  assumes "transfer_ok s i path file base" and "length base' = length base"
  shows "transfer_ok (set_mem s base' c) i path file base'"
proof (cases "rm_base (rs_mem s)")
  case None
  then obtain dev where "px_fds (rs_px s) (rm_fd (rs_mem s)) = Some dev" "dev \<noteq> path"
    using assms(1) by (auto simp: transfer_ok_def)
  then show ?thesis using None assms by (simp add: transfer_ok_def set_mem_def set_file_def)
next
  case (Some b)
  then show ?thesis using assms by (simp add: transfer_ok_def set_mem_def)
qed

lemma set_file_twice [simp]: "set_file (set_file s path f c) path g c' = set_file s path g c'"
  by (simp add: set_file_def)

lemma set_mem_twice [simp]: "set_mem (set_mem s b c) b' c' = set_mem s b' c'"
  by (auto simp: set_mem_def set_file_def split: option.splits)


lemma set_mem_same: "transfer_ok s i path file base \<Longrightarrow> set_mem s base (px_calls (rs_px s)) = s"
  by (cases s, cases "rs_px s", cases "rs_mem s")
    (auto simp: transfer_ok_def set_mem_def set_file_def fun_upd_idem split: option.splits)

lemma set_file_fields [simp]:
  "rs_mem (set_file s path f c) = rs_mem s" "rs_st (set_file s path f c) = rs_st s"
  "rs_sock (set_file s path f c) = rs_sock s" "io_whole (set_file s path f c) = io_whole s"
  by (simp_all add: set_file_def io_whole_def)

lemma set_mem_fields [simp]:
  "rm_address (rs_mem (set_mem s b c)) = rm_address (rs_mem s)" "rm_size (rs_mem (set_mem s b c)) = rm_size (rs_mem s)"
  "rs_st (set_mem s b c) = rs_st s" "rs_sock (set_mem s b c) = rs_sock s" "io_whole (set_mem s b c) = io_whole s"
  "rm_base (rs_mem (set_mem s b c)) = None \<longleftrightarrow> rm_base (rs_mem s) = None"
  by (auto simp: set_mem_def set_file_def io_whole_def split: option.split)

lemma phys_word: "phys < 2 ^ 63 \<Longrightarrow> unat (of_nat phys :: u64) = phys"
  by (simp add: unat_of_nat)

text \<open>The offset into the device file.\<close>

lemma device_offset:
  assumes "phys < 2 ^ 63" and "unat (a :: u64) < 2 ^ 63"
  shows "sint (of_nat phys - a) = int phys - int (unat a)"
proof -
  have "of_nat phys - a = (of_int (int phys - int (unat a)) :: u64)" by simp
  then have "sint (of_nat phys - a) = signed_take_bit 63 (int phys - int (unat a))" by (simp only: signed_of_int) simp
  moreover have "int phys < 2 ^ 63" using assms(1) by simp
  moreover have "int (unat a) < 2 ^ 63" using assms(2) by (metis of_nat_less_numeral_power_cancel_iff)
  then have "- (2 ^ 63) \<le> int phys - int (unat a)" by linarith
  moreover have "int phys - int (unat a) < 2 ^ 63" using \<open>int phys < 2 ^ 63\<close> by linarith
  ultimately show ?thesis using signed_take_bit_int_eq_self [of 63 "int phys - int (unat a)"] by metis
qed

lemma transfer_mapped:
  assumes "transfer_ok s i path file base" and "rm_base (rs_mem s) = Some b"
  shows "b = base" and "rmem_ok (rs_mem s)"
  using assms by (auto simp: transfer_ok_def rmem_ok_def)


text \<open>A sector written through the device file is written within the range only, since the length of a file
  here is not fixed.\<close>

lemma mem_sector_write:
  assumes t: "transfer_ok s i path file base" and io: "io_whole s" and data: "length data = 512" and phys: "phys < 2 ^ 63"
    and dev: "rm_base (rs_mem s) \<noteq> None \<or> sector_in (rs_mem s) phys"
    and j: "j = phys - unat (rm_address (rs_mem s))"
  shows "\<exists>n c. rmtfs_mem_write (rs_mem s) (rs_px s) (of_nat phys) data 512 =
      (let s' = set_mem s (if sector_in (rs_mem s) phys then take j base @ data @ drop (j + 512) base else base) c
       in Some (n, rs_mem s', rs_px s')) \<and> (n = 512 \<longleftrightarrow> sector_in (rs_mem s) phys)"
proof (cases "rm_base (rs_mem s)")
  case (Some b)
  have u: "unat (of_nat phys :: u64) = phys" by (rule phys_word [OF phys])
  note m = transfer_mapped [OF t Some]
  have w: "rmtfs_mem_write (rs_mem s) (rs_px s) (of_nat phys) data (int 512) =
      Some (if sector_in (rs_mem s) phys
        then (int 512, (rs_mem s)\<lparr>rm_base := Some (take j base @ data @ drop (j + 512) base)\<rparr>, rs_px s)
        else (-EINVAL, rs_mem s, rs_px s))"
    using mem_write_mapped [OF m(2) Some, of "of_nat phys" 512 data "rs_px s"] m(1) data phys
    unfolding in_range_def u by (simp add: j)
  show ?thesis
  proof (cases "sector_in (rs_mem s) phys")
    case True
    then show ?thesis using w Some
      by (intro exI [of _ 512] exI [of _ "px_calls (rs_px s)"]) (simp add: set_mem_def Let_def)
  next
    case False
    then show ?thesis using w Some set_mem_same [OF t]
      by (intro exI [of _ "-EINVAL"] exI [of _ "px_calls (rs_px s)"]) (auto simp: Let_def)
  qed
next
  case None
  let ?a = "unat (rm_address (rs_mem s))"
  have a: "?a < 2 ^ 63" and inr: "sector_in (rs_mem s) phys" using t None dev by (auto simp: transfer_ok_def)
  obtain name where name: "px_fds (rs_px s) (rm_fd (rs_mem s)) = Some name" "px_files (rs_px s) name = Some base"
    and len: "length base = unat (rm_size (rs_mem s))" using t None by (auto simp: transfer_ok_def)
  obtain m where m: "px_io (rs_px s) (px_calls (rs_px s)) = Some m" "512 \<le> m" using io by (auto simp: io_whole_def)
  have o: "sint (of_nat phys - rm_address (rs_mem s)) = int j" using device_offset [OF phys a] inr by (simp add: j)
  have "file_write base j data = take j base @ data @ drop (j + 512) base"
    using inr len data by (simp add: file_write_def j)
  moreover have "data \<noteq> []" using data by auto
  ultimately show ?thesis
    using None o name m data inr
    by (intro exI [of _ 512] exI [of _ "px_calls (rs_px s) + 1"])
      (simp add: rmtfs_mem_write_def mem_read_def px_pwrite_def px_call_def set_mem_def set_file_def Let_def)
qed


lemma sector_read:
  assumes t: "transfer_ok s i path file base" and io: "io_whole s" and "length buf = 512" and phys: "phys < 2 ^ 63"
    and dev: "rm_base (rs_mem s) \<noteq> None \<or> sector_in (rs_mem s) phys" and j: "j = phys - unat (rm_address (rs_mem s))"
  shows "\<exists>n c. iovec_sector e False i phys sector (buf, s) = Some (n, disk_read file sector 512,
      set_mem s (if sector_in (rs_mem s) phys then take j base @ disk_read file sector 512 @ drop (j + 512) base else base) c) \<and>
    (n = 512 \<longleftrightarrow> sector_in (rs_mem s) phys)"
proof -
  define px1 where "px1 = snd (px_call (rs_px s))"
  define s1 where "s1 = s\<lparr>rs_px := px1\<rparr>"
  have w: "whole (rs_px s) 512" using io by (simp add: whole_def io_whole_def)
  have "storage_pread (rs_px s) (rs_st s) i buf 512 sector = Some (int 512, disk_read file sector 512, px1)"
    unfolding px1_def by (rule pread_file [OF _ _ w]) (use t in \<open>auto simp: transfer_ok_def px_content_def\<close>)
  moreover have t1: "transfer_ok s1 i path file base" "io_whole s1"
    using t io by (auto simp: transfer_ok_def io_whole_def s1_def px1_def px_call_def split: option.splits)
  have m1: "rs_mem s1 = rs_mem s" by (simp add: s1_def)
  obtain n c where "rmtfs_mem_write (rs_mem s) px1 (of_nat phys) (disk_read file sector 512) 512 =
      (let s' = set_mem s1 (if sector_in (rs_mem s) phys then take j base @ disk_read file sector 512 @ drop (j + 512) base else base) c
       in Some (n, rs_mem s', rs_px s'))" "n = 512 \<longleftrightarrow> sector_in (rs_mem s) phys"
    using mem_sector_write [OF t1 _ phys, of "disk_read file sector 512" j] dev j by (auto simp: m1 s1_def)
  moreover have "set_mem s1 b c = set_mem s b c" for b c
    by (simp add: set_mem_def set_file_def s1_def px1_def px_call_def split: option.split)
  moreover have "s\<lparr>rs_mem := rs_mem (set_mem s b c), rs_px := rs_px (set_mem s b c)\<rparr> = set_mem s b c" for b c
    by (simp add: set_mem_def set_file_def split: option.split)
  ultimately show ?thesis by (intro exI [of _ n] exI [of _ c]) (simp add: iovec_sector_def Let_def)
qed


lemma read_block_Suc:
  assumes "j = phys - unat (rm_address rmem)" and "j + 512 \<le> length base" and "unat (rm_address rmem) \<le> phys"
  shows "read_block rmem file (phys + 512) (sector + 512) n (take j base @ disk_read file sector 512 @ drop (j + 512) base) =
    read_block rmem file phys sector (Suc n) base"
proof -
  have idx: "phys + 512 - unat (rm_address rmem) = j + 512" using assms(1,3) by simp
  have "disk_read file sector (512 * Suc n) = disk_read file sector 512 @ disk_read file (sector + 512) (512 * n)"
    using disk_read_append [of "file" sector 512 "512 * n"] by (simp add: add.commute)
  then show ?thesis
    unfolding read_block_def idx Let_def assms(1) [symmetric] using assms(2) by (simp add: ac_simps min_absorb2)
qed

lemma read_block_0 [simp]: "read_block rmem file phys sector 0 base = base"
  by (simp add: read_block_def disk_read_def Let_def)


lemma sectors_read:
  assumes "transfer_ok s i path file base" and "io_whole s" and "length buf = 512" and "phys + 512 * k < 2 ^ 63"
    and "rm_base (rs_mem s) \<noteq> None \<or> fits (rs_mem s) phys k = k"
  shows "\<exists>buf' c. length buf' = 512 \<and> iovec_sectors e False i phys sector k (buf, s) =
    Some (fits (rs_mem s) phys k = k, buf',
      set_mem s (read_block (rs_mem s) file phys sector (fits (rs_mem s) phys k) base) c)"
  using assms
proof (induction k arbitrary: phys sector buf s base)
  case 0
  then show ?case using set_mem_same [OF 0(1)] by (intro exI [of _ buf] exI [of _ "px_calls (rs_px s)"]) simp
next
  case (Suc k)
  have p: "phys < 2 ^ 63" using Suc.prems(4) by simp
  define j where "j = phys - unat (rm_address (rs_mem s))"
  define data where "data = disk_read file sector 512"
  have dev: "rm_base (rs_mem s) \<noteq> None \<or> sector_in (rs_mem s) phys"
    using Suc.prems(5) fits_none [of "rs_mem s" phys "Suc k"] by auto
  obtain n c where step: "iovec_sector e False i phys sector (buf, s) = Some (n, data,
      set_mem s (if sector_in (rs_mem s) phys then take j base @ data @ drop (j + 512) base else base) c)"
    "n = 512 \<longleftrightarrow> sector_in (rs_mem s) phys"
    using sector_read [OF Suc.prems(1,2,3) p dev j_def, of e sector] unfolding data_def by blast
  have ld: "length data = 512" by (simp add: data_def)
  show ?case
  proof (cases "sector_in (rs_mem s) phys")
    case False
    then have "iovec_sectors e False i phys sector (Suc k) (buf, s) = Some (False, data, set_mem s base c)"
      using step by auto
    then show ?thesis using ld fits_none [OF False, of "Suc k"] by (intro exI [of _ data] exI [of _ c]) simp
  next
    case True
    define base1 where "base1 = take j base @ data @ drop (j + 512) base"
    define s1 where "s1 = set_mem s base1 c"
    have j: "j + 512 \<le> length base" using Suc.prems(1) True unfolding j_def transfer_ok_def by arith
    have t1: "transfer_ok s1 i path file base1" "io_whole s1"
      using transfer_set_mem [OF Suc.prems(1), of base1] j ld Suc.prems(2) by (simp_all add: s1_def base1_def)
    have f: "fits (rs_mem s1) = fits (rs_mem s)" "read_block (rs_mem s1) = read_block (rs_mem s)"
      by (auto simp: s1_def fits_def read_block_def fun_eq_iff)
    have fs: "fits (rs_mem s) phys (Suc k) = Suc (fits (rs_mem s) (phys + 512) k)" using fits_Suc True by blast
    have "rm_base (rs_mem s1) \<noteq> None \<or> fits (rs_mem s1) (phys + 512) k = k" using Suc.prems(5) fs f by (simp add: s1_def)
    then obtain buf' c' where buf': "length buf' = 512" "iovec_sectors e False i (phys + 512) (sector + 512) k (data, s1) =
      Some (fits (rs_mem s) (phys + 512) k = k, buf',
        set_mem s1 (read_block (rs_mem s) file (phys + 512) (sector + 512) (fits (rs_mem s) (phys + 512) k) base1) c')"
      using Suc.IH [OF t1 ld, of "phys + 512" "sector + 512"] Suc.prems(4) by (auto simp: f)
    have "iovec_sector e False i phys sector (buf, s) = Some (512, data, s1)"
      using step True by (simp add: s1_def base1_def)
    then have "iovec_sectors e False i phys sector (Suc k) (buf, s) =
      Some (fits (rs_mem s) phys (Suc k) = Suc k, buf', set_mem s (read_block (rs_mem s) file phys sector (fits (rs_mem s) phys (Suc k)) base) c')"
      using buf'(2) read_block_Suc [OF j_def j conjunct1 [OF True], of "file" sector]
      by (simp add: fs) (simp add: s1_def base1_def data_def)
    then show ?thesis using buf'(1) by blast
  qed
qed

lemma entry_bounds: "unat (ie_phys_offset en) + 512 * unat (ie_num_sector en) < 2 ^ 63"
  using unat_u32_less [of "ie_phys_offset en"] unat_u32_less [of "ie_num_sector en"] by simp

text \<open>The product in the code is the address of the sector when it does not overflow.\<close>

definition addressable :: "rmtfs_iovec_entry list \<Rightarrow> bool" where
  "addressable ens \<longleftrightarrow> (\<forall>en \<in> set ens. unat (ie_sector_addr en) < 2 ^ 23)"

lemma sector_product: "unat (a :: u32) < 2 ^ 23 \<Longrightarrow> unat (a * 512) = 512 * unat a"
  by (simp add: unat_word_ariths)

lemma in_turn_Cons:
  "f y x = (ok, x1) \<Longrightarrow> in_turn f (y # ys) x = (if ok then in_turn f ys x1 else (False, x1))"
  by simp


lemma read_entry_length:
  assumes "transfer_ok s i path file base" and "read_entry (rs_mem s) file en base = (ok, base1)"
  shows "length base1 = length base"
proof -
  have "length base = unat (rm_size (rs_mem s))" using assms(1) by (simp add: transfer_ok_def)
  then show ?thesis
    using assms(2) fits_le [of "rs_mem s" "unat (ie_phys_offset en)" "unat (ie_num_sector en)"]
    by (cases "fits (rs_mem s) (unat (ie_phys_offset en)) (unat (ie_num_sector en)) = 0")
      (auto simp: read_entry_def Let_def read_block_def)
qed

lemma read_spec_set_mem: "read_spec (rs_mem (set_mem s b c)) = read_spec (rs_mem s)"
proof -
  have "read_entry (rs_mem (set_mem s b c)) = read_entry (rs_mem s)"
    by (simp add: read_entry_def read_block_def fits_def fun_eq_iff)
  then show ?thesis unfolding read_spec_def by simp
qed

lemma entries_read:
  assumes "transfer_ok s i path file base" and "io_whole s" and "length buf = 512" and "addressable ens"
    and "rm_base (rs_mem s) \<noteq> None \<or> fst (read_spec (rs_mem s) file ens base)"
  shows "\<exists>buf' c. iovec_entries e False i ens (buf, s) =
    Some (fst (read_spec (rs_mem s) file ens base), buf', set_mem s (snd (read_spec (rs_mem s) file ens base)) c)"
  using assms
proof (induction ens arbitrary: buf s base)
  case Nil
  then show ?case using set_mem_same [OF Nil(1)]
    by (intro exI [of _ buf] exI [of _ "px_calls (rs_px s)"]) (simp add: read_spec_def)
next
  case (Cons en ens)
  have a: "unat (ie_sector_addr en * 512) = 512 * unat (ie_sector_addr en)" "addressable ens"
    using Cons.prems(4) sector_product by (auto simp: addressable_def)
  obtain ok base1 where r: "read_entry (rs_mem s) file en base = (ok, base1)" by fastforce
  have spec: "read_spec (rs_mem s) file (en # ens) base = (if ok then read_spec (rs_mem s) file ens base1 else (False, base1))"
    unfolding read_spec_def by (rule in_turn_Cons [where f = "read_entry (rs_mem s) file", OF r])
  have "rm_base (rs_mem s) \<noteq> None \<or>
      fits (rs_mem s) (unat (ie_phys_offset en)) (unat (ie_num_sector en)) = unat (ie_num_sector en)"
    using Cons.prems(5) r unfolding spec by (auto simp: read_entry_def Let_def split: if_splits)
  then obtain buf1 c1 where b: "length buf1 = 512" "iovec_sectors e False i (unat (ie_phys_offset en)) (unat (ie_sector_addr en * 512))
      (unat (ie_num_sector en)) (buf, s) = Some (ok, buf1, set_mem s base1 c1)"
    using sectors_read [OF Cons.prems(1,2,3) entry_bounds [of en], of e "unat (ie_sector_addr en * 512)"] r a(1)
    by (auto simp: read_entry_def Let_def)
  show ?case
  proof (cases ok)
    case False
    then show ?thesis using b(2) by (intro exI [of _ buf1] exI [of _ c1]) (simp add: spec)
  next
    case True
    have "rm_base (rs_mem (set_mem s base1 c1)) \<noteq> None \<or> fst (read_spec (rs_mem (set_mem s base1 c1)) file ens base1)"
      using Cons.prems(5) True unfolding spec by (simp add: read_spec_set_mem)
    then obtain buf2 c2 where "iovec_entries e False i ens (buf1, set_mem s base1 c1) =
        Some (fst (read_spec (rs_mem s) file ens base1), buf2, set_mem s (snd (read_spec (rs_mem s) file ens base1)) c2)"
      using Cons.IH [OF transfer_set_mem [OF Cons.prems(1) read_entry_length [OF Cons.prems(1) r]] _ b(1) a(2), of c1] Cons.prems(2)
      by (auto simp: read_spec_set_mem)
    then show ?thesis using b(2) True by (intro exI [of _ buf2] exI [of _ c2]) (simp add: spec)
  qed
qed

section \<open>Handling a request\<close>

text \<open>The reply a state has sent last, to the sender of the packet.\<close>

definition replied :: "rmtfs_state \<Rightarrow> sockaddr_qrtr \<Rightarrow> bytes \<Rightarrow> rmtfs_state \<Rightarrow> bool" where
  "replied s sq bs s' \<longleftrightarrow>
     out_pkts (rs_sock s') = out_pkts (rs_sock s) @
       [(bs, \<lparr>sq_family = AF_QIPCRTR, sq_node = sq_node sq, sq_port = sq_port sq\<rparr>)]"

lemma data_pkt_fields [simp]:
  "p_node (data_pkt e buf len sq) = sq_node sq" "p_port (data_pkt e buf len sq) = sq_port sq"
  by (simp_all add: data_pkt_def)

lemma send_replied [simp]: "rs_sock s1 = rs_sock s \<Longrightarrow> replied s sq bs (send e s1 (data_pkt e buf len sq) bs)"
  by (simp add: replied_def send_def qrtr_sendto_def Let_def data_pkt_def)

lemma send_fields [simp]:
  "rs_px (send e s pkt bs) = rs_px s" "rs_st (send e s pkt bs) = rs_st s" "rs_mem (send e s pkt bs) = rs_mem s"
  by (simp_all add: send_def)

lemma sint_caller:
  assumes "(c :: u32) < 10"
  shows "sint c = uint c" and "uint c < 10" and "unat c < 10"
proof -
  show lt: "unat c < 10" using assms by (simp add: word_less_nat_alt)
  have "int (unat c) = uint c" by simp
  then show u: "uint c < 10" using lt by linarith
  have "sint c = (uint c + 2 ^ 31) mod 2 ^ 32 - 2 ^ 31"
    by (simp add: sint_uint signed_take_bit_eq_take_bit_shift take_bit_eq_mod)
  also have "(uint c + 2 ^ 31) mod 2 ^ 32 = uint c + 2 ^ 31" using u by (intro mod_pos_pos_trivial) auto
  finally show "sint c = uint c" by simp
qed

lemma storage_get_hit:
  "(c :: u32) < 10 \<Longrightarrow> rf_node (st_fds st ! unat c) = node \<Longrightarrow> storage_get st node (sint c) = Some (Some (unat c))"
  using sint_caller [of c] by (simp add: storage_get_def)

lemma length_iovec_body [simp]: "length (iovec_body c w ens force) = 19 + length ens * 12"
  by (simp add: iovec_body_def caller_body_def)

lemma iovec_request:
  assumes "sq_port sq \<noteq> QRTR_PORT_CTRL" and "length ens \<le> 255"
    and "length (request txn 3 (iovec_body c w ens force) @ rest) = 4096"
    and "c < 10" and "rf_node (st_fds (rs_st s) ! unat c) = sq_node sq"
    and "iovec_entries e (w \<noteq> 0) (unat c) ens (map (re_buf e) [0..<512], s) = Some (ok, buf, s1)"
  shows "handle_rmtfs e s (int (26 + length ens * 12)) (request txn 3 (iovec_body c w ens force) @ rest) sq =
    Some (0, send e s1 (data_pkt e (request txn 3 (iovec_body c w ens force) @ rest) (26 + length ens * 12) sq)
      (result_reply 3 (txn mod 65536) (if ok then success else qmi_result_error success QMI_RMTFS_ERR_INTERNAL)))"
proof -
  let ?body = "iovec_body c w ens force"
  let ?d = "obj_of_bytes (request txn 3 ?body @ rest)"
  have "obj_read ?d 7 (19 + length ens * 12) = Some ?body"
    using body_read [of 0 "19 + length ens * 12" ?body txn 3 rest] by simp
  from decode_iovec [OF this assms(2)] obtain ob where ob:
    "qmi_decode ?d (Some rmtfs_iovec_req_ei) (obj_zero 3080) 0 7 (19 + length ens * 12) 1 = Some (int (19 + length ens * 12), ob)"
    "obj_u32 ob 0 = Some c" "obj_read ob 4 1 = Some [w]" "obj_read ob 8 8 = Some (le_bytes 4 (length ens) @ [0, 0, 0, 0])"
    "obj_iovec_entries ob 0 (length ens) = Some ens" by blast
  have dec: "decode_request (re_txn e) (data_pkt e (request txn 3 ?body @ rest) (26 + length ens * 12) sq) 3080 3 rmtfs_iovec_req_ei =
      Some (int (19 + length ens * 12), txn mod 65536, ob)"
    using decode_data_pkt [of txn 3 ?body rest rmtfs_iovec_req_ei 3080] ob(1) assms(3) by simp
  have len: "le_val (le_bytes 4 (length ens) @ [0, 0, 0, 0]) = length ens"
    using assms(2) by (simp add: le_val_zeros le_val_le_bytes)
  have "handle_rmtfs e s (int (7 + length ?body)) (request txn 3 ?body @ rest) sq =
    map_option (Pair 0) (dispatch e s (data_pkt e (request txn 3 ?body @ rest) (7 + length ?body) sq) 3)"
    using assms(1,2) by (intro handle_data) auto
  moreover have "rmtfs_iovec e s (data_pkt e (request txn 3 ?body @ rest) (26 + length ens * 12) sq) =
     Some (send e s1 (data_pkt e (request txn 3 ?body @ rest) (26 + length ens * 12) sq)
      (result_reply 3 (txn mod 65536) (if ok then success else qmi_result_error success QMI_RMTFS_ERR_INTERNAL)))"
    using dec ob storage_get_hit [OF assms(4,5)] assms(6) len
    by (simp add: rmtfs_iovec_def respond_result del: One_nat_def)
  ultimately show ?thesis by (simp add: dispatch_def)
qed

lemma length_bodies [simp]:
  "length (caller_body c) = 7" "length (alloc_body c n) = 14"
  by (simp_all add: caller_body_def alloc_body_def)

text \<open>The head of every handler on a complete request.\<close>

lemma handle_request:
  assumes "sq_port sq \<noteq> QRTR_PORT_CTRL" and "msg_id < 65536" and "length (request txn msg_id body @ rest) = 4096"
    and "dispatch e s (data_pkt e (request txn msg_id body @ rest) (7 + length body) sq) msg_id = r"
  shows "handle_rmtfs e s (int (7 + length body)) (request txn msg_id body @ rest) sq = map_option (Pair 0) r"
  using handle_data [OF assms(1) _ assms(2), of body e s txn rest] assms(3,4) by simp

lemma caller_request:
  assumes "length (request txn msg_id (caller_body c) @ rest) = 4096" and "msg_id < 65536"
  shows "\<exists>ob. decode_request (re_txn e) (data_pkt e (request txn msg_id (caller_body c) @ rest) 14 sq) 4 msg_id rmtfs_close_req_ei =
    Some (7, txn mod 65536, ob) \<and> obj_u32 ob 0 = Some c"
proof -
  let ?d = "obj_of_bytes (request txn msg_id (caller_body c) @ rest)"
  have "obj_read ?d 7 7 = Some (caller_body c)" using body_read [of 0 7 "caller_body c" txn msg_id rest] by simp
  from decode_caller [OF this] show ?thesis
    using decode_data_pkt [OF assms, of rmtfs_close_req_ei 4 7] by auto
qed

lemma alloc_request:
  assumes "length (request txn 4 (alloc_body c n) @ rest) = 4096"
  shows "\<exists>ob. decode_request (re_txn e) (data_pkt e (request txn 4 (alloc_body c n) @ rest) 21 sq) 8 4 rmtfs_alloc_buf_req_ei =
    Some (14, txn mod 65536, ob) \<and> obj_u32 ob 4 = Some n"
proof -
  let ?d = "obj_of_bytes (request txn 4 (alloc_body c n) @ rest)"
  have "obj_read ?d 7 14 = Some (alloc_body c n)" using body_read [of 0 14 "alloc_body c n" txn 4 rest] by simp
  from decode_alloc [OF this] show ?thesis
    using decode_data_pkt [OF assms, of rmtfs_alloc_buf_req_ei 8 14] by auto
qed

lemma open_request:
  assumes "length (request txn 1 (string_body (path_bytes path)) @ rest) = 4096" and "length path \<le> 255" and "CHR 0x00 \<notin> set path"
  shows "\<exists>ob. decode_request (re_txn e) (data_pkt e (request txn 1 (string_body (path_bytes path)) @ rest) (10 + length path) sq) 260 1 rmtfs_open_req_ei =
    Some (int (3 + length path), txn mod 65536, ob) \<and> obj_string ob 4 = Some path"
proof -
  let ?b = "string_body (path_bytes path)"
  let ?d = "obj_of_bytes (request txn 1 ?b @ rest)"
  have "obj_read ?d 7 (3 + length (path_bytes path)) = Some ?b"
    using body_read [of 0 "3 + length path" ?b txn 1 rest] by simp
  from decode_string_body [OF this, where ei = rmtfs_open_req_ei and sz = 260] obtain ob where
    "qmi_decode ?d (Some rmtfs_open_req_ei) (obj_zero 260) 0 7 (length ?b) 1 = Some (int (3 + length path), ob)"
    "obj_read ob 4 (length path + 1) = Some (path_bytes path @ [0])" using assms(2) by (auto simp: rmtfs_open_req_ei_def)
  then show ?thesis
    using decode_data_pkt [OF assms(1), of rmtfs_open_req_ei 260] obj_string_of_read [OF _ assms(3)] by simp
qed

section \<open>Properties\<close>


text \<open>C18: a read request transfers the blocks it names from the file to the shared memory, as \<open>read_spec\<close>
  says, and what lies beyond the end of the file reads as zeros; the handles and all other files do
  not change, and the sender gets one reply, success exactly when every sector had its place in the
  shared memory. This is so for a complete request with at most 255 entries of sectors below \<open>2\<^sup>23\<close>, on
  a handle that the sender has open for writing on a file, when no system call fails or is cut short (a
  failed read of the file is not reported, see \<open>sector_read_error\<close>), and when the shared memory is mapped,
  or is behind a device file and all sectors are within it.\<close>

theorem iovec_read_refines:
  assumes "sq_port sq \<noteq> QRTR_PORT_CTRL" and "length ens \<le> 255" and "addressable ens"
    and "length (request txn 3 (iovec_body c 0 ens force) @ rest) = 4096"
    and "c < 10" and "rf_node (st_fds (rs_st s) ! unat c) = sq_node sq"
    and "transfer_ok s (unat c) path file base" and "io_whole s"
    and "read_spec (rs_mem s) file ens base = (ok, base')" and "rm_base (rs_mem s) \<noteq> None \<or> ok"
  shows "\<exists>s' k. handle_rmtfs e s (int (26 + length ens * 12)) (request txn 3 (iovec_body c 0 ens force) @ rest) sq = Some (0, s') \<and>
    rs_px s' = rs_px (set_mem s base' k) \<and> rs_st s' = rs_st s \<and> rs_mem s' = rs_mem (set_mem s base' k) \<and>
    replied s sq (result_reply 3 (txn mod 65536) (if ok then success else \<lparr>qr_result = 1, qr_error = 1\<rparr>)) s'"
proof -
  obtain buf k where run: "iovec_entries e ((0 :: u8) \<noteq> 0) (unat c) ens (map (re_buf e) [0..<512], s) = Some (ok, buf, set_mem s base' k)"
    using entries_read [OF assms(7,8) _ assms(3), of "map (re_buf e) [0..<512]" e] assms(9,10) by auto
  show ?thesis
    by (intro exI [of _ k] exI, intro conjI, rule iovec_request [OF assms(1,2,4,5,6) run])
      (simp_all add: qmi_result_error_def success_def)
qed

text \<open>A failed read of the file is reported as success: the sector of the shared memory gets what the buffer
  held before.\<close>

lemma sector_read_error:
  assumes t: "transfer_ok s i path file base" and m: "rm_base (rs_mem s) \<noteq> None" and buf: "length buf = 512"
    and p: "phys < 2 ^ 63" "sector_in (rs_mem s) phys" and io: "px_io (rs_px s) (px_calls (rs_px s)) = None"
    and j: "j = phys - unat (rm_address (rs_mem s))"
  shows "iovec_sector e False i phys sector (buf, s) =
    Some (512, buf, set_mem s (take j base @ buf @ drop (j + 512) base) (px_calls (rs_px s) + 1))"
proof -
  obtain b where b: "rm_base (rs_mem s) = Some b" using m by auto
  have u: "unat (of_nat phys :: u64) = phys" by (rule phys_word [OF p(1)])
  define px1 where "px1 = snd (px_call (rs_px s))"
  have "storage_pread (rs_px s) (rs_st s) i buf 512 sector = Some (int 512, buf, px1)"
    unfolding px1_def using t io by (intro pread_error_is_success) (auto simp: transfer_ok_def)
  moreover have "rmtfs_mem_write (rs_mem s) px1 (of_nat phys) buf (int 512) =
      Some (int 512, (rs_mem s)\<lparr>rm_base := Some (take j base @ buf @ drop (j + 512) base)\<rparr>, px1)"
    using mem_write_mapped [OF transfer_mapped(2) [OF t b] b, of "of_nat phys" 512 buf px1] transfer_mapped(1) [OF t b] p buf
    unfolding in_range_def u by (simp add: j)
  ultimately show ?thesis
    using b by (simp add: iovec_sector_def set_mem_def px1_def px_call_def)
qed

text \<open>A concrete service: one file of 600 bytes, open as handle 0 for node 7, and 1024 bytes of
  shared memory.\<close>

definition demo_state :: rmtfs_state where
  "demo_state =
     \<lparr>rs_px = \<lparr>px_files = [''/boot/modem_fs1'' \<mapsto> replicate 600 9], px_fds = [3 \<mapsto> ''/boot/modem_fs1''], px_next = 4,
        px_io = (\<lambda>_. Some 4096), px_calls = 0\<rparr>,
      rs_st = (storage_init True blank_storage None False False)\<lparr>st_fds :=
        (st_fds (storage_init True blank_storage None False False))[0 :=
          \<lparr>rf_id = 0, rf_node = 7, rf_fd = 3, rf_dev_error = 0, rf_partition = Some 0, rf_shadow = None, rf_shadow_len = 0\<rparr>]\<rparr>,
      rs_mem = \<lparr>rm_address = 4096, rm_size = 1024, rm_base = Some (replicate 1024 5), rm_fd = 4\<rparr>,
      rs_sock = \<lparr>open_fds = {}, bound = [], out_pkts = []\<rparr>\<rparr>"

definition demo_rmtfs_env :: rmtfs_env where
  "demo_rmtfs_env = \<lparr>re_st = demo_env, re_send = 0, re_txn = 0, re_resp = (\<lambda>_. 0), re_buf = (\<lambda>_. 0), re_junk = (\<lambda>_. 0),
     re_pkt = blank_packet\<rparr>"

definition demo_sq :: sockaddr_qrtr where
  "demo_sq = \<lparr>sq_family = AF_QIPCRTR, sq_node = 7, sq_port = 12\<rparr>"

definition demo_entry :: "u32 \<Rightarrow> rmtfs_iovec_entry" where
  "demo_entry n = \<lparr>ie_sector_addr = 1, ie_phys_offset = 4096, ie_num_sector = n\<rparr>"

lemma demo_transfer: "transfer_ok demo_state 0 ''/boot/modem_fs1'' (replicate 600 9) (replicate 1024 5)"
  by (simp add: transfer_ok_def demo_state_def storage_init_def blank_storage_def)

lemma demo_state_inv: "storage_inv (rs_px demo_state) (rs_st demo_state)"
proof -
  let ?st = "storage_init True blank_storage None False False"
  let ?f = "\<lparr>rf_id = 0, rf_node = 7, rf_fd = 3, rf_dev_error = 0, rf_partition = Some 0, rf_shadow = None, rf_shadow_len = 0\<rparr>"
  have px: "px_ok (rs_px demo_state)" by (simp add: demo_state_def px_ok_def)
  have st: "rs_st demo_state = ?st\<lparr>st_fds := (st_fds ?st)[0 := ?f]\<rparr>"
    by (simp add: demo_state_def)
  have free: "st_fds ?st ! j = \<lparr>rf_id = j, rf_node = 0, rf_fd = -1, rf_dev_error = 0, rf_partition = None,
      rf_shadow = None, rf_shadow_len = 0\<rparr>" if "j < 10" for j
    using that by (simp add: storage_init_def blank_storage_def)
  show ?thesis
    unfolding st
    by (rule storage_inv_change [OF storage_init_inv [OF px] _ px])
      (auto simp: free handle_ok_def in_use_def apart_def storage_init_def blank_storage_def partition_table_def
        demo_state_def px_content_def)
qed

lemma demo_node: "rf_node (st_fds (rs_st demo_state) ! 0) = sq_node demo_sq"
  by (simp add: demo_state_def demo_sq_def storage_init_def blank_storage_def)

lemma demo_fits: "fits (rs_mem demo_state) 4096 1 = 1" "fits (rs_mem demo_state) 4096 3 = 2"
  by (simp_all add: demo_state_def fits_def)

lemma demo_io: "io_whole demo_state"
  by (auto simp: io_whole_def demo_state_def)

lemma demo_addressable: "addressable [demo_entry n]"
  by (simp add: addressable_def demo_entry_def)


theorem iovec_read_refines_witness:
  "\<exists>s'. handle_rmtfs demo_rmtfs_env demo_state 38 (request 77 3 (iovec_body 0 0 [demo_entry 3] 0) @ replicate 4058 0) demo_sq = Some (0, s') \<and>
    rs_mem s' = (rs_mem demo_state)\<lparr>rm_base := Some (replicate 88 9 @ replicate 936 0)\<rparr> \<and>
    replied demo_state demo_sq (result_reply 3 77 \<lparr>qr_result = 1, qr_error = 1\<rparr>) s'"
proof -
  have "read_spec (rs_mem demo_state) (replicate 600 9) [demo_entry 3] (replicate 1024 5) = (False, replicate 88 9 @ replicate 936 0)"
    using demo_fits(2)
    by (simp add: read_spec_def read_entry_def demo_entry_def read_block_def disk_read_def demo_state_def Let_def)
  moreover have b: "rm_base (rs_mem demo_state) = Some (replicate 1024 5)" by (simp add: demo_state_def)
  ultimately obtain s' k where "handle_rmtfs demo_rmtfs_env demo_state 38 (request 77 3 (iovec_body 0 0 [demo_entry 3] 0) @ replicate 4058 0) demo_sq = Some (0, s')"
    "rs_mem s' = rs_mem (set_mem demo_state (replicate 88 9 @ replicate 936 0) k)"
    "replied demo_state demo_sq (result_reply 3 77 \<lparr>qr_result = 1, qr_error = 1\<rparr>) s'"
    using iovec_read_refines [of demo_sq "[demo_entry 3]" 77 0 0 "replicate 4058 0" demo_state "''/boot/modem_fs1''"
        "replicate 600 9" "replicate 1024 5" False "replicate 88 9 @ replicate 936 0" demo_rmtfs_env]
      demo_transfer demo_node demo_io demo_addressable
    by (auto simp: demo_sq_def)
  then show ?thesis using b by (intro exI [of _ s']) (simp add: set_mem_def)
qed

text \<open>C19: opening. A complete open request is answered with what the storage does for the path and
  the sender's node: with a caller id under which the sender's later requests find exactly
  the handle that was opened, or with an internal error and no change.\<close>

theorem rmtfs_open_result:
  assumes "sq_port sq \<noteq> QRTR_PORT_CTRL" and "length path \<le> 255" and "CHR 0x00 \<notin> set path"
    and "length (request txn 1 (string_body (path_bytes path)) @ rest) = 4096"
    and "storage_inv (rs_px s) (rs_st s)" and "storage_open (re_st e) (rs_px s) (rs_st s) (sq_node sq) path = (h, px', st')"
  shows "\<exists>s'. handle_rmtfs e s (int (10 + length path)) (request txn 1 (string_body (path_bytes path)) @ rest) sq = Some (0, s') \<and>
    storage_inv px' st' \<and> rs_px s' = px' \<and> rs_st s' = st' \<and> rs_mem s' = rs_mem s \<and>
    (case h of
       None \<Rightarrow> st' = rs_st s \<and> replied s sq (open_reply (txn mod 65536)
         \<lparr>or_result = \<lparr>qr_result = 1, qr_error = 1\<rparr>, or_caller_id_valid = False, or_caller_id = 0\<rparr>) s'
     | Some i \<Rightarrow> storage_get st' (sq_node sq) (int i) = Some (Some i) \<and> replied s sq (open_reply (txn mod 65536)
         \<lparr>or_result = success, or_caller_id_valid = True, or_caller_id = of_nat i\<rparr>) s')"
proof -
  let ?b = "string_body (path_bytes path)"
  note r = storage_open_result [OF assms(5,6)]
  obtain ob where ob: "decode_request (re_txn e) (data_pkt e (request txn 1 ?b @ rest) (10 + length path) sq) 260 1 rmtfs_open_req_ei =
      Some (int (3 + length path), txn mod 65536, ob)" "obj_string ob 4 = Some path"
    using open_request [OF assms(4,2,3)] by blast
  define resp where "resp = (case h of
       None \<Rightarrow> \<lparr>or_result = \<lparr>qr_result = 1, qr_error = 1\<rparr>, or_caller_id_valid = False, or_caller_id = 0\<rparr>
     | Some i \<Rightarrow> \<lparr>or_result = success, or_caller_id_valid = True, or_caller_id = of_nat i\<rparr>)"
  let ?s = "s\<lparr>rs_px := px', rs_st := st'\<rparr>" and ?p = "data_pkt e (request txn 1 ?b @ rest) (10 + length path) sq"
  have id: "storage_get_caller_id st' i = i \<and> storage_get st' (sq_node sq) (int i) = Some (Some i)" if "h = Some i" for i
    using r that storage_invD(3) [of px' st' i] by (auto simp: storage_get_caller_id_def storage_get_def)
  have "rmtfs_open e s ?p = Some (send e ?s ?p (open_reply (txn mod 65536) resp))"
    using ob assms(6) id
    by (cases h) (auto simp: rmtfs_open_def respond_open [unfolded One_nat_def] resp_def qmi_result_error_def success_def)
  then have "handle_rmtfs e s (int (7 + length ?b)) (request txn 1 ?b @ rest) sq = Some (0, send e ?s ?p (open_reply (txn mod 65536) resp))"
    using handle_request [OF assms(1) _ assms(4), of e s] by (simp add: dispatch_def)
  then show ?thesis using r id by (cases h) (auto simp: resp_def)
qed

theorem rmtfs_open_result_witness:
  "\<exists>s'. handle_rmtfs demo_rmtfs_env demo_state 25 (request 77 1 (string_body (path_bytes ''/boot/modem_fs1'')) @ replicate 4071 0) demo_sq = Some (0, s') \<and>
    replied demo_state demo_sq (open_reply 77 \<lparr>or_result = success, or_caller_id_valid = True, or_caller_id = 0\<rparr>) s'"
proof -
  have f: "st_fds (rs_st demo_state) ! 0 = \<lparr>rf_id = 0, rf_node = 7, rf_fd = 3, rf_dev_error = 0, rf_partition = Some 0,
      rf_shadow = None, rf_shadow_len = 0\<rparr>" by (simp add: demo_state_def storage_init_def blank_storage_def)
  have p: "pt_path (partition_table ! 0) = ''/boot/modem_fs1''" by (simp add: partition_table_def)
  have "storage_open demo_env (rs_px demo_state) (rs_st demo_state) 7 ''/boot/modem_fs1'' = (Some 0, rs_px demo_state, rs_st demo_state)"
    using storage_open_hit [OF demo_state_inv, of 0 0 demo_env] f p by (simp add: in_use_def partition_table_def)
  then show ?thesis
    using rmtfs_open_result [of demo_sq "''/boot/modem_fs1''" 77 "replicate 4071 0" demo_state demo_rmtfs_env "Some 0"
        "rs_px demo_state" "rs_st demo_state"] demo_state_inv
    by (auto simp: demo_sq_def demo_rmtfs_env_def)
qed



text \<open>A handle's error state cannot be asked for. The check in \<open>rmtfs_get_dev_error\<close> is
  inverted: for an existing handle the request is answered with an internal error, for a
  handle the sender does not have the service dereferences a null pointer.\<close>

lemma get_dev_error_inverted:
  assumes "sq_port sq \<noteq> QRTR_PORT_CTRL" and "length (request txn 5 (caller_body c) @ rest) = 4096"
  shows "case storage_get (rs_st s) (sq_node sq) (sint c) of
      Some (Some i) \<Rightarrow> \<exists>s'. handle_rmtfs e s 14 (request txn 5 (caller_body c) @ rest) sq = Some (0, s') \<and>
        replied s sq (dev_error_reply (txn mod 65536)
          \<lparr>dr_result = \<lparr>qr_result = 1, qr_error = 1\<rparr>, dr_status_valid = False, dr_status = 0\<rparr>) s'
    | _ \<Rightarrow> handle_rmtfs e s 14 (request txn 5 (caller_body c) @ rest) sq = None"
proof -
  let ?p = "data_pkt e (request txn 5 (caller_body c) @ rest) 14 sq"
  have "rmtfs_dev_error_req_ei = rmtfs_close_req_ei" by (simp add: rmtfs_dev_error_req_ei_def rmtfs_close_req_ei_def)
  then obtain ob where ob: "decode_request (re_txn e) ?p 4 5 rmtfs_dev_error_req_ei = Some (7, txn mod 65536, ob)" "obj_u32 ob 0 = Some c"
    using caller_request [OF assms(2)] by auto
  have run: "handle_rmtfs e s 14 (request txn 5 (caller_body c) @ rest) sq = map_option (Pair 0) (rmtfs_get_dev_error e s ?p)"
    using handle_request [OF assms(1) _ assms(2), of e s] by (simp add: dispatch_def)
  show ?thesis
    using ob
    by (auto simp: run rmtfs_get_dev_error_def storage_get_error_def respond_dev_error qmi_result_error_def success_def
        split: option.splits)
qed

text \<open>Allocation. The service answers an allocation request with the address of the shared
  memory exactly when the size fits and the address is below \<open>2\<^sup>63\<close>, otherwise with an
  internal error; nothing but the reply happens.\<close>

lemma rmtfs_alloc_buf_result:
  assumes "sq_port sq \<noteq> QRTR_PORT_CTRL" and "length (request txn 4 (alloc_body c n) @ rest) = 4096"
  shows "\<exists>s'. handle_rmtfs e s 21 (request txn 4 (alloc_body c n) @ rest) sq = Some (0, s') \<and>
    rs_px s' = rs_px s \<and> rs_st s' = rs_st s \<and> rs_mem s' = rs_mem s \<and>
    replied s sq (alloc_buf_reply (txn mod 65536)
      (if unat n \<le> unat (rm_size (rs_mem s)) \<and> unat (rm_address (rs_mem s)) < 2 ^ 63
       then \<lparr>ar_result = success, ar_buff_address_valid = True, ar_buff_address = rm_address (rs_mem s)\<rparr>
       else \<lparr>ar_result = \<lparr>qr_result = 1, qr_error = 1\<rparr>, ar_buff_address_valid = False, ar_buff_address = 0\<rparr>)) s'"
proof -
  let ?p = "data_pkt e (request txn 4 (alloc_body c n) @ rest) 21 sq"
  obtain ob where ob: "decode_request (re_txn e) ?p 8 4 rmtfs_alloc_buf_req_ei = Some (14, txn mod 65536, ob)" "obj_u32 ob 4 = Some n"
    using alloc_request [OF assms(2)] by auto
  have run: "handle_rmtfs e s 21 (request txn 4 (alloc_body c n) @ rest) sq = map_option (Pair 0) (rmtfs_alloc_buf e s ?p)"
    using handle_request [OF assms(1) _ assms(2), of e s] by (simp add: dispatch_def)
  let ?a = "rm_address (rs_mem s)" and ?r = "rmtfs_mem_alloc (rs_mem s) (unat n)"
  have "int (unat ?a) < 2 ^ 64" using unsigned_less [of ?a, where ?'a = int] by simp
  then have alloc: "?r < 0 \<longleftrightarrow> \<not> (unat n \<le> unat (rm_size (rs_mem s)) \<and> unat ?a < 2 ^ 63)"
    "\<not> ?r < 0 \<Longrightarrow> of_int ?r = ?a"
    unfolding mem_alloc_value by (auto simp: not_le split: if_splits)
  show ?thesis
    using ob alloc
    by (auto simp: run rmtfs_alloc_buf_def Let_def respond_alloc_buf qmi_result_error_def success_def)
qed

text \<open>Sector addresses are multiplied in 32 bits. A request for a sector at or above \<open>2\<^sup>23\<close>
  (4 GiB) is served with the sector \<open>2\<^sup>23\<close> below, in both directions.\<close>

lemma sector_address_wraps:
  "iovec_entries e w i [en\<lparr>ie_sector_addr := ie_sector_addr en + 8388608\<rparr>] bs = iovec_entries e w i [en] bs"
proof -
  define a where "a = ie_sector_addr en + 8388608"
  have a: "a * 512 = ie_sector_addr en * 512" by (simp add: a_def distrib_right)
  show ?thesis unfolding a_def [symmetric] by (simp add: a)
qed

end
