(* ===== verification/RmtfsMain.thy ===== *)
theory RmtfsMain
  imports RmtfsCorrect
begin

text \<open>
  The process of the remote file system service: \<open>run_rmtfs\<close> and \<open>main\<close> of
  \<^verbatim>\<open>qcom/rmtfs/rmtfs.c\<close> and the control of the modem in \<^verbatim>\<open>qcom/rmtfs/rproc.c\<close>. What the system does
  is an argument: the number of signals seen at the start of every iteration, the results of
  \<open>select\<close>, of the read from the pipe and of every receive, numbered by the iterations.
\<close>

section \<open>The remote processor\<close>

text \<open>The search for the \<open>state\<close> file. A device is its name, whether its directory and the directory
  \<open>remoteproc\<close> in it can be opened, and the entries of that: name, whether it can be
  opened, and the descriptor of its \<open>state\<close> file.\<close>

type_synonym rproc_dir = "(string \<times> bool \<times> int) list"

fun rproc_find :: "rproc_dir \<Rightarrow> int \<Rightarrow> int" where
  "rproc_find [] fd = fd"
| "rproc_find ((name, ok, state_fd) # rest) fd =
     (if fd \<ge> 0 then fd
      else if name = ''.'' \<or> name = ''..'' then rproc_find rest fd
      else if \<not> ok then rproc_find rest fd
      else rproc_find rest state_fd)"

fun rproc_devices :: "(string \<times> bool \<times> bool \<times> rproc_dir) list \<Rightarrow> int \<Rightarrow> int" where
  "rproc_devices [] fd = fd"
| "rproc_devices ((name, dev, dir, entries) # rest) fd =
     (if fd \<ge> 0 then fd
      else if name = ''.'' \<or> name = ''..'' then rproc_devices rest fd
      else if \<not> dev then rproc_devices rest fd
      else if \<not> dir then rproc_devices rest fd
      else rproc_devices rest (rproc_find entries fd))"

text \<open>\<open>rproc_init\<close>: \<open>base\<close> and \<open>dir\<close> say whether the directory of the driver can be opened,
  \<open>pipe_rc\<close> is the result of \<open>pipe\<close> with the descriptor of its reading end. The value is the
  result and the descriptor of the state file.\<close>

definition rproc_init :: "bool \<Rightarrow> bool \<Rightarrow> (string \<times> bool \<times> bool \<times> rproc_dir) list \<Rightarrow> int \<times> int \<Rightarrow> int \<times> int" where
  "rproc_init base dir devices pipe_rc =
     (if \<not> base then (-1, -1)
      else if \<not> dir then (-1, -1)
      else
        let state_fd = rproc_devices devices (-1) in
        if state_fd < 0 then (-1, state_fd)
        else if fst pipe_rc < 0 then (-1, state_fd)
        else (snd pipe_rc, state_fd))"

text \<open>The two threads: what they write to the state file and to the pipe, given the results of \<open>pwrite\<close>
  and \<open>write\<close> (a failed write to the state file is only reported). \<open>do_rproc_stop\<close> ends the process when the
  pipe cannot be written.\<close>

datatype rproc_write = State string | Pipe u8 | Exit

definition state_write :: "int \<Rightarrow> string \<Rightarrow> rproc_write list" where
  "state_write n text = (if n \<le> 0 then [] else [State (take (nat n) text)])"

definition do_rproc_start :: "int \<Rightarrow> rproc_write list" where
  "do_rproc_start n = state_write n ''start''"

definition do_rproc_stop :: "int \<Rightarrow> int \<Rightarrow> rproc_write list" where
  "do_rproc_stop n m = state_write n ''stop'' @ (if m \<noteq> 1 then [Exit] else [Pipe 0x59])"

section \<open>The loop\<close>

abbreviation (input) EINTR :: int where "EINTR \<equiv> 4"
abbreviation (input) ENETRESET :: int where "ENETRESET \<equiv> 102"

record select_result =
  sl_ret :: int
  sl_errno :: int
  sl_rproc :: bool
  sl_rmtfs :: bool

record run_sys =
  sy_open :: "nat \<Rightarrow> int"
  sy_publish :: "nat \<Rightarrow> int"
  sy_sig :: "nat \<Rightarrow> nat"
  sy_select :: "nat \<Rightarrow> select_result"
  sy_read :: "nat \<Rightarrow> int \<times> u8"
  sy_recv :: "nat \<Rightarrow> int \<times> bytes \<times> sockaddr_qrtr"
  sy_env :: "nat \<Rightarrow> rmtfs_env"
  sy_thread :: "nat \<Rightarrow> int \<times> int \<times> int"

text \<open>The state of the process: iterations and runs so far, the service, the calls of \<open>pthread_create\<close>, what the
  threads that were created do (in the order of their creation) and the open sockets. \<open>sy_thread\<close> gives the result
  of each call of \<open>pthread_create\<close> and of the two writes of its thread. The threads run beside the
  loop; a loop whose process was ended by \<open>Exit\<close> goes on only until then.\<close>

record rmtfs_proc =
  pm_iter :: nat
  pm_runs :: nat
  pm_state :: rmtfs_state
  pm_threads :: nat
  pm_rproc :: "rproc_write list list"
  pm_socks :: "int list"

definition rproc_start :: "run_sys \<Rightarrow> rmtfs_proc \<Rightarrow> int \<times> rmtfs_proc" where
  "rproc_start y p =
     (case sy_thread y (pm_threads p) of (rc, n, _) \<Rightarrow>
        (rc, p\<lparr>pm_threads := pm_threads p + 1, pm_rproc := pm_rproc p @ (if rc = 0 then [do_rproc_start n] else [])\<rparr>))"

definition rproc_stop :: "run_sys \<Rightarrow> rmtfs_proc \<Rightarrow> int \<times> rmtfs_proc" where
  "rproc_stop y p =
     (case sy_thread y (pm_threads p) of (rc, n, m) \<Rightarrow>
        (rc, p\<lparr>pm_threads := pm_threads p + 1, pm_rproc := pm_rproc p @ (if rc = 0 then [do_rproc_stop n m] else [])\<rparr>))"

text \<open>The body of the loop after \<open>select\<close> succeeded: the new value of \<open>ret\<close>, whether the loop is
  left, and the state.\<close>

definition serve_ready :: "run_sys \<Rightarrow> int \<Rightarrow> nat \<Rightarrow> int \<Rightarrow> rmtfs_proc \<Rightarrow> (int \<times> bool \<times> rmtfs_proc) option" where
  "serve_ready y rprocfd i ret p =
     (let (ret1, done) = (if rprocfd \<ge> 0 \<and> sl_rproc (sy_select y i)
            then (fst (sy_read y i), fst (sy_read y i) = 0 \<or> snd (sy_read y i) = 0x59) else (ret, False)) in
      if done then Some (ret1, True, p)
      else if sl_rmtfs (sy_select y i) then
        (case sy_recv y i of (len, buf, sq) \<Rightarrow> do {
           (ret2, s) \<leftarrow> handle_rmtfs (sy_env y i) (pm_state p) len buf sq;
           Some (ret2, ret2 = -ENETRESET, p\<lparr>pm_state := s\<rparr>) })
      else Some (ret1, False, p))"

partial_function (option) rmtfs_loop :: "run_sys \<Rightarrow> int \<Rightarrow> bool \<Rightarrow> int \<Rightarrow> rmtfs_proc \<Rightarrow> (int \<times> rmtfs_proc) option" where
  "rmtfs_loop y rprocfd sig_int_handled ret p =
     (let i = pm_iter p;
          stop = (rprocfd \<ge> 0 \<and> sy_sig y i = 1 \<and> \<not> sig_int_handled) in
      if \<not> stop \<and> sy_sig y i > 1 then Some (ret, p)
      else
        let p1 = (if stop then snd (rproc_stop y p) else p)\<lparr>pm_iter := i + 1\<rparr>; ret1 = sl_ret (sy_select y i) in
        if ret1 < 0 \<and> sl_errno (sy_select y i) \<noteq> EINTR then Some (ret1, p1)
        else if ret1 < 0 then rmtfs_loop y rprocfd (sig_int_handled \<or> stop) ret1 p1
        else Option.bind (serve_ready y rprocfd i ret1 p1) (\<lambda>r.
          if fst (snd r) then Some (fst r, snd (snd r))
          else rmtfs_loop y rprocfd (sig_int_handled \<or> stop) (fst r) (snd (snd r))))"

definition run_rmtfs :: "run_sys \<Rightarrow> int \<Rightarrow> rmtfs_proc \<Rightarrow> (int \<times> rmtfs_proc) option" where
  "run_rmtfs y rprocfd p =
     (let k = pm_runs p; fd = sy_open y k; p1 = p\<lparr>pm_runs := k + 1\<rparr> in
      if fd < 0 then Some (fd, p1)
      else
        let p2 = p1\<lparr>pm_socks := fd # pm_socks p1\<rparr> in
        if sy_publish y k < 0 then Some (sy_publish y k, p2)
        else
          let p3 = (if rprocfd \<ge> 0 then snd (rproc_start y p2) else p2) in
          map_option (\<lambda>(ret, q). (ret, q\<lparr>pm_socks := remove1 fd (pm_socks q)\<rparr>))
            (rmtfs_loop y rprocfd False (sy_publish y k) p3))"

text \<open>\<open>do ... while (ret == -ENETRESET)\<close>\<close>

partial_function (option) rmtfs_runs :: "run_sys \<Rightarrow> int \<Rightarrow> rmtfs_proc \<Rightarrow> (int \<times> rmtfs_proc) option" where
  "rmtfs_runs y rprocfd p =
     Option.bind (run_rmtfs y rprocfd p) (\<lambda>r.
       if fst r = -ENETRESET then rmtfs_runs y rprocfd (snd r) else Some r)"

text \<open>The command line, as \<open>getopt\<close> delivers it: option characters with their argument, the
  character \<open>?\<close> for an option that is not known. \<open>init\<close> is the result of \<open>rproc_init\<close>.
  \<^term>\<open>None\<close>: the program ends with status 1.\<close>

record rmtfs_options =
  ro_root :: "string option"
  ro_partitions :: bool
  ro_read_only :: bool
  ro_rprocfd :: int

definition default_options :: rmtfs_options where
  "default_options = \<lparr>ro_root = None, ro_partitions = False, ro_read_only = False, ro_rprocfd = -1\<rparr>"

fun rmtfs_getopt :: "int \<Rightarrow> (char \<times> string) list \<Rightarrow> rmtfs_options \<Rightarrow> rmtfs_options option" where
  "rmtfs_getopt init [] op = Some op"
| "rmtfs_getopt init ((c, optarg) # rest) op =
     (if c = CHR ''o'' then rmtfs_getopt init rest (op\<lparr>ro_root := Some optarg\<rparr>)
      else if c = CHR ''P'' then rmtfs_getopt init rest (op\<lparr>ro_partitions := True\<rparr>)
      else if c = CHR ''r'' then rmtfs_getopt init rest (op\<lparr>ro_read_only := True\<rparr>)
      else if c = CHR ''s'' then
        if init < 0 then None else rmtfs_getopt init rest (op\<lparr>ro_rprocfd := init\<rparr>)
      else if c = CHR ''?'' then None
      else rmtfs_getopt init rest op)"

text \<open>\<open>main\<close>: \<open>android\<close> says for which system the program was built, \<open>rmem\<close> is the result of
  \<open>rmtfs_mem_open\<close>. The value is the exit status and the final state.\<close>

definition rmtfs_main ::
    "bool \<Rightarrow> run_sys \<Rightarrow> int \<Rightarrow> (char \<times> string) list \<Rightarrow> rmtfs_mem option \<Rightarrow> rmtfs_proc \<Rightarrow> (int \<times> rmtfs_proc) option" where
  "rmtfs_main android y init args rmem p =
     (case rmtfs_getopt init args default_options of
        None \<Rightarrow> Some (1, p)
      | Some op \<Rightarrow>
        (case rmem of
           None \<Rightarrow> Some (1, p)
         | Some m \<Rightarrow> do {
             let s = pm_state p;
             let p1 = p\<lparr>pm_state := s\<lparr>rs_mem := m,
               rs_st := storage_init android (rs_st s) (ro_root op) (ro_read_only op) (ro_partitions op)\<rparr>\<rparr>;
             (ret, p2) \<leftarrow> rmtfs_runs y (ro_rprocfd op) p1;
             let s2 = pm_state p2;
             let px = rmtfs_mem_close (rs_mem s2) (storage_exit (rs_px s2) (rs_st s2));
             Some (0, p2\<lparr>pm_state := s2\<lparr>rs_px := px\<rparr>\<rparr>) }))"

section \<open>Serving until the modem has stopped\<close>

text \<open>The requests of the given iterations, each handled if \<open>select\<close> reported it; \<^term>\<open>None\<close> if one of
  them resets the connection.\<close>

fun requests :: "run_sys \<Rightarrow> nat list \<Rightarrow> rmtfs_state \<Rightarrow> rmtfs_state option" where
  "requests y [] s = Some s"
| "requests y (j # js) s =
     (if 0 \<le> sl_ret (sy_select y j) \<and> sl_rmtfs (sy_select y j)
      then (case handle_rmtfs (sy_env y j) s (fst (sy_recv y j)) (fst (snd (sy_recv y j))) (snd (snd (sy_recv y j))) of
          None \<Rightarrow> None
        | Some (r, s1) \<Rightarrow> if r = -ENETRESET then None else requests y js s1)
      else requests y js s)"

definition quiet :: "run_sys \<Rightarrow> nat \<Rightarrow> bool" where
  "quiet y j \<longleftrightarrow> sy_sig y j \<le> 1 \<and>
     (if sl_ret (sy_select y j) < 0 then sl_errno (sy_select y j) = EINTR else \<not> sl_rproc (sy_select y j))"

definition stopped :: "run_sys \<Rightarrow> nat \<Rightarrow> bool" where
  "stopped y j \<longleftrightarrow> sy_sig y j \<le> 1 \<and> 0 \<le> sl_ret (sy_select y j) \<and> sl_rproc (sy_select y j) \<and> sy_read y j = (1, 0x59)"

text \<open>One quiet iteration. The list says what the thread of a call of \<open>rproc_stop\<close> or \<open>rproc_start\<close> does, if
  there is one.\<close>

definition start_thread :: "run_sys \<Rightarrow> nat \<Rightarrow> rproc_write list list" where
  "start_thread y k = (case sy_thread y k of (rc, n, _) \<Rightarrow> if rc = 0 then [do_rproc_start n] else [])"

definition stop_thread :: "run_sys \<Rightarrow> nat \<Rightarrow> rproc_write list list" where
  "stop_thread y k = (case sy_thread y k of (rc, n, m) \<Rightarrow> if rc = 0 then [do_rproc_stop n m] else [])"

lemma snd_rproc_start:
  "snd (rproc_start y p) = p\<lparr>pm_threads := pm_threads p + 1, pm_rproc := pm_rproc p @ start_thread y (pm_threads p)\<rparr>"
  by (simp add: rproc_start_def start_thread_def split: prod.split)

lemma snd_rproc_stop:
  "snd (rproc_stop y p) = p\<lparr>pm_threads := pm_threads p + 1, pm_rproc := pm_rproc p @ stop_thread y (pm_threads p)\<rparr>"
  by (simp add: rproc_stop_def stop_thread_def split: prod.split)

definition after_stop :: "run_sys \<Rightarrow> bool \<Rightarrow> rmtfs_proc \<Rightarrow> rmtfs_proc" where
  "after_stop y stop p = (if stop then snd (rproc_stop y p) else p)"

definition after_iteration :: "run_sys \<Rightarrow> bool \<Rightarrow> rmtfs_proc \<Rightarrow> rmtfs_state \<Rightarrow> rmtfs_proc" where
  "after_iteration y handled p s =
     (after_stop y (sy_sig y (pm_iter p) = 1 \<and> \<not> handled) p)\<lparr>pm_iter := pm_iter p + 1, pm_state := s\<rparr>"

lemma rmtfs_loop_quiet:
  assumes "0 \<le> rprocfd" and "quiet y (pm_iter p)" and "requests y [pm_iter p] (pm_state p) = Some s"
  shows "\<exists>ret'. rmtfs_loop y rprocfd handled ret p =
    rmtfs_loop y rprocfd (handled \<or> sy_sig y (pm_iter p) = 1) ret' (after_iteration y handled p s)"
proof -
  let ?i = "pm_iter p"
  let ?p = "(if sy_sig y ?i = 1 \<and> \<not> handled then snd (rproc_stop y p) else p)\<lparr>pm_iter := ?i + 1\<rparr>"
  have p: "?p\<lparr>pm_state := s\<rparr> = after_iteration y handled p s" "pm_state ?p = pm_state p"
    by (simp_all add: after_iteration_def after_stop_def snd_rproc_stop)
  have g: "\<not> sy_sig y ?i > 1" using assms(2) by (simp add: quiet_def)
  obtain len buf sq where r: "sy_recv y ?i = (len, buf, sq)" by (cases "sy_recv y ?i") auto
  show ?thesis
  proof (cases "sl_ret (sy_select y ?i) < 0")
    case True
    then have "s = pm_state p" "sl_errno (sy_select y ?i) = EINTR" using assms(2,3) by (auto simp: quiet_def)
    then have "rmtfs_loop y rprocfd handled ret p =
        rmtfs_loop y rprocfd (handled \<or> sy_sig y ?i = 1) (sl_ret (sy_select y ?i)) ?p"
      using True g assms(1) by (subst rmtfs_loop.simps) (auto simp: Let_def)
    moreover have "?p = after_iteration y handled p s" using p \<open>s = pm_state p\<close> by (metis rmtfs_proc.surjective rmtfs_proc.update_convs(3))
    ultimately show ?thesis by metis
  next
    case False
    then have n: "\<not> sl_rproc (sy_select y ?i)" using assms(2) by (simp add: quiet_def)
    have "\<exists>ret'. serve_ready y rprocfd ?i (sl_ret (sy_select y ?i)) ?p = Some (ret', False, after_iteration y handled p s)"
    proof (cases "sl_rmtfs (sy_select y ?i)")
      case True
      then obtain rr where "handle_rmtfs (sy_env y ?i) (pm_state p) len buf sq = Some (rr, s)" "rr \<noteq> -ENETRESET"
        using False assms(3) r by (auto split: option.splits if_splits)
      then show ?thesis using True n r p by (simp add: serve_ready_def)
    next
      case no: False
      then have "s = pm_state p" using assms(3) by simp
      then have "?p = after_iteration y handled p s" using p by (metis rmtfs_proc.surjective rmtfs_proc.update_convs(3))
      then show ?thesis using no n by (simp add: serve_ready_def)
    qed
    then show ?thesis using False g assms(1) by (subst rmtfs_loop.simps) (auto simp: Let_def)
  qed
qed

text \<open>The loop up to the confirmation in iteration \<open>i + n\<close>.\<close>

lemma rmtfs_loop_until_stopped:
  assumes "0 \<le> rprocfd" and "\<forall>j < n. quiet y (pm_iter p + j)" and "stopped y (pm_iter p + n)"
    and "requests y [pm_iter p..<pm_iter p + n] (pm_state p) = Some s"
  shows "rmtfs_loop y rprocfd handled ret p =
    Some (1, (after_stop y (\<not> handled \<and> (\<exists>j \<le> n. sy_sig y (pm_iter p + j) = 1)) p)\<lparr>pm_iter := pm_iter p + n + 1, pm_state := s\<rparr>)"
  using assms(2-4)
proof (induction n arbitrary: p handled ret)
  case 0
  then show ?case using assms(1)
    by (subst rmtfs_loop.simps) (auto simp: stopped_def Let_def serve_ready_def snd_rproc_stop after_stop_def)
next
  case (Suc n)
  let ?i = "pm_iter p"
  have r: "[?i..<?i + Suc n] = ?i # [Suc ?i..<Suc ?i + n]" by (simp add: upt_conv_Cons)
  obtain s1 where s1: "requests y [?i] (pm_state p) = Some s1" "requests y [Suc ?i..<Suc ?i + n] s1 = Some s"
    using Suc.prems(3) unfolding r by (auto split: option.splits if_splits)
  let ?p = "after_iteration y handled p s1" and ?h = "handled \<or> sy_sig y ?i = 1"
  have q: "quiet y ?i" using Suc.prems(1) by (metis add.right_neutral zero_less_Suc)
  obtain ret' where l: "rmtfs_loop y rprocfd handled ret p = rmtfs_loop y rprocfd ?h ret' ?p"
    using rmtfs_loop_quiet [OF assms(1) q s1(1)] by blast
  have i: "pm_iter ?p = Suc ?i" "pm_state ?p = s1" by (simp_all add: after_iteration_def)
  have "\<forall>j < n. quiet y (pm_iter ?p + j)" "stopped y (pm_iter ?p + n)"
    using Suc.prems(1,2) i by (auto simp del: quiet_def)
  from Suc.IH [OF this, of ?h ret'] s1(2) i
  have "rmtfs_loop y rprocfd ?h ret' ?p =
    Some (1, (after_stop y (\<not> ?h \<and> (\<exists>j \<le> n. sy_sig y (Suc ?i + j) = 1)) ?p)\<lparr>pm_iter := Suc ?i + n + 1, pm_state := s\<rparr>)" by simp
  moreover have "(\<exists>j \<le> Suc n. sy_sig y (?i + j) = 1) \<longleftrightarrow> sy_sig y ?i = 1 \<or> (\<exists>j \<le> n. sy_sig y (Suc ?i + j) = 1)"
    by (auto simp: less_Suc_eq_le Suc_le_eq) (metis add_Suc_right add_Suc add.right_neutral not0_implies_Suc Suc_le_mono)+
  ultimately show ?case using l by (auto simp: after_iteration_def after_stop_def snd_rproc_stop)
qed

text \<open>The state in which the loop starts, and the one the process leaves.\<close>

definition started :: "bool \<Rightarrow> rmtfs_options \<Rightarrow> rmtfs_mem \<Rightarrow> rmtfs_state \<Rightarrow> rmtfs_state" where
  "started android op m s = s\<lparr>rs_mem := m, rs_st := storage_init android (rs_st s) (ro_root op) (ro_read_only op) (ro_partitions op)\<rparr>"

definition released :: "rmtfs_state \<Rightarrow> rmtfs_state" where
  "released s = s\<lparr>rs_px := rmtfs_mem_close (rs_mem s) (storage_exit (rs_px s) (rs_st s))\<rparr>"

text \<open>C36: a graceful stop. Take a service with the modem under its control, whose socket can be opened and
  published, and up to the confirmation at most one signal, interruptions of \<open>select\<close> as the only errors of it, and
  requests (\<open>requests\<close>) that the handlers serve without a memory error and without reporting a
  reset of the network. It calls \<open>rproc_start\<close> once, and it handles every one of these requests in the
  order of arrival, also those that come after the signal while the modem shuts down. The first
  signal makes it call \<open>rproc_stop\<close>, exactly once. With the confirmation in the pipe it closes its
  socket, the files and the memory and ends with status 0. (After a reset of the network it would run
  again, and start the modem again.)\<close>

theorem rmtfs_graceful_stop:
  assumes "rmtfs_getopt init args default_options = Some op" and "0 \<le> ro_rprocfd op"
    and "0 \<le> sy_open y (pm_runs p)" and "0 \<le> sy_publish y (pm_runs p)"
    and "\<forall>j < n. quiet y (pm_iter p + j)" and "stopped y (pm_iter p + n)"
    and "requests y [pm_iter p..<pm_iter p + n] (started android op m (pm_state p)) = Some s"
  shows "let signal = (\<exists>j \<le> n. sy_sig y (pm_iter p + j) = 1); k = pm_threads p in
    rmtfs_main android y init args (Some m) p = Some (0, p\<lparr>
      pm_iter := pm_iter p + n + 1, pm_runs := pm_runs p + 1, pm_state := released s,
      pm_threads := (if signal then k + 2 else k + 1),
      pm_rproc := pm_rproc p @ start_thread y k @ (if signal then stop_thread y (k + 1) else [])\<rparr>)"
proof -
  let ?fd = "ro_rprocfd op" and ?s0 = "started android op m (pm_state p)"
  let ?p0 = "p\<lparr>pm_state := ?s0\<rparr>" and ?fds = "sy_open y (pm_runs p) # pm_socks p"
  let ?p3 = "snd (rproc_start y (?p0\<lparr>pm_runs := pm_runs p + 1, pm_socks := ?fds\<rparr>))"
  let ?sig = "\<exists>j \<le> n. sy_sig y (pm_iter p + j) = 1"
  define q where "q = p\<lparr>pm_iter := pm_iter p + n + 1, pm_runs := pm_runs p + 1, pm_state := s,
    pm_threads := (if ?sig then pm_threads p + 2 else pm_threads p + 1),
    pm_rproc := pm_rproc p @ start_thread y (pm_threads p) @ (if ?sig then stop_thread y (pm_threads p + 1) else [])\<rparr>"
  have "rmtfs_loop y ?fd False (sy_publish y (pm_runs p)) ?p3 =
      Some (1, (after_stop y ?sig ?p3)\<lparr>pm_iter := pm_iter p + n + 1, pm_state := s\<rparr>)"
    using rmtfs_loop_until_stopped [of ?fd n y ?p3 s False] assms(2,5-7) by (simp add: snd_rproc_start)
  also have "(after_stop y ?sig ?p3)\<lparr>pm_iter := pm_iter p + n + 1, pm_state := s\<rparr> = q\<lparr>pm_socks := ?fds\<rparr>"
    by (auto simp: after_stop_def snd_rproc_start snd_rproc_stop q_def)
  finally have "run_rmtfs y ?fd ?p0 = Some (1, q)"
    using assms(2-4) by (simp add: run_rmtfs_def Let_def) (simp add: q_def)
  then have "rmtfs_runs y ?fd ?p0 = Some (1, q)"
    by (subst rmtfs_runs.simps) simp
  then have "rmtfs_main android y init args (Some m) p = Some (0, q\<lparr>pm_state := released s\<rparr>)"
    using assms(1) by (simp add: rmtfs_main_def started_def released_def Let_def) (simp add: q_def)
  then show ?thesis unfolding Let_def q_def by simp
qed

text \<open>A service that is asked for something it does not know, gets a signal and then the
  confirmation.\<close>

definition demo_run :: run_sys where
  "demo_run = \<lparr>sy_open = (\<lambda>_. 5), sy_publish = (\<lambda>_. 0), sy_sig = (\<lambda>i. if i = 0 then 0 else 1),
     sy_select = (\<lambda>i. \<lparr>sl_ret = 1, sl_errno = 0, sl_rproc = (i = 1), sl_rmtfs = (i = 0)\<rparr>),
     sy_read = (\<lambda>_. (1, 0x59)), sy_recv = (\<lambda>_. (7, request 77 99 [] @ replicate 4089 0, demo_sq)),
     sy_env = (\<lambda>_. demo_rmtfs_env), sy_thread = (\<lambda>_. (0, 5, 1))\<rparr>"

definition demo_proc :: rmtfs_proc where
  "demo_proc = \<lparr>pm_iter = 0, pm_runs = 0, pm_state = demo_state, pm_threads = 0, pm_rproc = [], pm_socks = []\<rparr>"

theorem rmtfs_graceful_stop_witness:
  "map_option (\<lambda>(ret, p). (ret, pm_iter p, pm_runs p, pm_rproc p, pm_socks p))
     (rmtfs_main True demo_run 9 [(CHR ''s'', []), (CHR ''r'', [])] (Some (rs_mem demo_state)) demo_proc) =
   Some (0, 2, 1, [[State ''start''], [State ''stop'', Pipe 0x59]], [])"
proof -
  let ?op = "\<lparr>ro_root = None, ro_partitions = False, ro_read_only = True, ro_rprocfd = 9\<rparr>"
  have h: "handle_rmtfs demo_rmtfs_env s 7 (request 77 99 [] @ replicate 4089 0) demo_sq = Some (0, s)" for s
    using handle_data [of demo_sq "[]" 99 demo_rmtfs_env s 77 "replicate 4089 0"] by (simp add: demo_sq_def dispatch_def)
  have "requests demo_run [0..<1] s = Some s" for s using h [of s] by (simp add: demo_run_def upt_conv_Cons)
  then show ?thesis
    using rmtfs_graceful_stop [of 9 "[(CHR ''s'', []), (CHR ''r'', [])]" ?op demo_run demo_proc 1 True "rs_mem demo_state"]
    by (auto simp: default_options_def demo_run_def demo_proc_def quiet_def stopped_def do_rproc_start_def do_rproc_stop_def
        state_write_def start_thread_def stop_thread_def Let_def)
qed

end
