(* ===== verification/PdMapper.thy ===== *)
theory PdMapper
  imports QmiService
begin

text \<open>
  The protection domain mapper, \<^verbatim>\<open>qcom/pd-mapper/pd-mapper.c\<close>, with its message tables
  \<^verbatim>\<open>qcom/pd-mapper/servreg_loc.c\<close>: it answers which domains offer a service, from a fixed
  table. Requests and responses are structures with the arm64 layout (theory \<open>Cmem\<close>).
\<close>

section \<open>Message tables\<close>

definition servreg_loc_qmi_result_ei :: "qmi_elem_info list" where
  "servreg_loc_qmi_result_ei =
     [Elem QMI_UNSIGNED_2_BYTE 1 2 NO_ARRAY 0 0 None,
      Elem QMI_UNSIGNED_2_BYTE 1 2 NO_ARRAY 0 2 None,
      eoti]"

definition servreg_loc_domain_list_entry_ei :: "qmi_elem_info list" where
  "servreg_loc_domain_list_entry_ei =
     [Elem QMI_STRING 256 1 NO_ARRAY 0 4 None,
      Elem QMI_UNSIGNED_4_BYTE 1 4 NO_ARRAY 0 260 None,
      Elem QMI_UNSIGNED_1_BYTE 1 1 NO_ARRAY 0 264 None,
      Elem QMI_UNSIGNED_4_BYTE 1 4 NO_ARRAY 0 268 None,
      eoti]"

definition servreg_loc_get_domain_list_req_ei :: "qmi_elem_info list" where
  "servreg_loc_get_domain_list_req_ei =
     [Elem QMI_STRING 256 1 VAR_LEN_ARRAY 1 4 None,
      Elem QMI_OPT_FLAG 1 1 NO_ARRAY 16 260 None,
      Elem QMI_UNSIGNED_4_BYTE 1 4 NO_ARRAY 16 264 None,
      eoti]"

definition servreg_loc_get_domain_list_resp_ei :: "qmi_elem_info list" where
  "servreg_loc_get_domain_list_resp_ei =
     [Elem QMI_STRUCT 1 4 NO_ARRAY 2 0 (Some servreg_loc_qmi_result_ei),
      Elem QMI_OPT_FLAG 1 1 NO_ARRAY 16 4 None,
      Elem QMI_UNSIGNED_2_BYTE 1 2 NO_ARRAY 16 6 None,
      Elem QMI_OPT_FLAG 1 1 NO_ARRAY 17 8 None,
      Elem QMI_UNSIGNED_2_BYTE 1 2 NO_ARRAY 17 10 None,
      Elem QMI_OPT_FLAG 1 1 NO_ARRAY 18 12 None,
      Elem QMI_DATA_LEN 1 1 NO_ARRAY 18 16 None,
      Elem QMI_STRUCT 255 272 VAR_LEN_ARRAY 18 20 (Some servreg_loc_domain_list_entry_ei),
      eoti]"

definition servreg_loc_pfr_req_ei :: "qmi_elem_info list" where
  "servreg_loc_pfr_req_ei =
     [Elem QMI_STRING 256 1 VAR_LEN_ARRAY 1 4 None,
      Elem QMI_STRING 256 1 VAR_LEN_ARRAY 2 264 None,
      eoti]"

definition servreg_loc_pfr_resp_ei :: "qmi_elem_info list" where
  "servreg_loc_pfr_resp_ei =
     [Elem QMI_STRUCT 1 4 NO_ARRAY 2 0 (Some servreg_loc_qmi_result_ei), eoti]"

abbreviation (input) SERVREG_QMI_SERVICE :: u32 where "SERVREG_QMI_SERVICE \<equiv> 64"
abbreviation (input) SERVREG_QMI_VERSION :: u16 where "SERVREG_QMI_VERSION \<equiv> 257"
abbreviation (input) SERVREG_QMI_INSTANCE :: u16 where "SERVREG_QMI_INSTANCE \<equiv> 0"
abbreviation (input) SERVREG_LOC_GET_DOMAIN_LIST :: nat where "SERVREG_LOC_GET_DOMAIN_LIST \<equiv> 33"
abbreviation (input) SERVREG_LOC_PFR :: nat where "SERVREG_LOC_PFR \<equiv> 36"

section \<open>The handler\<close>

record pd_map =
  pm_service :: string
  pm_domain :: string
  pm_instance :: nat

text \<open>The table, less the entry \<open>{}\<close> that ends it.\<close>

definition pd_maps :: "pd_map list" where
  "pd_maps = [\<lparr>pm_service = ''kernel/elf_loader'', pm_domain = ''msm/modem/wlan_pd'', pm_instance = 1\<rparr>]"

text \<open>The loop over the table: \<open>n\<close> is \<open>resp.domain_list_len\<close>, which is also written to the
  response.\<close>

fun domain_loop :: "string \<Rightarrow> pd_map list \<Rightarrow> nat \<Rightarrow> obj \<Rightarrow> (nat \<times> obj) option" where
  "domain_loop name [] n resp = Some (n, resp)"
| "domain_loop name (pd # pds) n resp =
     (if pm_service pd = name then do {
        let entry = 20 + 272 * n;
        resp1 \<leftarrow> obj_write resp 16 (le_bytes 4 (n + 1));
        resp2 \<leftarrow> obj_write resp1 (entry + 4) (path_bytes (pm_domain pd) @ [0]);
        resp3 \<leftarrow> obj_write resp2 entry (le_bytes 4 (length (pm_domain pd)));
        resp4 \<leftarrow> obj_write resp3 (entry + 260) (le_bytes 4 (pm_instance pd));
        domain_loop name pds (n + 1) resp4 }
      else domain_loop name pds n resp)"

text \<open>The response to a request that was decoded, for the requested name.\<close>

definition domain_list_resp :: "string \<Rightarrow> obj option" where
  "domain_list_resp name = do {
     resp1 \<leftarrow> obj_write (obj_zero 69380) 0 (le_bytes 2 0);
     resp2 \<leftarrow> obj_write resp1 8 [1];
     resp3 \<leftarrow> obj_write resp2 10 (le_bytes 2 1);
     (n, resp4) \<leftarrow> domain_loop name pd_maps 0 resp3;
     resp5 \<leftarrow> (if n \<noteq> 0 then obj_write resp4 12 [1] else Some resp4);
     resp6 \<leftarrow> obj_write resp5 4 [1];
     obj_write resp6 6 (le_bytes 2 n) }"

text \<open>What the environment decides: the value \<open>txn\<close> keeps when the request is refused, the
  content of the response buffer, the result of \<open>sendto\<close>, the fields of the packet that
  \<open>qrtr_decode\<close> leaves alone.\<close>

record pd_env =
  pe_txn :: nat
  pe_resp :: "nat \<Rightarrow> u8"
  pe_send :: int
  pe_pkt :: qrtr_packet

definition handle_get_domain_list :: "pd_env \<Rightarrow> sock_state \<Rightarrow> qrtr_packet \<Rightarrow> sock_state option" where
  "handle_get_domain_list e st pkt = do {
     (ret, txn, req) \<leftarrow> decode_request (pe_txn e) pkt 268 SERVREG_LOC_GET_DOMAIN_LIST servreg_loc_get_domain_list_req_ei;
     resp \<leftarrow> (if ret < 0 then obj_write (obj_zero 69380) 0 (le_bytes 2 1 @ le_bytes 2 2)
             else do {
               req1 \<leftarrow> obj_write req 259 [0];
               name \<leftarrow> obj_string req1 4;
               domain_list_resp name });
     send_response st (pe_send e) (pe_resp e) pkt SERVREG_LOC_GET_DOMAIN_LIST txn resp servreg_loc_get_domain_list_resp_ei }"

section \<open>The process\<close>

text \<open>One round of the loop of \<open>main\<close>: \<open>qrtr_poll\<close> fails or is interrupted, or \<open>recvfrom\<close> returns
  \<open>len\<close> (the negative error number when it fails) and leaves \<open>buf\<close> in the buffer of 4096
  bytes. The round goes on with the next, or ends the process.\<close>

datatype pd_event = Poll_interrupted | Poll_failed | Received int bytes sockaddr_qrtr

datatype pd_next = Continue sock_state | Return int sock_state

definition pd_round :: "pd_env \<Rightarrow> int \<Rightarrow> sock_state \<Rightarrow> pd_event \<Rightarrow> pd_next option" where
  "pd_round e fd st ev =
     (case ev of
        Poll_interrupted \<Rightarrow> Some (Continue st)
      | Poll_failed \<Rightarrow> Some (Return 0 (qrtr_close st fd))
      | Received len buf sq \<Rightarrow>
          if len < 0 then Some (Return len st)
          else do {
            (ret, pkt) \<leftarrow> qrtr_decode (pe_pkt e) buf (nat len) sq;
            if ret < 0 then Some (Return ret st)
            else if p_type pkt = QRTR_TYPE_DATA then do {
              data \<leftarrow> p_data pkt;
              (ret1, msg_id) \<leftarrow> qmi_decode_header (obj_of_bytes data) (p_data_len pkt);
              if ret1 < 0 then Some (Continue st)
              else if msg_id = Some SERVREG_LOC_GET_DOMAIN_LIST then
                map_option Continue (handle_get_domain_list e st pkt)
              else Some (Continue st) }
            else Some (Continue st) })"

fun pd_loop :: "pd_env \<Rightarrow> int \<Rightarrow> sock_state \<Rightarrow> pd_event list \<Rightarrow> pd_next option" where
  "pd_loop e fd st [] = Some (Continue st)"
| "pd_loop e fd st (ev # evs) = do {
     nx \<leftarrow> pd_round e fd st ev;
     case nx of Continue st1 \<Rightarrow> pd_loop e fd st1 evs | Return rc st1 \<Rightarrow> Some (Return rc st1) }"

text \<open>\<open>main\<close>: the arguments are the results of the system calls of \<open>qrtr_open\<close> and
  \<open>qrtr_publish\<close>; \<open>exit(1)\<close> is the return value 1.\<close>

definition pd_main ::
    "pd_env \<Rightarrow> int \<Rightarrow> int \<Rightarrow> int \<times> sockaddr_qrtr \<times> nat \<Rightarrow> int \<Rightarrow> sock_state \<Rightarrow> pd_event list \<Rightarrow> pd_next option" where
  "pd_main e socket_rc opt_rc name sendto_rc st evs =
     (let (fd, st1) = qrtr_open st socket_rc opt_rc 0 0 in
      if fd < 0 then Some (Return 1 st1)
      else
        let (ret, st2) = qrtr_publish st1 name sendto_rc SERVREG_QMI_SERVICE SERVREG_QMI_VERSION SERVREG_QMI_INSTANCE in
        if ret < 0 then Some (Return 1 st2) else pd_loop e fd st2 evs)"

section \<open>Responses\<close>

definition domain_reply :: "nat \<Rightarrow> string \<Rightarrow> bytes" where
  "domain_reply txn name =
     (let list = (if name = ''kernel/elf_loader''
                  then [18, 28, 0, 1, 17] @ path_bytes ''msm/modem/wlan_pd'' @ [1, 0, 0, 0, 0, 0, 0, 0, 0] else [])
      in qmi_header 2 txn 33 (17 + length list) @
         [2, 4, 0, 0, 0, 0, 0, 16, 2, 0, if list = [] then 0 else 1, 0, 17, 2, 0, 1, 0] @ list)"

definition refused_reply :: "nat \<Rightarrow> bytes" where
  "refused_reply txn = qmi_header 2 txn 33 7 @ [2, 4, 0, 1, 0, 2, 0]"

lemma encode_refused:
  "(do { resp \<leftarrow> obj_write (obj_zero 69380) 0 (le_bytes 2 1 @ le_bytes 2 2);
         encoded junk 33 txn resp servreg_loc_get_domain_list_resp_ei }) = Some (refused_reply txn)"
  by code_simp

lemma encode_known:
  "(do { resp \<leftarrow> domain_list_resp ''kernel/elf_loader'';
         encoded junk 33 txn resp servreg_loc_get_domain_list_resp_ei }) = Some (domain_reply txn ''kernel/elf_loader'')"
  by code_simp

lemma domain_list_resp_unknown:
  "name \<noteq> ''kernel/elf_loader'' \<Longrightarrow> domain_list_resp name = domain_list_resp []"
  by (simp add: domain_list_resp_def pd_maps_def)

lemma encode_unknown:
  "(do { resp \<leftarrow> domain_list_resp []; encoded junk 33 txn resp servreg_loc_get_domain_list_resp_ei }) =
     Some (domain_reply txn [])"
  by code_simp

lemma encode_domain_list:
  "\<exists>resp. domain_list_resp name = Some resp \<and>
     encoded junk 33 txn resp servreg_loc_get_domain_list_resp_ei = Some (domain_reply txn name)"
proof (cases "name = ''kernel/elf_loader''")
  case True
  then show ?thesis using encode_known [of junk txn] by (cases "domain_list_resp name") auto
next
  case False
  then have "domain_reply txn name = domain_reply txn []" by (simp add: domain_reply_def)
  then show ?thesis
    using encode_unknown [of junk txn] domain_list_resp_unknown [OF False] by (cases "domain_list_resp []") auto
qed

text \<open>The end of the handler, for a decoded and for a refused request.\<close>

definition answered :: "sock_state \<Rightarrow> sockaddr_qrtr \<Rightarrow> bytes \<Rightarrow> sock_state \<Rightarrow> bool" where
  "answered st sq bs st' \<longleftrightarrow>
     st' = st\<lparr>out_pkts := out_pkts st @ [(bs, \<lparr>sq_family = AF_QIPCRTR, sq_node = sq_node sq, sq_port = sq_port sq\<rparr>)]\<rparr>"

definition pd_pkt :: "pd_env \<Rightarrow> bytes \<Rightarrow> nat \<Rightarrow> sockaddr_qrtr \<Rightarrow> qrtr_packet" where
  "pd_pkt e buf len sq = (pe_pkt e)\<lparr>p_type := QRTR_TYPE_DATA, p_node := sq_node sq, p_port := sq_port sq,
     p_data := Some buf, p_data_len := len\<rparr>"

lemma send_answered:
  "encoded junk 33 txn resp servreg_loc_get_domain_list_resp_ei = Some bs \<Longrightarrow>
     \<exists>st'. send_response st rc junk (pd_pkt e buf len sq) 33 txn resp servreg_loc_get_domain_list_resp_ei = Some st' \<and>
       answered st sq bs st'"
  by (simp add: send_response_encoded answered_def pd_pkt_def qrtr_sendto_def Let_def)

lemma handle_decoded:
  assumes "decode_request (pe_txn e) (pd_pkt e buf len sq) 268 33 servreg_loc_get_domain_list_req_ei = Some (ret, txn, req)"
    and "0 \<le> ret \<Longrightarrow> obj_write req 259 [0] = Some req1" and "0 \<le> ret \<Longrightarrow> obj_string req1 4 = Some name"
  shows "\<exists>st'. handle_get_domain_list e st (pd_pkt e buf len sq) = Some st' \<and>
    answered st sq (if ret < 0 then refused_reply txn else domain_reply txn name) st'"
proof (cases "ret < 0")
  case True
  obtain resp where "obj_write (obj_zero 69380) 0 (le_bytes 2 1 @ le_bytes 2 2) = Some resp"
    "encoded (pe_resp e) 33 txn resp servreg_loc_get_domain_list_resp_ei = Some (refused_reply txn)"
    using encode_refused [of "pe_resp e" txn] by (auto split: Option.bind_splits)
  then show ?thesis using assms(1) True send_answered by (simp add: handle_get_domain_list_def)
next
  case False
  obtain resp where "domain_list_resp name = Some resp"
    "encoded (pe_resp e) 33 txn resp servreg_loc_get_domain_list_resp_ei = Some (domain_reply txn name)"
    using encode_domain_list by blast
  then show ?thesis using assms False send_answered by (simp add: handle_get_domain_list_def)
qed

section \<open>Properties\<close>

text \<open>C21: a well-formed request is answered from the table. For every service name of at most 255
  characters the sender, and nobody else, gets one reply with its transaction number: the
  domain \<open>msm/modem/wlan_pd\<close>, instance 1, for \<open>kernel/elf_loader\<close>, and an empty list for any
  other name. The process goes on.\<close>

theorem pd_mapper_answers:
  assumes "sq_port sq \<noteq> QRTR_PORT_CTRL" and "length name \<le> 255" and "CHR 0x00 \<notin> set name"
    and "buf = request txn 33 (string_body (path_bytes name)) @ rest" and "length buf = 4096"
  shows "\<exists>st'. pd_round e fd st (Received (int (10 + length name)) buf sq) = Some (Continue st') \<and>
    answered st sq (domain_reply (txn mod 65536) name) st'"
proof -
  let ?d = "obj_of_bytes buf" and ?b = "string_body (path_bytes name)" and ?ei = servreg_loc_get_domain_list_req_ei
  let ?p = "pd_pkt e buf (10 + length name) sq"
  have "obj_read ?d 7 (3 + length (path_bytes name)) = Some ?b"
    using body_read [of 0 "3 + length name" ?b txn 33 rest] by (simp add: assms(4))
  from decode_string_body [OF this, where ei = ?ei and sz = 268] obtain req where
    "qmi_decode ?d (Some ?ei) (obj_zero 268) 0 7 (length ?b) 1 = Some (int (3 + length name), req)"
    and req: "obj_read req 4 (length name + 1) = Some (path_bytes name @ [0])" "osize req = 268"
    using assms(2) by (auto simp: servreg_loc_get_domain_list_req_ei_def)
  then have dec: "decode_request (pe_txn e) ?p 268 33 ?ei = Some (int (3 + length name), txn mod 65536, req)"
    using assms(4,5) by (intro decode_request_data [where rest = rest and body = ?b]) (simp_all add: pd_pkt_def)
  obtain req1 where req1: "obj_write req 259 [0] = Some req1" using obj_write_exists [of 259 "[0]" req] req(2) by auto
  have "obj_read req1 4 (length name + 1) = Some (path_bytes name @ [0])"
  proof (cases "length name = 255")
    case False
    then show ?thesis using obj_read_write_other [OF req1, of 4 "length name + 1"] req(1) assms(2) by simp
  next
    case True
    have "map (\<lambda>j. obyte req (4 + j)) [0..<256] = path_bytes name @ [0]" using req(1) True by (simp add: obj_read_def split: if_splits)
    then have "map (\<lambda>j. obyte req (4 + j)) [0..<256] ! 255 = (path_bytes name @ [0]) ! 255" by (rule arg_cong)
    then have "obyte req 259 = 0" using True by (simp add: nth_append)
    then have "obyte req1 j = obyte req j" for j using obj_write_byte [OF req1, of j] by (cases "j = 259") auto
    then have "obj_read req1 4 (length name + 1) = obj_read req 4 (length name + 1)"
      using obj_write_size [OF req1] unfolding obj_read_def by presburger
    then show ?thesis using req(1) by simp
  qed
  then have "obj_string req1 4 = Some name" by (rule obj_string_of_read [OF _ assms(3)])
  with handle_decoded [OF dec req1] obtain st' where
    "handle_get_domain_list e st ?p = Some st'" "answered st sq (domain_reply (txn mod 65536) name) st'" by auto
  moreover have "qmi_decode_header ?d (10 + length name) = Some (0, Some 33)"
    using request_header [of ?b 33 txn rest] assms(2,4) by simp
  ultimately show ?thesis
    using assms(1) by (simp add: pd_round_def qrtr_decode_def pd_pkt_def nat_add_distrib)
qed

definition demo_pd_env :: pd_env where
  "demo_pd_env = \<lparr>pe_txn = 0, pe_resp = (\<lambda>_. 0), pe_send = 0, pe_pkt = blank_packet\<rparr>"

definition demo_pd_state :: sock_state where
  "demo_pd_state = \<lparr>open_fds = {3}, bound = [], out_pkts = []\<rparr>"

definition demo_pd_sq :: sockaddr_qrtr where
  "demo_pd_sq = \<lparr>sq_family = AF_QIPCRTR, sq_node = 7, sq_port = 12\<rparr>"

theorem pd_mapper_answers_witness:
  "\<exists>st'. pd_round demo_pd_env 3 demo_pd_state (Received 27
       (request 77 33 (string_body (path_bytes ''kernel/elf_loader'')) @ replicate 4069 0) demo_pd_sq) = Some (Continue st') \<and>
     answered demo_pd_state demo_pd_sq (domain_reply 77 ''kernel/elf_loader'') st'"
  using pd_mapper_answers [of demo_pd_sq "''kernel/elf_loader''" _ 77 "replicate 4069 0" demo_pd_env 3 demo_pd_state]
  by (simp add: demo_pd_sq_def)

text \<open>C22: no data packet stops the mapper. Any data packet of up to 3831 bytes, however malformed,
  is processed without leaving the buffers; the process goes on and sends at most one reply,
  to the sender.\<close>

theorem pd_mapper_survives:
  assumes "sq_port sq \<noteq> QRTR_PORT_CTRL" and "length buf = 4096" and "len \<le> 3831"
  shows "\<exists>st'. pd_round e fd st (Received (int len) buf sq) = Some (Continue st') \<and>
    (st' = st \<or> (\<exists>txn. answered st sq (refused_reply txn) st' \<or> (\<exists>name. answered st sq (domain_reply txn name) st')))"
proof -
  let ?d = "obj_of_bytes buf" and ?p = "pd_pkt e buf len sq" and ?ei = servreg_loc_get_domain_list_req_ei
  have run: "pd_round e fd st (Received (int len) buf sq) = do {
      (ret1, msg_id) \<leftarrow> qmi_decode_header ?d len;
      if ret1 < 0 then Some (Continue st)
      else if msg_id = Some 33 then map_option Continue (handle_get_domain_list e st ?p)
      else Some (Continue st) }"
    using assms(1) unfolding pd_pkt_def by (simp add: pd_round_def qrtr_decode_def)
  have "5 + 2 \<le> osize ?d" "3 + 2 \<le> osize ?d" using assms(2) by simp_all
  then obtain x y where xy: "obj_read ?d 5 2 = Some x" "obj_read ?d 3 2 = Some y"
    using obj_read_exists by meson
  obtain ret1 msg_id where h: "qmi_decode_header ?d len = Some (ret1, msg_id)" "ret1 < 0 \<or> 7 \<le> len"
    using xy by (cases "len < 7 \<or> le_val x \<noteq> len - 7") (auto simp: qmi_decode_header_def)
  show ?thesis
  proof (cases "ret1 < 0 \<or> msg_id \<noteq> Some 33")
    case True
    then show ?thesis using run h(1) by auto
  next
    case False
    have t: "dec_table 268 ?ei" "table_reads ?ei = 262" by code_simp+
    have "\<exists>rc txn out. qmi_decode_message (Some (obj_zero 268)) (Some ?d) len 0 33 (Some ?ei) = Some (rc, txn, Some out) \<and> osize out = 268"
      using message_safe [OF t(1), of "obj_zero 268" len ?d 0 33] h(2) False t(2) assms(2,3) by auto
    then obtain rc txn req where d: "decode_request (pe_txn e) ?p 268 33 ?ei = Some (rc, txn, req)" "osize req = 268"
      by (auto simp: decode_request_def pd_pkt_def)
    obtain req1 where req1: "obj_write req 259 [0] = Some req1" using obj_write_exists [of 259 "[0]" req] d(2) by auto
    have "\<exists>name. obj_string req1 4 = Some name"
      using string_terminated [of req1 259 4] obj_write_byte [OF req1, of 259] obj_write_size [OF req1] d(2) by auto
    then obtain name where "obj_string req1 4 = Some name" ..
    then obtain st' where "handle_get_domain_list e st ?p = Some st'"
      "answered st sq (if rc < 0 then refused_reply txn else domain_reply txn name) st'"
      using handle_decoded [OF d(1) req1] by blast
    then show ?thesis using run h(1) False by (auto split: if_splits)
  qed
qed

theorem pd_mapper_survives_witness:
  "\<exists>st'. pd_round demo_pd_env 3 demo_pd_state (Received 12 (replicate 4096 255) demo_pd_sq) = Some (Continue st') \<and>
    (st' = demo_pd_state \<or> (\<exists>txn. answered demo_pd_state demo_pd_sq (refused_reply txn) st' \<or>
       (\<exists>name. answered demo_pd_state demo_pd_sq (domain_reply txn name) st')))"
  using pd_mapper_survives [of demo_pd_sq "replicate 4096 255" 12 demo_pd_env 3 demo_pd_state]
  by (simp add: demo_pd_sq_def)

text \<open>The encoder can overrun its buffer with a string in a nested structure. The check in
  \<open>qmi_encode_string_elem\<close> leaves out the element header that the checks for other elements
  count: with a packet buffer of 43 bytes the response for \<open>kernel/elf_loader\<close> is written past
  its end, while a buffer of 42 or 46 bytes is refused properly. (The mapper's own buffer of
  256 bytes is large enough.)\<close>

lemma nested_string_overrun:
  "map (\<lambda>n. do { resp \<leftarrow> domain_list_resp ''kernel/elf_loader'';
                map_option fst (qmi_encode_message (obj_zero n) n 2 33 0 (Some resp) (Some servreg_loc_get_domain_list_resp_ei)) })
     [42, 43, 46, 256] = [Some (-EINVAL), None, Some (-EINVAL), Some 55]"
  by code_simp

end
