(* ===== verification/Translate.thy ===== *)
theory Translate
  imports Cmem
begin

text \<open>
  The path translation of the TFTP server, \<^verbatim>\<open>qcom/tqftpserv/translate.c\<close>: requests under
  \<open>/readonly/firmware/image/\<close> are looked up beside the firmware of the remote processors,
  requests under \<open>/readwrite/\<close> go to a directory of their own, and everything else is
  refused. Files and descriptors are a state of type \<open>tfs\<close>; what the system decides (the
  content of sysfs, permissions, how a path is resolved) is a \<open>tr_env\<close>.
\<close>

section \<open>Files and descriptors\<close>

text \<open>A descriptor refers to a resolved path and a position.\<close>

record tfs =
  fs_files :: "string \<Rightarrow> bytes option"
  fs_fds :: "int \<Rightarrow> (string \<times> nat) option"

text \<open>\<open>tr_class\<close>: the entries of \<open>/sys/class/remoteproc\<close> in the order of \<open>readdir\<close>, unless it
  cannot be opened. \<open>tr_firmware\<close>: the content of the attribute \<open>firmware\<close> of an entry,
  unless it cannot be read. \<open>tr_mkdir\<close>: the directory for writable files exists or was made.
  \<open>tr_base\<close>: it can be opened. \<open>tr_resolve\<close>: the file a path leads to. \<open>tr_access p w\<close>: the
  file may be opened (for writing if \<open>w\<close>), or created if it is missing. \<open>tr_fd\<close>: the
  descriptor the next successful \<open>open\<close> returns.\<close>

record tr_env =
  tr_class :: "string list option"
  tr_firmware :: "string \<Rightarrow> bytes option"
  tr_mkdir :: bool
  tr_base :: bool
  tr_resolve :: "string \<Rightarrow> string"
  tr_access :: "string \<Rightarrow> bool \<Rightarrow> bool"
  tr_fd :: int

text \<open>\<open>open(path, O_RDONLY)\<close> and \<open>open(path, O_WRONLY | O_CREAT)\<close>; the content of an existing
  file stays.\<close>

definition open_path :: "tr_env \<Rightarrow> tfs \<Rightarrow> string \<Rightarrow> bool \<Rightarrow> int \<times> tfs" where
  "open_path e fs path creat =
     (let r = tr_resolve e path in
      if \<not> tr_access e r creat then (-1, fs)
      else
        (case fs_files fs r of
           Some _ \<Rightarrow> (tr_fd e, fs\<lparr>fs_fds := (fs_fds fs)(tr_fd e \<mapsto> (r, 0))\<rparr>)
         | None \<Rightarrow>
             if creat
             then (tr_fd e, fs\<lparr>fs_files := (fs_files fs)(r \<mapsto> []), fs_fds := (fs_fds fs)(tr_fd e \<mapsto> (r, 0))\<rparr>)
             else (-1, fs)))"

section \<open>Translation\<close>

definition READONLY_PATH :: string where "READONLY_PATH = ''/readonly/firmware/image/''"
definition READWRITE_PATH :: string where "READWRITE_PATH = ''/readwrite/''"
definition FIRMWARE_BASE :: string where "FIRMWARE_BASE = ''/vendor/firmware/''"
definition TQFTPSERV_TMP :: string where "TQFTPSERV_TMP = ''/data/qcom/tmp/tqftpserv''"

abbreviation (input) PATH_MAX :: nat where "PATH_MAX \<equiv> 4096"

text \<open>\<open>dirname\<close> of the C library, and the string a buffer of bytes holds.\<close>

definition strip_slashes :: "string \<Rightarrow> string" where
  "strip_slashes p = rev (dropWhile (\<lambda>c. c = CHR ''/'') (rev p))"

definition dirname :: "string \<Rightarrow> string" where
  "dirname p =
     (let q = strip_slashes p; d = strip_slashes (rev (dropWhile (\<lambda>c. c \<noteq> CHR ''/'') (rev q))) in
      if p = [] then ''.''
      else if CHR ''/'' \<notin> set q then (if q = [] then ''/'' else ''.'')
      else if d = [] then ''/'' else d)"

definition bytes_string :: "bytes \<Rightarrow> string" where
  "bytes_string bs = map (\<lambda>b. char_of (unat b)) (takeWhile (\<lambda>b. b \<noteq> 0) bs)"

text \<open>The loop over the directory. The buffers \<open>firmware_attr\<close>, \<open>firmware_value\<close> and \<open>path\<close> have
  4096 bytes each.\<close>

fun readonly_loop :: "tr_env \<Rightarrow> tfs \<Rightarrow> string \<Rightarrow> string list \<Rightarrow> (int \<times> tfs) option" where
  "readonly_loop e fs file [] = Some (-1, fs)"
| "readonly_loop e fs file (name # names) =
     (if name = ''.'' \<or> name = ''..'' then readonly_loop e fs file names
      else if length name + 9 > PATH_MAX then readonly_loop e fs file names
      else if length name + 9 + 1 > PATH_MAX then None
      else
        (case tr_firmware e name of
           None \<Rightarrow> readonly_loop e fs file names
         | Some attr \<Rightarrow>
             let n = min PATH_MAX (length attr) in
             if n \<ge> PATH_MAX then None
             else
               let firmware_value = bytes_string attr in
               if length FIRMWARE_BASE + length firmware_value + 1 + length file + 1 > PATH_MAX
               then readonly_loop e fs file names
               else
                 let path = FIRMWARE_BASE @ dirname firmware_value @ ''/'' @ file in
                 if length path + 1 > PATH_MAX then None
                 else
                   let (fd, fs1) = open_path e fs path False in
                   if fd \<ge> 0 then Some (fd, fs1) else readonly_loop e fs1 file names))"

definition translate_readonly :: "tr_env \<Rightarrow> tfs \<Rightarrow> string \<Rightarrow> (int \<times> tfs) option" where
  "translate_readonly e fs file =
     (case tr_class e of
        None \<Rightarrow> Some (-1, fs)
      | Some names \<Rightarrow> readonly_loop e fs file names)"

text \<open>The path \<open>openat\<close> opens: an absolute path stands for itself.\<close>

definition openat_path :: "string \<Rightarrow> string \<Rightarrow> string" where
  "openat_path dir file = (if take 1 file = ''/'' then file else dir @ ''/'' @ file)"

definition translate_readwrite :: "tr_env \<Rightarrow> tfs \<Rightarrow> string \<Rightarrow> bool \<Rightarrow> int \<times> tfs" where
  "translate_readwrite e fs file creat =
     (if \<not> tr_mkdir e then (-1, fs)
      else if \<not> tr_base e then (-1, fs)
      else if file = [] then (-1, fs)
      else open_path e fs (openat_path TQFTPSERV_TMP file) creat)"

definition translate_open :: "tr_env \<Rightarrow> tfs \<Rightarrow> string \<Rightarrow> bool \<Rightarrow> (int \<times> tfs) option" where
  "translate_open e fs path creat =
     (if take (length READONLY_PATH) path = READONLY_PATH
      then translate_readonly e fs (drop (length READONLY_PATH) path)
      else if take (length READWRITE_PATH) path = READWRITE_PATH
      then Some (translate_readwrite e fs (drop (length READWRITE_PATH) path) creat)
      else Some (-1, fs))"

section \<open>Lemmas\<close>

lemma strip_slashes_length: "length (strip_slashes p) \<le> length p"
  using length_dropWhile_le [of _ "rev p"] by (simp add: strip_slashes_def)

lemma dirname_length: "length (dirname p) \<le> max 1 (length p)"
proof -
  let ?q = "strip_slashes p"
  have "length (rev (dropWhile (\<lambda>c. c \<noteq> CHR ''/'') (rev ?q))) \<le> length ?q"
    using length_dropWhile_le [of _ "rev ?q"] by simp
  then show ?thesis
    using strip_slashes_length [of p] strip_slashes_length [of "rev (dropWhile (\<lambda>c. c \<noteq> CHR ''/'') (rev ?q))"]
    by (auto simp: dirname_def Let_def)
qed

lemma bytes_string_length: "length (bytes_string bs) \<le> length bs"
  by (simp add: bytes_string_def length_takeWhile_le)

text \<open>What an \<open>open\<close> of \<open>path\<close> may change.\<close>

definition opened :: "tr_env \<Rightarrow> tfs \<Rightarrow> bool \<Rightarrow> string \<Rightarrow> int \<times> tfs \<Rightarrow> bool" where
  "opened e fs creat path r \<longleftrightarrow>
     (let p = tr_resolve e path; fds = (fs_fds fs)(tr_fd e \<mapsto> (p, 0)) in
      r = (tr_fd e, fs\<lparr>fs_fds := fds\<rparr>) \<and> fs_files fs p \<noteq> None \<or>
      creat \<and> fs_files fs p = None \<and>
        r = (tr_fd e, fs\<lparr>fs_files := (fs_files fs)(p \<mapsto> []), fs_fds := fds\<rparr>))"

lemma open_path_cases:
  obtains "open_path e fs path creat = (-1, fs)"
  | "opened e fs creat path (open_path e fs path creat)"
proof -
  have "open_path e fs path creat = (-1, fs) \<or> opened e fs creat path (open_path e fs path creat)"
    by (simp add: open_path_def opened_def Let_def split: option.split)
  then show thesis using that by blast
qed

text \<open>The paths a read-only request may stand for: the file in the directory of the firmware of every remote
  processor, in the order of the class directory, unless the path would be too long.\<close>

definition firmware_path :: "tr_env \<Rightarrow> string \<Rightarrow> string \<Rightarrow> string option" where
  "firmware_path e file name =
     (if name = ''.'' \<or> name = ''..'' then None
      else
        (case tr_firmware e name of
           None \<Rightarrow> None
         | Some attr \<Rightarrow>
             if length FIRMWARE_BASE + length (bytes_string attr) + 1 + length file + 1 > PATH_MAX then None
             else Some (FIRMWARE_BASE @ dirname (bytes_string attr) @ ''/'' @ file)))"

definition readable :: "tr_env \<Rightarrow> tfs \<Rightarrow> string \<Rightarrow> bool" where
  "readable e fs path \<longleftrightarrow> tr_access e (tr_resolve e path) False \<and> fs_files fs (tr_resolve e path) \<noteq> None"

definition open_first :: "tr_env \<Rightarrow> tfs \<Rightarrow> string list \<Rightarrow> int \<times> tfs" where
  "open_first e fs paths =
     (case find (readable e fs) paths of
        None \<Rightarrow> (-1, fs)
      | Some p \<Rightarrow> (tr_fd e, fs\<lparr>fs_fds := (fs_fds fs)(tr_fd e \<mapsto> (tr_resolve e p, 0))\<rparr>))"

lemma open_path_readable:
  "open_path e fs path False =
     (if readable e fs path then (tr_fd e, fs\<lparr>fs_fds := (fs_fds fs)(tr_fd e \<mapsto> (tr_resolve e path, 0))\<rparr>) else (-1, fs))"
  by (auto simp: open_path_def readable_def Let_def split: option.split)

lemma readonly_loop_first:
  assumes "\<And>name. name \<in> set names \<Longrightarrow> length name \<le> 255"
    and "\<And>name attr. tr_firmware e name = Some attr \<Longrightarrow> length attr < 4096"
    and "length file \<le> 4069" and "0 \<le> tr_fd e"
  shows "readonly_loop e fs file names = Some (open_first e fs (List.map_filter (firmware_path e file) names))"
  using assms(1)
proof (induction names)
  case Nil
  then show ?case by (simp add: open_first_def List.map_filter_def)
next
  case (Cons name names)
  then have IH: "readonly_loop e fs file names = Some (open_first e fs (List.map_filter (firmware_path e file) names))" by simp
  have n: "length name \<le> 255" using Cons.prems by simp
  show ?case
  proof (cases "firmware_path e file name")
    case None
    have "readonly_loop e fs file (name # names) = readonly_loop e fs file names"
    proof (cases "tr_firmware e name")
      case (Some attr)
      then show ?thesis using None n assms(2) [OF Some] by (auto simp: firmware_path_def Let_def split: if_splits)
    qed (use n in simp)
    then show ?thesis using IH None by (simp add: List.map_filter_def)
  next
    case (Some p)
    then obtain attr where a: "tr_firmware e name = Some attr" and dots: "name \<noteq> ''.''" "name \<noteq> ''..''"
      and fit: "length FIRMWARE_BASE + length (bytes_string attr) + 1 + length file + 1 \<le> 4096"
      and p: "p = FIRMWARE_BASE @ dirname (bytes_string attr) @ ''/'' @ file"
      by (auto simp: firmware_path_def split: if_splits option.splits)
    have "length FIRMWARE_BASE = 17" by (simp add: FIRMWARE_BASE_def)
    then have "length p + 1 \<le> 4096"
      using fit p assms(3) dirname_length [of "bytes_string attr"] by (auto simp: max_def split: if_splits)
    then have "readonly_loop e fs file (name # names) =
        (let (fd, fs1) = open_path e fs p False in if fd \<ge> 0 then Some (fd, fs1) else readonly_loop e fs1 file names)"
      using fit p dots n a assms(2) [OF a] by (simp add: Let_def)
    then show ?thesis using IH Some assms(4) by (simp add: open_path_readable open_first_def List.map_filter_def)
  qed
qed

section \<open>Properties\<close>

text \<open>C24: which file a request opens. For every path a request can carry, \<open>translate_open\<close> returns without
  leaving its buffers (entries of the class directory have at most 255 characters, attributes less
  than 4096 bytes). For a \<open>/readonly/firmware/image/\<close> request it opens, for reading, the first of the
  paths made of the directory of a processor's firmware and the rest of the request that can
  be opened; for a \<open>/readwrite/\<close> request the path \<open>openat\<close> makes of the rest; everything else is
  refused. When it fails it changes nothing; no existing file is changed, and a new one is empty. (The rest of
  the request is not checked: it may contain \<open>..\<close>, or start with a slash in the second case.)\<close>

theorem translate_open_files:
  assumes "\<And>names name. tr_class e = Some names \<Longrightarrow> name \<in> set names \<Longrightarrow> length name \<le> 255"
    and "\<And>name attr. tr_firmware e name = Some attr \<Longrightarrow> length attr < 4096"
    and "length path \<le> 4094" and "0 \<le> tr_fd e"
  shows "\<exists>r. translate_open e fs path creat = Some r \<and>
    (if take (length READONLY_PATH) path = READONLY_PATH
     then r = open_first e fs (List.map_filter (firmware_path e (drop (length READONLY_PATH) path))
       (case tr_class e of None \<Rightarrow> [] | Some names \<Rightarrow> names))
     else if take (length READWRITE_PATH) path = READWRITE_PATH
     then r = (-1, fs) \<or> opened e fs creat (openat_path TQFTPSERV_TMP (drop (length READWRITE_PATH) path)) r
     else r = (-1, fs))"
proof (cases "take (length READONLY_PATH) path = READONLY_PATH")
  case True
  have "length READONLY_PATH = 25" by (simp add: READONLY_PATH_def)
  then show ?thesis
    using True readonly_loop_first [of _ e "drop (length READONLY_PATH) path" fs] assms
    by (auto simp: translate_open_def translate_readonly_def open_first_def List.map_filter_def split: option.split)
next
  case False
  let ?f = "drop (length READWRITE_PATH) path"
  have "translate_readwrite e fs ?f creat = (-1, fs) \<or>
    opened e fs creat (openat_path TQFTPSERV_TMP ?f) (translate_readwrite e fs ?f creat)"
    by (cases rule: open_path_cases [of e fs "openat_path TQFTPSERV_TMP ?f" creat])
      (auto simp: translate_readwrite_def)
  then show ?thesis
    using False by (cases "translate_readwrite e fs ?f creat") (auto simp: translate_open_def)
qed

definition demo_tr_env :: tr_env where
  "demo_tr_env = \<lparr>tr_class = Some [''.'', ''..'', ''remoteproc0''],
     tr_firmware = (\<lambda>n. if n = ''remoteproc0'' then Some (path_bytes ''qcom/sdm845/mba.mbn'' @ [10]) else None),
     tr_mkdir = True, tr_base = True, tr_resolve = (\<lambda>p. p), tr_access = (\<lambda>_ _. True), tr_fd = 7\<rparr>"

definition demo_tfs :: tfs where
  "demo_tfs = \<lparr>fs_files = [''/vendor/firmware/qcom/sdm845/modem.b00'' \<mapsto> [1, 2, 3], ''/etc/hosts'' \<mapsto> [9]],
     fs_fds = (\<lambda>_. None)\<rparr>"

definition demo_ro_path :: string where
  "demo_ro_path = READONLY_PATH @ ''modem.b00''"

theorem translate_open_files_witness:
  "translate_open demo_tr_env demo_tfs demo_ro_path False =
     Some (7, demo_tfs\<lparr>fs_fds := [7 \<mapsto> (''/vendor/firmware/qcom/sdm845/modem.b00'', 0)]\<rparr>)"
proof -
  have ro: "take (length READONLY_PATH) demo_ro_path = READONLY_PATH" "drop (length READONLY_PATH) demo_ro_path = ''modem.b00''"
    "tr_class demo_tr_env = Some [''.'', ''..'', ''remoteproc0'']"
    by (simp_all add: demo_ro_path_def demo_tr_env_def)
  have "\<exists>r. translate_open demo_tr_env demo_tfs demo_ro_path False = Some r \<and>
    (if take (length READONLY_PATH) demo_ro_path = READONLY_PATH
     then r = open_first demo_tr_env demo_tfs (List.map_filter (firmware_path demo_tr_env (drop (length READONLY_PATH) demo_ro_path))
       (case tr_class demo_tr_env of None \<Rightarrow> [] | Some names \<Rightarrow> names))
     else if take (length READWRITE_PATH) demo_ro_path = READWRITE_PATH
     then r = (-1, demo_tfs) \<or> opened demo_tr_env demo_tfs False (openat_path TQFTPSERV_TMP (drop (length READWRITE_PATH) demo_ro_path)) r
     else r = (-1, demo_tfs))"
  proof (rule translate_open_files)
    show "length name \<le> 255" if "tr_class demo_tr_env = Some names" "name \<in> set names" for names name
      using that by (auto simp: demo_tr_env_def)
    show "length attr < 4096" if "tr_firmware demo_tr_env name = Some attr" for name attr
      using that by (auto simp: demo_tr_env_def path_bytes_def split: if_splits)
  qed (simp_all add: demo_tr_env_def demo_ro_path_def READONLY_PATH_def)
  then have "translate_open demo_tr_env demo_tfs demo_ro_path False =
      Some (open_first demo_tr_env demo_tfs (List.map_filter (firmware_path demo_tr_env ''modem.b00'') [''.'', ''..'', ''remoteproc0'']))"
    unfolding ro option.case by (simp del: map_filter_simps split_paired_Ex)
  moreover have "List.map_filter (firmware_path demo_tr_env ''modem.b00'') [''.'', ''..'', ''remoteproc0''] =
      [''/vendor/firmware/qcom/sdm845/modem.b00'']" by code_simp
  moreover have "open_first demo_tr_env demo_tfs [''/vendor/firmware/qcom/sdm845/modem.b00''] =
      (7, demo_tfs\<lparr>fs_fds := [7 \<mapsto> (''/vendor/firmware/qcom/sdm845/modem.b00'', 0)]\<rparr>)"
    by (simp add: open_first_def readable_def demo_tr_env_def demo_tfs_def)
  ultimately show ?thesis by simp
qed

text \<open>The directory for writable files does not confine. The file name of a \<open>/readwrite/\<close>
  request goes to \<open>openat\<close> as it is; with a second slash it is an absolute path, and the client
  gets any file of the system opened for writing.\<close>

lemma readwrite_escape:
  "map_option (\<lambda>(fd, fs). (fd, fs_fds fs fd)) (translate_open demo_tr_env demo_tfs ''/readwrite//etc/hosts'' True) =
     Some (7, Some (''/etc/hosts'', 0))"
  by code_simp

end
