(* ===== verification/Tqftp.thy ===== *)
theory Tqftp
  imports Translate Qrtr LinkedLists
begin

text \<open>
  The TFTP server over QRTR, \<^verbatim>\<open>qcom/tqftpserv/tqftpserv.c\<close>: it serves read and write requests
  with a socket and a client structure per transfer. The two lists of clients are HOL lists
  in the order of the rings (theory \<open>LinkedLists\<close> shows that the list operations of the code
  implement this); a client is never changed while it is in a list. The target's \<open>char\<close> is
  unsigned, so \<open>buf[0] << 8 | buf[1]\<close> is a number below 65536.
\<close>

section \<open>State and environment\<close>

abbreviation (input) OP_RRQ :: nat where "OP_RRQ \<equiv> 1"
abbreviation (input) OP_WRQ :: nat where "OP_WRQ \<equiv> 2"
abbreviation (input) OP_DATA :: nat where "OP_DATA \<equiv> 3"
abbreviation (input) OP_ACK :: nat where "OP_ACK \<equiv> 4"
abbreviation (input) OP_ERROR :: nat where "OP_ERROR \<equiv> 5"
abbreviation (input) OP_OACK :: nat where "OP_OACK \<equiv> 6"

record tftp_client =
  tc_sq :: sockaddr_qrtr
  tc_sock :: int
  tc_fd :: int
  tc_block :: u64
  tc_blksize :: u64
  tc_rsize :: u64
  tc_wsize :: u64
  tc_timeoutms :: u32

text \<open>What was sent is a list of datagrams with the (connected) socket they were sent on.\<close>

record tq_state =
  ts_fs :: tfs
  ts_socks :: sock_state
  ts_sent :: "(int \<times> bytes) list"
  ts_readers :: "tftp_client list"
  ts_writers :: "tftp_client list"

text \<open>What the system decides: path translation, memory, whether \<open>send\<close> and \<open>pread\<close> (at an
  offset) succeed, how much \<open>write\<close> writes, and the results of the calls that set up a
  socket.\<close>

record tq_env =
  tq_tr :: tr_env
  tq_alloc :: "nat \<Rightarrow> bool"
  tq_send :: "int \<Rightarrow> bytes \<Rightarrow> bool"
  tq_pread :: "nat \<Rightarrow> bool"
  tq_write :: "nat \<Rightarrow> nat option"
  tq_socket :: int
  tq_sockopt :: int
  tq_connect :: int

definition send_on :: "tq_env \<Rightarrow> tq_state \<Rightarrow> int \<Rightarrow> bytes \<Rightarrow> int \<times> tq_state" where
  "send_on e st sock bs =
     (if tq_send e sock bs then (int (length bs), st\<lparr>ts_sent := ts_sent st @ [(sock, bs)]\<rparr>) else (-1, st))"

text \<open>\<open>pread\<close> and \<open>write\<close>; offsets from \<open>2 ^ 63\<close> on are negative and refused.\<close>

definition fs_pread :: "tq_env \<Rightarrow> tfs \<Rightarrow> int \<Rightarrow> nat \<Rightarrow> nat \<Rightarrow> bytes option" where
  "fs_pread e fs fd n off =
     (case fs_fds fs fd of
        None \<Rightarrow> None
      | Some (path, _) \<Rightarrow>
          if off \<ge> 2 ^ 63 \<or> \<not> tq_pread e off then None
          else map_option (\<lambda>bs. take n (drop off bs)) (fs_files fs path))"

definition fs_write :: "tq_env \<Rightarrow> tfs \<Rightarrow> int \<Rightarrow> bytes \<Rightarrow> int \<times> tfs" where
  "fs_write e fs fd bs =
     (case (fs_fds fs fd, tq_write e (length bs)) of
        (Some (path, pos), Some n) \<Rightarrow>
          (case fs_files fs path of
             None \<Rightarrow> (-1, fs)
           | Some content \<Rightarrow>
               let ws = take n bs in
               (int (length ws), fs\<lparr>fs_files := (fs_files fs)(path \<mapsto>
                    take pos content @ replicate (pos - length content) 0 @ ws @ drop (pos + length ws) content),
                  fs_fds := (fs_fds fs)(fd \<mapsto> (path, pos + length ws))\<rparr>))
      | _ \<Rightarrow> (-1, fs))"

definition fs_close :: "tfs \<Rightarrow> int \<Rightarrow> tfs" where
  "fs_close fs fd = fs\<lparr>fs_fds := (fs_fds fs)(fd := None)\<rparr>"

definition close_sock :: "tq_state \<Rightarrow> int \<Rightarrow> tq_state" where
  "close_sock st sock = st\<lparr>ts_socks := qrtr_close (ts_socks st) sock\<rparr>"

definition close_file :: "tq_state \<Rightarrow> int \<Rightarrow> tq_state" where
  "close_file st fd = st\<lparr>ts_fs := fs_close (ts_fs st) fd\<rparr>"

section \<open>Sending\<close>

definition be16 :: "u16 \<Rightarrow> bytes" where
  "be16 w = [ucast (drop_bit 8 w), ucast w]"

text \<open>\<open>tftp_send_data\<close>: a buffer of less than 4 bytes (the size wrapped around) or none at all is
  overrun by the header.\<close>

definition tftp_send_data :: "tq_env \<Rightarrow> tq_state \<Rightarrow> tftp_client \<Rightarrow> u32 \<Rightarrow> u64 \<Rightarrow> (int \<times> tq_state) option" where
  "tftp_send_data e st client block offset =
     (let size = unat (4 + tc_blksize client) in
      if size < 4 \<or> \<not> tq_alloc e size then None
      else
        (case fs_pread e (ts_fs st) (tc_fd client) (unat (tc_blksize client)) (unat offset) of
           None \<Rightarrow> Some (-1, st)
         | Some bs \<Rightarrow>
             if bs = [] then Some (0, st)
             else Some (send_on e st (tc_sock client)
               ([0, of_nat OP_DATA, ucast (drop_bit 8 block), ucast block] @ bs))))"

definition tftp_send_ack :: "tq_env \<Rightarrow> tq_state \<Rightarrow> int \<Rightarrow> u16 \<Rightarrow> int \<times> tq_state" where
  "tftp_send_ack e st sock block = send_on e st sock (be16 (of_nat OP_ACK) @ be16 block)"

text \<open>Decimal numbers as \<open>sprintf\<close> prints them for \<open>%zd\<close> and \<open>%d\<close>.\<close>

fun dec_digits :: "nat \<Rightarrow> string" where
  "dec_digits n = (if n < 10 then [char_of (48 + n)] else dec_digits (n div 10) @ [char_of (48 + n mod 10)])"

declare dec_digits.simps [simp del]

definition print_int :: "int \<Rightarrow> string" where
  "print_int i = (if i < 0 then ''-'' @ dec_digits (nat (- i)) else dec_digits (nat i))"

definition option_bytes :: "string \<Rightarrow> int option \<Rightarrow> bytes" where
  "option_bytes name v =
     (case v of None \<Rightarrow> [] | Some i \<Rightarrow> path_bytes name @ [0] @ path_bytes (print_int i) @ [0])"

text \<open>The arguments are the pointers of the source, \<^term>\<open>None\<close> for \<open>NULL\<close>; the reply is built in a
  buffer of 512 bytes.\<close>

definition tftp_send_oack ::
    "tq_env \<Rightarrow> tq_state \<Rightarrow> int \<Rightarrow> u64 option \<Rightarrow> u64 option \<Rightarrow> u64 option \<Rightarrow> u32 option \<Rightarrow> u64 option
      \<Rightarrow> (int \<times> tq_state) option" where
  "tftp_send_oack e st sock blocksize tsize wsize timeoutms rsize =
     (let buf = [0, of_nat OP_OACK] @
            option_bytes ''blksize'' (map_option sint blocksize) @
            option_bytes ''timeoutms'' (map_option sint timeoutms) @
            option_bytes ''tsize'' (if tsize = Some (-1) then None else map_option sint tsize) @
            option_bytes ''wsize'' (map_option sint wsize) @
            option_bytes ''rsize'' (map_option sint rsize) in
      if length buf > 512 then None else Some (send_on e st sock buf))"

definition tftp_send_error :: "tq_env \<Rightarrow> tq_state \<Rightarrow> int \<Rightarrow> u16 \<Rightarrow> string \<Rightarrow> int \<times> tq_state" where
  "tftp_send_error e st sock code msg =
     (if \<not> tq_alloc e (4 + length msg + 1) then (-1, st)
      else send_on e st sock (be16 (of_nat OP_ERROR) @ be16 code @ path_bytes msg @ [0]))"

section \<open>Requests\<close>

text \<open>\<open>atoi\<close> is \<open>strtol\<close> in base 10, converted to \<open>int\<close>: white space, a sign, digits, with
  values outside \<open>long\<close> clamped to its bounds.\<close>

definition is_digit :: "char \<Rightarrow> bool" where
  "is_digit c \<longleftrightarrow> 48 \<le> (of_char c :: nat) \<and> (of_char c :: nat) \<le> 57"

definition digits_val :: "string \<Rightarrow> nat" where
  "digits_val ds = foldl (\<lambda>n c. 10 * n + (of_char c - 48)) 0 ds"

definition strtol :: "string \<Rightarrow> int" where
  "strtol str =
     (let s = dropWhile is_space str;
          neg = (take 1 s = ''-'');
          t = (if take 1 s = ''-'' \<or> take 1 s = ''+'' then drop 1 s else s);
          v = int (digits_val (takeWhile is_digit t)) in
      max (-(2 ^ 63)) (min (2 ^ 63 - 1) (if neg then - v else v)))"

definition atoi :: "string \<Rightarrow> int" where
  "atoi str = sint (of_int (strtol str) :: u32)"

definition tolower :: "char \<Rightarrow> char" where
  "tolower c = (let n = of_char c :: nat in if 65 \<le> n \<and> n \<le> 90 then char_of (n + 32) else c)"

record rrq_opts =
  ro_blksize :: u64
  ro_timeoutms :: u32
  ro_tsize :: int
  ro_rsize :: u64
  ro_wsize :: u64

definition set_opt :: "string \<Rightarrow> string \<Rightarrow> rrq_opts \<Rightarrow> rrq_opts" where
  "set_opt opt value o' =
     (if opt = ''blksize'' then o'\<lparr>ro_blksize := of_int (atoi value)\<rparr>
      else if opt = ''timeoutms'' then o'\<lparr>ro_timeoutms := of_int (atoi value)\<rparr>
      else if opt = ''tsize'' then o'\<lparr>ro_tsize := atoi value\<rparr>
      else if opt = ''rsize'' then o'\<lparr>ro_rsize := of_int (atoi value)\<rparr>
      else if opt = ''wsize'' then o'\<lparr>ro_wsize := of_int (atoi value)\<rparr>
      else o')"

text \<open>The loop over the options, from the index \<open>p\<close> of the request. The strings may run behind
  the end of the request into the rest of the buffer.\<close>

function rrq_options :: "obj \<Rightarrow> nat \<Rightarrow> nat \<Rightarrow> rrq_opts \<Rightarrow> rrq_opts option" where
  "rrq_options buf len p o' =
     (if p < len then do {
        opt \<leftarrow> obj_string buf p;
        value \<leftarrow> obj_string buf (p + length opt + 1);
        rrq_options buf len (p + length opt + 1 + length value + 1) (set_opt opt value o') }
      else Some o')"
  by pat_completeness auto
termination
  by (relation "measure (\<lambda>(buf, len, p, o'). len - p)") auto

declare rrq_options.simps [simp del]

definition new_client :: "sockaddr_qrtr \<Rightarrow> int \<Rightarrow> int \<Rightarrow> tftp_client" where
  "new_client sq sock fd =
     \<lparr>tc_sq = sq, tc_sock = sock, tc_fd = fd, tc_block = 0, tc_blksize = 0, tc_rsize = 0, tc_wsize = 0, tc_timeoutms = 0\<rparr>"

abbreviation (input) SIZEOF_CLIENT :: nat where "SIZEOF_CLIENT \<equiv> 80"

definition file_size :: "tfs \<Rightarrow> int \<Rightarrow> int" where
  "file_size fs fd =
     (case fs_fds fs fd of
        None \<Rightarrow> 0
      | Some (path, _) \<Rightarrow> (case fs_files fs path of None \<Rightarrow> 0 | Some bs \<Rightarrow> int (length bs)))"

text \<open>\<open>handle_rrq\<close>, after the request was parsed.\<close>

definition start_reader :: "tq_env \<Rightarrow> tq_state \<Rightarrow> string \<Rightarrow> bool \<Rightarrow> rrq_opts \<Rightarrow> sockaddr_qrtr \<Rightarrow> tq_state option" where
  "start_reader e st filename do_oack o' sq =
     (let (sock, k) = qrtr_open (ts_socks st) (tq_socket e) (tq_sockopt e) 0 0;
          st1 = st\<lparr>ts_socks := k\<rparr> in
      if sock < 0 then Some st1
      else if tq_connect e < 0 then Some st1
      else do {
        (fd, fs1) \<leftarrow> translate_open (tq_tr e) (ts_fs st1) filename False;
        let st2 = st1\<lparr>ts_fs := fs1\<rparr>;
        if fd < 0 then Some (snd (tftp_send_error e st2 sock 1 ''file not found''))
        else if \<not> tq_alloc e SIZEOF_CLIENT then None
        else do {
          let tsize = (if ro_tsize o' \<noteq> -1 then file_size fs1 fd else ro_tsize o');
          let client = (new_client sq sock fd)\<lparr>tc_blksize := ro_blksize o', tc_rsize := ro_rsize o',
            tc_wsize := ro_wsize o', tc_timeoutms := ro_timeoutms o'\<rparr>;
          let st3 = st2\<lparr>ts_readers := ts_readers st2 @ [client]\<rparr>;
          (rc, st4) \<leftarrow>
            (if do_oack then
               tftp_send_oack e st3 sock (Some (ro_blksize o'))
                 (if tsize \<noteq> 0 then Some (of_int tsize) else None)
                 (if ro_wsize o' \<noteq> 0 then Some (ro_wsize o') else None)
                 (Some (tc_timeoutms client))
                 (if ro_rsize o' \<noteq> 0 then Some (ro_rsize o') else None)
             else tftp_send_data e st3 client 1 0);
          Some st4 } })"

definition default_opts :: rrq_opts where
  "default_opts = \<lparr>ro_blksize = 512, ro_timeoutms = 1000, ro_tsize = -1, ro_rsize = 0, ro_wsize = 0\<rparr>"

definition handle_rrq :: "tq_env \<Rightarrow> tq_state \<Rightarrow> bytes \<Rightarrow> nat \<Rightarrow> sockaddr_qrtr \<Rightarrow> tq_state option" where
  "handle_rrq e st buf len sq = do {
     let ob = obj_of_bytes buf;
     filename \<leftarrow> obj_string ob 2;
     mode \<leftarrow> obj_string ob (2 + length filename + 1);
     let p = 2 + length filename + 1 + length mode + 1;
     if map tolower mode \<noteq> ''octet'' then Some st
     else do {
       o' \<leftarrow> rrq_options ob len p default_opts;
       start_reader e st filename (p < len) o' sq } }"

definition handle_wrq :: "tq_env \<Rightarrow> tq_state \<Rightarrow> bytes \<Rightarrow> nat \<Rightarrow> sockaddr_qrtr \<Rightarrow> tq_state option" where
  "handle_wrq e st buf len sq = do {
     let ob = obj_of_bytes buf;
     filename \<leftarrow> obj_string ob 2;
     mode \<leftarrow> obj_string ob (2 + length filename + 1);
     if map tolower mode \<noteq> ''octet'' then Some st
     else do {
       (fd, fs1) \<leftarrow> translate_open (tq_tr e) (ts_fs st) filename True;
       let st1 = st\<lparr>ts_fs := fs1\<rparr>;
       if fd < 0 then Some st1
       else
         let (sock, k) = qrtr_open (ts_socks st1) (tq_socket e) (tq_sockopt e) 0 0;
             st2 = st1\<lparr>ts_socks := k\<rparr> in
         if sock < 0 then Some st2
         else if tq_connect e < 0 then Some st2
         else if \<not> tq_alloc e SIZEOF_CLIENT then None
         else
           let client = new_client sq sock fd;
               (ret, st3) = tftp_send_ack e st2 sock 0 in
           if ret < 0 then Some (close_file (close_sock st3 sock) fd)
           else Some (st3\<lparr>ts_writers := ts_writers st3 @ [client]\<rparr>) } }"

section \<open>Transfers\<close>

definition opcode_of :: "bytes \<Rightarrow> nat" where
  "opcode_of buf = unat (buf ! 0) * 256 + unat (buf ! 1)"

definition block_of :: "bytes \<Rightarrow> u16" where
  "block_of buf = of_nat (unat (buf ! 2) * 256 + unat (buf ! 3))"

text \<open>The loop that sends the blocks of a window: \<open>block\<close> is 16 bits wide, the bound is computed
  with 64 bits; \<open>acked\<close> is the variable \<open>last\<close>. It need not end; \<^term>\<open>None\<close> is also the value of a loop that goes on for ever.\<close>

partial_function (option) reader_loop ::
    "tq_env \<Rightarrow> tftp_client \<Rightarrow> u16 \<Rightarrow> u16 \<Rightarrow> tq_state \<Rightarrow> tq_state option" where
  "reader_loop e client acked block st =
     (if (ucast block :: u64) < ucast acked + tc_wsize client then
        Option.bind (tftp_send_data e st client (ucast block + 1) (ucast block * tc_blksize client))
          (\<lambda>(n, st1). if n \<le> 0 then Some st1 else reader_loop e client acked (block + 1) st1)
      else Some st)"

text \<open>\<open>len\<close>, \<open>buf\<close> and \<open>sq\<close> are what \<open>recvfrom\<close> returned (the negative error number when it fails),
  the content of the receive buffer (128 bytes for a reader, 516 for a writer) and the sender.\<close>

definition handle_reader ::
    "tq_env \<Rightarrow> tq_state \<Rightarrow> tftp_client \<Rightarrow> int \<times> bytes \<times> sockaddr_qrtr \<Rightarrow> (int \<times> tq_state) option" where
  "handle_reader e st client rcv =
     (case rcv of (len, buf, sq) \<Rightarrow>
        if len < 0 then Some (-1, st)
        else if sq_node sq \<noteq> sq_node (tc_sq client) \<or> sq_port sq \<noteq> sq_port (tc_sq client) then Some (-1, st)
        else if opcode_of buf = OP_ERROR then do {
          buf1 \<leftarrow> mem_write buf (nat len) [0];
          msg \<leftarrow> obj_string (obj_of_bytes buf1) 4;
          Some (-1, st) }
        else if opcode_of buf \<noteq> OP_ACK then Some (-1, st)
        else map_option (Pair 1) (reader_loop e client (block_of buf) (block_of buf) st))"

text \<open>A datagram of less than 4 bytes makes \<open>payload\<close> a number above \<open>2 ^ 63\<close>, which \<open>write\<close>
  refuses.\<close>

definition handle_writer ::
    "tq_env \<Rightarrow> tq_state \<Rightarrow> tftp_client \<Rightarrow> int \<times> bytes \<times> sockaddr_qrtr \<Rightarrow> int \<times> tq_state" where
  "handle_writer e st client rcv =
     (case rcv of (len, buf, sq) \<Rightarrow>
        if len < 0 then (-1, st)
        else if sq_node sq \<noteq> sq_node (tc_sq client) \<or> sq_port sq \<noteq> sq_port (tc_sq client) then (-1, st)
        else if opcode_of buf \<noteq> OP_DATA then
          (-1, snd (tftp_send_error e st (tc_sock client) 4 ''Expected DATA opcode''))
        else if len < 4 then (-1, st)
        else
          let payload = nat len - 4;
              (ret, fs1) = fs_write e (ts_fs st) (tc_fd client) (take payload (drop 4 buf)) in
          if ret < 0 then (-1, st\<lparr>ts_fs := fs1\<rparr>)
          else (if payload = 512 then 1 else 0,
            snd (tftp_send_ack e (st\<lparr>ts_fs := fs1\<rparr>) (tc_sock client) (block_of buf))))"

definition client_close_and_free :: "tq_state \<Rightarrow> tftp_client \<Rightarrow> tq_state" where
  "client_close_and_free st client =
     close_file (close_sock (st\<lparr>ts_readers := remove1 client (ts_readers st),
       ts_writers := remove1 client (ts_writers st)\<rparr>) (tc_sock client)) (tc_fd client)"

section \<open>The process\<close>

type_synonym received = "int \<Rightarrow> int \<times> bytes \<times> sockaddr_qrtr"

text \<open>The two loops over the clients after \<open>select\<close>: the list is the one at the start, and the
  current client is the only one that is removed.\<close>

fun serve_writers :: "tq_env \<Rightarrow> (int \<Rightarrow> bool) \<Rightarrow> received \<Rightarrow> tftp_client list \<Rightarrow> tq_state \<Rightarrow> tq_state" where
  "serve_writers e rfds rcv [] st = st"
| "serve_writers e rfds rcv (c # cs) st =
     (if rfds (tc_sock c) then
        let (ret, st1) = handle_writer e st c (rcv (tc_sock c)) in
        serve_writers e rfds rcv cs (if ret \<le> 0 then client_close_and_free st1 c else st1)
      else serve_writers e rfds rcv cs st)"

fun serve_readers :: "tq_env \<Rightarrow> (int \<Rightarrow> bool) \<Rightarrow> received \<Rightarrow> tftp_client list \<Rightarrow> tq_state \<Rightarrow> tq_state option" where
  "serve_readers e rfds rcv [] st = Some st"
| "serve_readers e rfds rcv (c # cs) st =
     (if rfds (tc_sock c) then do {
        (ret, st1) \<leftarrow> handle_reader e st c (rcv (tc_sock c));
        serve_readers e rfds rcv cs (if ret \<le> 0 then client_close_and_free st1 c else st1) }
      else serve_readers e rfds rcv cs st)"

fun drop_clients :: "(tftp_client \<Rightarrow> bool) \<Rightarrow> tftp_client list \<Rightarrow> tq_state \<Rightarrow> tq_state" where
  "drop_clients P [] st = st"
| "drop_clients P (c # cs) st = drop_clients P cs (if P c then client_close_and_free st c else st)"

datatype tq_next = Serve tq_state | Exit int tq_state

text \<open>A datagram on the published socket.\<close>

definition handle_listen ::
    "tq_env \<Rightarrow> qrtr_packet \<Rightarrow> tq_state \<Rightarrow> int \<times> bytes \<times> sockaddr_qrtr \<Rightarrow> tq_next option" where
  "handle_listen e pkt0 st rcv =
     (case rcv of (len, buf, sq) \<Rightarrow>
        if len < 0 then Some (Exit len st)
        else if sq_port sq = QRTR_PORT_CTRL then do {
          (ret, pkt) \<leftarrow> qrtr_decode pkt0 buf (nat len) sq;
          if ret < 0 then Some (Exit ret st)
          else if p_type pkt = QRTR_TYPE_BYE then
            Some (Serve (drop_clients (\<lambda>c. sq_node (tc_sq c) = sq_node sq) (ts_writers st) st))
          else if p_type pkt = QRTR_TYPE_DEL_CLIENT then
            Some (Serve (drop_clients (\<lambda>c. tc_sq c = sq) (ts_writers st) st))
          else Some (Serve st) }
        else if len < 2 then Some (Serve st)
        else if opcode_of buf = OP_RRQ then map_option Serve (handle_rrq e st buf (nat len) sq)
        else if opcode_of buf = OP_WRQ then map_option Serve (handle_wrq e st buf (nat len) sq)
        else Some (Serve st))"

text \<open>One iteration of the loop of \<open>main\<close>: \<open>select\<close> is interrupted, fails, or reports the
  descriptors that are ready. \<open>FD_SET\<close> of a descriptor from 1024 on writes outside the set.\<close>

datatype tq_event = Interrupted | Select_failed | Ready "int \<Rightarrow> bool" received

definition tq_round :: "tq_env \<Rightarrow> qrtr_packet \<Rightarrow> int \<Rightarrow> tq_state \<Rightarrow> tq_event \<Rightarrow> tq_next option" where
  "tq_round e pkt0 fd st ev =
     (if \<not> list_all (\<lambda>s. s < 1024) (fd # map tc_sock (ts_writers st @ ts_readers st)) then None
      else
        (case ev of
           Interrupted \<Rightarrow> Some (Serve st)
         | Select_failed \<Rightarrow> Some (Exit 0 (close_sock st fd))
         | Ready rfds rcv \<Rightarrow> do {
             let st1 = serve_writers e rfds rcv (ts_writers st) st;
             st2 \<leftarrow> serve_readers e rfds rcv (ts_readers st1) st1;
             if rfds fd then handle_listen e pkt0 st2 (rcv fd) else Some (Serve st2) }))"

text \<open>\<open>main\<close>, with what the system decides in every iteration.\<close>

fun tq_loop :: "qrtr_packet \<Rightarrow> int \<Rightarrow> tq_state \<Rightarrow> (tq_env \<times> tq_event) list \<Rightarrow> tq_next option" where
  "tq_loop pkt0 fd st [] = Some (Serve st)"
| "tq_loop pkt0 fd st ((e, ev) # evs) = do {
     nx \<leftarrow> tq_round e pkt0 fd st ev;
     case nx of Serve st1 \<Rightarrow> tq_loop pkt0 fd st1 evs | Exit rc st1 \<Rightarrow> Some (Exit rc st1) }"

definition tq_init :: "tfs \<Rightarrow> sock_state \<Rightarrow> tq_state" where
  "tq_init fs socks = \<lparr>ts_fs = fs, ts_socks = socks, ts_sent = [], ts_readers = [], ts_writers = []\<rparr>"

definition tq_main ::
    "tfs \<Rightarrow> sock_state \<Rightarrow> int \<Rightarrow> int \<Rightarrow> int \<times> sockaddr_qrtr \<times> nat \<Rightarrow> int \<Rightarrow> qrtr_packet
      \<Rightarrow> (tq_env \<times> tq_event) list \<Rightarrow> tq_next option" where
  "tq_main fs socks socket_rc opt_rc name sendto_rc pkt0 evs =
     (let (fd, k1) = qrtr_open socks socket_rc opt_rc 0 0 in
      if fd < 0 then Some (Exit 1 (tq_init fs k1))
      else
        let (ret, k2) = qrtr_publish k1 name sendto_rc 4096 1 0 in
        if ret < 0 then Some (Exit 1 (tq_init fs k2)) else tq_loop pkt0 fd (tq_init fs k2) evs)"

end
