(* ===== verification/TqftpCorrect.thy ===== *)
theory TqftpCorrect
  imports Tqftp
begin

text \<open>
  The transfers of the TFTP server (theory \<open>Tqftp\<close>): what a window of blocks consists of and when
  the loop that sends it ends, that a client which follows the protocol gets the file or has
  its data stored, how requests are read, and which clients the control messages release.
\<close>

section \<open>Numbers on the wire\<close>

lemma u32_low_byte: "n < 2 ^ 32 \<Longrightarrow> ucast (of_nat n :: u32) = (of_nat n :: u8)"
  by (rule word_unat_eq_iff [THEN iffD2]) (simp add: unsigned_ucast_eq unsigned_of_nat take_bit_nat_eq_self)

lemma drop_byte: "drop_bit 8 (n :: nat) = n div 256"
  by (simp add: drop_bit_eq_div)

lemma u32_high_byte: "n < 2 ^ 32 \<Longrightarrow> ucast (drop_bit 8 (of_nat n :: u32)) = (of_nat (n div 256) :: u8)"
  by (rule word_unat_eq_iff [THEN iffD2])
    (simp add: unsigned_ucast_eq unsigned_drop_bit_eq unsigned_of_nat take_bit_nat_eq_self drop_byte)

lemma be16_of_nat:
  assumes "n < 65536"
  shows "be16 (of_nat n) = [of_nat (n div 256), of_nat n]"
proof -
  have "ucast (drop_bit 8 (of_nat n :: u16)) = (of_nat (n div 256) :: u8)"
    by (rule word_unat_eq_iff [THEN iffD2])
      (use assms in \<open>simp add: unsigned_ucast_eq unsigned_drop_bit_eq unsigned_of_nat take_bit_nat_eq_self drop_byte\<close>)
  moreover have "ucast (of_nat n :: u16) = (of_nat n :: u8)"
    by (rule word_unat_eq_iff [THEN iffD2]) (use assms in \<open>simp add: unsigned_ucast_eq unsigned_of_nat take_bit_nat_eq_self\<close>)
  ultimately show ?thesis by (simp add: be16_def)
qed

lemma ucast_u16_u32: "(ucast (b :: u16) :: u32) = of_nat (unat b)"
  by (rule word_unat_eq_iff [THEN iffD2]) (simp add: unsigned_ucast_eq)

lemma ucast_u16_u64: "(ucast (b :: u16) :: u64) = of_nat (unat b)"
  by (rule word_unat_eq_iff [THEN iffD2]) (simp add: unsigned_ucast_eq)

lemma unat_u16_u64: "unat (ucast (b :: u16) :: u64) = unat b"
  using unat_u16_less [of b] by (simp add: unsigned_ucast_eq take_bit_nat_eq_self)

lemma block_of_ack: "n < 65536 \<Longrightarrow> block_of ([x, y, of_nat (n div 256), of_nat n] @ rest) = of_nat n"
  by (simp add: block_of_def unat_of_nat)


section \<open>Windows\<close>

text \<open>The data packet for the block with index \<open>k\<close> (its number is \<open>k + 1\<close>), the number of
  blocks of a file, and the end of the window after an acknowledgement of block \<open>n\<close>.\<close>

definition data_block :: "bytes \<Rightarrow> nat \<Rightarrow> nat \<Rightarrow> bytes" where
  "data_block content B k =
     [0, 3, of_nat ((k + 1) div 256), of_nat (k + 1)] @ take B (drop (k * B) content)"

definition nblocks :: "bytes \<Rightarrow> nat \<Rightarrow> nat" where
  "nblocks content B = (length content + B - 1) div B"

definition window_end :: "tftp_client \<Rightarrow> nat \<Rightarrow> nat" where
  "window_end c n = unat (of_nat n + tc_wsize c :: u64)"

lemma nblocks_less_iff: "0 < B \<Longrightarrow> k < nblocks content B \<longleftrightarrow> k * B < length content"
proof -
  assume B: "0 < B"
  have "k < nblocks content B \<longleftrightarrow> Suc k \<le> (length content + B - 1) div B" by (simp add: nblocks_def Suc_le_eq)
  also have "\<dots> \<longleftrightarrow> Suc k * B \<le> length content + B - 1" using B by (simp add: less_eq_div_iff_mult_less_eq)
  also have "\<dots> \<longleftrightarrow> k * B < length content" using B by auto
  finally show ?thesis .
qed

text \<open>A client whose file is open, in an environment without failures; the block size is one that
  \<open>atoi\<close> can return.\<close>

definition serving :: "tq_env \<Rightarrow> tq_state \<Rightarrow> tftp_client \<Rightarrow> bytes \<Rightarrow> bool" where
  "serving e st c content \<longleftrightarrow>
     (\<exists>path pos. fs_fds (ts_fs st) (tc_fd c) = Some (path, pos) \<and> fs_files (ts_fs st) path = Some content) \<and>
     (\<forall>n. tq_alloc e n) \<and> (\<forall>s bs. tq_send e s bs) \<and> (\<forall>n. tq_pread e n) \<and>
     0 < unat (tc_blksize c) \<and> unat (tc_blksize c) < 2 ^ 31"

lemma serving_sent: "serving e (st\<lparr>ts_sent := x\<rparr>) c content = serving e st c content"
  by (simp add: serving_def)

lemma send_data_block:
  assumes "serving e st c content"
  shows "tftp_send_data e st c (ucast (b :: u16) + 1) (ucast b * tc_blksize c) =
    Some (if unat b < nblocks content (unat (tc_blksize c))
      then (int (length (data_block content (unat (tc_blksize c)) (unat b))),
            st\<lparr>ts_sent := ts_sent st @ [(tc_sock c, data_block content (unat (tc_blksize c)) (unat b))]\<rparr>)
      else (0, st))"
proof -
  let ?B = "unat (tc_blksize c)" and ?k = "unat b"
  from assms obtain path pos where f: "fs_fds (ts_fs st) (tc_fd c) = Some (path, pos)"
    "fs_files (ts_fs st) path = Some content"
    and e: "\<And>n. tq_alloc e n" "\<And>s bs. tq_send e s bs" "\<And>n. tq_pread e n" and B: "0 < ?B" "?B < 2 ^ 31"
    by (auto simp: serving_def)
  have k: "?k < 65536" by (rule unat_u16_less)
  have "?k * ?B < 65536 * 2 ^ 31" using k B(2) by (intro mult_strict_mono) auto
  then have off: "unat (ucast b * tc_blksize c :: u64) = ?k * ?B"
    by (simp add: unat_word_ariths unat_u16_u64)
  have "(4 + ?B) mod 2 ^ 64 = 4 + ?B" using B(2) by (intro mod_less) simp
  then have sz: "unat (4 + tc_blksize c) = 4 + ?B" by (simp add: unat_word_ariths)
  have blk: "(ucast b + 1 :: u32) = of_nat (?k + 1)" by (simp only: ucast_u16_u32 of_nat_add of_nat_1)
  have rd: "fs_pread e (ts_fs st) (tc_fd c) ?B (?k * ?B) = Some (take ?B (drop (?k * ?B) content))"
    using \<open>?k * ?B < 65536 * 2 ^ 31\<close> f e(3) by (simp add: fs_pread_def)
  have "take ?B (drop (?k * ?B) content) = [] \<longleftrightarrow> \<not> ?k < nblocks content ?B"
    using B(1) nblocks_less_iff [OF B(1), of ?k content] by auto
  moreover have "[0, of_nat OP_DATA, ucast (drop_bit 8 (ucast b + 1 :: u32)), ucast (ucast b + 1 :: u32)] @
      take ?B (drop (?k * ?B) content) = data_block content ?B ?k"
    unfolding blk data_block_def using k u32_high_byte [of "?k + 1"] u32_low_byte [of "?k + 1"] by simp
  ultimately show ?thesis
    unfolding tftp_send_data_def Let_def sz off rd using e(1,2) by (simp add: send_on_def)
qed

lemma reader_loop_sends:
  assumes "serving e st c content" and "min (window_end c (unat a)) (nblocks content (unat (tc_blksize c))) \<le> 65535"
  shows "reader_loop e c a b st =
    Some (st\<lparr>ts_sent := ts_sent st @ map (\<lambda>k. (tc_sock c, data_block content (unat (tc_blksize c)) k))
      [unat b..<min (window_end c (unat a)) (nblocks content (unat (tc_blksize c)))]\<rparr>)"
  using assms(1)
proof (induction "min (window_end c (unat a)) (nblocks content (unat (tc_blksize c))) - unat b" arbitrary: b st)
  case 0
  then have ge: "window_end c (unat a) \<le> unat b \<or> nblocks content (unat (tc_blksize c)) \<le> unat b" by auto
  have w: "(ucast b :: u64) < ucast a + tc_wsize c \<longleftrightarrow> unat b < window_end c (unat a)"
    by (simp add: word_less_nat_alt unat_u16_u64 window_end_def flip: ucast_u16_u64)
  show ?case
    using ge by (subst reader_loop.simps) (auto simp: w send_data_block [OF 0(2)])
next
  case (Suc m)
  let ?m = "min (window_end c (unat a)) (nblocks content (unat (tc_blksize c)))"
  have lt: "unat b < ?m" using Suc.hyps(2) by linarith
  have w: "(ucast b :: u64) < ucast a + tc_wsize c \<longleftrightarrow> unat b < window_end c (unat a)"
    by (simp add: word_less_nat_alt unat_u16_u64 window_end_def flip: ucast_u16_u64)
  have "unat b + 1 < 65536" using lt assms(2) by linarith
  then have b1: "unat (b + 1) = unat b + 1" by (simp add: unat_word_ariths)
  let ?d = "(tc_sock c, data_block content (unat (tc_blksize c)) (unat b))"
  have "reader_loop e c a b st = reader_loop e c a (b + 1) (st\<lparr>ts_sent := ts_sent st @ [?d]\<rparr>)"
    using lt by (subst reader_loop.simps) (simp add: w send_data_block [OF Suc.prems] data_block_def)
  also have "\<dots> = Some (st\<lparr>ts_sent := (ts_sent st @ [?d]) @ map (\<lambda>k. (tc_sock c, data_block content (unat (tc_blksize c)) k))
      [unat (b + 1)..<?m]\<rparr>)"
    using Suc.hyps(1) [of "b + 1" "st\<lparr>ts_sent := ts_sent st @ [?d]\<rparr>"] Suc.hyps(2) Suc.prems b1
    by (simp add: serving_sent)
  finally show ?case using lt b1 by (simp add: upt_conv_Cons)
qed

text \<open>When neither the window nor the file ends within the range of the block counter, the counter
  wraps around and the loop has no end.\<close>

lemma reader_loop_diverges:
  assumes "serving e st c content" and "65535 < window_end c (unat a)" and "65535 < nblocks content (unat (tc_blksize c))"
  shows "reader_loop e c a b st = None"
proof -
  have "False" if "reader_loop e c a b st = Some y" for y
  proof -
    have "serving e st c content \<longrightarrow> 65535 < window_end c (unat a) \<longrightarrow>
      65535 < nblocks content (unat (tc_blksize c)) \<longrightarrow> False"
    proof (rule reader_loop.raw_induct [where P = "\<lambda>e c a b st y. serving e st c content \<longrightarrow>
        65535 < window_end c (unat a) \<longrightarrow> 65535 < nblocks content (unat (tc_blksize c)) \<longrightarrow> False", OF _ that],
        intro impI)
      fix rec e c and a b :: u16 and st y
      assume IH: "\<And>e c (a :: u16) (b :: u16) st y. rec e c a b st = Some y \<Longrightarrow> serving e st c content \<longrightarrow>
          65535 < window_end c (unat a) \<longrightarrow> 65535 < nblocks content (unat (tc_blksize c)) \<longrightarrow> False"
        and run: "(if (ucast b :: u64) < ucast a + tc_wsize c then
            Option.bind (tftp_send_data e st c (ucast b + 1) (ucast b * tc_blksize c))
              (\<lambda>(n, st1). if n \<le> 0 then Some st1 else rec e c a (b + 1) st1) else Some st) = Some y"
        and s: "serving e st c content" and w: "65535 < window_end c (unat a)"
        and n: "65535 < nblocks content (unat (tc_blksize c))"
      have b: "unat b < 65536" by (rule unat_u16_less)
      have "(ucast b :: u64) < ucast a + tc_wsize c"
        using w b by (simp add: word_less_nat_alt unat_u16_u64 window_end_def flip: ucast_u16_u64)
      then have "rec e c a (b + 1)
          (st\<lparr>ts_sent := ts_sent st @ [(tc_sock c, data_block content (unat (tc_blksize c)) (unat b))]\<rparr>) = Some y"
        using run b n by (simp add: send_data_block [OF s] data_block_def split: if_splits)
      from IH [OF this] s w n show False by (simp add: serving_sent)
    qed
    with assms show False by blast
  qed
  then show ?thesis by (cases "reader_loop e c a b st") auto
qed

definition ack_msg :: "sockaddr_qrtr \<Rightarrow> nat \<Rightarrow> bytes \<Rightarrow> int \<times> bytes \<times> sockaddr_qrtr" where
  "ack_msg sq n rest = (4, [0, 4, of_nat (n div 256), of_nat n] @ rest, sq)"

lemma handle_ack:
  assumes "n < 65536"
  shows "handle_reader e st c (ack_msg (tc_sq c) n rest) =
    map_option (Pair 1) (reader_loop e c (of_nat n) (of_nat n) st)"
  using assms block_of_ack [OF assms, of 0 4 rest] by (simp add: handle_reader_def ack_msg_def opcode_of_def)

lemma unat_u16_of_nat: "n < 65536 \<Longrightarrow> unat (of_nat n :: u16) = n"
  by (simp add: unsigned_of_nat take_bit_nat_eq_self)

lemma handle_ack_sends:
  assumes "serving e st c content" and "n < 65536"
    and "min (window_end c n) (nblocks content (unat (tc_blksize c))) \<le> 65535"
  shows "handle_reader e st c (ack_msg (tc_sq c) n rest) =
    Some (1, st\<lparr>ts_sent := ts_sent st @ map (\<lambda>k. (tc_sock c, data_block content (unat (tc_blksize c)) k))
      [n..<min (window_end c n) (nblocks content (unat (tc_blksize c)))]\<rparr>)"
  using assms reader_loop_sends [OF assms(1), of "of_nat n" "of_nat n"] unat_u16_of_nat [OF assms(2)]
  by (simp add: handle_ack)

section \<open>Reading a file\<close>

text \<open>A reader that is sent a sequence of messages and stays in the list.\<close>

fun run_reader :: "tq_env \<Rightarrow> tftp_client \<Rightarrow> tq_state \<Rightarrow> (int \<times> bytes \<times> sockaddr_qrtr) list \<Rightarrow> tq_state option" where
  "run_reader e c st [] = Some st"
| "run_reader e c st (m # ms) = do {
     (ret, st1) \<leftarrow> handle_reader e st c m;
     if ret \<le> 0 then None else run_reader e c st1 ms }"

lemma run_reader_append:
  "run_reader e c st (ms @ ms') = Option.bind (run_reader e c st ms) (\<lambda>st1. run_reader e c st1 ms')"
  by (induction ms arbitrary: st) (auto split: Option.bind_splits)

lemma window_end_add:
  assumes "n + unat (tc_wsize c) < 2 ^ 64"
  shows "window_end c n = n + unat (tc_wsize c)"
proof -
  have "unat (of_nat n :: u64) = n" using assms by (simp add: unsigned_of_nat take_bit_nat_eq_self)
  then show ?thesis using assms by (simp add: window_end_def unat_word_ariths)
qed

lemma blocks_concat: "concat (map (\<lambda>k. take B (drop (k * B) xs)) [0..<m]) = take (m * B) xs"
proof (induction m)
  case (Suc m)
  have "Suc m * B = m * B + B" by simp
  then show ?case using Suc by (simp only: take_add) simp
qed simp

lemma payloads_content:
  "0 < B \<Longrightarrow> concat (map (\<lambda>k. drop 4 (data_block content B k)) [0..<nblocks content B]) = content"
proof -
  assume B: "0 < B"
  have "\<not> nblocks content B * B < length content" using nblocks_less_iff [OF B, of "nblocks content B" content] by simp
  then show ?thesis using blocks_concat [of B content "nblocks content B"] by (simp add: data_block_def)
qed

lemma run_reader_acks:
  assumes "serving e st c content" and "nblocks content (unat (tc_blksize c)) \<le> 65535"
    and "unat (tc_wsize c) < 2 ^ 32" and "i * unat (tc_wsize c) < nblocks content (unat (tc_blksize c)) + unat (tc_wsize c)"
  shows "run_reader e c st (map (\<lambda>i. ack_msg (tc_sq c) (i * unat (tc_wsize c)) rest) [0..<i]) =
    Some (st\<lparr>ts_sent := ts_sent st @ map (\<lambda>k. (tc_sock c, data_block content (unat (tc_blksize c)) k))
      [0..<min (i * unat (tc_wsize c)) (nblocks content (unat (tc_blksize c)))]\<rparr>)"
  using assms(4)
proof (induction i)
  case 0
  then show ?case by simp
next
  case (Suc i)
  let ?w = "unat (tc_wsize c)" and ?B = "unat (tc_blksize c)" and ?n = "nblocks content (unat (tc_blksize c))"
  let ?st = "st\<lparr>ts_sent := ts_sent st @ map (\<lambda>k. (tc_sock c, data_block content ?B k)) [0..<min (i * ?w) ?n]\<rparr>"
  have i: "i * ?w < ?n" using Suc.prems by simp
  have we: "window_end c (i * ?w) = Suc i * ?w"
    using window_end_add [of "i * ?w" c] i assms(2,3) by simp
  have "handle_reader e ?st c (ack_msg (tc_sq c) (i * ?w) rest) =
      Some (1, ?st\<lparr>ts_sent := ts_sent ?st @ map (\<lambda>k. (tc_sock c, data_block content ?B k)) [i * ?w..<min (Suc i * ?w) ?n]\<rparr>)"
    using handle_ack_sends [of e ?st c content "i * ?w" rest] assms(1,2) i unfolding we by (simp add: serving_sent)
  moreover have "[0..<min (i * ?w) ?n] @ [i * ?w..<min (Suc i * ?w) ?n] = [0..<min (Suc i * ?w) ?n]"
    using i upt_add_eq_append [of 0 "i * ?w" "min (Suc i * ?w) ?n - i * ?w"] by (simp add: min_absorb1)
  then have "map f [0..<min (i * ?w) ?n] @ map f [i * ?w..<min (Suc i * ?w) ?n] = map f [0..<min (Suc i * ?w) ?n]" for f :: "nat \<Rightarrow> int \<times> bytes"
    by (simp only: map_append [symmetric])
  moreover have "run_reader e c st (map (\<lambda>i. ack_msg (tc_sq c) (i * ?w) rest) [0..<i]) = Some ?st"
    using Suc i by simp
  ultimately show ?case by (simp add: run_reader_append del: mult_Suc)
qed

section \<open>Writing a file\<close>

text \<open>The state of a transfer to a file with the content \<open>old\<close>, of which \<open>p\<close> was stored so far.\<close>

definition stored :: "tq_state \<Rightarrow> tftp_client \<Rightarrow> string \<Rightarrow> bytes \<Rightarrow> bytes \<Rightarrow> tq_state" where
  "stored st c path p old =
     st\<lparr>ts_fs := (ts_fs st)\<lparr>fs_files := (fs_files (ts_fs st))(path \<mapsto> p @ drop (length p) old),
       fs_fds := (fs_fds (ts_fs st))(tc_fd c \<mapsto> (path, length p))\<rparr>\<rparr>"

definition data_msg :: "sockaddr_qrtr \<Rightarrow> nat \<Rightarrow> bytes \<Rightarrow> bytes \<Rightarrow> int \<times> bytes \<times> sockaddr_qrtr" where
  "data_msg sq n d rest = (4 + int (length d), [0, 3, of_nat (n div 256), of_nat n] @ d @ rest, sq)"

definition ack_pkt :: "nat \<Rightarrow> bytes" where
  "ack_pkt n = [0, 4, of_nat (n div 256), of_nat n]"

lemma writer_data:
  assumes "n < 65536" and "\<And>k. tq_write e k = Some k" and "\<And>s bs. tq_send e s bs"
  shows "handle_writer e (stored st c path p old) c (data_msg (tc_sq c) n d rest) =
    (if length d = 512 then 1 else 0,
     (stored st c path (p @ d) old)\<lparr>ts_sent := ts_sent st @ [(tc_sock c, ack_pkt n)]\<rparr>)"
proof -
  let ?buf = "[0, 3, of_nat (n div 256), of_nat n] @ d @ rest"
  have b: "block_of ?buf = of_nat n" using block_of_ack [OF assms(1), of 0 3 "d @ rest"] by simp
  have w: "fs_write e (ts_fs (stored st c path p old)) (tc_fd c) d =
      (int (length d), ts_fs (stored st c path (p @ d) old))"
    using assms(2) by (simp add: fs_write_def stored_def drop_drop add.commute)
  have a: "be16 (of_nat OP_ACK) @ be16 (of_nat n) = ack_pkt n"
    using be16_of_nat [of 4] be16_of_nat [OF assms(1)] by (simp add: ack_pkt_def)
  have "handle_writer e (stored st c path p old) c (4 + int (length d), ?buf, tc_sq c) =
      (if length d = 512 then 1 else 0,
       snd (tftp_send_ack e ((stored st c path p old)\<lparr>ts_fs := ts_fs (stored st c path (p @ d) old)\<rparr>) (tc_sock c) (of_nat n)))"
    using w b by (simp add: handle_writer_def opcode_of_def Let_def nat_add_distrib)
  then show ?thesis
    using assms(3) a by (simp add: data_msg_def tftp_send_ack_def send_on_def stored_def)
qed

fun run_writer :: "tq_env \<Rightarrow> tftp_client \<Rightarrow> tq_state \<Rightarrow> (int \<times> bytes \<times> sockaddr_qrtr) list \<Rightarrow> bool \<times> tq_state" where
  "run_writer e c st [] = (True, st)"
| "run_writer e c st (m # ms) =
     (let (ret, st1) = handle_writer e st c m in if ret \<le> 0 then (False, st1) else run_writer e c st1 ms)"

text \<open>The messages of a client that stores \<open>D\<close>: blocks of 512 bytes, the last one shorter.\<close>

definition store_msgs :: "sockaddr_qrtr \<Rightarrow> bytes \<Rightarrow> bytes \<Rightarrow> (int \<times> bytes \<times> sockaddr_qrtr) list" where
  "store_msgs sq D rest =
     map (\<lambda>k. data_msg sq (k + 1) (take 512 (drop (k * 512) D)) rest) [0..<length D div 512 + 1]"

lemma stored_sent: "stored (st\<lparr>ts_sent := x\<rparr>) c path p old = (stored st c path p old)\<lparr>ts_sent := x\<rparr>"
  by (simp add: stored_def)

lemma run_writer_from:
  assumes "\<And>k. tq_write e k = Some k" and "\<And>s bs. tq_send e s bs" and "length D div 512 < 65535"
    and "i \<le> length D div 512"
  shows "run_writer e c (stored st c path (take (i * 512) D) old)
      (map (\<lambda>k. data_msg (tc_sq c) (k + 1) (take 512 (drop (k * 512) D)) rest) [i..<length D div 512 + 1]) =
    (False, (stored st c path D old)\<lparr>ts_sent := ts_sent st @
      map (\<lambda>k. (tc_sock c, ack_pkt (k + 1))) [i..<length D div 512 + 1]\<rparr>)"
  using assms(4)
proof (induction "length D div 512 - i" arbitrary: i st)
  case 0
  then have i: "i = length D div 512" by simp
  let ?d = "take 512 (drop (i * 512) D)"
  have "length D - i * 512 < 512" using i by (simp add: minus_div_mult_eq_mod)
  then have d: "length ?d \<noteq> 512" "take (i * 512) D @ ?d = D" by auto
  then show ?case
    using writer_data [of "i + 1" e st c path "take (i * 512) D" old ?d rest] assms(1-3) i by simp
next
  case (Suc m)
  let ?d = "take 512 (drop (i * 512) D)"
  have i: "i < length D div 512" using Suc.hyps(2) by simp
  then have "Suc i * 512 \<le> length D" by (simp add: less_eq_div_iff_mult_less_eq flip: Suc_le_eq)
  then have d: "length ?d = 512" by simp
  have "take (i * 512) D @ ?d = take (Suc i * 512) D" by (simp only: take_add [symmetric] mult_Suc add.commute)
  then have step: "handle_writer e (stored st c path (take (i * 512) D) old) c (data_msg (tc_sq c) (i + 1) ?d rest) =
      (1, stored (st\<lparr>ts_sent := ts_sent st @ [(tc_sock c, ack_pkt (i + 1))]\<rparr>) c path (take (Suc i * 512) D) old)"
    using writer_data [of "i + 1" e st c path "take (i * 512) D" old ?d rest] assms(1-3) i d by (simp add: stored_sent)
  have "[i..<length D div 512 + 1] = i # [Suc i..<length D div 512 + 1]" using i by (simp add: upt_conv_Cons)
  then show ?case
    using step Suc.hyps(1) [of "Suc i" "st\<lparr>ts_sent := ts_sent st @ [(tc_sock c, ack_pkt (i + 1))]\<rparr>"] Suc.hyps(2) i
    by (simp add: stored_sent)
qed

section \<open>Requests and options\<close>

definition opt_bytes :: "(string \<times> string) list \<Rightarrow> bytes" where
  "opt_bytes os = concat (map (\<lambda>(n, v). path_bytes n @ [0] @ path_bytes v @ [0]) os)"

definition plain :: "string \<Rightarrow> bool" where
  "plain str \<longleftrightarrow> CHR 0x00 \<notin> set str"

lemma length_path_bytes [simp]: "length (path_bytes str) = length str"
  by (simp add: path_bytes_def)

lemma string_at: "plain str \<Longrightarrow> obj_string (obj_of_bytes (pre @ path_bytes str @ 0 # post)) (length pre) = Some str"
  by (rule obj_string_of_read) (simp_all add: obj_read_of_bytes plain_def)

lemma rrq_options_parse:
  assumes "\<forall>(n, v) \<in> set os. plain n \<and> plain v"
  shows "rrq_options (obj_of_bytes (pre @ opt_bytes os @ post)) (length pre + length (opt_bytes os)) (length pre) o' =
    Some (fold (\<lambda>(n, v). set_opt n v) os o')"
  using assms
proof (induction os arbitrary: pre o')
  case Nil
  then show ?case by (simp add: opt_bytes_def rrq_options.simps)
next
  case (Cons nv os)
  obtain n v where nv: "nv = (n, v)" by (cases nv)
  let ?pre = "pre @ path_bytes n @ [0] @ path_bytes v @ [0]"
  let ?buf = "pre @ opt_bytes (nv # os) @ post"
  have buf: "?buf = ?pre @ opt_bytes os @ post" by (simp add: opt_bytes_def nv)
  have p: "plain n" "plain v" using Cons.prems nv by auto
  have 1: "obj_string (obj_of_bytes ?buf) (length pre) = Some n"
    using string_at [OF p(1), of pre "path_bytes v @ [0] @ opt_bytes os @ post"] by (simp add: buf)
  have 2: "obj_string (obj_of_bytes ?buf) (length pre + length n + 1) = Some v"
    using string_at [OF p(2), of "pre @ path_bytes n @ [0]" "opt_bytes os @ post"] by (simp add: buf)
  have len: "length pre + length (opt_bytes (nv # os)) = length ?pre + length (opt_bytes os)"
    by (simp add: opt_bytes_def nv)
  have pos: "length pre + length n + 1 + length v + 1 = length ?pre" by simp
  show ?case
    unfolding len
    by (subst rrq_options.simps)
      (use 1 2 Cons.IH [of ?pre "set_opt n v o'"] Cons.prems in \<open>simp add: pos [simplified] nv buf [simplified nv] add.assoc\<close>)
qed

definition rrq_msg :: "string \<Rightarrow> string \<Rightarrow> (string \<times> string) list \<Rightarrow> bytes" where
  "rrq_msg filename mode os = [0, 1] @ path_bytes filename @ [0] @ path_bytes mode @ [0] @ opt_bytes os"

lemma handle_rrq_parse:
  assumes "plain filename" and "plain mode" and "\<forall>(n, v) \<in> set os. plain n \<and> plain v"
  shows "handle_rrq e st (rrq_msg filename mode os @ rest) (length (rrq_msg filename mode os)) sq =
    (if map tolower mode \<noteq> ''octet'' then Some st
     else start_reader e st filename (os \<noteq> []) (fold (\<lambda>(n, v). set_opt n v) os default_opts) sq)"
proof -
  let ?buf = "rrq_msg filename mode os @ rest" and ?pre = "[0, 1] @ path_bytes filename @ [0] @ path_bytes mode @ [0]"
  have 1: "obj_string (obj_of_bytes ?buf) 2 = Some filename"
    using string_at [OF assms(1), of "[0, 1]" "path_bytes mode @ [0] @ opt_bytes os @ rest"] by (simp add: rrq_msg_def numeral_2_eq_2)
  have 2: "obj_string (obj_of_bytes ?buf) (2 + length filename + 1) = Some mode"
    using string_at [OF assms(2), of "[0, 1] @ path_bytes filename @ [0]" "opt_bytes os @ rest"] by (simp add: rrq_msg_def)
  have 3: "rrq_options (obj_of_bytes ?buf) (length (rrq_msg filename mode os)) (2 + length filename + 1 + length mode + 1) default_opts =
      Some (fold (\<lambda>(n, v). set_opt n v) os default_opts)"
    using rrq_options_parse [OF assms(3), of ?pre rest default_opts] by (simp add: rrq_msg_def add.assoc)
  have 4: "2 + length filename + 1 + length mode + 1 < length (rrq_msg filename mode os) \<longleftrightarrow> os \<noteq> []"
    by (cases os) (auto simp: rrq_msg_def opt_bytes_def)
  show ?thesis unfolding handle_rrq_def Let_def 1 2 Option.bind.simps 3 4 by simp
qed

section \<open>Decimal numbers\<close>

lemma digit_char: "d < 10 \<Longrightarrow> of_char (char_of (48 + d) :: char) = 48 + (d :: nat)"
  by simp

lemma dec_digits_val: "digits_val (dec_digits n) = n \<and> list_all is_digit (dec_digits n) \<and> dec_digits n \<noteq> []"
proof (induction n rule: dec_digits.induct)
  case (1 n)
  show ?case
  proof (cases "n < 10")
    case True
    then show ?thesis by (simp add: dec_digits.simps [of n] digits_val_def is_digit_def)
  next
    case False
    then have "digits_val (dec_digits n) = 10 * digits_val (dec_digits (n div 10)) + n mod 10"
      by (simp add: dec_digits.simps [of n] digits_val_def)
    moreover have "is_digit (char_of (48 + n mod 10))" by (simp add: is_digit_def)
    ultimately show ?thesis using 1 False by (simp add: dec_digits.simps [of n])
  qed
qed

lemma digit_not_space: "is_digit c \<Longrightarrow> \<not> is_space c \<and> c \<noteq> CHR ''-'' \<and> c \<noteq> CHR ''+'' \<and> c \<noteq> CHR 0x00"
  by (auto simp: is_digit_def is_space_def)

lemma strtol_print_int:
  assumes "- (2 ^ 63) \<le> i" and "i < 2 ^ 63"
  shows "strtol (print_int i) = i"
proof -
  obtain c ds where c: "dec_digits (nat \<bar>i\<bar>) = c # ds" using dec_digits_val [of "nat \<bar>i\<bar>"] by (cases "dec_digits (nat \<bar>i\<bar>)") auto
  have "list_all is_digit (c # ds)" using dec_digits_val [of "nat \<bar>i\<bar>"] c by simp
  then have t: "takeWhile is_digit (c # ds) = c # ds" by (metis list_all_iff takeWhile_eq_all_conv)
  have d: "is_digit c" using dec_digits_val [of "nat \<bar>i\<bar>"] c by simp
  have v: "digits_val (c # ds) = nat \<bar>i\<bar>" using dec_digits_val [of "nat \<bar>i\<bar>"] c by simp
  show ?thesis
  proof (cases "i < 0")
    case True
    then have "print_int i = CHR ''-'' # c # ds" using c by (simp add: print_int_def)
    moreover have "\<not> is_space (CHR ''-'')" by (simp add: is_space_def)
    ultimately show ?thesis using True t v assms by (simp add: strtol_def Let_def)
  next
    case False
    then have "print_int i = c # ds" using c by (simp add: print_int_def)
    then show ?thesis using False t v assms digit_not_space [OF d] by (simp add: strtol_def Let_def)
  qed
qed

lemma atoi_print_int:
  assumes "- (2 ^ 31) \<le> i" and "i < 2 ^ 31"
  shows "atoi (print_int i) = i"
proof -
  have "strtol (print_int i) = i" using assms by (intro strtol_print_int) simp_all
  moreover have "sint (of_int i :: u32) = i" using assms by (simp add: signed_of_int signed_take_bit_int_eq_self)
  ultimately show ?thesis by (simp add: atoi_def)
qed

lemma dec_digits_length: "n < 10 ^ Suc k \<Longrightarrow> length (dec_digits n) \<le> Suc k"
proof (induction k arbitrary: n)
  case 0
  then show ?case by (simp add: dec_digits.simps [of n])
next
  case (Suc k)
  then have "n div 10 < 10 ^ Suc k" by (simp add: less_mult_imp_div_less mult.commute)
  then show ?case using Suc.IH [of "n div 10"] by (simp add: dec_digits.simps [of n])
qed

lemma print_int_length:
  assumes "- (2 ^ 63) \<le> i" and "i < 2 ^ 63"
  shows "length (print_int i) \<le> 20"
proof -
  have "nat i < 10 ^ Suc 18" "nat (- i) < 10 ^ Suc 18" using assms by (simp_all add: nat_less_iff)
  then show ?thesis
    using dec_digits_length [of "nat i" 18] dec_digits_length [of "nat (- i)" 18] by (simp add: print_int_def)
qed

lemma print_int_plain: "plain (print_int i)"
proof -
  have "CHR 0x00 \<notin> set (dec_digits n)" for n
    using dec_digits_val [of n] digit_not_space by (auto simp: list_all_iff)
  then show ?thesis by (simp add: plain_def print_int_def)
qed

section \<open>The option acknowledgement\<close>

definition oack_opts :: "rrq_opts \<Rightarrow> int \<Rightarrow> (string \<times> string) list" where
  "oack_opts o' tsize =
     [(''blksize'', print_int (sint (ro_blksize o'))), (''timeoutms'', print_int (sint (ro_timeoutms o')))] @
     (if tsize = 0 \<or> tsize = -1 then [] else [(''tsize'', print_int tsize)]) @
     (if ro_wsize o' = 0 then [] else [(''wsize'', print_int (sint (ro_wsize o')))]) @
     (if ro_rsize o' = 0 then [] else [(''rsize'', print_int (sint (ro_rsize o')))])"

lemma opt_bytes_append: "opt_bytes (xs @ ys) = opt_bytes xs @ opt_bytes ys"
  by (simp add: opt_bytes_def)

lemma opt_bytes_Cons: "opt_bytes ((n, v) # os) = path_bytes n @ 0 # path_bytes v @ 0 # opt_bytes os"
  by (simp add: opt_bytes_def)

lemma opt_bytes_Nil: "opt_bytes [] = []"
  by (simp add: opt_bytes_def)

lemma option_bytes_opt: "option_bytes name v = opt_bytes (case v of None \<Rightarrow> [] | Some i \<Rightarrow> [(name, print_int i)])"
  by (simp add: option_bytes_def opt_bytes_def split: option.split)

lemma sint_bounds64: "- (2 ^ 63) \<le> sint (w :: u64) \<and> sint w < 2 ^ 63"
  using sint_greater_eq [of w] sint_less [of w] by simp

lemma sint_bounds32: "- (2 ^ 63) \<le> sint (w :: u32) \<and> sint w < 2 ^ 63"
  using sint_greater_eq [of w] sint_less [of w] by simp

lemma sint_of_int64: "- (2 ^ 63) \<le> i \<Longrightarrow> i < 2 ^ 63 \<Longrightarrow> sint (of_int i :: u64) = i"
  by (simp add: signed_of_int signed_take_bit_int_eq_self)

lemma sint_of_int32: "- (2 ^ 31) \<le> i \<Longrightarrow> i < 2 ^ 31 \<Longrightarrow> sint (of_int i :: u32) = i"
  by (simp add: signed_of_int signed_take_bit_int_eq_self)

text \<open>The reply always fits the buffer of 512 bytes.\<close>

lemma send_oack:
  assumes "- (2 ^ 63) \<le> tsize" and "tsize < 2 ^ 63"
  shows "tftp_send_oack e st sock (Some (ro_blksize o')) (if tsize \<noteq> 0 then Some (of_int tsize) else None)
      (if ro_wsize o' \<noteq> 0 then Some (ro_wsize o') else None) (Some (ro_timeoutms o'))
      (if ro_rsize o' \<noteq> 0 then Some (ro_rsize o') else None) =
    Some (send_on e st sock ([0, 6] @ opt_bytes (oack_opts o' tsize)))"
proof -
  have t: "(of_int tsize :: u64) = - 1 \<longleftrightarrow> tsize = -1"
  proof
    assume "(of_int tsize :: u64) = - 1"
    then have "sint (of_int tsize :: u64) = sint (- 1 :: u64)" by simp
    then show "tsize = -1" using sint_of_int64 [OF assms] by simp
  qed simp
  have b: "[0, of_nat OP_OACK] @ option_bytes ''blksize'' (map_option sint (Some (ro_blksize o'))) @
      option_bytes ''timeoutms'' (map_option sint (Some (ro_timeoutms o'))) @
      option_bytes ''tsize'' (if (if tsize \<noteq> 0 then Some (of_int tsize :: u64) else None) = Some (-1) then None
        else map_option sint (if tsize \<noteq> 0 then Some (of_int tsize :: u64) else None)) @
      option_bytes ''wsize'' (map_option sint (if ro_wsize o' \<noteq> 0 then Some (ro_wsize o') else None)) @
      option_bytes ''rsize'' (map_option sint (if ro_rsize o' \<noteq> 0 then Some (ro_rsize o') else None)) =
      [0, 6] @ opt_bytes (oack_opts o' tsize)"
    using sint_of_int64 [OF assms] t
    by (simp add: option_bytes_opt oack_opts_def opt_bytes_append opt_bytes_Cons opt_bytes_Nil)
  have l: "length (print_int (sint (w :: u64))) \<le> 20" "length (print_int (sint (v :: u32))) \<le> 20" for w v
    using print_int_length sint_bounds64 sint_bounds32 by blast+
  have "length ([0, 6] @ opt_bytes (oack_opts o' tsize)) \<le> 512"
    using l(1) [of "ro_blksize o'"] l(2) [of "ro_timeoutms o'"] l(1) [of "ro_wsize o'"] l(1) [of "ro_rsize o'"]
      print_int_length [OF assms]
    by (simp add: oack_opts_def opt_bytes_append opt_bytes_Cons opt_bytes_Nil)
  then show ?thesis unfolding tftp_send_oack_def Let_def b by simp
qed

text \<open>Options a client may ask for: numbers below \<open>2 ^ 31\<close>.\<close>

definition opts_ok :: "rrq_opts \<Rightarrow> bool" where
  "opts_ok o' \<longleftrightarrow> unat (ro_blksize o') < 2 ^ 31 \<and> unat (ro_timeoutms o') < 2 ^ 31 \<and>
     unat (ro_rsize o') < 2 ^ 31 \<and> unat (ro_wsize o') < 2 ^ 31"

lemma of_int_atoi64: "unat (w :: u64) < 2 ^ 31 \<Longrightarrow> of_int (atoi (print_int (sint w))) = w"
proof -
  assume w: "unat w < 2 ^ 31"
  have u: "uint w = int (unat w)" by simp
  have "uint w < 2 ^ 31" unfolding u using w by (metis of_nat_less_iff of_nat_numeral of_nat_power)
  then have "sint w = uint w" unfolding sint_uint by (auto intro!: signed_take_bit_int_eq_self intro: order_trans [of _ 0])
  then show ?thesis using order_trans [of "- (2 ^ 31)" 0 "uint w"] atoi_print_int [of "uint w"] \<open>uint w < 2 ^ 31\<close> by simp
qed

lemma of_int_atoi32: "unat (w :: u32) < 2 ^ 31 \<Longrightarrow> of_int (atoi (print_int (sint w))) = w"
proof -
  have "- (2 ^ 31) \<le> sint w" "sint w < 2 ^ 31" using sint_greater_eq [of w] sint_less [of w] by simp_all
  then show ?thesis using atoi_print_int [of "sint w"] by simp
qed

lemma oack_plain: "\<forall>(n, v) \<in> set (oack_opts o' tsize). plain n \<and> plain v"
  using print_int_plain by (auto simp: oack_opts_def plain_def)

section \<open>Clients and their descriptors\<close>

text \<open>Every client in one of the lists has a socket and a file of its own, both open.\<close>

definition clients :: "tq_state \<Rightarrow> tftp_client list" where
  "clients st = ts_readers st @ ts_writers st"

definition tq_inv :: "tq_state \<Rightarrow> bool" where
  "tq_inv st \<longleftrightarrow> distinct (map tc_sock (clients st)) \<and> distinct (map tc_fd (clients st)) \<and>
     (\<forall>c \<in> set (clients st). tc_sock c \<in> open_fds (ts_socks st) \<and> fs_fds (ts_fs st) (tc_fd c) \<noteq> None)"

text \<open>The next socket and file descriptor are not in use.\<close>

definition fresh_fds :: "tq_env \<Rightarrow> tq_state \<Rightarrow> bool" where
  "fresh_fds e st \<longleftrightarrow> tq_socket e \<notin> open_fds (ts_socks st) \<and>
     0 \<le> tr_fd (tq_tr e) \<and> fs_fds (ts_fs st) (tr_fd (tq_tr e)) = None"

text \<open>What the process goes through: a client's message is handled, and the client is released
  when the handler says so; a datagram arrives on the published socket.\<close>

inductive tq_reach :: "tfs \<Rightarrow> sock_state \<Rightarrow> tq_state \<Rightarrow> bool" for fs socks where
  start: "tq_reach fs socks (tq_init fs socks)"
| writer: "tq_reach fs socks st \<Longrightarrow> c \<in> set (ts_writers st) \<Longrightarrow> handle_writer e st c rcv = (ret, st1) \<Longrightarrow>
    tq_reach fs socks (if ret \<le> 0 then client_close_and_free st1 c else st1)"
| reader: "tq_reach fs socks st \<Longrightarrow> c \<in> set (ts_readers st) \<Longrightarrow> handle_reader e st c rcv = Some (ret, st1) \<Longrightarrow>
    tq_reach fs socks (if ret \<le> 0 then client_close_and_free st1 c else st1)"
| listen: "tq_reach fs socks st \<Longrightarrow> fresh_fds e st \<Longrightarrow> handle_listen e pkt0 st rcv = Some (Serve st1) \<Longrightarrow>
    tq_reach fs socks st1"

text \<open>Operations that leave the clients and their descriptors alone.\<close>

definition same_clients :: "tq_state \<Rightarrow> tq_state \<Rightarrow> bool" where
  "same_clients st st' \<longleftrightarrow> ts_readers st' = ts_readers st \<and> ts_writers st' = ts_writers st \<and>
     ts_socks st' = ts_socks st \<and> (\<forall>fd. fs_fds (ts_fs st) fd \<noteq> None \<longrightarrow> fs_fds (ts_fs st') fd \<noteq> None)"

lemma same_clients_refl [simp]: "same_clients st st"
  by (simp add: same_clients_def)

lemma same_clients_trans: "same_clients st st1 \<Longrightarrow> same_clients st1 st2 \<Longrightarrow> same_clients st st2"
  by (auto simp: same_clients_def)

lemma same_clients_inv: "same_clients st st' \<Longrightarrow> tq_inv st \<Longrightarrow> tq_inv st'"
  by (auto simp: same_clients_def tq_inv_def clients_def)

lemma send_on_same: "send_on e st sock bs = (rc, st') \<Longrightarrow> same_clients st st'"
  by (auto simp: send_on_def same_clients_def split: if_splits)

lemma send_data_same: "tftp_send_data e st c b off = Some (n, st') \<Longrightarrow> same_clients st st'"
  using send_on_same by (auto simp: tftp_send_data_def Let_def split: option.splits if_splits)

lemma reader_loop_same: "reader_loop e c a b st = Some st' \<Longrightarrow> same_clients st st'"
proof (rule reader_loop.raw_induct [where P = "\<lambda>e c a b st st'. same_clients st st'"])
  fix rec :: "tq_env \<Rightarrow> tftp_client \<Rightarrow> u16 \<Rightarrow> u16 \<Rightarrow> tq_state \<Rightarrow> tq_state option" and e c a b st st'
  assume IH: "\<And>e c a b st st'. rec e c a b st = Some st' \<Longrightarrow> same_clients st st'"
    and run: "(if (ucast b :: u64) < ucast a + tc_wsize c then
        Option.bind (tftp_send_data e st c (ucast b + 1) (ucast b * tc_blksize c))
          (\<lambda>(n, st1). if n \<le> 0 then Some st1 else rec e c a (b + 1) st1) else Some st) = Some st'"
  then show "same_clients st st'"
    using send_data_same same_clients_trans
    by (fastforce split: if_splits Option.bind_splits)
qed

lemma handle_reader_same: "handle_reader e st c rcv = Some (ret, st') \<Longrightarrow> same_clients st st'"
  using reader_loop_same by (auto simp: handle_reader_def split: prod.splits if_splits Option.bind_splits)

lemma send_error_same: "same_clients st (snd (tftp_send_error e st sock code msg))"
  using send_on_same [of e st sock] by (cases "send_on e st sock (be16 (of_nat OP_ERROR) @ be16 code @ path_bytes msg @ [0])")
    (auto simp: tftp_send_error_def)

lemma send_ack_same: "same_clients st (snd (tftp_send_ack e st sock block))"
  using send_on_same [of e st sock] by (cases "send_on e st sock (be16 (of_nat OP_ACK) @ be16 block)")
    (auto simp: tftp_send_ack_def)

lemma fs_write_same: "fs_write e (ts_fs st) fd bs = (rc, fs1) \<Longrightarrow> same_clients st (st\<lparr>ts_fs := fs1\<rparr>)"
  by (auto simp: fs_write_def same_clients_def Let_def split: option.splits prod.splits)

lemmas write_ack_same = same_clients_trans [OF fs_write_same send_ack_same]

lemma handle_writer_same: "handle_writer e st c rcv = (ret, st') \<Longrightarrow> same_clients st st'"
  using send_error_same fs_write_same write_ack_same
  by (auto simp: handle_writer_def Let_def split: prod.splits if_splits)

lemma clients_close: "distinct (clients st) \<Longrightarrow> clients (client_close_and_free st c) = removeAll c (clients st)"
  by (simp add: clients_def client_close_and_free_def close_file_def close_sock_def distinct_remove1_removeAll)

lemma close_inv:
  assumes "tq_inv st" and "c \<in> set (clients st)"
  shows "tq_inv (client_close_and_free st c)"
proof -
  have d: "distinct (map tc_sock (clients st))" "distinct (map tc_fd (clients st))" using assms(1) by (auto simp: tq_inv_def)
  then have cl: "clients (client_close_and_free st c) = removeAll c (clients st)"
    by (intro clients_close) (simp add: distinct_map)
  have "distinct (map tc_sock (removeAll c (clients st)))" "distinct (map tc_fd (removeAll c (clients st)))"
    using d by (simp_all add: removeAll_filter_not_eq distinct_map_filter)
  moreover have "tc_sock x \<noteq> tc_sock c \<and> tc_fd x \<noteq> tc_fd c" if "x \<in> set (clients st)" "x \<noteq> c" for x
    using d assms(2) that by (auto simp: distinct_map dest: inj_onD)
  ultimately show ?thesis
    using assms(1) unfolding tq_inv_def cl
    by (auto simp: client_close_and_free_def close_file_def close_sock_def qrtr_close_def fs_close_def)
qed

lemma drop_clients_inv:
  assumes "tq_inv st" and "distinct cs" and "set cs \<subseteq> set (ts_writers st)"
  shows "tq_inv (drop_clients P cs st)"
  using assms
proof (induction cs arbitrary: st)
  case Nil
  then show ?case by simp
next
  case (Cons c cs)
  show ?case
  proof (cases "P c")
    case True
    have "tq_inv (client_close_and_free st c)" using Cons.prems by (intro close_inv) (auto simp: clients_def)
    moreover have "set cs \<subseteq> set (ts_writers (client_close_and_free st c))"
      using Cons.prems(2,3)
      by (auto simp: client_close_and_free_def close_file_def close_sock_def) (metis in_set_remove1 subsetD)
    ultimately show ?thesis using Cons True by simp
  next
    case False
    then show ?thesis using Cons by simp
  qed
qed

text \<open>Adding a client with new descriptors.\<close>

lemma add_client_inv:
  assumes "tq_inv st" and "tc_sock c \<notin> open_fds (ts_socks st)" and "fs_fds (ts_fs st) (tc_fd c) = None"
    and "clients st = as @ bs" and "clients st' = as @ c # bs"
    and "open_fds (ts_socks st') = insert (tc_sock c) (open_fds (ts_socks st))"
    and "\<And>fd. fs_fds (ts_fs st) fd \<noteq> None \<or> fd = tc_fd c \<Longrightarrow> fs_fds (ts_fs st') fd \<noteq> None"
  shows "tq_inv st'"
proof -
  have "tc_sock c \<notin> tc_sock ` set (as @ bs)" "tc_fd c \<notin> tc_fd ` set (as @ bs)"
    using assms(1-3) unfolding tq_inv_def assms(4) by fastforce+
  then show ?thesis using assms(1,6,7) unfolding tq_inv_def assms(4,5) by auto
qed

text \<open>A step that only opens descriptors.\<close>

lemma more_fds_inv:
  assumes "tq_inv st" and "clients st' = clients st" and "open_fds (ts_socks st) \<subseteq> open_fds (ts_socks st')"
    and "\<And>fd. fs_fds (ts_fs st) fd \<noteq> None \<Longrightarrow> fs_fds (ts_fs st') fd \<noteq> None"
  shows "tq_inv st'"
  using assms by (auto simp: tq_inv_def)

text \<open>\<open>translate_open\<close> opens at most the next descriptor.\<close>

definition opens :: "int \<Rightarrow> tfs \<Rightarrow> int \<times> tfs \<Rightarrow> bool" where
  "opens fd fs r \<longleftrightarrow> r = (-1, fs) \<or> fst r = fd \<and> (\<exists>x. fs_fds (snd r) = (fs_fds fs)(fd \<mapsto> x))"

lemma open_path_opens: "opens (tr_fd e) fs (open_path e fs path creat)"
proof (cases rule: open_path_cases [of e fs path creat])
  case 1
  then show ?thesis by (simp add: opens_def)
next
  case 2
  then have "fst (open_path e fs path creat) = tr_fd e"
    "fs_fds (snd (open_path e fs path creat)) = (fs_fds fs)(tr_fd e \<mapsto> (tr_resolve e path, 0))"
    by (auto simp: opened_def Let_def)
  then show ?thesis unfolding opens_def by blast
qed

lemma readonly_loop_opens_fd:
  "0 \<le> tr_fd e \<Longrightarrow> readonly_loop e fs fn names = Some r \<Longrightarrow> opens (tr_fd e) fs r"
proof (induction names)
  case Nil
  then show ?case by (simp add: opens_def)
next
  case (Cons name names)
  obtain fd fs1 where o: "open_path e fs (FIRMWARE_BASE @ dirname (bytes_string (the (tr_firmware e name))) @ ''/'' @ fn) False = (fd, fs1)"
    by (cases "open_path e fs (FIRMWARE_BASE @ dirname (bytes_string (the (tr_firmware e name))) @ ''/'' @ fn) False")
  have op: "opens (tr_fd e) fs (fd, fs1)" using open_path_opens o by metis
  have "fd < 0 \<Longrightarrow> fs1 = fs" using op Cons.prems(1) by (auto simp: opens_def)
  then show ?case
    using Cons o op
    by (auto simp: Let_def split: if_splits option.splits)
qed

lemma translate_open_opens:
  "0 \<le> tr_fd e \<Longrightarrow> translate_open e fs path creat = Some r \<Longrightarrow> opens (tr_fd e) fs r"
  using readonly_loop_opens_fd open_path_opens
  by (auto simp: translate_open_def translate_readonly_def translate_readwrite_def split: if_splits option.splits)
    (auto simp: opens_def)

lemma qrtr_open_new:
  assumes "qrtr_open k s opt 0 0 = (sock, k')" and "s \<notin> open_fds k"
  shows "sock < 0 \<and> open_fds k' = open_fds k \<or> sock = s \<and> 0 \<le> s \<and> open_fds k' = insert s (open_fds k)"
  using assms by (auto simp: qrtr_open_def qrtr_close_def Let_def split: if_splits)

lemma send_oack_same: "tftp_send_oack e st sock a b c d f = Some (rc, st') \<Longrightarrow> same_clients st st'"
  unfolding tftp_send_oack_def Let_def by (auto split: if_splits dest: send_on_same)

lemma start_reader_inv:
  assumes "tq_inv st" and "fresh_fds e st" and "start_reader e st filename do_oack o' sq = Some st'"
  shows "tq_inv st'"
proof -
  from assms(2) have fr: "tq_socket e \<notin> open_fds (ts_socks st)" "0 \<le> tr_fd (tq_tr e)"
    "fs_fds (ts_fs st) (tr_fd (tq_tr e)) = None" by (auto simp: fresh_fds_def)
  obtain sock k where q: "qrtr_open (ts_socks st) (tq_socket e) (tq_sockopt e) 0 0 = (sock, k)"
    by (cases "qrtr_open (ts_socks st) (tq_socket e) (tq_sockopt e) 0 0")
  have more: "tq_inv (st\<lparr>ts_socks := k, ts_fs := fs\<rparr>)" if "\<And>fd. fs_fds (ts_fs st) fd \<noteq> None \<Longrightarrow> fs_fds fs fd \<noteq> None" for fs
    by (rule more_fds_inv [OF assms(1)]) (use qrtr_open_new [OF q fr(1)] that in \<open>auto simp: clients_def\<close>)
  have more0: "tq_inv (st\<lparr>ts_socks := k\<rparr>)" using more [of "ts_fs st"] by simp
  show ?thesis
  proof (cases "sock < 0 \<or> tq_connect e < 0")
    case True
    then show ?thesis using assms(3) q more0 by (auto simp: start_reader_def Let_def split: if_splits)
  next
    case False
    then have s: "sock = tq_socket e" "open_fds k = insert sock (open_fds (ts_socks st))"
      using qrtr_open_new [OF q fr(1)] by auto
    obtain fd fs1 where t: "translate_open (tq_tr e) (ts_fs st) filename False = Some (fd, fs1)"
      using assms(3) q False by (auto simp: start_reader_def Let_def split: Option.bind_splits)
    note o = translate_open_opens [OF fr(2) t]
    show ?thesis
    proof (cases "fd < 0")
      case True
      then have "fs1 = ts_fs st" using o fr(2) by (auto simp: opens_def)
      then have "tq_inv (st\<lparr>ts_socks := k, ts_fs := fs1\<rparr>)" using more0 by simp
      then show ?thesis
        using assms(3) q False t True same_clients_inv [OF send_error_same] by (auto simp: start_reader_def Let_def split: if_splits)
    next
      case fd: False
      then have f: "fd = tr_fd (tq_tr e)" "\<exists>x. fs_fds fs1 = (fs_fds (ts_fs st))(fd \<mapsto> x)" using o by (auto simp: opens_def)
      define c where "c = (new_client sq sock fd)\<lparr>tc_blksize := ro_blksize o', tc_rsize := ro_rsize o',
        tc_wsize := ro_wsize o', tc_timeoutms := ro_timeoutms o'\<rparr>"
      have c: "tc_sock c = sock" "tc_fd c = fd" by (simp_all add: c_def new_client_def)
      let ?st = "st\<lparr>ts_socks := k, ts_fs := fs1, ts_readers := ts_readers st @ [c]\<rparr>"
      have "tq_inv ?st"
        by (rule add_client_inv [OF assms(1), of c "ts_readers st" "ts_writers st"])
          (use s f fr c in \<open>auto simp: clients_def\<close>)
      moreover have "\<exists>rc. tftp_send_oack e ?st sock (Some (ro_blksize o'))
            (if (if ro_tsize o' \<noteq> -1 then file_size fs1 fd else ro_tsize o') \<noteq> 0
             then Some (of_int (if ro_tsize o' \<noteq> -1 then file_size fs1 fd else ro_tsize o')) else None)
            (if ro_wsize o' \<noteq> 0 then Some (ro_wsize o') else None) (Some (tc_timeoutms c))
            (if ro_rsize o' \<noteq> 0 then Some (ro_rsize o') else None) = Some (rc, st') \<or>
          tftp_send_data e ?st c 1 0 = Some (rc, st')"
        using assms(3) q False t fd
        by (auto simp: start_reader_def Let_def c_def split: if_splits Option.bind_splits)
      ultimately show ?thesis using send_oack_same send_data_same same_clients_inv by blast
    qed
  qed
qed

lemma handle_rrq_inv:
  "tq_inv st \<Longrightarrow> fresh_fds e st \<Longrightarrow> handle_rrq e st buf len sq = Some st' \<Longrightarrow> tq_inv st'"
  by (auto simp: handle_rrq_def Let_def split: Option.bind_splits if_splits intro: start_reader_inv)

lemma handle_wrq_inv:
  assumes "tq_inv st" and "fresh_fds e st" and "handle_wrq e st buf len sq = Some st'"
  shows "tq_inv st'"
proof -
  from assms(2) have fr: "tq_socket e \<notin> open_fds (ts_socks st)" "0 \<le> tr_fd (tq_tr e)"
    "fs_fds (ts_fs st) (tr_fd (tq_tr e)) = None" by (auto simp: fresh_fds_def)
  obtain filename mode where p: "obj_string (obj_of_bytes buf) 2 = Some filename"
    "obj_string (obj_of_bytes buf) (2 + length filename + 1) = Some mode"
    using assms(3) by (auto simp: handle_wrq_def Let_def split: Option.bind_splits)
  show ?thesis
  proof (cases "map tolower mode = ''octet''")
    case False
    then show ?thesis using assms p by (simp add: handle_wrq_def Let_def)
  next
    case oct: True
    obtain fd fs1 where t: "translate_open (tq_tr e) (ts_fs st) filename True = Some (fd, fs1)"
      using assms(3) p oct by (auto simp: handle_wrq_def Let_def split: Option.bind_splits)
    note o = translate_open_opens [OF fr(2) t]
    obtain sock k where q: "qrtr_open (ts_socks st) (tq_socket e) (tq_sockopt e) 0 0 = (sock, k)"
      by (cases "qrtr_open (ts_socks st) (tq_socket e) (tq_sockopt e) 0 0")
    have kept: "fs_fds fs1 x \<noteq> None" if "fs_fds (ts_fs st) x \<noteq> None" for x
      using o that by (auto simp: opens_def)
    let ?c = "new_client sq sock fd" and ?st = "st\<lparr>ts_fs := fs1, ts_socks := k\<rparr>"
    have more: "tq_inv (st\<lparr>ts_fs := fs1\<rparr>)" "tq_inv ?st"
      by (rule more_fds_inv [OF assms(1)]; use qrtr_open_new [OF q fr(1)] kept in \<open>auto simp: clients_def\<close>)+
    show ?thesis
    proof (cases "fd < 0 \<or> sock < 0 \<or> tq_connect e < 0")
      case True
      then show ?thesis using assms(3) p oct t q more by (auto simp: handle_wrq_def Let_def split: if_splits)
    next
      case False
      then have s: "sock = tq_socket e" "open_fds k = insert sock (open_fds (ts_socks st))"
        and f: "fd = tr_fd (tq_tr e)" "\<exists>x. fs_fds fs1 = (fs_fds (ts_fs st))(fd \<mapsto> x)"
        using qrtr_open_new [OF q fr(1)] o by (auto simp: opens_def)
      obtain ret st3 where a: "tftp_send_ack e ?st sock 0 = (ret, st3)" by (cases "tftp_send_ack e ?st sock 0")
      have sm: "same_clients ?st st3" using send_ack_same [of ?st e sock 0] a by simp
      have c: "tc_sock ?c = sock" "tc_fd ?c = fd" by (simp_all add: new_client_def)
      show ?thesis
      proof (cases "ret < 0")
        case True
        then have "st' = close_file (close_sock st3 sock) fd"
          using assms(3) p oct t q False a by (auto simp: handle_wrq_def Let_def split: if_splits)
        moreover have "tc_sock x \<noteq> sock \<and> tc_fd x \<noteq> fd" if "x \<in> set (clients st)" for x
          using assms(1) that s f(1) fr by (auto simp: tq_inv_def)
        ultimately show ?thesis
          using assms(1) sm s(2) kept
          by (auto simp: tq_inv_def clients_def same_clients_def close_file_def close_sock_def qrtr_close_def fs_close_def)
      next
        case ok: False
        then have "st' = st3\<lparr>ts_writers := ts_writers st3 @ [?c]\<rparr>"
          using assms(3) p oct t q False a by (auto simp: handle_wrq_def Let_def split: if_splits)
        moreover have "fs_fds (ts_fs st3) x \<noteq> None" if "fs_fds (ts_fs st) x \<noteq> None \<or> x = fd" for x
          using sm f(2) that kept by (auto simp: same_clients_def)
        ultimately show ?thesis
          by (intro add_client_inv [OF assms(1), of ?c "clients st" "[]" st'])
            (use s f fr c sm in \<open>auto simp: clients_def same_clients_def\<close>)
      qed
    qed
  qed
qed

lemma handle_listen_inv:
  assumes "tq_inv st" and "fresh_fds e st" and "handle_listen e pkt0 st rcv = Some (Serve st')"
  shows "tq_inv st'"
proof -
  have "distinct (ts_writers st)" using assms(1) by (auto simp: tq_inv_def clients_def distinct_map)
  then have "tq_inv (drop_clients P (ts_writers st) st)" for P by (intro drop_clients_inv [OF assms(1)]) auto
  then show ?thesis
    using assms(3) handle_rrq_inv [OF assms(1,2)] handle_wrq_inv [OF assms(1,2)] assms(1)
    by (auto simp: handle_listen_def split: prod.splits if_splits Option.bind_splits)
qed

lemma tq_reach_inv: "tq_reach fs socks st \<Longrightarrow> tq_inv st"
proof (induction rule: tq_reach.induct)
  case start
  then show ?case by (simp add: tq_inv_def tq_init_def clients_def)
next
  case (writer st c e rcv ret st1)
  have sm: "same_clients st st1" using handle_writer_same [OF writer(3)] .
  then have "c \<in> set (clients st1)" using writer(2) by (auto simp: same_clients_def clients_def)
  then show ?case using close_inv same_clients_inv [OF sm writer(4)] by simp
next
  case (reader st c e rcv ret st1)
  have sm: "same_clients st st1" using handle_reader_same [OF reader(3)] .
  then have "c \<in> set (clients st1)" using reader(2) by (auto simp: same_clients_def clients_def)
  then show ?case using close_inv same_clients_inv [OF sm reader(4)] by simp
next
  case (listen st e pkt0 rcv st1)
  then show ?case using handle_listen_inv by blast
qed

section \<open>Control messages\<close>

lemma drop_clients_none: "\<forall>c \<in> set cs. \<not> P c \<Longrightarrow> drop_clients P cs st = st"
  by (induction cs) auto

lemma drop_clients_lists:
  assumes "ts_writers st = as @ cs" and "\<forall>c \<in> set as. \<not> P c" and "set cs \<inter> set (ts_readers st) = {}"
  shows "ts_writers (drop_clients P cs st) = as @ filter (\<lambda>c. \<not> P c) cs \<and>
    ts_readers (drop_clients P cs st) = ts_readers st \<and> ts_sent (drop_clients P cs st) = ts_sent st"
  using assms
proof (induction cs arbitrary: as st)
  case Nil
  then show ?case by simp
next
  case (Cons c cs)
  show ?case
  proof (cases "P c")
    case True
    then have "c \<notin> set as" "c \<notin> set (ts_readers st)" using Cons.prems by auto
    then have "ts_writers (client_close_and_free st c) = as @ cs" "ts_readers (client_close_and_free st c) = ts_readers st"
      "ts_sent (client_close_and_free st c) = ts_sent st"
      using Cons.prems(1) by (simp_all add: client_close_and_free_def close_file_def close_sock_def remove1_append remove1_idem)
    then show ?thesis using Cons.IH [of "client_close_and_free st c" as] Cons.prems True by simp
  next
    case False
    then show ?thesis using Cons.IH [of st "as @ [c]"] Cons.prems by simp
  qed
qed

section \<open>Properties\<close>

text \<open>C27: an acknowledgement is answered with the next window. When the client acknowledges block
  \<open>n\<close>, the loop ends and the server has sent the blocks \<open>n + 1\<close> up to the end of the window or
  of the file, each with its number and its part of the file, and nothing else; the client
  stays. The window must end, or the file, before the block counter of 16 bits is exhausted.\<close>

theorem reader_window:
  assumes "serving e st c content" and "n < 65536"
    and "min (window_end c n) (nblocks content (unat (tc_blksize c))) \<le> 65535"
  shows "handle_reader e st c (ack_msg (tc_sq c) n rest) =
    Some (1, st\<lparr>ts_sent := ts_sent st @ map (\<lambda>k. (tc_sock c, data_block content (unat (tc_blksize c)) k))
      [n..<min (window_end c n) (nblocks content (unat (tc_blksize c)))]\<rparr>)"
  by (rule handle_ack_sends [OF assms])

definition demo_client :: tftp_client where
  "demo_client = (new_client \<lparr>sq_family = AF_QIPCRTR, sq_node = 5, sq_port = 9\<rparr> 8 7)\<lparr>tc_blksize := 2, tc_wsize := 2\<rparr>"

definition demo_tq_env :: tq_env where
  "demo_tq_env = \<lparr>tq_tr = demo_tr_env, tq_alloc = (\<lambda>_. True), tq_send = (\<lambda>_ _. True), tq_pread = (\<lambda>_. True),
     tq_write = Some, tq_socket = 8, tq_sockopt = 0, tq_connect = 0\<rparr>"

definition demo_tq_state :: "bytes \<Rightarrow> tq_state" where
  "demo_tq_state content = \<lparr>ts_fs = \<lparr>fs_files = [''/data/x'' \<mapsto> content], fs_fds = [7 \<mapsto> (''/data/x'', 0)]\<rparr>,
     ts_socks = \<lparr>open_fds = {3, 8}, bound = [], out_pkts = []\<rparr>, ts_sent = [], ts_readers = [demo_client], ts_writers = []\<rparr>"

lemma demo_serving: "serving demo_tq_env (demo_tq_state content) demo_client content"
  by (simp add: serving_def demo_tq_env_def demo_tq_state_def demo_client_def new_client_def)

theorem reader_window_witness:
  "handle_reader demo_tq_env (demo_tq_state [1, 2, 3, 4, 5]) demo_client (ack_msg (tc_sq demo_client) 1 []) =
    Some (1, (demo_tq_state [1, 2, 3, 4, 5])\<lparr>ts_sent := [(8, [0, 3, 0, 2, 3, 4]), (8, [0, 3, 0, 3, 5])]\<rparr>)"
proof -
  have m: "min (window_end demo_client 1) (nblocks [1, 2, 3, 4, 5 :: u8] 2) = 3"
    by (simp add: window_end_def nblocks_def demo_client_def new_client_def)
  have u: "[1..<3] = [1, 2 :: nat]" by (simp add: upt_rec)
  have c: "unat (tc_blksize demo_client) = 2" "tc_sock demo_client = 8" by (simp_all add: demo_client_def new_client_def)
  have "map (\<lambda>k. (8 :: int, data_block [1, 2, 3, 4, 5] 2 k)) [1, 2] = [(8, [0, 3, 0, 2, 3, 4]), (8, [0, 3, 0, 3, 5])]"
    by (simp add: data_block_def)
  then show ?thesis
    using reader_window [OF demo_serving [of "[1, 2, 3, 4, 5]"], of 1 "[]", unfolded c m u] by (simp add: demo_tq_state_def)
qed

text \<open>A window can be endless. When neither the window nor the file ends within the 65536 values
  of the block counter, the counter wraps around and the server sends the file again and again
  without ever returning to its other clients.\<close>

lemma reader_never_returns:
  assumes "serving e st c content" and "n < 65536" and "65536 \<le> window_end c n"
    and "65535 * unat (tc_blksize c) < length content"
  shows "handle_reader e st c (ack_msg (tc_sq c) n rest) = None"
proof -
  have "0 < unat (tc_blksize c)" using assms(1) by (simp add: serving_def)
  then have "65535 < nblocks content (unat (tc_blksize c))" using nblocks_less_iff assms(4) by blast
  then show ?thesis
    using reader_loop_diverges [OF assms(1), of "of_nat n" "of_nat n"] assms(2,3) unat_u16_of_nat [OF assms(2)]
    by (simp add: handle_ack)
qed

text \<open>C25: a client that follows the protocol gets the file. Take a file of at most 65535 blocks of the
  client's block size, a window size that is not 0 (without the option it is 0, and then nothing
  follows the acknowledgement of the options), and an environment in which memory, reads of the file and
  sends do not fail. The client acknowledges the last block of every window; after the
  acknowledgements of \<open>0, w, 2 w, ...\<close> the server has sent to its socket exactly the data packets of
  the file: one for every block, in order, with the block numbers 1, 2, ..., and their payloads
  together are the file.\<close>

theorem read_transfer:
  assumes "serving e st c content" and "nblocks content (unat (tc_blksize c)) \<le> 65535"
    and "0 < unat (tc_wsize c)" and "unat (tc_wsize c) < 2 ^ 32"
    and "windows = (nblocks content (unat (tc_blksize c)) + unat (tc_wsize c) - 1) div unat (tc_wsize c)"
  shows "let blocks = map (data_block content (unat (tc_blksize c))) [0..<nblocks content (unat (tc_blksize c))] in
    run_reader e c st (map (\<lambda>i. ack_msg (tc_sq c) (i * unat (tc_wsize c)) rest) [0..<windows]) =
      Some (st\<lparr>ts_sent := ts_sent st @ map (Pair (tc_sock c)) blocks\<rparr>) \<and>
    concat (map (drop 4) blocks) = content \<and>
    (\<forall>k < length blocks. take 4 (blocks ! k) = [0, 3, of_nat ((k + 1) div 256), of_nat (k + 1)])"
proof -
  let ?w = "unat (tc_wsize c)" and ?B = "unat (tc_blksize c)"
  let ?n = "nblocks content ?B"
  have "windows * ?w < ?n + ?w"
    using div_times_less_eq_dividend [of "?n + ?w - 1" ?w] assms(3) unfolding assms(5) by linarith
  from run_reader_acks [OF assms(1,2,4) this, of rest] have run:
    "run_reader e c st (map (\<lambda>i. ack_msg (tc_sq c) (i * ?w) rest) [0..<windows]) =
      Some (st\<lparr>ts_sent := ts_sent st @ map (\<lambda>k. (tc_sock c, data_block content ?B k)) [0..<min (windows * ?w) ?n]\<rparr>)" .
  have "?n + ?w - 1 < windows * ?w + ?w"
    using assms(3) dividend_less_div_times [of ?w "?n + ?w - 1"] unfolding assms(5) by (simp add: add.commute)
  then have m: "min (windows * ?w) ?n = ?n" by linarith
  have "0 < ?B" using assms(1) by (simp add: serving_def)
  then have "concat (map (drop 4) (map (data_block content ?B) [0..<?n])) = content"
    using payloads_content by (simp add: comp_def)
  moreover have "map (\<lambda>k. (tc_sock c, data_block content ?B k)) [0..<?n] = map (Pair (tc_sock c)) (map (data_block content ?B) [0..<?n])"
    by simp
  moreover have "\<forall>k < ?n. take 4 (data_block content ?B k) = [0, 3, of_nat ((k + 1) div 256), of_nat (k + 1)]"
    by (simp add: data_block_def)
  ultimately show ?thesis using run unfolding m Let_def by (simp only: length_map length_upt) simp
qed

theorem read_transfer_witness:
  "run_reader demo_tq_env demo_client (demo_tq_state [1, 2, 3, 4, 5])
     [ack_msg (tc_sq demo_client) 0 [], ack_msg (tc_sq demo_client) 2 []] =
   Some ((demo_tq_state [1, 2, 3, 4, 5])\<lparr>ts_sent := [(8, [0, 3, 0, 1, 1, 2]), (8, [0, 3, 0, 2, 3, 4]), (8, [0, 3, 0, 3, 5])]\<rparr>)"
proof -
  have c: "unat (tc_wsize demo_client) = 2" "unat (tc_blksize demo_client) = 2" "tc_sock demo_client = 8"
    by (simp_all add: demo_client_def new_client_def)
  have n: "nblocks [1, 2, 3, 4, 5] 2 = 3" by (simp add: nblocks_def)
  have u: "[0..<2] = [0, 1 :: nat]" "[0..<3] = [0, 1, 2 :: nat]" by (simp_all add: upt_rec)
  show ?thesis
    using read_transfer [OF demo_serving [of "[1, 2, 3, 4, 5]"], of 2 "[]", unfolded c n u]
    by (simp add: demo_tq_state_def data_block_def Let_def del: run_reader.simps)
qed

text \<open>C26: stored data is the file. A client that sends \<open>D\<close> in blocks of 512 bytes, the last one
  shorter, gets every block acknowledged with its number; with the short block the transfer is
  over, and the file starts with \<open>D\<close>. (What an older, longer file held behind it stays: the
  file is not truncated.)\<close>

theorem write_transfer:
  assumes "\<And>k. tq_write e k = Some k" and "\<And>s bs. tq_send e s bs" and "length D < 65535 * 512"
    and "fs_fds (ts_fs st) (tc_fd c) = Some (path, 0)" and "fs_files (ts_fs st) path = Some old"
  shows "\<exists>st'. run_writer e c st (store_msgs (tc_sq c) D rest) = (False, st') \<and>
    fs_files (ts_fs st') = (fs_files (ts_fs st))(path \<mapsto> D @ drop (length D) old) \<and>
    ts_sent st' = ts_sent st @ map (\<lambda>k. (tc_sock c, ack_pkt (k + 1))) [0..<length D div 512 + 1]"
proof -
  have "length D div 512 < 65535" using assms(3) by (simp add: less_mult_imp_div_less)
  moreover have "stored st c path (take (0 * 512) D) old = st"
    using assms(4,5) by (simp add: stored_def fun_upd_idem)
  ultimately show ?thesis
    using run_writer_from [OF assms(1,2), of D 0 c st path old rest] by (simp add: store_msgs_def stored_def)
qed

theorem write_transfer_witness:
  "\<exists>st'. run_writer demo_tq_env demo_client (demo_tq_state [9, 9, 9, 9]) (store_msgs (tc_sq demo_client) [1, 2] []) = (False, st') \<and>
    fs_files (ts_fs st') ''/data/x'' = Some [1, 2, 9, 9] \<and> ts_sent st' = [(8, [0, 4, 0, 1])]"
proof -
  have "\<exists>st'. run_writer demo_tq_env demo_client (demo_tq_state [9, 9, 9, 9]) (store_msgs (tc_sq demo_client) [1, 2] []) = (False, st') \<and>
    fs_files (ts_fs st') = (fs_files (ts_fs (demo_tq_state [9, 9, 9, 9])))(''/data/x'' \<mapsto> [1, 2] @ drop (length [1, 2 :: u8]) [9, 9, 9, 9]) \<and>
    ts_sent st' = ts_sent (demo_tq_state [9, 9, 9, 9]) @
      map (\<lambda>k. (tc_sock demo_client, ack_pkt (k + 1))) [0..<length [1, 2 :: u8] div 512 + 1]"
    by (rule write_transfer) (simp_all add: demo_tq_env_def demo_tq_state_def demo_client_def new_client_def)
  then show ?thesis by (auto simp: demo_tq_state_def demo_client_def new_client_def ack_pkt_def)
qed

text \<open>A read request with options is accepted as it was sent. The server reads file name, mode and
  options from the request, opens a socket to the sender, adds one reader with exactly these
  options (512 bytes and 1000 ms by default), and answers with the option acknowledgement on
  the new socket.\<close>

lemma read_request_accepted:
  assumes "plain filename" and "plain mode" and "map tolower mode = ''octet''"
    and "os \<noteq> []" and "\<forall>(n, v) \<in> set os. plain n \<and> plain v"
    and "qrtr_open (ts_socks st) (tq_socket e) (tq_sockopt e) 0 0 = (sock, k)" and "0 \<le> sock" and "0 \<le> tq_connect e"
    and "translate_open (tq_tr e) (ts_fs st) filename False = Some (fd, fs1)" and "0 \<le> fd" and "file_size fs1 fd < 2 ^ 63"
    and "\<And>n. tq_alloc e n" and "\<And>s bs. tq_send e s bs"
    and "o' = fold (\<lambda>(n, v). set_opt n v) os default_opts"
    and "tsize = (if ro_tsize o' = -1 then -1 else file_size fs1 fd)"
  shows "handle_rrq e st (rrq_msg filename mode os @ rest) (length (rrq_msg filename mode os)) sq =
    Some (st\<lparr>ts_socks := k, ts_fs := fs1,
      ts_sent := ts_sent st @ [(sock, [0, 6] @ opt_bytes (oack_opts o' tsize))],
      ts_readers := ts_readers st @ [\<lparr>tc_sq = sq, tc_sock = sock, tc_fd = fd, tc_block = 0, tc_blksize = ro_blksize o',
        tc_rsize = ro_rsize o', tc_wsize = ro_wsize o', tc_timeoutms = ro_timeoutms o'\<rparr>]\<rparr>)"
proof -
  have "0 \<le> file_size fs1 fd" by (simp add: file_size_def split: option.split)
  then have b: "- (2 ^ 63) \<le> tsize" "tsize < 2 ^ 63" using assms(11) by (auto simp: assms(15))
  show ?thesis
    using send_oack [OF b, of e _ sock o'] assms(3,4,6-10,12,13) unfolding handle_rrq_parse [OF assms(1,2,5)] assms(14) [symmetric]
    by (cases "ro_tsize o' = -1"; cases "file_size fs1 fd = 0"; cases "ro_wsize o' = 0"; cases "ro_rsize o' = 0")
      (simp_all add: start_reader_def assms(15) new_client_def send_on_def Let_def)
qed

definition demo_opts :: "(string \<times> string) list" where
  "demo_opts = [(''blksize'', ''1024''), (''tsize'', ''0''), (''wsize'', ''10'')]"

text \<open>The option acknowledgement says what was agreed. A client that reads it with the rules of
  the request gets the options of the reader, and the size of the file where it was asked
  for and is neither 0 nor too large for an \<open>int\<close>.\<close>

lemma oack_roundtrip:
  assumes "opts_ok o'" and "-1 \<le> tsize" and "tsize < 2 ^ 31"
  shows "rrq_options (obj_of_bytes ([0, 6] @ opt_bytes (oack_opts o' tsize) @ rest))
      (2 + length (opt_bytes (oack_opts o' tsize))) 2 default_opts =
    Some (o'\<lparr>ro_tsize := (if tsize = 0 then -1 else tsize)\<rparr>)"
proof -
  have v: "of_int (atoi (print_int (sint (ro_blksize o')))) = ro_blksize o'"
    "of_int (atoi (print_int (sint (ro_wsize o')))) = ro_wsize o'" "of_int (atoi (print_int (sint (ro_rsize o')))) = ro_rsize o'"
    "of_int (atoi (print_int (sint (ro_timeoutms o')))) = ro_timeoutms o'"
    using assms(1) by (simp_all add: opts_ok_def of_int_atoi64 of_int_atoi32)
  have t: "atoi (print_int tsize) = tsize" using assms(2,3) by (intro atoi_print_int) auto
  have "fold (\<lambda>(n, v). set_opt n v) (oack_opts o' tsize) default_opts = o'\<lparr>ro_tsize := (if tsize = 0 then -1 else tsize)\<rparr>"
    by (cases o') (use v t in \<open>auto simp: oack_opts_def set_opt_def default_opts_def\<close>)
  then show ?thesis
    using rrq_options_parse [OF oack_plain [of o' tsize], of "[0, 6]" rest default_opts] by (simp add: numeral_2_eq_2)
qed

text \<open>Which clients the control messages release. A BYE closes exactly the writers of the node;
  its readers stay, and so do all clients on a DEL_CLIENT, because their address is compared
  with the one of the control port.\<close>

lemma control_messages:
  assumes "tq_inv st" and "sq_port sq = QRTR_PORT_CTRL" and "buf = ctrl_bytes p @ rest" and "20 \<le> len"
    and "\<forall>c \<in> set (clients st). sq_port (tc_sq c) \<noteq> QRTR_PORT_CTRL"
  shows "(pk_cmd p = QRTR_TYPE_BYE \<longrightarrow> (\<exists>st'. handle_listen e pkt0 st (int len, buf, sq) = Some (Serve st') \<and>
      ts_writers st' = filter (\<lambda>c. sq_node (tc_sq c) \<noteq> sq_node sq) (ts_writers st) \<and>
      ts_readers st' = ts_readers st \<and> ts_sent st' = ts_sent st)) \<and>
    (pk_cmd p = QRTR_TYPE_DEL_CLIENT \<longrightarrow> handle_listen e pkt0 st (int len, buf, sq) = Some (Serve st))"
proof -
  have "distinct (ts_readers st @ ts_writers st)" using assms(1) by (auto simp: tq_inv_def clients_def distinct_map)
  then have "set (ts_writers st) \<inter> set (ts_readers st) = {}" by auto
  from drop_clients_lists [of st "[]" "ts_writers st" "\<lambda>c. sq_node (tc_sq c) = sq_node sq", OF _ _ this]
  have "ts_writers (drop_clients (\<lambda>c. sq_node (tc_sq c) = sq_node sq) (ts_writers st) st) =
      filter (\<lambda>c. sq_node (tc_sq c) \<noteq> sq_node sq) (ts_writers st)"
    "ts_readers (drop_clients (\<lambda>c. sq_node (tc_sq c) = sq_node sq) (ts_writers st) st) = ts_readers st"
    "ts_sent (drop_clients (\<lambda>c. sq_node (tc_sq c) = sq_node sq) (ts_writers st) st) = ts_sent st" by auto
  moreover have "drop_clients (\<lambda>c. tc_sq c = sq) (ts_writers st) st = st"
    using assms(2,5) by (intro drop_clients_none) (auto simp: clients_def)
  ultimately show ?thesis using assms(2-4) by (auto simp: handle_listen_def qrtr_decode_def)
qed

text \<open>C28: every client has descriptors of its own. In every state the process can reach, the
  clients in the lists have pairwise different sockets and files, and all of them are open.\<close>

theorem clients_own_descriptors:
  assumes "tq_reach fs socks st"
  shows "distinct (map tc_sock (ts_readers st @ ts_writers st)) \<and> distinct (map tc_fd (ts_readers st @ ts_writers st)) \<and>
    (\<forall>c \<in> set (ts_readers st @ ts_writers st). tc_sock c \<in> open_fds (ts_socks st) \<and> fs_fds (ts_fs st) (tc_fd c) \<noteq> None)"
  using tq_reach_inv [OF assms] by (simp add: tq_inv_def clients_def)

theorem clients_own_descriptors_witness:
  "\<exists>st. tq_reach demo_tfs \<lparr>open_fds = {3}, bound = [], out_pkts = []\<rparr> st \<and> length (ts_readers st) = 1 \<and>
     (\<forall>c \<in> set (ts_readers st). tc_sock c \<in> open_fds (ts_socks st))"
proof -
  let ?k = "\<lparr>open_fds = {3 :: int}, bound = [], out_pkts = []\<rparr>" and ?st = "tq_init demo_tfs \<lparr>open_fds = {3}, bound = [], out_pkts = []\<rparr>"
  let ?m = "rrq_msg demo_ro_path ''octet'' []"
  have "map_option (\<lambda>nx. case nx of Serve st1 \<Rightarrow> length (ts_readers st1) | Exit rc st1 \<Rightarrow> 0) (handle_listen demo_tq_env blank_packet ?st
      (int (length ?m), ?m, \<lparr>sq_family = AF_QIPCRTR, sq_node = 5, sq_port = 9\<rparr>)) = Some 1"
    by code_simp
  then obtain st1 where l: "handle_listen demo_tq_env blank_packet ?st
      (int (length ?m), ?m, \<lparr>sq_family = AF_QIPCRTR, sq_node = 5, sq_port = 9\<rparr>) = Some (Serve st1)" "length (ts_readers st1) = 1" by (auto split: tq_next.splits) (metis tq_next.exhaust)
  have "fresh_fds demo_tq_env ?st"
    by (simp add: fresh_fds_def demo_tq_env_def demo_tr_env_def demo_tfs_def tq_init_def)
  then have "tq_reach demo_tfs ?k st1" using tq_reach.listen [OF tq_reach.start] l(1) by blast
  then show ?thesis using clients_own_descriptors l(2) by fastforce
qed

end
