(* ===== verification/Tlv.thy ===== *)
theory Tlv
  imports QmiService
begin

text \<open>
  The type-length-value interface to QMI messages, \<^verbatim>\<open>qcom/rmtfs/qmi_tlv.c\<close>: a message is built item by
  item in an allocated buffer, or opened in a buffer of the caller. A pointer into the message
  is its offset in the buffer. \<open>ok n\<close> says whether \<open>n\<close> bytes can be allocated, \<open>junk\<close> is what
  the allocated memory holds.
\<close>

section \<open>Messages\<close>

record qmi_tlv =
  tl_allocated :: bool
  tl_buf :: bytes
  tl_size :: nat
  tl_error :: int

definition qmi_tlv_init :: "(nat \<Rightarrow> bool) \<Rightarrow> nat \<Rightarrow> nat \<Rightarrow> nat \<Rightarrow> qmi_tlv option" where
  "qmi_tlv_init ok txn msg_id msg_type =
     (if \<not> ok 32 then None
      else if \<not> ok 7 then None
      else Some \<lparr>tl_allocated = True,
        tl_buf = le_bytes 1 msg_type @ le_bytes 2 txn @ le_bytes 2 msg_id @ le_bytes 2 0,
        tl_size = 7, tl_error = 0\<rparr>)"

text \<open>The result is the null pointer, or the message and what \<open>*txn\<close> is set to.\<close>

definition qmi_tlv_decode :: "(nat \<Rightarrow> bool) \<Rightarrow> bytes \<Rightarrow> nat \<Rightarrow> nat \<Rightarrow> (qmi_tlv \<times> nat) option option" where
  "qmi_tlv_decode ok buf len msg_type = do {
     flags \<leftarrow> mem_read buf 0 1;
     if le_val flags \<noteq> msg_type then Some None
     else if \<not> ok 32 then None
     else do {
       txn \<leftarrow> mem_read buf 1 2;
       Some (Some (\<lparr>tl_allocated = False, tl_buf = buf, tl_size = len, tl_error = 0\<rparr>, le_val txn)) } }"

text \<open>The result is the null pointer, or the bytes of the message with the message itself.\<close>

definition qmi_tlv_encode :: "qmi_tlv option \<Rightarrow> (bytes \<times> nat \<times> qmi_tlv) option option" where
  "qmi_tlv_encode tlv =
     (case tlv of
        None \<Rightarrow> Some None
      | Some t \<Rightarrow>
          if tl_error t \<noteq> 0 then Some None
          else do {
            buf \<leftarrow> mem_write (tl_buf t) 5 (le_bytes 2 ((2 ^ 64 + tl_size t - 7) mod 2 ^ 64));
            Some (Some (buf, tl_size t, t\<lparr>tl_buf := buf\<rparr>)) })"

text \<open>Releasing a message: whether its buffer is released with it. A null pointer is dereferenced.\<close>

definition qmi_tlv_free :: "qmi_tlv option \<Rightarrow> bool option" where
  "qmi_tlv_free tlv = map_option tl_allocated tlv"

section \<open>Reading items\<close>

text \<open>The bound of the loop is the size of the whole message although \<open>offset\<close> counts from the end
  of its header.\<close>

partial_function (option) qmi_tlv_find :: "qmi_tlv \<Rightarrow> nat \<Rightarrow> u32 \<Rightarrow> nat option option" where
  "qmi_tlv_find tlv ident off =
     (if unat off < tl_size tlv then do {
        key \<leftarrow> mem_read (tl_buf tlv) (7 + unat off) 1;
        if le_val key = ident then Some (Some (7 + unat off))
        else do {
          len \<leftarrow> mem_read (tl_buf tlv) (7 + unat off + 1) 2;
          qmi_tlv_find tlv ident (off + (3 + of_nat (le_val len))) } }
      else Some None)"

declare qmi_tlv_find.simps [code]

definition qmi_tlv_get_item :: "qmi_tlv \<Rightarrow> nat \<Rightarrow> nat option option" where
  "qmi_tlv_get_item tlv ident = qmi_tlv_find tlv ident 0"

text \<open>The pointer to the data and its length.\<close>

definition qmi_tlv_get :: "qmi_tlv \<Rightarrow> nat \<Rightarrow> (nat \<times> nat) option option" where
  "qmi_tlv_get tlv ident = do {
     r \<leftarrow> qmi_tlv_get_item tlv ident;
     case r of
       None \<Rightarrow> Some None
     | Some item \<Rightarrow> do { len \<leftarrow> mem_read (tl_buf tlv) (item + 1) 2; Some (Some (item + 3, le_val len)) } }"

text \<open>\<open>ptr++\<close> on a pointer to \<open>void\<close> moves it by one byte for every \<open>len_size\<close>; \<open>unset\<close> is the value of
  the variable \<open>count\<close> when \<open>len_size\<close> is none of the three. The result is the pointer, \<open>*len\<close>
  and \<open>*size\<close>.\<close>

definition qmi_tlv_get_array :: "u32 \<Rightarrow> qmi_tlv \<Rightarrow> nat \<Rightarrow> nat \<Rightarrow> (nat \<times> u32 \<times> u32) option option" where
  "qmi_tlv_get_array unset tlv ident len_size = do {
     r \<leftarrow> qmi_tlv_get_item tlv ident;
     case r of
       None \<Rightarrow> Some None
     | Some item \<Rightarrow> do {
         let sized = (len_size = 4 \<or> len_size = 2 \<or> len_size = 1);
         c \<leftarrow> mem_read (tl_buf tlv) (item + 3) (if sized then len_size else 0);
         let count = (if sized then of_nat (le_val c) else unset);
         len \<leftarrow> mem_read (tl_buf tlv) (item + 1) 2;
         if count = 0 then None
         else Some (Some (item + 3 + (if sized then 1 else 0), count, (of_nat (le_val len) - of_nat len_size) div count)) } }"

section \<open>Adding items\<close>

text \<open>The result is the new item, or the null pointer, and the message.\<close>

definition qmi_tlv_alloc_item ::
    "(nat \<Rightarrow> bool) \<Rightarrow> (nat \<Rightarrow> u8) \<Rightarrow> qmi_tlv \<Rightarrow> nat \<Rightarrow> nat \<Rightarrow> (nat option \<times> qmi_tlv) option" where
  "qmi_tlv_alloc_item ok junk tlv ident len =
     (let new_size = (tl_size tlv + 3 + len) mod 2 ^ 64 in
      if \<not> ok new_size then Some (None, tlv)
      else do {
        old \<leftarrow> (if tl_allocated tlv then Some (tl_buf tlv) else mem_read (tl_buf tlv) 0 (tl_size tlv));
        let newp = take new_size old @ map junk [length old..<new_size];
        b1 \<leftarrow> mem_write newp (tl_size tlv) (le_bytes 1 ident);
        b2 \<leftarrow> mem_write b1 (tl_size tlv + 1) (le_bytes 2 len);
        Some (Some (tl_size tlv), tlv\<lparr>tl_allocated := True, tl_buf := b2, tl_size := new_size\<rparr>) })"

definition qmi_tlv_set ::
    "(nat \<Rightarrow> bool) \<Rightarrow> (nat \<Rightarrow> u8) \<Rightarrow> qmi_tlv option \<Rightarrow> nat \<Rightarrow> bytes \<Rightarrow> (int \<times> qmi_tlv option) option" where
  "qmi_tlv_set ok junk tlv ident buf =
     (case tlv of
        None \<Rightarrow> Some (-EINVAL, None)
      | Some t \<Rightarrow> do {
          (item, t1) \<leftarrow> qmi_tlv_alloc_item ok junk t ident (length buf);
          case item of
            None \<Rightarrow> Some (-ENOMEM, Some (t1\<lparr>tl_error := ENOMEM\<rparr>))
          | Some i \<Rightarrow> do { b \<leftarrow> mem_write (tl_buf t1) (i + 3) buf; Some (0, Some (t1\<lparr>tl_buf := b\<rparr>)) } })"

definition qmi_tlv_set_array ::
    "(nat \<Rightarrow> bool) \<Rightarrow> (nat \<Rightarrow> u8) \<Rightarrow> qmi_tlv option \<Rightarrow> nat \<Rightarrow> nat \<Rightarrow> bytes \<Rightarrow> nat \<Rightarrow> nat \<Rightarrow> (int \<times> qmi_tlv option) option" where
  "qmi_tlv_set_array ok junk tlv ident len_size buf len sz =
     (case tlv of
        None \<Rightarrow> Some (-EINVAL, None)
      | Some t \<Rightarrow> do {
          let array_size = (len * sz) mod 2 ^ 64;
          (item, t1) \<leftarrow> qmi_tlv_alloc_item ok junk t ident ((len_size + array_size) mod 2 ^ 64);
          case item of
            None \<Rightarrow> Some (-ENOMEM, Some (t1\<lparr>tl_error := ENOMEM\<rparr>))
          | Some i \<Rightarrow> do {
              let sized = (len_size = 4 \<or> len_size = 2 \<or> len_size = 1);
              b1 \<leftarrow> mem_write (tl_buf t1) (i + 3) (if sized then le_bytes len_size len else []);
              src \<leftarrow> mem_read buf 0 array_size;
              b2 \<leftarrow> mem_write b1 (i + 3 + (if sized then 1 else 0)) src;
              Some (0, Some (t1\<lparr>tl_buf := b2\<rparr>)) } })"

section \<open>What a message holds\<close>

definition tlv_item :: "nat \<times> bytes \<Rightarrow> bytes" where
  "tlv_item it = le_bytes 1 (fst it) @ le_bytes 2 (length (snd it)) @ snd it"

abbreviation tlv_items :: "(nat \<times> bytes) list \<Rightarrow> bytes" where
  "tlv_items its \<equiv> concat (map tlv_item its)"

definition item_ok :: "nat \<times> bytes \<Rightarrow> bool" where
  "item_ok it \<longleftrightarrow> fst it < 256 \<and> length (snd it) < 65536"

definition holds :: "qmi_tlv \<Rightarrow> bytes \<Rightarrow> (nat \<times> bytes) list \<Rightarrow> bool" where
  "holds t header its \<longleftrightarrow> length header = 7 \<and> tl_allocated t \<and> tl_error t = 0 \<and>
     tl_buf t = header @ tlv_items its \<and> tl_size t = 7 + length (tlv_items its)"

lemma length_tlv_item [simp]: "length (tlv_item it) = 3 + length (snd it)"
  by (simp add: tlv_item_def)

lemma mem_write_at: "i = length xs \<Longrightarrow> length bs = length ys \<Longrightarrow> mem_write (xs @ ys @ zs) i bs = Some (xs @ bs @ zs)"
  by (simp add: mem_write_def)

lemma mem_read_at: "i = length xs \<Longrightarrow> n = length ys \<Longrightarrow> mem_read (xs @ ys @ zs) i n = Some ys"
  by (simp add: mem_read_def)

lemma mem_read_parts:
  assumes "mem_read b p n = Some (xs @ ys)"
  shows "mem_read b p (length xs) = Some xs" and "mem_read b (p + length xs) (length ys) = Some ys"
proof -
  have n: "n = length xs + length ys" using mem_read_length [OF assms] by simp
  have "b = take p b @ xs @ ys @ drop (p + n) b" "p \<le> length b"
    using assms append_take_drop_id [of n "drop p b"] by (auto simp: mem_read_def add.commute split: if_splits)
  then show "mem_read b p (length xs) = Some xs" "mem_read b (p + length xs) (length ys) = Some ys"
    using mem_read_at [of p "take p b" "length xs" xs "ys @ drop (p + n) b"]
      mem_read_at [of "p + length xs" "take p b @ xs" "length ys" ys "drop (p + n) b"] by simp_all
qed

lemma alloc_item_result:
  assumes "holds t header its" and "ok (tl_size t + 3 + len)" and "tl_size t + 3 + len < 2 ^ 64"
  shows "\<exists>space. length space = len \<and> qmi_tlv_alloc_item ok junk t ident len =
    Some (Some (tl_size t), t\<lparr>tl_buf := tl_buf t @ le_bytes 1 ident @ le_bytes 2 len @ space, tl_size := tl_size t + 3 + len\<rparr>)"
proof -
  let ?n = "tl_size t + 3 + len" and ?m = "length (tl_buf t)"
  have m: "tl_size t = ?m" and a: "tl_allocated t" using assms(1) by (auto simp: holds_def)
  define space where "space = map junk [?m + 3..<?n]"
  have split: "[?m..<?n] = [?m..<?m + 1] @ [?m + 1..<?m + 3] @ [?m + 3..<?n]"
    unfolding m by (simp add: upt_conv_Cons numeral_3_eq_3)
  have new: "take ?n (tl_buf t) @ map junk [?m..<?n] = tl_buf t @ map junk [?m..<?m + 1] @ map junk [?m + 1..<?m + 3] @ space"
    using m unfolding split by (simp add: space_def)
  have w1: "mem_write (tl_buf t @ map junk [?m..<?m + 1] @ map junk [?m + 1..<?m + 3] @ space) ?m (le_bytes 1 ident) =
      Some (tl_buf t @ le_bytes 1 ident @ map junk [?m + 1..<?m + 3] @ space)"
    by (rule mem_write_at) simp_all
  have w2: "mem_write ((tl_buf t @ le_bytes 1 ident) @ map junk [?m + 1..<?m + 3] @ space) (?m + 1) (le_bytes 2 len) =
      Some ((tl_buf t @ le_bytes 1 ident) @ le_bytes 2 len @ space)"
    by (rule mem_write_at) simp_all
  have "length space = len" using m by (simp add: space_def)
  moreover have "qmi_tlv_alloc_item ok junk t ident len =
      Some (Some (tl_size t), t\<lparr>tl_buf := tl_buf t @ le_bytes 1 ident @ le_bytes 2 len @ space, tl_size := tl_size t + 3 + len\<rparr>)"
    using assms(2,3) a w1 w2 new m by (simp add: qmi_tlv_alloc_item_def)
  ultimately show ?thesis by blast
qed

lemma set_result:
  assumes "holds t header its" and "ok (tl_size t + 3 + length data)" and "tl_size t + 3 + length data < 2 ^ 64"
  shows "\<exists>t'. qmi_tlv_set ok junk (Some t) ident data = Some (0, Some t') \<and> holds t' header (its @ [(ident, data)])"
proof -
  obtain space where sp: "length space = length data" "qmi_tlv_alloc_item ok junk t ident (length data) =
      Some (Some (tl_size t), t\<lparr>tl_buf := tl_buf t @ le_bytes 1 ident @ le_bytes 2 (length data) @ space,
        tl_size := tl_size t + 3 + length data\<rparr>)"
    using alloc_item_result [OF assms(1), of ok "length data"] assms(2,3) by blast
  have "mem_write ((tl_buf t @ le_bytes 1 ident @ le_bytes 2 (length data)) @ space @ []) (tl_size t + 3) data =
      Some ((tl_buf t @ le_bytes 1 ident @ le_bytes 2 (length data)) @ data @ [])"
    using sp(1) assms(1) by (intro mem_write_at) (auto simp: holds_def)
  then show ?thesis using sp(2) assms(1) by (auto simp: qmi_tlv_set_def holds_def tlv_item_def)
qed

text \<open>The search in a buffer with the given items: an item that is there is found; otherwise the
  loop goes on behind the last one.\<close>

lemma find_item:
  assumes "tl_buf t = header @ pre @ tlv_items its @ rest" and "length header = 7" and "\<forall>it \<in> set its. item_ok it"
    and "unat off = length pre" and "7 + length pre + length (tlv_items its) \<le> tl_size t" and "tl_size t < 2 ^ 32"
  shows "qmi_tlv_find t ident off =
    (case find (\<lambda>k. fst (its ! k) = ident) [0..<length its] of
       Some k \<Rightarrow> Some (Some (7 + length pre + length (tlv_items (take k its))))
     | None \<Rightarrow> qmi_tlv_find t ident (off + of_nat (length (tlv_items its))))"
  using assms(1,3,4,5)
proof (induction its arbitrary: pre off)
  case Nil
  then show ?case by simp
next
  case (Cons it its)
  let ?n = "length (snd it)"
  have ok: "fst it < 256" "?n < 65536" using Cons.prems(2) by (auto simp: item_ok_def)
  have key: "mem_read (tl_buf t) (7 + unat off) 1 = Some (le_bytes 1 (fst it))"
    using mem_read_at [of "7 + unat off" "header @ pre" 1 "le_bytes 1 (fst it)" "le_bytes 2 ?n @ snd it @ tlv_items its @ rest"]
      Cons.prems(1,3) assms(2) by (simp add: tlv_item_def [of it])
  have len: "mem_read (tl_buf t) (7 + unat off + 1) 2 = Some (le_bytes 2 ?n)"
    using mem_read_at [of "7 + unat off + 1" "header @ pre @ le_bytes 1 (fst it)" 2 "le_bytes 2 ?n" "snd it @ tlv_items its @ rest"]
      Cons.prems(1,3) assms(2) by (simp add: tlv_item_def [of it])
  have lt: "unat off < tl_size t" using Cons.prems(3,4) by simp
  have up: "[0..<length (it # its)] = 0 # map Suc [0..<length its]"
    by (simp add: map_Suc_upt upt_conv_Cons del: upt_Suc)
  show ?case
  proof (cases "fst it = ident")
    case True
    then show ?thesis using lt key ok Cons.prems(3)
      by (subst qmi_tlv_find.simps, unfold up) (simp add: le_val_le_bytes del: le_bytes.simps)
  next
    case False
    let ?off = "off + (3 + of_nat ?n)" and ?pre = "pre @ tlv_item it"
    have off: "unat ?off = length ?pre"
      using Cons.prems(3,4) assms(6) by (simp add: unat_word_ariths unat_of_nat)
    have step: "qmi_tlv_find t ident off = qmi_tlv_find t ident ?off"
      using lt key len ok False
      by (subst qmi_tlv_find.simps) (simp add: le_val_le_bytes del: le_bytes.simps)
    have "qmi_tlv_find t ident ?off =
      (case find (\<lambda>k. fst (its ! k) = ident) [0..<length its] of
         Some k \<Rightarrow> Some (Some (7 + length ?pre + length (tlv_items (take k its))))
       | None \<Rightarrow> qmi_tlv_find t ident (?off + of_nat (length (tlv_items its))))"
      by (rule Cons.IH) (use Cons.prems off in auto)
    moreover have "find (\<lambda>k. fst ((it # its) ! k) = ident) [0..<length (it # its)] =
        map_option Suc (find (\<lambda>k. fst (its ! k) = ident) [0..<length its])"
    proof -
      have "find P (map Suc ns) = map_option Suc (find (P \<circ> Suc) ns)" for P ns by (induction ns) auto
      then show ?thesis using False unfolding up by (simp add: comp_def)
    qed
    ultimately show ?thesis unfolding step by (auto simp: add.assoc split: option.splits)
  qed
qed

lemma find_distinct:
  assumes "k < length its" and "distinct (map fst its)"
  shows "find (\<lambda>j. fst (its ! j) = fst (its ! k)) [0..<length its] = Some k"
proof -
  have "[0..<length its] = [0..<k] @ k # [Suc k..<length its]"
    using assms(1) upt_add_eq_append [of 0 k "length its - k"] by (simp add: upt_conv_Cons)
  moreover have "\<forall>j \<in> set [0..<k]. fst (its ! j) \<noteq> fst (its ! k)"
    using assms by (auto simp: distinct_conv_nth)
  ultimately show ?thesis by (simp add: find_SomeI)
qed

lemma get_result:
  assumes "tl_buf t = header @ tlv_items its @ rest" and "length header = 7" and "\<forall>it \<in> set its. item_ok it"
    and "7 + length (tlv_items its) \<le> tl_size t" and "tl_size t < 2 ^ 32" and "distinct (map fst its)"
    and "(ident, data) \<in> set its"
  shows "\<exists>p. qmi_tlv_get t ident = Some (Some (p, length data)) \<and> mem_read (tl_buf t) p (length data) = Some data"
proof -
  obtain k where k: "k < length its" "its ! k = (ident, data)" using assms(7) by (auto simp: in_set_conv_nth)
  let ?i = "7 + length (tlv_items (take k its))"
  have "its = take k its @ (ident, data) # drop (Suc k) its" using k by (metis id_take_nth_drop)
  then have its: "tlv_items its = tlv_items (take k its) @ tlv_item (ident, data) @ tlv_items (drop (Suc k) its)"
    by (metis concat.simps(2) concat_append list.map(2) map_append)
  have "item_ok (ident, data)" using assms(3,7) by blast
  then have n: "length data < 65536" by (simp add: item_ok_def)
  have "qmi_tlv_get_item t ident = Some (Some ?i)"
    using find_item [of t header "[]" its rest 0 ident] find_distinct [OF k(1) assms(6)] assms(1-5) k(2)
    by (simp add: qmi_tlv_get_item_def)
  moreover have "mem_read (tl_buf t) (?i + 1) 2 = Some (le_bytes 2 (length data))"
    using mem_read_at [of "?i + 1" "header @ tlv_items (take k its) @ le_bytes 1 ident" 2 "le_bytes 2 (length data)"
        "data @ tlv_items (drop (Suc k) its) @ rest"] assms(1,2) its
    by (simp add: tlv_item_def [of "(ident, data)"])
  moreover have "mem_read (tl_buf t) (?i + 3) (length data) = Some data"
    using mem_read_at [of "?i + 3" "header @ tlv_items (take k its) @ le_bytes 1 ident @ le_bytes 2 (length data)"
        "length data" data "tlv_items (drop (Suc k) its) @ rest"] assms(1,2) its
    by (simp add: tlv_item_def [of "(ident, data)"])
  ultimately show ?thesis using n by (simp add: qmi_tlv_get_def le_val_le_bytes)
qed

text \<open>An item that is not in the message makes the search read behind the buffer.\<close>

lemma get_absent_overreads:
  assumes "holds t header its" and "\<forall>it \<in> set its. item_ok it" and "tl_size t < 2 ^ 32" and "ident \<notin> set (map fst its)"
  shows "qmi_tlv_get t ident = None"
proof -
  have h: "tl_buf t = header @ tlv_items its" "length header = 7" "tl_size t = 7 + length (tlv_items its)"
    using assms(1) by (auto simp: holds_def)
  have "find (\<lambda>k. fst (its ! k) = ident) [0..<length its] = None"
    using assms(4) by (auto simp: find_None_iff)
  then have "qmi_tlv_find t ident 0 = qmi_tlv_find t ident (of_nat (length (tlv_items its)))"
    using find_item [of t header "[]" its "[]" 0 ident] assms(2,3) h by simp
  also have "\<dots> = None"
    using h assms(3) by (subst qmi_tlv_find.simps) (simp add: unat_of_nat mem_read_def)
  finally show ?thesis by (simp add: qmi_tlv_get_def qmi_tlv_get_item_def)
qed

text \<open>An array with a count of one byte is the item with the count in front of the elements.\<close>

lemma set_array_result:
  assumes "holds t header its" and "ok (tl_size t + 4 + len * sz)" and "tl_size t + 4 + len * sz < 2 ^ 64"
    and "length buf = len * sz"
  shows "\<exists>t'. qmi_tlv_set_array ok junk (Some t) ident 1 buf len sz = Some (0, Some t') \<and>
    holds t' header (its @ [(ident, le_bytes 1 len @ buf)])"
proof -
  let ?n = "1 + len * sz"
  let ?b = "tl_buf t @ le_bytes 1 ident @ le_bytes 2 ?n"
  have room: "tl_size t + 3 + ?n = tl_size t + 4 + len * sz" by simp
  obtain space where sp: "length space = ?n" "qmi_tlv_alloc_item ok junk t ident ?n =
      Some (Some (tl_size t), t\<lparr>tl_buf := tl_buf t @ le_bytes 1 ident @ le_bytes 2 ?n @ space, tl_size := tl_size t + 3 + ?n\<rparr>)"
    using alloc_item_result [OF assms(1), of ok ?n] assms(2,3) unfolding room by blast
  then obtain s0 space' where sp': "space = s0 # space'" "length space' = len * sz" by (cases space) auto
  have m: "tl_size t = length (tl_buf t)" using assms(1) by (auto simp: holds_def)
  have "mem_write (?b @ [s0] @ space') (tl_size t + 3) (le_bytes 1 len) = Some (?b @ le_bytes 1 len @ space')"
    using m by (intro mem_write_at) simp_all
  moreover have "mem_write ((?b @ le_bytes 1 len) @ space' @ []) (tl_size t + 3 + 1) buf = Some ((?b @ le_bytes 1 len) @ buf @ [])"
    using m sp'(2) assms(4) by (intro mem_write_at) simp_all
  moreover have "mem_read buf 0 (len * sz) = Some buf" using assms(4) by (simp add: mem_read_def)
  ultimately show ?thesis
    using sp(2) sp' assms(1,3,4) by (auto simp: qmi_tlv_set_array_def holds_def tlv_item_def Let_def)
qed

lemma get_array_result:
  assumes "holds t header its" and "\<forall>it \<in> set its. item_ok it" and "tl_size t < 2 ^ 32" and "distinct (map fst its)"
    and "(ident, le_bytes 1 len @ buf) \<in> set its" and "length buf = len * sz" and "0 < len" and "len < 256"
  shows "\<exists>p. qmi_tlv_get_array unset t ident 1 = Some (Some (p, of_nat len, of_nat sz)) \<and>
    mem_read (tl_buf t) p (len * sz) = Some buf"
proof -
  let ?d = "le_bytes 1 len @ buf"
  have h: "tl_buf t = header @ tlv_items its @ []" "length header = 7" "7 + length (tlv_items its) \<le> tl_size t"
    using assms(1) by (auto simp: holds_def)
  obtain p where p: "qmi_tlv_get t ident = Some (Some (p, length ?d))" "mem_read (tl_buf t) p (length ?d) = Some ?d"
    using get_result [OF h(1,2) assms(2) h(3) assms(3-5)] by blast
  obtain i where i: "qmi_tlv_get_item t ident = Some (Some i)" "p = i + 3"
    "map_option le_val (mem_read (tl_buf t) (i + 1) 2) = Some (length ?d)"
    using p(1) by (auto simp: qmi_tlv_get_def split: bind_splits option.splits)
  have rd: "mem_read (tl_buf t) p 1 = Some (le_bytes 1 len)" "mem_read (tl_buf t) (p + 1) (len * sz) = Some buf"
    using mem_read_parts [OF p(2)] assms(6) by (simp_all del: le_bytes.simps)
  have "item_ok (ident, ?d)" using assms(2,5) by blast
  then have "len * sz < 65535" using assms(6) by (simp add: item_ok_def)
  moreover have "sz \<le> len * sz" using assms(7) by simp
  ultimately have "sz < 65535" "len * sz < 65535" by linarith+
  moreover have "(of_nat len :: u32) \<noteq> 0" using assms(7,8) by (simp add: word_unat_eq_iff unat_of_nat)
  moreover have "(of_nat (Suc (len * sz)) - of_nat 1) div of_nat len = (of_nat sz :: u32)"
    using calculation assms(7,8) by (simp add: word_unat_eq_iff unat_div unat_of_nat unat_word_ariths)
  ultimately show ?thesis
    using i rd assms(6-8) by (auto simp: qmi_tlv_get_array_def le_val_le_bytes Let_def simp del: le_bytes.simps)
qed

section \<open>Building and reading a message\<close>

fun set_all :: "(nat \<Rightarrow> bool) \<Rightarrow> (nat \<Rightarrow> u8) \<Rightarrow> (nat \<times> bytes) list \<Rightarrow> qmi_tlv option \<Rightarrow> qmi_tlv option option" where
  "set_all ok junk [] tlv = Some tlv"
| "set_all ok junk ((ident, data) # rest) tlv =
     Option.bind (qmi_tlv_set ok junk tlv ident data) (\<lambda>(ret, tlv1). set_all ok junk rest tlv1)"

lemma set_all_result:
  assumes "holds t header done" and "\<forall>n. ok n" and "7 + length (tlv_items (done @ its)) < 2 ^ 64"
  shows "\<exists>t'. set_all ok junk its (Some t) = Some (Some t') \<and> holds t' header (done @ its)"
  using assms(1,3)
proof (induction its arbitrary: t "done")
  case (Cons it its)
  obtain ident data where it: "it = (ident, data)" by (cases it)
  obtain t1 where t1: "qmi_tlv_set ok junk (Some t) ident data = Some (0, Some t1)" "holds t1 header (done @ [it])"
    using set_result [OF Cons.prems(1), of ok data junk ident] assms(2) Cons.prems it by (auto simp: holds_def)
  have "7 + length (tlv_items ((done @ [it]) @ its)) < 2 ^ 64" using Cons.prems(2) by simp
  from Cons.IH [OF t1(2) this] show ?case using t1(1) it by simp
qed auto

text \<open>C37: type-length-value round trip. Items of different types that are set one after the other on a
  new message are encoded as the QMI packet with this header and these items, which the other
  codec accepts; opened again, also in a larger buffer, every item is found with its
  length and its bytes.\<close>

theorem tlv_roundtrip:
  assumes "\<forall>n. ok n" and "\<forall>it \<in> set its. item_ok it" and "distinct (map fst its)"
    and "length (tlv_items its) < 65536" and "txn < 65536" and "msg_id < 65536" and "msg_type < 256"
    and "pkt = qmi_header msg_type txn msg_id (length (tlv_items its)) @ tlv_items its"
  shows "\<exists>t t1 t2 r. qmi_tlv_init ok txn msg_id msg_type = Some t \<and>
    set_all ok junk its (Some t) = Some (Some t1) \<and>
    qmi_tlv_encode (Some t1) = Some (Some (pkt, length pkt, t2)) \<and>
    qmi_decode_header (obj_of_bytes pkt) (length pkt) = Some (0, Some msg_id) \<and>
    qmi_tlv_decode ok (pkt @ rest) (length pkt) msg_type = Some (Some (r, txn)) \<and>
    (\<forall>(ident, data) \<in> set its. \<exists>p. qmi_tlv_get r ident = Some (Some (p, length data)) \<and>
       mem_read (tl_buf r) p (length data) = Some data)"
proof -
  let ?n = "length (tlv_items its)" and ?h = "qmi_header msg_type txn msg_id"
  let ?r = "\<lparr>tl_allocated = False, tl_buf = pkt @ rest, tl_size = length pkt, tl_error = 0\<rparr>"
  have len: "length pkt = 7 + ?n" "length (?h ?n) = 7" using assms(8) by (simp_all add: qmi_header_def)
  define t where "t = \<lparr>tl_allocated = True, tl_buf = ?h 0, tl_size = 7, tl_error = 0\<rparr>"
  have t: "qmi_tlv_init ok txn msg_id msg_type = Some t" "holds t (?h 0) []"
    using assms(1) by (simp_all add: t_def qmi_tlv_init_def holds_def qmi_header_def)
  obtain t1 where t1: "set_all ok junk its (Some t) = Some (Some t1)" "holds t1 (?h 0) its"
    using set_all_result [OF t(2), of ok its junk] assms(1,4) by auto
  have "mem_write ((le_bytes 1 msg_type @ le_bytes 2 txn @ le_bytes 2 msg_id) @ le_bytes 2 0 @ tlv_items its) 5 (le_bytes 2 ?n) =
      Some ((le_bytes 1 msg_type @ le_bytes 2 txn @ le_bytes 2 msg_id) @ le_bytes 2 ?n @ tlv_items its)"
    by (rule mem_write_at) simp_all
  then have e: "qmi_tlv_encode (Some t1) = Some (Some (pkt, length pkt, t1\<lparr>tl_buf := pkt\<rparr>))"
    using t1(2) assms(4,8) len by (simp add: qmi_tlv_encode_def holds_def qmi_header_def del: le_bytes.simps)
  have "obj_read (obj_of_bytes pkt) 0 7 = Some (?h ?n)"
    using len assms(8) by (subst obj_read_of_bytes) simp_all
  from qmi_header_fields [OF this]
  have d: "qmi_decode_header (obj_of_bytes pkt) (length pkt) = Some (0, Some msg_id)"
    using assms(4,6) len by (simp add: qmi_decode_header_def le_val_le_bytes)
  have "mem_read (pkt @ rest) 0 1 = Some (le_bytes 1 msg_type)" "mem_read (pkt @ rest) 1 2 = Some (le_bytes 2 txn)"
    using assms(8) mem_read_at [of 1 "le_bytes 1 msg_type" 2 "le_bytes 2 txn"] by (simp_all add: qmi_header_def mem_read_def)
  then have o: "qmi_tlv_decode ok (pkt @ rest) (length pkt) msg_type = Some (Some (?r, txn))"
    using assms(1,5,7) by (simp add: qmi_tlv_decode_def le_val_le_bytes del: le_bytes.simps)
  have "\<exists>p. qmi_tlv_get ?r ident = Some (Some (p, length data)) \<and> mem_read (tl_buf ?r) p (length data) = Some data"
    if "(ident, data) \<in> set its" for ident data
    by (rule get_result [where its = its and header = "?h ?n" and rest = rest]) (use that assms len in auto)
  then show ?thesis using t(1) t1(1) e d o by blast
qed

theorem tlv_roundtrip_witness:
  "\<exists>t t1 t2 r p. qmi_tlv_init (\<lambda>_. True) 7 3 2 = Some t \<and>
    set_all (\<lambda>_. True) (\<lambda>_. 0) [(1, [5, 6]), (16, [])] (Some t) = Some (Some t1) \<and>
    qmi_tlv_encode (Some t1) = Some (Some ([2, 7, 0, 3, 0, 8, 0, 1, 2, 0, 5, 6, 16, 0, 0], 15, t2)) \<and>
    qmi_tlv_decode (\<lambda>_. True) [2, 7, 0, 3, 0, 8, 0, 1, 2, 0, 5, 6, 16, 0, 0] 15 2 = Some (Some (r, 7)) \<and>
    qmi_tlv_get r 16 = Some (Some (p, 0))"
proof -
  define pkt :: bytes where "pkt = [2, 7, 0, 3, 0, 8, 0, 1, 2, 0, 5, 6, 16, 0, 0]"
  have len: "length pkt = 15" by (simp add: pkt_def)
  have "pkt = qmi_header 2 7 3 (length (tlv_items [(1, [5, 6]), (16, [])])) @ tlv_items [(1, [5, 6]), (16, [])]"
    unfolding pkt_def by code_simp
  then show ?thesis
    unfolding pkt_def [symmetric] len [symmetric]
    using tlv_roundtrip [of "\<lambda>_. True" "[(1, [5, 6]), (16, [])]" 7 3 2 pkt "\<lambda>_. 0" "[]"]
    by (simp add: item_ok_def) blast
qed

text \<open>The count of an array is written over when it has more than one byte: the elements start one
  byte behind it. What was stored as one element of value 5 is read as 1281 elements.\<close>

lemma wide_count_clobbered:
  "Option.bind (qmi_tlv_init (\<lambda>_. True) 7 3 2) (\<lambda>t.
     Option.bind (qmi_tlv_set_array (\<lambda>_. True) (\<lambda>_. 0) (Some t) 1 2 [5] 1 1) (\<lambda>(ret, t1).
       Option.bind t1 (\<lambda>t1. qmi_tlv_get_array 0 t1 1 2))) = Some (Some (11, 1281, 0))"
  by code_simp

end
