(* ===== verification/Audio.thy ===== *)
theory Audio
  imports Prelude
begin

text \<open>
  The audio HAL, \<^verbatim>\<open>audio/audio_hw.c\<close>: output streams that open the PCM device on the first write and
  close it in standby, and input streams that deliver silence. The state is the device with
  its streams by address, the open PCM handles and the lock operations so far. The calls into
  tinyalsa and the conversion functions of the Android headers are arguments (\<open>audio_env\<close>):
  of \<open>pcm_open\<close> it is used that it returns a handle that is not open yet (which may not be
  ready). An access through a handle that is not open is \<^term>\<open>None\<close>.
\<close>

section \<open>State\<close>

record pcm_config =
  pc_channels :: u32
  pc_rate :: u32
  pc_period_size :: u32
  pc_period_count :: u32
  pc_format :: u32
  pc_start_threshold :: u32
  pc_avail_min :: u32

record alsa_stream_out =
  so_config :: pcm_config
  so_pcm :: nat
  so_unavailable :: bool
  so_standby :: bool
  so_write_threshold :: int
  so_written :: u32

datatype lock_event = Lock_dev | Unlock_dev | Lock_out nat | Unlock_out nat

record audio_state =
  ad_devices :: u32
  ad_active_output :: nat
  ad_out :: "nat \<Rightarrow> alsa_stream_out option"
  ad_in :: "nat set"
  ad_pcms :: "nat set"
  ad_params :: nat
  ad_opens :: nat
  ad_writes :: "(nat \<times> bytes \<times> int) list"
  ad_locks :: "lock_event list"

text \<open>The format that a client of the HAL asks for, \<open>struct audio_config\<close>.\<close>

record audio_config =
  ac_sample_rate :: u32
  ac_channel_mask :: u32
  ac_format :: u32

text \<open>\<open>pcm_open_fn k\<close> is the handle of the \<open>k\<close>-th \<open>pcm_open\<close> and whether it is ready;
  \<open>pcm_write_fn k\<close> the result of the \<open>k\<close>-th \<open>pcm_mmap_write\<close>; \<open>frame_size\<close> the result of
  \<open>audio_stream_out_frame_size\<close> for the configuration of the HAL; \<open>out_all\<close> the mask
  \<open>AUDIO_DEVICE_OUT_ALL\<close>.\<close>

record audio_env =
  pcm_open_fn :: "nat \<Rightarrow> nat \<times> bool"
  pcm_write_fn :: "nat \<Rightarrow> int"
  frame_size :: u64
  out_all :: u32
  channel_count_from_mask :: "u32 \<Rightarrow> u32"
  mask_from_channel_count :: "u32 \<Rightarrow> u32"
  pcm_format_from_audio :: "u32 \<Rightarrow> u32"
  audio_format_from_pcm :: "u32 \<Rightarrow> u32"

abbreviation (input) ENODEV :: int where "ENODEV \<equiv> 19"
abbreviation (input) ENOSYS :: int where "ENOSYS \<equiv> 38"

definition PERIOD_SIZE :: nat where "PERIOD_SIZE = 32 * 32"
definition PLAYBACK_PERIOD_COUNT :: nat where "PLAYBACK_PERIOD_COUNT = 2"
definition CODEC_SAMPLING_RATE :: u32 where "CODEC_SAMPLING_RATE = 48000"
definition CHANNEL_STEREO :: u32 where "CHANNEL_STEREO = 2"

abbreviation (input) PCM_FORMAT_S16_LE :: u32 where "PCM_FORMAT_S16_LE \<equiv> 0"

section \<open>PCM handles and locks\<close>

definition pcm_close :: "audio_state \<Rightarrow> nat \<Rightarrow> audio_state option" where
  "pcm_close st h = (if h \<in> ad_pcms st then Some (st\<lparr>ad_pcms := ad_pcms st - {h}\<rparr>) else None)"

definition pcm_open :: "audio_env \<Rightarrow> audio_state \<Rightarrow> nat \<times> bool \<times> audio_state" where
  "pcm_open e st =
     (let (h, ready) = pcm_open_fn e (ad_opens st) in
      (h, ready, st\<lparr>ad_pcms := insert h (ad_pcms st), ad_opens := ad_opens st + 1\<rparr>))"

definition lock_op :: "lock_event \<Rightarrow> audio_state \<Rightarrow> audio_state" where
  "lock_op l st = st\<lparr>ad_locks := ad_locks st @ [l]\<rparr>"

definition put_out :: "audio_state \<Rightarrow> nat \<Rightarrow> alsa_stream_out \<Rightarrow> audio_state" where
  "put_out st s out = st\<lparr>ad_out := (ad_out st)(s \<mapsto> out)\<rparr>"

section \<open>Output streams\<close>

definition start_output_stream :: "audio_env \<Rightarrow> audio_state \<Rightarrow> nat \<Rightarrow> (int \<times> audio_state) option" where
  "start_output_stream e st s = do {
     out \<leftarrow> ad_out st s;
     if so_unavailable out then Some (-ENODEV, st)
     else do {
       let out1 = out\<lparr>so_write_threshold := int (PLAYBACK_PERIOD_COUNT * PERIOD_SIZE),
         so_config := (so_config out)\<lparr>pc_start_threshold := of_nat (2 * PERIOD_SIZE), pc_avail_min := of_nat PERIOD_SIZE\<rparr>\<rparr>;
       let (h, ready, st1) = pcm_open e st;
       let out2 = out1\<lparr>so_pcm := h\<rparr>;
       if \<not> ready then do {
         st2 \<leftarrow> pcm_close st1 h;
         Some (-ENODEV, put_out (st2\<lparr>ad_active_output := 0\<rparr>) s (out2\<lparr>so_unavailable := True\<rparr>)) }
       else Some (0, put_out (st1\<lparr>ad_active_output := s\<rparr>) s out2) } }"

definition out_get_sample_rate :: "alsa_stream_out \<Rightarrow> u32" where
  "out_get_sample_rate out = pc_rate (so_config out)"

definition out_get_buffer_size :: "audio_env \<Rightarrow> u64" where
  "out_get_buffer_size e = of_nat ((PERIOD_SIZE + 15) div 16 * 16) * frame_size e"

definition out_get_channels :: "audio_env \<Rightarrow> alsa_stream_out \<Rightarrow> u32" where
  "out_get_channels e out = mask_from_channel_count e (pc_channels (so_config out))"

definition out_get_format :: "audio_env \<Rightarrow> alsa_stream_out \<Rightarrow> u32" where
  "out_get_format e out = audio_format_from_pcm e (pc_format (so_config out))"

definition out_get_latency :: "alsa_stream_out \<Rightarrow> u32" where
  "out_get_latency out = of_nat (PERIOD_SIZE * PLAYBACK_PERIOD_COUNT * 1000) div pc_rate (so_config out)"

definition do_output_standby :: "audio_state \<Rightarrow> nat \<Rightarrow> (int \<times> audio_state) option" where
  "do_output_standby st s = do {
     out \<leftarrow> ad_out st s;
     if \<not> so_standby out then do {
       st1 \<leftarrow> pcm_close st (so_pcm out);
       Some (0, put_out (st1\<lparr>ad_active_output := 0\<rparr>) s (out\<lparr>so_pcm := 0, so_standby := True\<rparr>)) }
     else Some (0, st) }"

definition out_standby :: "audio_state \<Rightarrow> nat \<Rightarrow> (int \<times> audio_state) option" where
  "out_standby st s = do {
     (status, st1) \<leftarrow> do_output_standby (lock_op (Lock_out s) (lock_op Lock_dev st)) s;
     Some (status, lock_op Unlock_dev (lock_op (Unlock_out s) st1)) }"

text \<open>\<open>routing\<close> is what \<open>str_parms_get_str\<close> finds for the routing key: its return value and
  the integer value of the string.\<close>

definition out_set_parameters :: "audio_env \<Rightarrow> audio_state \<Rightarrow> nat \<Rightarrow> int \<times> u32 \<Rightarrow> int \<times> audio_state" where
  "out_set_parameters e st s routing =
     (let (ret, val) = routing in
      if ret \<ge> 0 then
        let st1 = lock_op (Lock_out s) (lock_op Lock_dev st);
            st2 = (if and (ad_devices st1) (out_all e) \<noteq> val \<and> val \<noteq> 0
              then st1\<lparr>ad_devices := or (and (ad_devices st1) (not (out_all e))) val\<rparr> else st1)
        in (ret, lock_op Unlock_dev (lock_op (Unlock_out s) st2))
      else (ret, st))"

text \<open>\<open>out_write\<close> of a buffer: the number of bytes it reports, the argument of \<open>usleep\<close> if it
  sleeps, and the state. The two steps under the locks are separate definitions.\<close>

definition out_write_start :: "audio_env \<Rightarrow> audio_state \<Rightarrow> nat \<Rightarrow> (int \<times> audio_state) option" where
  "out_write_start e st s = do {
     out \<leftarrow> ad_out st s;
     if so_standby out then do {
       (ret, st1) \<leftarrow> start_output_stream e st s;
       if ret \<noteq> 0 then Some (ret, st1)
       else do { out1 \<leftarrow> ad_out st1 s; Some (0, put_out st1 s (out1\<lparr>so_standby := False\<rparr>)) } }
     else Some (0, st) }"

definition out_write_pcm :: "audio_env \<Rightarrow> audio_state \<Rightarrow> nat \<Rightarrow> bytes \<Rightarrow> nat \<Rightarrow> (int \<times> audio_state) option" where
  "out_write_pcm e st s data out_frames = do {
     out \<leftarrow> ad_out st s;
     if so_pcm out \<notin> ad_pcms st then None
     else
       let ret = pcm_write_fn e (length (ad_writes st));
           st1 = st\<lparr>ad_writes := ad_writes st @ [(so_pcm out, data, ret)]\<rparr>
       in Some (ret, if ret = 0 then put_out st1 s (out\<lparr>so_written := so_written out + of_nat out_frames\<rparr>) else st1) }"

definition write_sleep :: "audio_env \<Rightarrow> alsa_stream_out \<Rightarrow> nat \<Rightarrow> u32" where
  "write_sleep e out n =
     ucast ((of_nat n * 1000000 :: u64) div frame_size e div ucast (out_get_sample_rate out))"

definition out_write :: "audio_env \<Rightarrow> audio_state \<Rightarrow> nat \<Rightarrow> bytes \<Rightarrow> (nat \<times> u32 option \<times> audio_state) option" where
  "out_write e st s buffer =
     (if frame_size e = 0 then None
      else do {
        let out_frames = length buffer div unat (frame_size e);
        (ret, st1) \<leftarrow> out_write_start e (lock_op (Lock_out s) (lock_op Lock_dev st)) s;
        let st2 = lock_op Unlock_dev st1;
        (ret1, st3) \<leftarrow> (if ret \<noteq> 0 then Some (ret, st2)
           else out_write_pcm e st2 s (take (out_frames * unat (frame_size e)) buffer) out_frames);
        let st4 = lock_op (Unlock_out s) st3;
        out \<leftarrow> ad_out st4 s;
        Some (length buffer, if ret1 \<noteq> 0 then Some (write_sleep e out (length buffer)) else None, st4) })"

text \<open>\<open>hts\<close> is the result of \<open>pcm_get_htimestamp\<close>: its return value and the number of available
  frames. The position is only set when the result is 0.\<close>

definition out_get_presentation_position ::
    "audio_state \<Rightarrow> nat \<Rightarrow> int \<times> u32 \<Rightarrow> (int \<times> u64 option) option" where
  "out_get_presentation_position st s hts = do {
     out \<leftarrow> ad_out st s;
     if so_pcm out = 0 then Some (-1, None)
     else if so_pcm out \<notin> ad_pcms st then None
     else if fst hts \<noteq> 0 then Some (-1, None)
     else
       let kernel_buffer_size = ucast (pc_period_size (so_config out) * pc_period_count (so_config out)) :: u64;
           signed_frames = ucast (so_written out) - kernel_buffer_size + ucast (snd hts)
       in if 0 \<le> sint signed_frames then Some (0, Some signed_frames) else Some (-1, None) }"

section \<open>Opening and closing\<close>

definition hal_config :: pcm_config where
  "hal_config = \<lparr>pc_channels = CHANNEL_STEREO, pc_rate = CODEC_SAMPLING_RATE, pc_period_size = of_nat PERIOD_SIZE,
     pc_period_count = of_nat PLAYBACK_PERIOD_COUNT, pc_format = PCM_FORMAT_S16_LE, pc_start_threshold = 0, pc_avail_min = 0\<rparr>"

text \<open>\<open>params\<close> says whether the device has PCM parameters, \<open>s\<close> is the result of \<open>calloc\<close>. The
  parameters are allocated by \<open>pcm_params_get\<close> (the counter \<open>ad_params\<close>). The result has the
  configuration the caller gets back.\<close>

definition adev_open_output_stream ::
    "audio_env \<Rightarrow> audio_state \<Rightarrow> bool \<Rightarrow> nat \<Rightarrow> audio_config \<Rightarrow> int \<times> audio_config \<times> audio_state" where
  "adev_open_output_stream e st params s config =
     (if \<not> params then (-ENOSYS, config, st)
      else
        let st1 = st\<lparr>ad_params := ad_params st + 1\<rparr> in
        if s = 0 then (-ENOMEM, config, st1)
        else
          let out = \<lparr>so_config = hal_config, so_pcm = 0, so_unavailable = False, so_standby = True,
                so_write_threshold = 0, so_written = 0\<rparr>;
              config0 = (if pc_rate (so_config out) \<noteq> ac_sample_rate config \<or>
                  channel_count_from_mask e (ac_channel_mask config) \<noteq> CHANNEL_STEREO \<or>
                  pc_format (so_config out) \<noteq> pcm_format_from_audio e (ac_format config)
                then config\<lparr>ac_sample_rate := pc_rate (so_config out),
                  ac_format := audio_format_from_pcm e (pc_format (so_config out)),
                  ac_channel_mask := mask_from_channel_count e CHANNEL_STEREO\<rparr>
                else config);
              config1 = config0\<lparr>ac_format := out_get_format e out, ac_channel_mask := out_get_channels e out,
                ac_sample_rate := out_get_sample_rate out\<rparr>
          in (0, config1, put_out st1 s out))"

definition adev_close_output_stream :: "audio_state \<Rightarrow> nat \<Rightarrow> audio_state" where
  "adev_close_output_stream st s = st\<lparr>ad_out := (ad_out st)(s := None)\<rparr>"

definition in_get_sample_rate :: u32 where "in_get_sample_rate = 8000"

text \<open>\<open>fsz\<close> is the frame size of the input stream. The buffer is filled with silence after a
  pause.\<close>

definition in_read :: "u64 \<Rightarrow> nat \<Rightarrow> nat \<times> u32 \<times> bytes" where
  "in_read fsz n =
     (n, ucast ((of_nat n * 1000000 :: u64) div fsz div ucast in_get_sample_rate), replicate n 0)"

definition adev_open_input_stream :: "audio_state \<Rightarrow> nat \<Rightarrow> int \<times> audio_state" where
  "adev_open_input_stream st s =
     (if s = 0 then (-ENOMEM, st) else (0, st\<lparr>ad_in := insert s (ad_in st)\<rparr>))"

definition adev_close_input_stream :: "audio_state \<Rightarrow> nat \<Rightarrow> audio_state" where
  "adev_close_input_stream st s = st"

text \<open>\<open>iface\<close> is the name of the audio interface, \<open>ok\<close> whether the allocation succeeds.\<close>

definition adev_open :: "string \<Rightarrow> string \<Rightarrow> bool \<Rightarrow> int \<times> audio_state option" where
  "adev_open iface name ok =
     (if name \<noteq> iface then (-EINVAL, None)
      else if \<not> ok then (-ENOMEM, None)
      else (0, Some \<lparr>ad_devices = 0, ad_active_output = 0, ad_out = Map.empty, ad_in = {}, ad_pcms = {},
        ad_params = 0, ad_opens = 0, ad_writes = [], ad_locks = []\<rparr>))"

section \<open>Entry points without effect\<close>

text \<open>The HAL fills every slot of the stream and device interfaces. These functions neither read nor
  change the state: they return a constant, in an output argument too where they have one (the
  second component of a pair). Arguments that are not looked at have no type of their own.\<close>

definition out_set_sample_rate :: "'s \<Rightarrow> u32 \<Rightarrow> int" where "out_set_sample_rate stream rate = -ENOSYS"
definition out_set_format :: "'s \<Rightarrow> u32 \<Rightarrow> int" where "out_set_format stream format = -ENOSYS"
definition out_dump :: "'s \<Rightarrow> int \<Rightarrow> int" where "out_dump stream fd = 0"
definition out_get_parameters :: "'s \<Rightarrow> string \<Rightarrow> string" where "out_get_parameters stream keys = ''''"
definition out_set_volume :: "'s \<Rightarrow> 'f \<Rightarrow> 'f \<Rightarrow> int" where "out_set_volume stream left right = 0"

definition out_get_render_position :: "'s \<Rightarrow> int \<times> u32" where
  "out_get_render_position stream = (-EINVAL, 0)"

definition out_add_audio_effect :: "'s \<Rightarrow> 'e \<Rightarrow> int" where "out_add_audio_effect stream effect = 0"
definition out_remove_audio_effect :: "'s \<Rightarrow> 'e \<Rightarrow> int" where "out_remove_audio_effect stream effect = 0"

definition out_get_next_write_timestamp :: "'s \<Rightarrow> int \<times> 64 word" where
  "out_get_next_write_timestamp stream = (-EINVAL, 0)"

text \<open>The mono mask and the 16-bit format of input streams are constants of the Android headers, here
  arguments.\<close>

definition in_set_sample_rate :: "'s \<Rightarrow> u32 \<Rightarrow> int" where "in_set_sample_rate stream rate = -ENOSYS"
definition in_get_buffer_size :: u64 where "in_get_buffer_size = 320"
definition in_get_channels :: "u32 \<Rightarrow> u32" where "in_get_channels in_mono = in_mono"
definition in_get_format :: "u32 \<Rightarrow> u32" where "in_get_format pcm_16_bit = pcm_16_bit"
definition in_set_format :: "'s \<Rightarrow> u32 \<Rightarrow> int" where "in_set_format stream format = -ENOSYS"
definition in_standby :: "'s \<Rightarrow> int" where "in_standby stream = 0"
definition in_dump :: "'s \<Rightarrow> int \<Rightarrow> int" where "in_dump stream fd = 0"
definition in_set_parameters :: "'s \<Rightarrow> string \<Rightarrow> int" where "in_set_parameters stream kvpairs = 0"
definition in_get_parameters :: "'s \<Rightarrow> string \<Rightarrow> string" where "in_get_parameters stream keys = ''''"
definition in_set_gain :: "'s \<Rightarrow> 'f \<Rightarrow> int" where "in_set_gain stream gain = 0"
definition in_get_input_frames_lost :: "'s \<Rightarrow> u32" where "in_get_input_frames_lost stream = 0"
definition in_add_audio_effect :: "'s \<Rightarrow> 'e \<Rightarrow> int" where "in_add_audio_effect stream effect = 0"
definition in_remove_audio_effect :: "'s \<Rightarrow> 'e \<Rightarrow> int" where "in_remove_audio_effect stream effect = 0"

definition adev_set_parameters :: "'d \<Rightarrow> string \<Rightarrow> int" where "adev_set_parameters dev kvpairs = -ENOSYS"
definition adev_get_parameters :: "'d \<Rightarrow> string \<Rightarrow> string" where "adev_get_parameters dev keys = ''''"
definition adev_init_check :: "'d \<Rightarrow> int" where "adev_init_check dev = 0"
definition adev_set_voice_volume :: "'d \<Rightarrow> 'f \<Rightarrow> int" where "adev_set_voice_volume dev volume = -ENOSYS"
definition adev_set_master_volume :: "'d \<Rightarrow> 'f \<Rightarrow> int" where "adev_set_master_volume dev volume = -ENOSYS"
definition adev_get_master_volume :: "'d \<Rightarrow> 'f \<Rightarrow> int" where "adev_get_master_volume dev volume = -ENOSYS"
definition adev_set_master_mute :: "'d \<Rightarrow> bool \<Rightarrow> int" where "adev_set_master_mute dev muted = -ENOSYS"
definition adev_get_master_mute :: "'d \<Rightarrow> bool \<Rightarrow> int" where "adev_get_master_mute dev muted = -ENOSYS"
definition adev_set_mode :: "'d \<Rightarrow> 'm \<Rightarrow> int" where "adev_set_mode dev mode = 0"
definition adev_set_mic_mute :: "'d \<Rightarrow> bool \<Rightarrow> int" where "adev_set_mic_mute dev state = -ENOSYS"
definition adev_get_mic_mute :: "'d \<Rightarrow> bool \<Rightarrow> int" where "adev_get_mic_mute dev state = -ENOSYS"
definition adev_get_input_buffer_size :: "'d \<Rightarrow> 'c \<Rightarrow> u64" where "adev_get_input_buffer_size dev config = 320"
definition adev_dump :: "'d \<Rightarrow> int \<Rightarrow> int" where "adev_dump device fd = 0"

text \<open>Closing the device frees it, with whatever streams and handles it has.\<close>

definition adev_close :: "audio_state \<Rightarrow> int \<times> audio_state option" where
  "adev_close st = (0, None)"

section \<open>The operations of a client\<close>

text \<open>A client opens streams, writes to them, puts them into standby, sets parameters, and closes
  them, also while they run, until it closes the device (\<open>adev_close\<close>, after which there is no state). \<open>lost\<close> are
  the handles of the streams that were closed while they were not in standby. The handle that \<open>pcm_open\<close> returns is not an
  open one; a stream is used only between opening and closing it.\<close>

definition fresh_pcm :: "audio_env \<Rightarrow> audio_state \<Rightarrow> bool" where
  "fresh_pcm e st \<longleftrightarrow> fst (pcm_open_fn e (ad_opens st)) \<notin> insert 0 (ad_pcms st)"

inductive audio_reach :: "audio_env \<Rightarrow> nat set \<Rightarrow> audio_state \<Rightarrow> bool" for e :: audio_env where
  start: "adev_open iface iface True = (0, Some st) \<Longrightarrow> audio_reach e {} st"
| open_out: "audio_reach e lost st \<Longrightarrow> s \<notin> dom (ad_out st) \<Longrightarrow>
    adev_open_output_stream e st params s config = (ret, config', st') \<Longrightarrow> audio_reach e lost st'"
| do_write: "audio_reach e lost st \<Longrightarrow> s \<in> dom (ad_out st) \<Longrightarrow> fresh_pcm e st \<Longrightarrow>
    out_write e st s buffer = Some (n, slept, st') \<Longrightarrow> audio_reach e lost st'"
| standby: "audio_reach e lost st \<Longrightarrow> s \<in> dom (ad_out st) \<Longrightarrow> out_standby st s = Some (ret, st') \<Longrightarrow> audio_reach e lost st'"
| set_parameters: "audio_reach e lost st \<Longrightarrow> s \<in> dom (ad_out st) \<Longrightarrow>
    out_set_parameters e st s routing = (ret, st') \<Longrightarrow> audio_reach e lost st'"
| close_out: "audio_reach e lost st \<Longrightarrow> ad_out st s = Some out \<Longrightarrow>
    audio_reach e (if so_standby out then lost else insert (so_pcm out) lost) (adev_close_output_stream st s)"
| open_in: "audio_reach e lost st \<Longrightarrow> adev_open_input_stream st s = (ret, st') \<Longrightarrow> audio_reach e lost st'"
| close_in: "audio_reach e lost st \<Longrightarrow> audio_reach e lost (adev_close_input_stream st s)"

text \<open>The open handles are those of the streams that are not in standby, one for each, and the lost
  ones.\<close>

definition open_of :: "audio_state \<Rightarrow> nat \<Rightarrow> nat option" where
  "open_of st s = (case ad_out st s of None \<Rightarrow> None | Some out \<Rightarrow> if so_standby out then None else Some (so_pcm out))"

definition audio_inv :: "nat set \<Rightarrow> audio_state \<Rightarrow> bool" where
  "audio_inv lost st \<longleftrightarrow>
     ad_pcms st = ran (open_of st) \<union> lost \<and> ran (open_of st) \<inter> lost = {} \<and>
     inj_on (open_of st) (dom (open_of st)) \<and> 0 \<notin> ran (open_of st) \<and>
     (\<forall>out \<in> ran (ad_out st). pc_rate (so_config out) = CODEC_SAMPLING_RATE)"

text \<open>The lock discipline: the device lock is taken before the lock of a stream and never while
  one is held.\<close>

fun lock_step :: "lock_event \<Rightarrow> bool \<times> nat option \<Rightarrow> (bool \<times> nat option) option" where
  "lock_step Lock_dev (dev, out) = (if dev \<or> out \<noteq> None then None else Some (True, out))"
| "lock_step Unlock_dev (dev, out) = (if dev then Some (False, out) else None)"
| "lock_step (Lock_out s) (dev, out) = (if out \<noteq> None \<or> \<not> dev then None else Some (dev, Some s))"
| "lock_step (Unlock_out s) (dev, out) = (if out = Some s then Some (dev, None) else None)"

fun lock_run :: "lock_event list \<Rightarrow> bool \<times> nat option \<Rightarrow> (bool \<times> nat option) option" where
  "lock_run [] h = Some h"
| "lock_run (l # ls) h = Option.bind (lock_step l h) (lock_run ls)"

section \<open>The invariant is kept\<close>

text \<open>A read of the input buffer size takes the 20 ms that 160 frames of 16 bits last at 8 kHz.\<close>

lemma in_read_pace: "in_read 2 (unat in_get_buffer_size) = (320, 20000, replicate 320 0)"
  by (simp add: in_read_def in_get_buffer_size_def in_get_sample_rate_def)

lemma lock_run_append: "lock_run (ls @ ks) h = Option.bind (lock_run ls h) (lock_run ks)"
proof (induction ls arbitrary: h)
  case (Cons l ls)
  then have "lock_run (ls @ ks) = (\<lambda>h. Option.bind (lock_run ls h) (lock_run ks))" by (rule ext)
  then show ?case by simp
qed simp

lemma audio_inv_only: "audio_inv lost (st\<lparr>ad_locks := ls\<rparr>) = audio_inv lost st" "audio_inv lost (st\<lparr>ad_writes := ws\<rparr>) = audio_inv lost st"
  "audio_inv lost (st\<lparr>ad_opens := k\<rparr>) = audio_inv lost st" "audio_inv lost (st\<lparr>ad_active_output := a\<rparr>) = audio_inv lost st"
  "audio_inv lost (st\<lparr>ad_devices := d\<rparr>) = audio_inv lost st" "audio_inv lost (st\<lparr>ad_params := n\<rparr>) = audio_inv lost st"
  "audio_inv lost (st\<lparr>ad_in := i\<rparr>) = audio_inv lost st"
  by (simp_all add: audio_inv_def open_of_def [abs_def])

lemma audio_inv_lock [simp]: "audio_inv lost (lock_op l st) = audio_inv lost st"
  by (simp add: lock_op_def audio_inv_only)

lemma lock_op_fields [simp]:
  "ad_out (lock_op l st) = ad_out st" "ad_pcms (lock_op l st) = ad_pcms st" "ad_opens (lock_op l st) = ad_opens st"
  "ad_writes (lock_op l st) = ad_writes st" "ad_locks (lock_op l st) = ad_locks st @ [l]"
  by (simp_all add: lock_op_def)

lemma put_out_fields [simp]:
  "ad_out (put_out st s out) = (ad_out st)(s \<mapsto> out)" "ad_pcms (put_out st s out) = ad_pcms st"
  "ad_opens (put_out st s out) = ad_opens st" "ad_writes (put_out st s out) = ad_writes st"
  "ad_locks (put_out st s out) = ad_locks st"
  by (simp_all add: put_out_def)

lemma ran_upd_None: "inj_on m (dom m) \<Longrightarrow> m s = Some h \<Longrightarrow> ran (m(s := None)) = ran m - {h}"
  by (auto simp: ran_def inj_on_def dom_def split: if_splits) (metis option.inject)

lemma rates_upd: "\<forall>out \<in> ran m. P out \<Longrightarrow> P out' \<Longrightarrow> \<forall>out \<in> ran (m(s \<mapsto> out')). P out"
  by (auto simp: ran_def split: if_splits)

text \<open>A stream changes without opening or closing its handle; it opens one; it closes it.\<close>

lemma audio_inv_keep:
  assumes "audio_inv lost st" and "ad_out st s = Some out" and "so_standby out' = so_standby out"
    and "\<not> so_standby out \<Longrightarrow> so_pcm out' = so_pcm out" and "pc_rate (so_config out') = pc_rate (so_config out)"
    and "ad_out st' = (ad_out st)(s \<mapsto> out')" and "ad_pcms st' = ad_pcms st"
  shows "audio_inv lost st'"
proof -
  have "open_of st' = open_of st" using assms(2-4,6) by (auto simp: open_of_def fun_eq_iff)
  moreover have "pc_rate (so_config out') = CODEC_SAMPLING_RATE"
    using assms(1,2,5) by (auto simp: audio_inv_def ran_def)
  then have "\<forall>o' \<in> ran (ad_out st'). pc_rate (so_config o') = CODEC_SAMPLING_RATE"
    using assms(1) unfolding assms(6) audio_inv_def by (intro rates_upd) blast+
  ultimately show ?thesis using assms(1,7) unfolding audio_inv_def by metis
qed

lemma audio_inv_start:
  assumes "audio_inv lost st" and "ad_out st s = Some out" and "so_standby out" and "h \<notin> insert 0 (ad_pcms st)"
    and "\<not> so_standby out'" and "so_pcm out' = h" and "pc_rate (so_config out') = pc_rate (so_config out)"
    and "ad_out st' = (ad_out st)(s \<mapsto> out')" and "ad_pcms st' = insert h (ad_pcms st)"
  shows "audio_inv lost st'"
proof -
  have o: "open_of st' = (open_of st)(s \<mapsto> h)" "open_of st s = None"
    using assms(2,3,5,6,8) by (auto simp: open_of_def fun_eq_iff)
  have "h \<notin> ran (open_of st)" using assms(1,4) by (simp add: audio_inv_def)
  then have "inj_on (open_of st') (dom (open_of st'))"
    using assms(1) unfolding o(1) audio_inv_def inj_on_def by (auto simp: ran_def)
  moreover have "pc_rate (so_config out') = CODEC_SAMPLING_RATE"
    using assms(1,2,7) by (auto simp: audio_inv_def ran_def)
  then have "\<forall>o' \<in> ran (ad_out st'). pc_rate (so_config o') = CODEC_SAMPLING_RATE"
    using assms(1) unfolding assms(8) audio_inv_def by (intro rates_upd) blast+
  ultimately show ?thesis using assms(1,4,9) o by (auto simp: audio_inv_def)
qed

lemma audio_inv_stop:
  assumes "audio_inv lost st" and "ad_out st s = Some out" and "\<not> so_standby out"
    and "so_standby out'" and "pc_rate (so_config out') = pc_rate (so_config out)"
    and "ad_out st' = (ad_out st)(s \<mapsto> out')" and "ad_pcms st' = ad_pcms st - {so_pcm out}"
  shows "audio_inv lost st'"
proof -
  have o: "open_of st' = (open_of st)(s := None)" "open_of st s = Some (so_pcm out)"
    using assms(2-4,6) by (auto simp: open_of_def fun_eq_iff)
  have i: "inj_on (open_of st) (dom (open_of st))" using assms(1) by (simp add: audio_inv_def)
  then have "inj_on (open_of st') (dom (open_of st'))" unfolding o(1) by (auto simp: inj_on_def)
  moreover have "pc_rate (so_config out') = CODEC_SAMPLING_RATE"
    using assms(1,2,5) by (auto simp: audio_inv_def ran_def)
  then have "\<forall>o' \<in> ran (ad_out st'). pc_rate (so_config o') = CODEC_SAMPLING_RATE"
    using assms(1) unfolding assms(6) audio_inv_def by (intro rates_upd) blast+
  moreover have "so_pcm out \<in> ran (open_of st)" using o(2) by (rule ranI)
  ultimately show ?thesis using assms(1,7) ran_upd_None [OF i o(2)] unfolding audio_inv_def by (auto simp: o(1))
qed

lemma audio_inv_pcm: "audio_inv lost st \<Longrightarrow> ad_out st s = Some out \<Longrightarrow> \<not> so_standby out \<Longrightarrow> so_pcm out \<in> ad_pcms st"
  by (auto simp: audio_inv_def ran_def open_of_def intro!: exI [of _ s])

lemma audio_inv_put: "audio_inv lost (put_out st s out) \<longleftrightarrow> audio_inv lost (st\<lparr>ad_out := (ad_out st)(s \<mapsto> out)\<rparr>)"
  by (simp add: put_out_def)

text \<open>Starting the output for a write: the stream is running afterwards, or the device is not
  available and nothing is open.\<close>

lemma out_write_start_result:
  assumes "audio_inv lost st" and "ad_out st s = Some out" and "fresh_pcm e st"
  shows "\<exists>ret st' out'. out_write_start e st s = Some (ret, st') \<and> audio_inv lost st' \<and> ad_out st' s = Some out' \<and>
    so_written out' = so_written out \<and> ad_locks st' = ad_locks st \<and> ad_writes st' = ad_writes st \<and>
    pc_rate (so_config out') = pc_rate (so_config out) \<and>
    (if so_standby out \<and> (so_unavailable out \<or> \<not> snd (pcm_open_fn e (ad_opens st)))
     then ret = -ENODEV \<and> so_standby out' \<and> so_unavailable out' \<and> ad_pcms st' = ad_pcms st
     else ret = 0 \<and> \<not> so_standby out' \<and>
       so_pcm out' = (if so_standby out then fst (pcm_open_fn e (ad_opens st)) else so_pcm out))"
proof (cases "so_standby out \<and> \<not> so_unavailable out")
  case False
  then show ?thesis using assms by (auto simp: out_write_start_def start_output_stream_def)
next
  case True
  obtain h ready where h: "pcm_open_fn e (ad_opens st) = (h, ready)" "h \<notin> insert 0 (ad_pcms st)"
    using assms(3) by (cases "pcm_open_fn e (ad_opens st)") (auto simp: fresh_pcm_def)
  let ?o = "out\<lparr>so_write_threshold := int (PLAYBACK_PERIOD_COUNT * PERIOD_SIZE),
    so_config := (so_config out)\<lparr>pc_start_threshold := of_nat (2 * PERIOD_SIZE), pc_avail_min := of_nat PERIOD_SIZE\<rparr>,
    so_pcm := h\<rparr>"
  show ?thesis
  proof (cases ready)
    case False
    let ?st = "put_out (st\<lparr>ad_pcms := ad_pcms st, ad_opens := ad_opens st + 1, ad_active_output := 0\<rparr>) s (?o\<lparr>so_unavailable := True\<rparr>)"
    have "out_write_start e st s = Some (-ENODEV, ?st)"
      using True False h assms(2)
      by (simp add: out_write_start_def start_output_stream_def pcm_open_def pcm_close_def Let_def)
    moreover have "audio_inv lost ?st" by (rule audio_inv_keep [OF assms(1,2)]) (use True in auto)
    ultimately show ?thesis using True False h by simp
  next
    case ready: True
    let ?st = "put_out (put_out (st\<lparr>ad_pcms := insert h (ad_pcms st), ad_opens := ad_opens st + 1, ad_active_output := s\<rparr>) s ?o)
      s (?o\<lparr>so_standby := False\<rparr>)"
    have "out_write_start e st s = Some (0, ?st)"
      using True ready h assms(2)
      by (simp add: out_write_start_def start_output_stream_def pcm_open_def Let_def)
    moreover have "audio_inv lost ?st" by (rule audio_inv_start [OF assms(1,2) _ h(2), of "?o\<lparr>so_standby := False\<rparr>"]) (use True in auto)
    ultimately show ?thesis using True ready h by simp
  qed
qed

lemma out_write_pcm_result:
  assumes "audio_inv lost st" and "ad_out st s = Some out" and "\<not> so_standby out"
  shows "\<exists>st' out'. out_write_pcm e st s data n = Some (pcm_write_fn e (length (ad_writes st)), st') \<and> audio_inv lost st' \<and>
    ad_out st' s = Some out' \<and> so_standby out' = False \<and> ad_locks st' = ad_locks st \<and>
    pc_rate (so_config out') = pc_rate (so_config out) \<and>
    ad_writes st' = ad_writes st @ [(so_pcm out, data, pcm_write_fn e (length (ad_writes st)))] \<and>
    so_written out' = (if pcm_write_fn e (length (ad_writes st)) = 0 then so_written out + of_nat n else so_written out)"
proof -
  let ?ret = "pcm_write_fn e (length (ad_writes st))"
  let ?st = "st\<lparr>ad_writes := ad_writes st @ [(so_pcm out, data, ?ret)]\<rparr>"
  let ?o = "out\<lparr>so_written := so_written out + of_nat n\<rparr>"
  have "audio_inv lost (put_out ?st s ?o)" by (rule audio_inv_keep [OF assms(1,2)]) auto
  then show ?thesis
    using assms audio_inv_pcm [OF assms] by (auto simp: out_write_pcm_def Let_def audio_inv_only)
qed

text \<open>A whole write. \<open>fails\<close> says that the device cannot be started.\<close>

lemma out_write_result:
  assumes "audio_inv lost st" and "ad_out st s = Some out" and "fresh_pcm e st" and "frame_size e \<noteq> 0"
    and "fails \<longleftrightarrow> so_standby out \<and> (so_unavailable out \<or> \<not> snd (pcm_open_fn e (ad_opens st)))"
    and "frames = length buffer div unat (frame_size e)" and "rc = pcm_write_fn e (length (ad_writes st))"
  shows "\<exists>slept st' out'. out_write e st s buffer = Some (length buffer, slept, st') \<and> audio_inv lost st' \<and>
    ad_out st' s = Some out' \<and>
    ad_locks st' = ad_locks st @ [Lock_dev, Lock_out s, Unlock_dev, Unlock_out s] \<and>
    (if fails then ad_writes st' = ad_writes st \<and> so_standby out' \<and> so_unavailable out' \<and>
       so_written out' = so_written out \<and> ad_pcms st' = ad_pcms st
     else \<not> so_standby out' \<and>
       ad_writes st' = ad_writes st @ [(if so_standby out then fst (pcm_open_fn e (ad_opens st)) else so_pcm out,
         take (frames * unat (frame_size e)) buffer, rc)] \<and>
       so_written out' = (if rc = 0 then so_written out + of_nat frames else so_written out)) \<and>
    slept = (if fails \<or> rc \<noteq> 0
      then Some (ucast ((of_nat (length buffer) * 1000000 :: u64) div frame_size e div 48000)) else None)"
proof -
  let ?st = "lock_op (Lock_out s) (lock_op Lock_dev st)"
  have i: "audio_inv lost ?st" "ad_out ?st s = Some out" "fresh_pcm e ?st"
    using assms(1-3) by (simp_all add: fresh_pcm_def)
  obtain ret st1 out1 where 1: "out_write_start e ?st s = Some (ret, st1)" "audio_inv lost st1" "ad_out st1 s = Some out1"
    "so_written out1 = so_written out" "ad_locks st1 = ad_locks st @ [Lock_dev, Lock_out s]" "ad_writes st1 = ad_writes st"
    "if fails then ret = -ENODEV \<and> so_standby out1 \<and> so_unavailable out1 \<and> ad_pcms st1 = ad_pcms st
     else ret = 0 \<and> \<not> so_standby out1 \<and>
       so_pcm out1 = (if so_standby out then fst (pcm_open_fn e (ad_opens st)) else so_pcm out)"
    using out_write_start_result [OF i] unfolding assms(5) by auto
  have rate: "write_sleep e o' n = ucast ((of_nat n * 1000000 :: u64) div frame_size e div 48000)"
    if "audio_inv lost v" "ad_out v s = Some o'" for v o' n
  proof -
    have "pc_rate (so_config o') = CODEC_SAMPLING_RATE" using that by (auto simp: audio_inv_def ran_def)
    then show ?thesis by (simp add: write_sleep_def out_get_sample_rate_def CODEC_SAMPLING_RATE_def)
  qed
  show ?thesis
  proof (cases fails)
    case True
    then show ?thesis using 1 assms(4) rate [OF 1(2,3)] by (auto simp: out_write_def)
  next
    case False
    let ?st1 = "lock_op Unlock_dev st1"
    have "audio_inv lost ?st1" "ad_out ?st1 s = Some out1" "\<not> so_standby out1" using 1 False by auto
    from out_write_pcm_result [OF this, of e "take (frames * unat (frame_size e)) buffer" frames]
    obtain st2 out2 where 2: "out_write_pcm e ?st1 s (take (frames * unat (frame_size e)) buffer) frames = Some (rc, st2)"
      "audio_inv lost st2" "ad_out st2 s = Some out2" "\<not> so_standby out2" "ad_locks st2 = ad_locks st1 @ [Unlock_dev]"
      "ad_writes st2 = ad_writes st @ [(so_pcm out1, take (frames * unat (frame_size e)) buffer, rc)]"
      "so_written out2 = (if rc = 0 then so_written out + of_nat frames else so_written out)"
      using 1(4,6) assms(7) by auto
    then show ?thesis using 1 False assms(4,6) rate [OF 2(2,3)] by (auto simp: out_write_def)
  qed
qed

lemma out_standby_result:
  assumes "audio_inv lost st" and "ad_out st s = Some out"
  shows "\<exists>st' out'. out_standby st s = Some (0, st') \<and> audio_inv lost st' \<and> ad_out st' s = Some out' \<and> so_standby out' \<and>
    so_written out' = so_written out \<and>
    ad_locks st' = ad_locks st @ [Lock_dev, Lock_out s, Unlock_out s, Unlock_dev]"
proof (cases "so_standby out")
  case True
  then show ?thesis using assms by (auto simp: out_standby_def do_output_standby_def)
next
  case False
  let ?st = "lock_op (Lock_out s) (lock_op Lock_dev st)"
  let ?st1 = "put_out (?st\<lparr>ad_pcms := ad_pcms st - {so_pcm out}, ad_active_output := 0\<rparr>) s (out\<lparr>so_pcm := 0, so_standby := True\<rparr>)"
  have "out_standby st s = Some (0, lock_op Unlock_dev (lock_op (Unlock_out s) ?st1))"
    using assms(2) False audio_inv_pcm [OF assms False]
    by (simp add: out_standby_def do_output_standby_def pcm_close_def)
  moreover have "audio_inv lost ?st1" by (rule audio_inv_stop [OF assms False]) auto
  ultimately show ?thesis by simp
qed

section \<open>Reachable states\<close>

lemma audio_inv_open_stream:
  assumes "audio_inv lost st" and "s \<notin> dom (ad_out st)" and "so_standby out" and "pc_rate (so_config out) = CODEC_SAMPLING_RATE"
  shows "audio_inv lost (st\<lparr>ad_out := (ad_out st)(s \<mapsto> out)\<rparr>)"
proof -
  have "open_of (st\<lparr>ad_out := (ad_out st)(s \<mapsto> out)\<rparr>) = open_of st"
    using assms(2,3) by (auto simp: open_of_def fun_eq_iff split: option.split)
  moreover have "\<forall>o' \<in> ran ((ad_out st)(s \<mapsto> out)). pc_rate (so_config o') = CODEC_SAMPLING_RATE"
    using assms(1,4) unfolding audio_inv_def by (intro rates_upd) blast+
  ultimately show ?thesis using assms(1) by (simp add: audio_inv_def)
qed

lemma audio_inv_close_stream:
  assumes "audio_inv lost st" and "ad_out st s = Some out"
  shows "audio_inv (if so_standby out then lost else insert (so_pcm out) lost) (adev_close_output_stream st s)"
proof -
  let ?st = "adev_close_output_stream st s"
  have "ran ((ad_out st)(s := None)) \<subseteq> ran (ad_out st)" by (auto simp: ran_def)
  then have rates: "\<forall>o' \<in> ran (ad_out ?st). pc_rate (so_config o') = CODEC_SAMPLING_RATE"
    using assms(1) by (auto simp: audio_inv_def adev_close_output_stream_def)
  have pcms: "ad_pcms ?st = ad_pcms st" by (simp add: adev_close_output_stream_def)
  show ?thesis
  proof (cases "so_standby out")
    case True
    have "open_of ?st = open_of st"
      using assms(2) True by (auto simp: open_of_def adev_close_output_stream_def fun_eq_iff)
    then show ?thesis using assms(1) rates pcms True by (simp add: audio_inv_def)
  next
    case False
    have o: "open_of ?st = (open_of st)(s := None)" "open_of st s = Some (so_pcm out)"
      using assms(2) False by (auto simp: open_of_def adev_close_output_stream_def fun_eq_iff)
    have i: "inj_on (open_of st) (dom (open_of st))" using assms(1) by (simp add: audio_inv_def)
    then have "inj_on (open_of ?st) (dom (open_of ?st))" unfolding o(1) by (auto simp: inj_on_def)
    moreover have "so_pcm out \<in> ran (open_of st)" using o(2) by (rule ranI)
    ultimately show ?thesis
      using assms(1) rates pcms False ran_upd_None [OF i o(2)] unfolding audio_inv_def o(1) by auto
  qed
qed

definition locks_free :: "audio_state \<Rightarrow> bool" where
  "locks_free st \<longleftrightarrow> lock_run (ad_locks st) (False, None) = Some (False, None)"

lemma audio_reach_inv:
  assumes "frame_size e \<noteq> 0" and "audio_reach e lost st"
  shows "audio_inv lost st \<and> locks_free st"
  using assms(2)
proof (induction rule: audio_reach.induct)
  case (start iface st)
  then show ?case by (auto simp: adev_open_def audio_inv_def open_of_def [abs_def] locks_free_def)
next
  case (open_out lost st s params config ret config' st')
  have "audio_inv lost ((st\<lparr>ad_params := n\<rparr>)\<lparr>ad_out := (ad_out st)(s \<mapsto> out)\<rparr>)"
    if "so_standby out" "pc_rate (so_config out) = CODEC_SAMPLING_RATE" for n out
    using audio_inv_open_stream [of lost "st\<lparr>ad_params := n\<rparr>" s out] open_out that by (simp add: audio_inv_only)
  then show ?case using open_out
    by (auto simp: adev_open_output_stream_def Let_def audio_inv_only put_out_def hal_config_def locks_free_def
        split: if_splits)
next
  case (do_write lost st s buffer n slept st')
  obtain out where "ad_out st s = Some out" using do_write(2) by blast
  with do_write assms(1) out_write_result [of lost st s out e _ _ buffer] show ?case
    by (fastforce simp: locks_free_def lock_run_append)
next
  case (standby lost st s ret st')
  obtain out where "ad_out st s = Some out" using standby(2) by blast
  with standby out_standby_result [of lost st s out] show ?case by (auto simp: locks_free_def lock_run_append)
next
  case (set_parameters lost st s routing ret st')
  then show ?case
    by (auto simp: out_set_parameters_def Let_def locks_free_def lock_run_append audio_inv_only split: if_splits prod.splits)
next
  case (close_out lost st s out)
  then show ?case using audio_inv_close_stream [of lost st s out]
    by (auto simp: locks_free_def adev_close_output_stream_def)
next
  case (open_in lost st s ret st')
  then show ?case by (auto simp: adev_open_input_stream_def audio_inv_only locks_free_def split: if_splits)
next
  case (close_in lost st s)
  then show ?case by (simp add: adev_close_input_stream_def)
qed

text \<open>A stream that is closed while it runs leaves its PCM handle open with no owner.\<close>

lemma close_running_leaks:
  assumes "audio_inv lost st" and "ad_out st s = Some out" and "\<not> so_standby out"
  shows "so_pcm out \<in> ad_pcms (adev_close_output_stream st s)"
    and "so_pcm out \<notin> ran (open_of (adev_close_output_stream st s))"
proof -
  have o: "open_of (adev_close_output_stream st s) = (open_of st)(s := None)" "open_of st s = Some (so_pcm out)"
    using assms(2,3) by (auto simp: open_of_def adev_close_output_stream_def fun_eq_iff)
  show "so_pcm out \<in> ad_pcms (adev_close_output_stream st s)"
    using audio_inv_pcm [OF assms] by (simp add: adev_close_output_stream_def)
  show "so_pcm out \<notin> ran (open_of (adev_close_output_stream st s))"
    using ran_upd_None [of "open_of st" s "so_pcm out"] o assms(1) by (simp add: audio_inv_def)
qed

section \<open>Properties\<close>

text \<open>C33: who owns the open PCM handles. In every state that a client reaches by opening, writing to, pausing and
  closing streams, the open handles are those of the streams that are not in standby, one for
  each, and those of the streams that were closed while they ran, which nobody can close any
  more; so if every stream was put into standby before it was closed, there are no others. Writing
  to a stream and putting it into standby never touch a closed handle; and all locks have been
  taken in their order and are free.\<close>

theorem audio_handles_owned:
  assumes "audio_reach e lost st" and "frame_size e \<noteq> 0" and "s \<in> dom (ad_out st)" and "fresh_pcm e st"
  shows "ad_pcms st = ran (open_of st) \<union> lost \<and> ran (open_of st) \<inter> lost = {} \<and> inj_on (open_of st) (dom (open_of st)) \<and>
    out_write e st s buffer \<noteq> None \<and> out_standby st s \<noteq> None \<and>
    lock_run (ad_locks st) (False, None) = Some (False, None)"
proof -
  obtain out where out: "ad_out st s = Some out" using assms(3) by blast
  have i: "audio_inv lost st" "locks_free st" using audio_reach_inv [OF assms(2,1)] by auto
  have "out_write e st s buffer \<noteq> None"
    using out_write_result [OF i(1) out assms(4,2) refl refl refl, of buffer] by auto
  moreover have "out_standby st s \<noteq> None" using out_standby_result [OF i(1) out] by auto
  ultimately show ?thesis using i by (simp add: audio_inv_def locks_free_def)
qed

text \<open>C34: a write to an output stream. It always reports the whole buffer as written. If the device is
  not available nothing is written and nothing stays open; otherwise the whole frames of the
  buffer go to the PCM handle of the stream and are counted if the write succeeds. When
  nothing was played the caller is delayed for the duration of the buffer.\<close>

theorem audio_write_effect:
  assumes "audio_reach e lost st" and "ad_out st s = Some out" and "fresh_pcm e st" and "frame_size e \<noteq> 0"
    and "fails \<longleftrightarrow> so_standby out \<and> (so_unavailable out \<or> \<not> snd (pcm_open_fn e (ad_opens st)))"
    and "frames = length buffer div unat (frame_size e)" and "rc = pcm_write_fn e (length (ad_writes st))"
  shows "\<exists>slept st' out'. out_write e st s buffer = Some (length buffer, slept, st') \<and> ad_out st' s = Some out' \<and>
    (if fails then ad_writes st' = ad_writes st \<and> so_standby out' \<and> so_unavailable out' \<and>
       so_written out' = so_written out \<and> ad_pcms st' = ad_pcms st
     else \<not> so_standby out' \<and>
       ad_writes st' = ad_writes st @ [(if so_standby out then fst (pcm_open_fn e (ad_opens st)) else so_pcm out,
         take (frames * unat (frame_size e)) buffer, rc)] \<and>
       so_written out' = (if rc = 0 then so_written out + of_nat frames else so_written out)) \<and>
    slept = (if fails \<or> rc \<noteq> 0
      then Some (ucast ((of_nat (length buffer) * 1000000 :: u64) div frame_size e div 48000)) else None)"
proof -
  have i: "audio_inv lost st" using audio_reach_inv [OF assms(4,1)] by simp
  show ?thesis using out_write_result [OF i assms(2-7)] by (elim exE conjE) (intro exI conjI)
qed

text \<open>After a failed start of the device the stream still points to the released PCM handle, so
  asking for the presentation position accesses it.\<close>

lemma position_after_failed_start:
  assumes "ad_out st s = Some out" and "so_standby out" and "\<not> so_unavailable out"
    and "pcm_open_fn e (ad_opens st) = (h, False)" and "h \<noteq> 0" and "frame_size e \<noteq> 0"
  shows "\<exists>n slept st'. out_write e st s buffer = Some (n, slept, st') \<and>
    out_get_presentation_position st' s hts = None"
  using assms
  by (auto simp: out_write_def out_write_start_def start_output_stream_def pcm_open_def pcm_close_def Let_def
      out_get_presentation_position_def)

definition demo_audio_env :: audio_env where
  "demo_audio_env = \<lparr>pcm_open_fn = \<lambda>k. (k + 1, even k), pcm_write_fn = \<lambda>_. 0, frame_size = 4, out_all = 0xFFFF,
     channel_count_from_mask = \<lambda>_. 2, mask_from_channel_count = \<lambda>_. 3, pcm_format_from_audio = \<lambda>_. 0,
     audio_format_from_pcm = \<lambda>_. 1\<rparr>"

definition demo_audio :: "nat \<Rightarrow> audio_state" where
  "demo_audio k = snd (snd (adev_open_output_stream demo_audio_env
     ((the (snd (adev_open ''audio'' ''audio'' True)))\<lparr>ad_opens := k\<rparr>) True 7
     \<lparr>ac_sample_rate = 44100, ac_channel_mask = 3, ac_format = 1\<rparr>))"

definition demo_stream :: alsa_stream_out where
  "demo_stream = \<lparr>so_config = hal_config, so_pcm = 0, so_unavailable = False, so_standby = True,
     so_write_threshold = 0, so_written = 0\<rparr>"

lemma demo_audio_eq: "demo_audio k = \<lparr>ad_devices = 0, ad_active_output = 0, ad_out = [7 \<mapsto> demo_stream], ad_in = {},
    ad_pcms = {}, ad_params = 1, ad_opens = k, ad_writes = [], ad_locks = []\<rparr>"
  by (simp add: demo_audio_def adev_open_def adev_open_output_stream_def put_out_def demo_stream_def Let_def)

lemma demo_audio_reach: "audio_reach demo_audio_env {} (demo_audio 0)"
proof -
  let ?st = "the (snd (adev_open ''audio'' ''audio'' True))"
  have 1: "adev_open ''audio'' ''audio'' True = (0, Some ?st)" by (simp add: adev_open_def)
  have "adev_open_output_stream demo_audio_env ?st True 7 c = (fst r, fst (snd r), snd (snd r))"
    if "r = adev_open_output_stream demo_audio_env ?st True 7 c" for r c using that by simp
  from audio_reach.open_out [OF audio_reach.start [OF 1] _ this [OF refl]] show ?thesis
    by (simp add: demo_audio_def adev_open_def)
qed

text \<open>A stream runs and is closed, another is opened.\<close>

lemma demo_lost:
  "\<exists>st. audio_reach demo_audio_env {1} st \<and> ad_out st = [8 \<mapsto> demo_stream] \<and> ad_pcms st = {1} \<and> ad_opens st = 1"
proof -
  let ?e = demo_audio_env and ?st = "demo_audio 0" and ?c = "\<lparr>ac_sample_rate = 44100, ac_channel_mask = 3, ac_format = 1\<rparr>"
  have f: "fresh_pcm ?e ?st" "7 \<in> dom (ad_out ?st)" by (simp_all add: demo_audio_eq fresh_pcm_def demo_audio_env_def)
  obtain slept st1 out where w: "out_write ?e ?st 7 [] = Some (0, slept, st1)" "ad_out st1 = [7 \<mapsto> out]" "\<not> so_standby out"
    "so_pcm out = 1" "ad_pcms st1 = {1}" "ad_opens st1 = 1"
    by (simp add: out_write_def out_write_start_def start_output_stream_def pcm_open_def out_write_pcm_def lock_op_def put_out_def
        demo_audio_eq demo_audio_env_def demo_stream_def Let_def)
  have r1: "audio_reach ?e {} st1" by (rule audio_reach.do_write [OF demo_audio_reach f(2,1) w(1)])
  let ?st2 = "adev_close_output_stream st1 7"
  have r2: "audio_reach ?e {1} ?st2" using audio_reach.close_out [OF r1, of 7 out] w by simp
  have "audio_reach ?e {1} (snd (snd (adev_open_output_stream ?e ?st2 True 8 ?c)))"
    by (rule audio_reach.open_out [OF r2 _ surjective_pairing [THEN trans]])
      (use w in \<open>auto simp: adev_close_output_stream_def prod_eq_iff\<close>)
  moreover have "ad_out (snd (snd (adev_open_output_stream ?e ?st2 True 8 ?c))) = [8 \<mapsto> demo_stream]"
    "ad_pcms (snd (snd (adev_open_output_stream ?e ?st2 True 8 ?c))) = {1}"
    "ad_opens (snd (snd (adev_open_output_stream ?e ?st2 True 8 ?c))) = 1"
    using w by (simp_all add: adev_open_output_stream_def adev_close_output_stream_def put_out_def demo_stream_def Let_def)
  ultimately show ?thesis by blast
qed

theorem audio_handles_owned_witness:
  "\<exists>st. audio_reach demo_audio_env {1} st \<and> ad_pcms st = {1} \<and>
     out_write demo_audio_env st 8 [0, 0, 0, 0, 0] \<noteq> None \<and> out_standby st 8 \<noteq> None"
proof -
  obtain st where st: "audio_reach demo_audio_env {1} st" "ad_out st = [8 \<mapsto> demo_stream]" "ad_pcms st = {1}" "ad_opens st = 1"
    using demo_lost by blast
  then show ?thesis
    using audio_handles_owned [OF st(1), of 8 "[0, 0, 0, 0, 0]"] by (auto simp: demo_audio_env_def fresh_pcm_def)
qed

theorem audio_write_effect_witness:
  "\<exists>st' out'. out_write demo_audio_env (demo_audio 0) 7 [0, 0, 0, 0, 0] = Some (5, None, st') \<and>
    ad_writes st' = [(1, [0, 0, 0, 0], 0)] \<and> ad_out st' 7 = Some out' \<and> so_written out' = 1"
  using audio_write_effect [OF demo_audio_reach, of 7 demo_stream False 1 "[0, 0, 0, 0, 0]" 0]
  by (auto simp: demo_audio_eq demo_audio_env_def fresh_pcm_def demo_stream_def)

end
