(* ===== verification/Gralloc.thy ===== *)
theory Gralloc
  imports Prelude "HOL-Library.Signed_Division"
begin

text \<open>
  The graphics memory allocator: \<^verbatim>\<open>gralloc/gralloc_gbm.cpp\<close> (buffers, registration, locking) and
  \<^verbatim>\<open>gralloc/gralloc.cpp\<close> (the entry points of the module). Handles, buffer objects and devices are
  addresses, 0 is the null pointer. What the GBM library returns is an argument: the result of
  every call, numbered by the calls of its kind, and the attributes of a buffer object. The
  state keeps the live objects, so that the use of a dead one is the value \<^term>\<open>None\<close>, as is an
  overflow of an \<open>int\<close>, a division by zero and locking a mutex twice.
\<close>

unbundle bit_operations_syntax

section \<open>Data\<close>

abbreviation (input) HAL_PIXEL_FORMAT_RGBA_8888 :: u32 where "HAL_PIXEL_FORMAT_RGBA_8888 \<equiv> 1"
abbreviation (input) HAL_PIXEL_FORMAT_RGBX_8888 :: u32 where "HAL_PIXEL_FORMAT_RGBX_8888 \<equiv> 2"
abbreviation (input) HAL_PIXEL_FORMAT_RGB_888 :: u32 where "HAL_PIXEL_FORMAT_RGB_888 \<equiv> 3"
abbreviation (input) HAL_PIXEL_FORMAT_RGB_565 :: u32 where "HAL_PIXEL_FORMAT_RGB_565 \<equiv> 4"
abbreviation (input) HAL_PIXEL_FORMAT_BGRA_8888 :: u32 where "HAL_PIXEL_FORMAT_BGRA_8888 \<equiv> 5"
abbreviation (input) HAL_PIXEL_FORMAT_YCbCr_422_SP :: u32 where "HAL_PIXEL_FORMAT_YCbCr_422_SP \<equiv> 0x10"
abbreviation (input) HAL_PIXEL_FORMAT_YCrCb_420_SP :: u32 where "HAL_PIXEL_FORMAT_YCrCb_420_SP \<equiv> 0x11"
abbreviation (input) HAL_PIXEL_FORMAT_YCbCr_422_I :: u32 where "HAL_PIXEL_FORMAT_YCbCr_422_I \<equiv> 0x14"
abbreviation (input) HAL_PIXEL_FORMAT_YV12 :: u32 where "HAL_PIXEL_FORMAT_YV12 \<equiv> 0x32315659"

abbreviation (input) GBM_FORMAT_ABGR8888 :: u32 where "GBM_FORMAT_ABGR8888 \<equiv> 0x34324241"
abbreviation (input) GBM_FORMAT_XBGR8888 :: u32 where "GBM_FORMAT_XBGR8888 \<equiv> 0x34324258"
abbreviation (input) GBM_FORMAT_RGB888 :: u32 where "GBM_FORMAT_RGB888 \<equiv> 0x34324752"
abbreviation (input) GBM_FORMAT_RGB565 :: u32 where "GBM_FORMAT_RGB565 \<equiv> 0x36314752"
abbreviation (input) GBM_FORMAT_ARGB8888 :: u32 where "GBM_FORMAT_ARGB8888 \<equiv> 0x34325241"
abbreviation (input) GBM_FORMAT_GR88 :: u32 where "GBM_FORMAT_GR88 \<equiv> 0x38385247"

abbreviation (input) GRALLOC_USAGE_SW_READ_OFTEN :: u32 where "GRALLOC_USAGE_SW_READ_OFTEN \<equiv> 3"
abbreviation (input) GRALLOC_USAGE_SW_READ_MASK :: u32 where "GRALLOC_USAGE_SW_READ_MASK \<equiv> 0xF"
abbreviation (input) GRALLOC_USAGE_SW_WRITE_OFTEN :: u32 where "GRALLOC_USAGE_SW_WRITE_OFTEN \<equiv> 0x30"
abbreviation (input) GRALLOC_USAGE_SW_WRITE_MASK :: u32 where "GRALLOC_USAGE_SW_WRITE_MASK \<equiv> 0xF0"
abbreviation (input) GRALLOC_USAGE_HW_TEXTURE :: u32 where "GRALLOC_USAGE_HW_TEXTURE \<equiv> 0x100"
abbreviation (input) GRALLOC_USAGE_HW_RENDER :: u32 where "GRALLOC_USAGE_HW_RENDER \<equiv> 0x200"
abbreviation (input) GRALLOC_USAGE_HW_COMPOSER :: u32 where "GRALLOC_USAGE_HW_COMPOSER \<equiv> 0x800"
abbreviation (input) GRALLOC_USAGE_HW_FB :: u32 where "GRALLOC_USAGE_HW_FB \<equiv> 0x1000"

abbreviation (input) GBM_BO_USE_SCANOUT :: u32 where "GBM_BO_USE_SCANOUT \<equiv> 1"
abbreviation (input) GBM_BO_USE_CURSOR :: u32 where "GBM_BO_USE_CURSOR \<equiv> 2"
abbreviation (input) GBM_BO_USE_RENDERING :: u32 where "GBM_BO_USE_RENDERING \<equiv> 4"
abbreviation (input) GBM_BO_USE_LINEAR :: u32 where "GBM_BO_USE_LINEAR \<equiv> 16"
abbreviation (input) GBM_BO_TRANSFER_READ :: u32 where "GBM_BO_TRANSFER_READ \<equiv> 1"
abbreviation (input) GBM_BO_TRANSFER_WRITE :: u32 where "GBM_BO_TRANSFER_WRITE \<equiv> 2"

record gralloc_handle_t =
  gh_prime_fd :: int
  gh_width :: u32
  gh_height :: u32
  gh_format :: u32
  gh_usage :: u32
  gh_stride :: u32
  gh_modifier :: u64

record bo_data_t =
  bd_map_data :: nat
  bd_lock_count :: int
  bd_locked_for :: u32

text \<open>The state: \<open>gr_map\<close> is \<open>gbm_bo_handle_map\<close>, \<open>gr_mutex\<close> and \<open>gr_gbm\<close> are the fields of the module,
  \<open>gr_devices\<close> the live devices with their descriptors, \<open>gr_fds\<close> the open descriptors,
  \<open>gr_bos\<close> the live buffer objects with their user data, \<open>gr_maps\<close> the mappings that exist,
  and then the requests to the library.\<close>

record gralloc_state =
  gr_mutex :: bool
  gr_gbm :: nat
  gr_devices :: "nat \<Rightarrow> int option"
  gr_fds :: "int list"
  gr_tries :: nat
  gr_map :: "nat \<Rightarrow> nat option"
  gr_handles :: "nat \<Rightarrow> gralloc_handle_t option"
  gr_new :: nat
  gr_bos :: "nat \<Rightarrow> bo_data_t option option"
  gr_maps :: "(nat \<times> nat) set"
  gr_creates :: "(u32 \<times> u32 \<times> u32 \<times> u32) list"
  gr_imports :: "(u32 \<times> u32 \<times> u32 \<times> int \<times> u32 \<times> u64) list"
  gr_requests :: "(nat \<times> u32 \<times> u32 \<times> u32) list"

record gbm_env =
  ge_open :: "nat \<Rightarrow> int"
  ge_device :: "nat \<Rightarrow> nat"
  ge_handle :: "nat \<Rightarrow> nat"
  ge_create :: "nat \<Rightarrow> nat"
  ge_import :: "nat \<Rightarrow> nat"
  ge_map :: "nat \<Rightarrow> nat \<times> nat \<times> u32"
  ge_fd :: "nat \<Rightarrow> int"
  ge_stride :: "nat \<Rightarrow> u32"
  ge_modifier :: "nat \<Rightarrow> u64"
  ge_errno :: int

definition get_gbm_format :: "u32 \<Rightarrow> u32" where
  "get_gbm_format format =
     (if format = HAL_PIXEL_FORMAT_RGBA_8888 then GBM_FORMAT_ABGR8888
      else if format = HAL_PIXEL_FORMAT_RGBX_8888 then GBM_FORMAT_XBGR8888
      else if format = HAL_PIXEL_FORMAT_RGB_888 then GBM_FORMAT_RGB888
      else if format = HAL_PIXEL_FORMAT_RGB_565 then GBM_FORMAT_RGB565
      else if format = HAL_PIXEL_FORMAT_BGRA_8888 then GBM_FORMAT_ARGB8888
      else if format = HAL_PIXEL_FORMAT_YV12 then GBM_FORMAT_GR88
      else 0)"

definition gralloc_gbm_get_bpp :: "u32 \<Rightarrow> u32" where
  "gralloc_gbm_get_bpp format =
     (if format = HAL_PIXEL_FORMAT_RGBA_8888 \<or> format = HAL_PIXEL_FORMAT_RGBX_8888 \<or>
         format = HAL_PIXEL_FORMAT_BGRA_8888 then 4
      else if format = HAL_PIXEL_FORMAT_RGB_888 then 3
      else if format = HAL_PIXEL_FORMAT_RGB_565 \<or> format = HAL_PIXEL_FORMAT_YCbCr_422_I then 2
      else if format = HAL_PIXEL_FORMAT_YV12 \<or> format = HAL_PIXEL_FORMAT_YCbCr_422_SP \<or>
         format = HAL_PIXEL_FORMAT_YCrCb_420_SP then 1
      else 0)"

text \<open>The cursor flag is commented out in the source.\<close>

definition get_pipe_bind :: "u32 \<Rightarrow> u32" where
  "get_pipe_bind usage =
     (if usage AND (GRALLOC_USAGE_SW_READ_OFTEN OR GRALLOC_USAGE_SW_WRITE_OFTEN) \<noteq> 0 then GBM_BO_USE_LINEAR else 0) OR
     (if usage AND (GRALLOC_USAGE_HW_RENDER OR GRALLOC_USAGE_HW_TEXTURE) \<noteq> 0 then GBM_BO_USE_RENDERING else 0) OR
     (if usage AND GRALLOC_USAGE_HW_FB \<noteq> 0 then GBM_BO_USE_SCANOUT else 0) OR
     (if usage AND GRALLOC_USAGE_HW_COMPOSER \<noteq> 0 then GBM_BO_USE_SCANOUT OR GBM_BO_USE_RENDERING else 0)"

section \<open>Buffer objects\<close>

text \<open>\<open>gbm_import\<close> with a GBM library that knows modifiers; the result is the buffer object, or 0.\<close>

definition gbm_import :: "gbm_env \<Rightarrow> gralloc_state \<Rightarrow> nat \<Rightarrow> nat \<Rightarrow> (nat \<times> gralloc_state) option" where
  "gbm_import e s gbm handle = do {
     hnd \<leftarrow> gr_handles s handle;
     if gh_prime_fd hnd < 0 then Some (0, s)
     else if gbm \<notin> dom (gr_devices s) then None
     else
       let yv12 = (gh_format hnd = HAL_PIXEL_FORMAT_YV12);
           width = (if yv12 then gh_width hnd div 2 else gh_width hnd);
           height = (if yv12 then gh_height hnd + gh_height hnd div 2 else gh_height hnd);
           bo = ge_import e (length (gr_imports s));
           s1 = s\<lparr>gr_imports := gr_imports s @
             [(width, height, get_gbm_format (gh_format hnd), gh_prime_fd hnd, gh_stride hnd, gh_modifier hnd)]\<rparr>
       in Some (bo, if bo = 0 then s1 else s1\<lparr>gr_bos := (gr_bos s1)(bo \<mapsto> None)\<rparr>) }"

definition gbm_alloc :: "gbm_env \<Rightarrow> gralloc_state \<Rightarrow> nat \<Rightarrow> nat \<Rightarrow> (nat \<times> gralloc_state) option" where
  "gbm_alloc e s gbm handle = do {
     hnd \<leftarrow> gr_handles s handle;
     if gbm \<notin> dom (gr_devices s) then None
     else
       let usage = get_pipe_bind (gh_usage hnd);
           cursor = (usage AND GBM_BO_USE_CURSOR \<noteq> 0);
           width0 = (if cursor \<and> gh_width hnd < 64 then 64 else gh_width hnd);
           height0 = (if cursor \<and> gh_height hnd < 64 then 64 else gh_height hnd);
           yv12 = (gh_format hnd = HAL_PIXEL_FORMAT_YV12);
           width = (if yv12 then of_int (sint width0 sdiv 2) else width0);
           height = (if yv12 then height0 + gh_height hnd div 2 else height0);
           bo = ge_create e (length (gr_creates s));
           s1 = s\<lparr>gr_creates := gr_creates s @ [(width, height, get_gbm_format (gh_format hnd), usage)]\<rparr>
       in if bo = 0 then Some (0, s1)
          else Some (bo, s1\<lparr>gr_bos := (gr_bos s1)(bo \<mapsto> None),
            gr_handles := (gr_handles s1)(handle \<mapsto> hnd\<lparr>gh_prime_fd := ge_fd e bo, gh_stride := ge_stride e bo,
              gh_modifier := ge_modifier e bo\<rparr>)\<rparr>) }"

text \<open>\<open>operator[]\<close> of the map enters a null pointer for a handle that it does not have.\<close>

definition gralloc_gbm_bo_from_handle :: "gralloc_state \<Rightarrow> nat \<Rightarrow> nat \<times> gralloc_state" where
  "gralloc_gbm_bo_from_handle s handle =
     (case gr_map s handle of
        Some bo \<Rightarrow> (bo, s)
      | None \<Rightarrow> (0, s\<lparr>gr_map := (gr_map s)(handle \<mapsto> 0)\<rparr>))"

definition emplace :: "gralloc_state \<Rightarrow> nat \<Rightarrow> nat \<Rightarrow> gralloc_state" where
  "emplace s handle bo = (if handle \<in> dom (gr_map s) then s else s\<lparr>gr_map := (gr_map s)(handle \<mapsto> bo)\<rparr>)"

definition gbm_free :: "gralloc_state \<Rightarrow> nat \<Rightarrow> gralloc_state option" where
  "gbm_free s handle =
     (case gralloc_gbm_bo_from_handle s handle of (bo, s1) \<Rightarrow>
        if bo = 0 then Some s1
        else if bo \<notin> dom (gr_bos s1) then None
        else Some (s1\<lparr>gr_map := (gr_map s1)(handle := None), gr_bos := (gr_bos s1)(bo := None)\<rparr>))"

text \<open>\<open>gbm_map\<close>: return value, \<open>*addr\<close> if it is set, state.\<close>

definition int_ok :: "int \<Rightarrow> bool" where
  "int_ok i \<longleftrightarrow> - (2 ^ 31) \<le> i \<and> i < 2 ^ 31"

definition set_data :: "gralloc_state \<Rightarrow> nat \<Rightarrow> bo_data_t \<Rightarrow> gralloc_state" where
  "set_data s bo d = s\<lparr>gr_bos := (gr_bos s)(bo \<mapsto> Some d)\<rparr>"

definition gbm_map ::
    "gbm_env \<Rightarrow> gralloc_state \<Rightarrow> nat \<Rightarrow> int \<Rightarrow> int \<Rightarrow> int \<Rightarrow> int \<Rightarrow> bool \<Rightarrow> (int \<times> nat option \<times> gralloc_state) option" where
  "gbm_map e s0 handle x y w h enable_write =
     (case gralloc_gbm_bo_from_handle s0 handle of (bo, s) \<Rightarrow> do {
        data \<leftarrow> gr_bos s bo;
        d \<leftarrow> data;
        if bd_map_data d \<noteq> 0 then Some (-EINVAL, None, s)
        else do {
          hnd \<leftarrow> gr_handles s handle;
          let yv12 = (gh_format hnd = HAL_PIXEL_FORMAT_YV12);
          let w1 = (if yv12 then w sdiv 2 else w);
          let h1 = (if yv12 then h + h sdiv 2 else h);
          if \<not> int_ok h1 \<or> \<not> int_ok (x + w1) \<or> \<not> int_ok (y + h1) then None
          else
            let flags = (if enable_write then GBM_BO_TRANSFER_READ OR GBM_BO_TRANSFER_WRITE else GBM_BO_TRANSFER_READ);
                (addr, map_data, stride) = ge_map e (length (gr_requests s));
                s1 = s\<lparr>gr_requests := gr_requests s @ [(bo, of_int (x + w1), of_int (y + h1), flags)],
                  gr_maps := (if addr = 0 then gr_maps s else insert (bo, map_data) (gr_maps s))\<rparr>;
                s2 = set_data s1 bo (d\<lparr>bd_map_data := map_data\<rparr>)
            in if addr = 0 then Some (-ENOMEM, Some 0, s2)
               else if stride \<noteq> ge_stride e bo then None
               else Some (0, Some addr, s2) } })"

definition gbm_unmap :: "gralloc_state \<Rightarrow> nat \<Rightarrow> gralloc_state option" where
  "gbm_unmap s bo = do {
     data \<leftarrow> gr_bos s bo;
     d \<leftarrow> data;
     if (bo, bd_map_data d) \<notin> gr_maps s then None
     else Some (set_data (s\<lparr>gr_maps := gr_maps s - {(bo, bd_map_data d)}\<rparr>) bo (d\<lparr>bd_map_data := 0\<rparr>)) }"

section \<open>Devices\<close>

definition gbm_dev_destroy :: "gralloc_state \<Rightarrow> nat \<Rightarrow> gralloc_state option" where
  "gbm_dev_destroy s gbm = do {
     fd \<leftarrow> gr_devices s gbm;
     Some (s\<lparr>gr_devices := (gr_devices s)(gbm := None), gr_fds := remove1 fd (gr_fds s)\<rparr>) }"

definition gbm_dev_create :: "gbm_env \<Rightarrow> gralloc_state \<Rightarrow> nat \<times> gralloc_state" where
  "gbm_dev_create e s =
     (let fd = ge_open e (gr_tries s); gbm = ge_device e (gr_tries s); s1 = s\<lparr>gr_tries := gr_tries s + 1\<rparr> in
      if fd < 0 then (0, s1)
      else if gbm = 0 then (0, s1\<lparr>gr_fds := remove1 fd (fd # gr_fds s1)\<rparr>)
      else (gbm, s1\<lparr>gr_fds := fd # gr_fds s1, gr_devices := (gr_devices s1)(gbm \<mapsto> fd)\<rparr>))"

section \<open>Handles\<close>

definition gralloc_gbm_handle_register :: "gbm_env \<Rightarrow> gralloc_state \<Rightarrow> nat \<Rightarrow> nat \<Rightarrow> (int \<times> gralloc_state) option" where
  "gralloc_gbm_handle_register e s handle gbm =
     (if handle = 0 then Some (-EINVAL, s)
      else if handle \<in> dom (gr_map s) then Some (-EINVAL, s)
      else do {
        (bo, s1) \<leftarrow> gbm_import e s gbm handle;
        if bo = 0 then Some (-EINVAL, s1) else Some (0, emplace s1 handle bo) })"

definition gralloc_gbm_handle_unregister :: "gralloc_state \<Rightarrow> nat \<Rightarrow> (int \<times> gralloc_state) option" where
  "gralloc_gbm_handle_unregister s handle = map_option (Pair 0) (gbm_free s handle)"

text \<open>The result is the handle, \<open>*stride\<close> if it is set, and the state.\<close>

definition gralloc_gbm_bo_create ::
    "gbm_env \<Rightarrow> gralloc_state \<Rightarrow> nat \<Rightarrow> u32 \<Rightarrow> u32 \<Rightarrow> u32 \<Rightarrow> u32 \<Rightarrow> (nat \<times> u32 option \<times> gralloc_state) option" where
  "gralloc_gbm_bo_create e s gbm width height format usage =
     (let handle = ge_handle e (gr_new s); s0 = s\<lparr>gr_new := gr_new s + 1\<rparr> in
      if handle = 0 then Some (0, None, s0)
      else
        let s1 = s0\<lparr>gr_handles := (gr_handles s0)(handle \<mapsto> \<lparr>gh_prime_fd = -1, gh_width = width, gh_height = height,
              gh_format = format, gh_usage = usage, gh_stride = 0, gh_modifier = 0\<rparr>)\<rparr>
        in do {
          (bo, s2) \<leftarrow> gbm_alloc e s1 gbm handle;
          if bo = 0 then Some (0, None, s2\<lparr>gr_handles := (gr_handles s2)(handle := None)\<rparr>)
          else do {
            let s3 = emplace s2 handle bo;
            hnd \<leftarrow> gr_handles s3 handle;
            if gralloc_gbm_get_bpp format = 0 then None
            else Some (handle, Some (gh_stride hnd div gralloc_gbm_get_bpp format), s3) } })"

definition SW_MASK :: u32 where
  "SW_MASK = GRALLOC_USAGE_SW_WRITE_MASK OR GRALLOC_USAGE_SW_READ_MASK"

text \<open>The part of \<open>gralloc_gbm_bo_lock\<close> behind the check of the buffer's own usage.\<close>

definition bo_lock_data ::
    "gbm_env \<Rightarrow> gralloc_state \<Rightarrow> nat \<Rightarrow> nat \<Rightarrow> bo_data_t \<Rightarrow> u32 \<Rightarrow> int \<Rightarrow> int \<Rightarrow> int \<Rightarrow> int \<Rightarrow> (int \<times> nat option \<times> gralloc_state) option" where
  "bo_lock_data e s handle bo d usage x y w h =
     (if bd_lock_count d \<noteq> 0 \<and> bd_locked_for d AND usage \<noteq> usage then Some (-EINVAL, None, s)
      else do {
        let usage1 = usage OR bd_locked_for d;
        (err, addr, s1) \<leftarrow> (if usage1 AND SW_MASK \<noteq> 0
          then gbm_map e s handle x y w h (usage1 AND GRALLOC_USAGE_SW_WRITE_MASK \<noteq> 0)
          else Some (0, None, s));
        if err \<noteq> 0 then Some (err, addr, s1)
        else do {
          data \<leftarrow> gr_bos s1 bo;
          d1 \<leftarrow> data;
          if \<not> int_ok (bd_lock_count d1 + 1) then None
          else Some (0, addr, set_data s1 bo (d1\<lparr>bd_lock_count := bd_lock_count d1 + 1,
            bd_locked_for := bd_locked_for d1 OR usage1\<rparr>)) } })"

definition gralloc_gbm_bo_lock ::
    "gbm_env \<Rightarrow> gralloc_state \<Rightarrow> nat \<Rightarrow> u32 \<Rightarrow> int \<Rightarrow> int \<Rightarrow> int \<Rightarrow> int \<Rightarrow> (int \<times> nat option \<times> gralloc_state) option" where
  "gralloc_gbm_bo_lock e s0 handle usage x y w h =
     (case gralloc_gbm_bo_from_handle s0 handle of (bo, s) \<Rightarrow>
        if bo = 0 then Some (-EINVAL, None, s)
        else do {
          hnd \<leftarrow> gr_handles s handle;
          if gh_usage hnd AND usage \<noteq> usage \<and> gh_usage hnd AND GRALLOC_USAGE_SW_READ_OFTEN = 0 \<and>
            gh_usage hnd AND GRALLOC_USAGE_HW_FB = 0 \<and> gh_usage hnd AND GRALLOC_USAGE_HW_TEXTURE = 0
          then Some (-EINVAL, None, s)
          else do {
            data \<leftarrow> gr_bos s bo;
            case data of
              Some d \<Rightarrow> bo_lock_data e s handle bo d usage x y w h
            | None \<Rightarrow>
                let d = \<lparr>bd_map_data = 0, bd_lock_count = 0, bd_locked_for = 0\<rparr>
                in bo_lock_data e (set_data s bo d) handle bo d usage x y w h } })"

definition gralloc_gbm_bo_unlock :: "gralloc_state \<Rightarrow> nat \<Rightarrow> (int \<times> gralloc_state) option" where
  "gralloc_gbm_bo_unlock s0 handle =
     (case gralloc_gbm_bo_from_handle s0 handle of (bo, s) \<Rightarrow>
        if bo = 0 then Some (-EINVAL, s)
        else do {
          data \<leftarrow> gr_bos s bo;
          d \<leftarrow> data;
          let mapped = (bd_locked_for d AND SW_MASK \<noteq> 0);
          if bd_lock_count d = 0 then Some (0, s)
          else do {
            s1 \<leftarrow> (if mapped then gbm_unmap s bo else Some s);
            data1 \<leftarrow> gr_bos s1 bo;
            d1 \<leftarrow> data1;
            let n = bd_lock_count d1 - 1;
            Some (0, set_data s1 bo (d1\<lparr>bd_lock_count := n, bd_locked_for := (if n = 0 then 0 else bd_locked_for d1)\<rparr>)) } })"

section \<open>The module\<close>

definition mutex_lock :: "gralloc_state \<Rightarrow> gralloc_state option" where
  "mutex_lock s = (if gr_mutex s then None else Some (s\<lparr>gr_mutex := True\<rparr>))"

definition mutex_unlock :: "gralloc_state \<Rightarrow> gralloc_state" where
  "mutex_unlock s = s\<lparr>gr_mutex := False\<rparr>"

definition gbm_init :: "gbm_env \<Rightarrow> gralloc_state \<Rightarrow> (int \<times> gralloc_state) option" where
  "gbm_init e s = do {
     s1 \<leftarrow> mutex_lock s;
     let (err, s2) = (if gr_gbm s1 = 0
       then (case gbm_dev_create e s1 of (gbm, s') \<Rightarrow> (if gbm = 0 then -EINVAL else 0, s'\<lparr>gr_gbm := gbm\<rparr>))
       else (0, s1));
     Some (err, mutex_unlock s2) }"

text \<open>The second component is what \<open>*fd\<close> is set to.\<close>

definition gbm_mod_perform :: "gbm_env \<Rightarrow> gralloc_state \<Rightarrow> u32 \<Rightarrow> (int \<times> int option \<times> gralloc_state) option" where
  "gbm_mod_perform e s op = do {
     (err, s1) \<leftarrow> gbm_init e s;
     if err \<noteq> 0 then Some (err, None, s1)
     else if op = 0x40000002 then do { fd \<leftarrow> gr_devices s1 (gr_gbm s1); Some (0, Some fd, s1) }
     else Some (-EINVAL, None, s1) }"

definition gbm_mod_register_buffer :: "gbm_env \<Rightarrow> gralloc_state \<Rightarrow> nat \<Rightarrow> (int \<times> gralloc_state) option" where
  "gbm_mod_register_buffer e s handle = do {
     (err, s1) \<leftarrow> gbm_init e s;
     if err \<noteq> 0 then Some (err, s1)
     else do {
       s2 \<leftarrow> mutex_lock s1;
       (err2, s3) \<leftarrow> gralloc_gbm_handle_register e s2 handle (gr_gbm s2);
       Some (err2, mutex_unlock s3) } }"

definition gbm_mod_unregister_buffer :: "gralloc_state \<Rightarrow> nat \<Rightarrow> (int \<times> gralloc_state) option" where
  "gbm_mod_unregister_buffer s handle = do {
     s1 \<leftarrow> mutex_lock s;
     (err, s2) \<leftarrow> gralloc_gbm_handle_unregister s1 handle;
     Some (err, mutex_unlock s2) }"

definition gbm_mod_lock ::
    "gbm_env \<Rightarrow> gralloc_state \<Rightarrow> nat \<Rightarrow> u32 \<Rightarrow> int \<Rightarrow> int \<Rightarrow> int \<Rightarrow> int \<Rightarrow> (int \<times> nat option \<times> gralloc_state) option" where
  "gbm_mod_lock e s handle usage x y w h = do {
     s1 \<leftarrow> mutex_lock s;
     (err, ptr, s2) \<leftarrow> gralloc_gbm_bo_lock e s1 handle usage x y w h;
     Some (err, ptr, mutex_unlock s2) }"

definition gbm_mod_unlock :: "gralloc_state \<Rightarrow> nat \<Rightarrow> (int \<times> gralloc_state) option" where
  "gbm_mod_unlock s handle = do {
     s1 \<leftarrow> mutex_lock s;
     (err, s2) \<leftarrow> gralloc_gbm_bo_unlock s1 handle;
     Some (err, mutex_unlock s2) }"

definition gbm_mod_close_gpu0 :: "gralloc_state \<Rightarrow> (int \<times> gralloc_state) option" where
  "gbm_mod_close_gpu0 s = map_option (Pair 0) (gbm_dev_destroy s (gr_gbm s))"

definition gbm_mod_free_gpu0 :: "gralloc_state \<Rightarrow> nat \<Rightarrow> (int \<times> gralloc_state) option" where
  "gbm_mod_free_gpu0 s handle = do {
     s1 \<leftarrow> mutex_lock s;
     s2 \<leftarrow> gbm_free s1 handle;
     hnd \<leftarrow> gr_handles s2 handle;
     Some (0, mutex_unlock (s2\<lparr>gr_handles := (gr_handles s2)(handle := None)\<rparr>)) }"

definition gbm_mod_alloc_gpu0 ::
    "gbm_env \<Rightarrow> gralloc_state \<Rightarrow> u32 \<Rightarrow> u32 \<Rightarrow> u32 \<Rightarrow> u32 \<Rightarrow> (int \<times> nat \<times> u32 option \<times> gralloc_state) option" where
  "gbm_mod_alloc_gpu0 e s w h format usage = do {
     s1 \<leftarrow> mutex_lock s;
     (handle, stride, s2) \<leftarrow> gralloc_gbm_bo_create e s1 (gr_gbm s1) w h format usage;
     Some (if handle = 0 then - ge_errno e else 0, handle, stride, mutex_unlock s2) }"

text \<open>\<open>gbm_mod_open\<close> and \<open>gbm_mod_open_gpu0\<close>: \<open>gpu0\<close> is the name \<open>GRALLOC_HARDWARE_GPU0\<close>. The allocation
  of the device structure throws an exception instead of returning a null pointer.\<close>

definition gbm_mod_open :: "gbm_env \<Rightarrow> string \<Rightarrow> gralloc_state \<Rightarrow> string \<Rightarrow> (int \<times> gralloc_state) option" where
  "gbm_mod_open e gpu0 s name = (if name = gpu0 then gbm_init e s else Some (-EINVAL, s))"

section \<open>The states of the module\<close>

text \<open>The user data of a buffer object. A buffer is mapped exactly while it is locked for access
  by the CPU, and then it is locked once.\<close>

definition data_ok :: "bo_data_t \<Rightarrow> bool" where
  "data_ok d \<longleftrightarrow> 0 \<le> bd_lock_count d \<and> (bd_lock_count d = 0 \<longrightarrow> bd_locked_for d = 0) \<and>
     (bd_map_data d \<noteq> 0 \<longleftrightarrow> bd_locked_for d AND SW_MASK \<noteq> 0) \<and>
     (bd_map_data d \<noteq> 0 \<longrightarrow> bd_lock_count d = 1)"

definition mapping :: "(nat \<Rightarrow> bo_data_t option option) \<Rightarrow> nat \<Rightarrow> nat" where
  "mapping bos bo = (case bos bo of Some (Some d) \<Rightarrow> bd_map_data d | _ \<Rightarrow> 0)"

text \<open>The tables: every registered handle is live and has a buffer object of its own, there are no
  other buffer objects, and exactly the mappings that the user data name exist.\<close>

definition bo_tables_ok ::
    "(nat \<Rightarrow> nat option) \<Rightarrow> (nat \<Rightarrow> gralloc_handle_t option) \<Rightarrow> (nat \<Rightarrow> bo_data_t option option) \<Rightarrow> (nat \<times> nat) set \<Rightarrow> bool" where
  "bo_tables_ok mp hs bos mps \<longleftrightarrow> 0 \<notin> dom bos \<and> dom mp \<subseteq> dom hs \<and> inj_on mp (dom mp) \<and> ran mp = dom bos \<and>
     (\<forall>bo d. bos bo = Some (Some d) \<longrightarrow> data_ok d) \<and> mps = {(bo, m). m \<noteq> 0 \<and> mapping bos bo = m}"

abbreviation tables :: "gralloc_state \<Rightarrow> bool" where
  "tables s \<equiv> bo_tables_ok (gr_map s) (gr_handles s) (gr_bos s) (gr_maps s)"

definition gralloc_inv :: "gralloc_state \<Rightarrow> bool" where
  "gralloc_inv s \<longleftrightarrow> \<not> gr_mutex s \<and> tables s \<and> (gr_gbm s = 0 \<or> gr_gbm s \<in> dom (gr_devices s))"

definition unlocked :: "gralloc_state \<Rightarrow> nat \<Rightarrow> bool" where
  "unlocked s handle \<longleftrightarrow>
     (case gr_map s handle of Some bo \<Rightarrow> (case gr_bos s bo of Some (Some d) \<Rightarrow> bd_lock_count d = 0 | _ \<Rightarrow> True) | None \<Rightarrow> True)"

text \<open>What the library returns next: new objects are not in use, and a mapping exists exactly when
  there is an address.\<close>

definition gbm_env_ok :: "gbm_env \<Rightarrow> gralloc_state \<Rightarrow> bool" where
  "gbm_env_ok e s \<longleftrightarrow>
     ge_create e (length (gr_creates s)) \<notin> dom (gr_bos s) \<and> ge_import e (length (gr_imports s)) \<notin> dom (gr_bos s) \<and>
     ge_handle e (gr_new s) \<notin> dom (gr_handles s) \<and>
     (case ge_map e (length (gr_requests s)) of (addr, map_data, stride) \<Rightarrow> addr = 0 \<longleftrightarrow> map_data = 0)"

definition gralloc_start :: gralloc_state where
  "gralloc_start = \<lparr>gr_mutex = False, gr_gbm = 0, gr_devices = \<lambda>_. None, gr_fds = [], gr_tries = 0,
     gr_map = \<lambda>_. None, gr_handles = \<lambda>_. None, gr_new = 0, gr_bos = \<lambda>_. None, gr_maps = {}, gr_creates = [],
     gr_imports = [], gr_requests = []\<rparr>"

text \<open>The use of the module by clients that keep to the protocol of gralloc: handles arrive from other
  processes; only registered handles are locked, unlocked, unregistered and freed; none is given up while
  it is locked; and the device is not closed. The code checks none of this; what happens otherwise is shown by
  \<open>lookup_blocks_register\<close>, \<open>unregister_locked_leaks\<close> and \<open>close_leaves_device\<close>.\<close>

inductive gralloc_reach :: "gbm_env \<Rightarrow> gralloc_state \<Rightarrow> bool" for e where
  start: "gralloc_reach e gralloc_start"
| receive: "gralloc_reach e s \<Longrightarrow> handle \<notin> dom (gr_handles s) \<Longrightarrow>
    gralloc_reach e (s\<lparr>gr_handles := (gr_handles s)(handle \<mapsto> hnd)\<rparr>)"
| opened: "gralloc_reach e s \<Longrightarrow> gbm_mod_open e gpu0 s name = Some (err, s') \<Longrightarrow> gralloc_reach e s'"
| registered: "gralloc_reach e s \<Longrightarrow> gbm_env_ok e s \<Longrightarrow> gbm_mod_register_buffer e s handle = Some (err, s') \<Longrightarrow>
    gralloc_reach e s'"
| unregistered: "gralloc_reach e s \<Longrightarrow> handle \<in> dom (gr_map s) \<Longrightarrow> unlocked s handle \<Longrightarrow>
    gbm_mod_unregister_buffer s handle = Some (err, s') \<Longrightarrow> gralloc_reach e s'"
| allocated: "gralloc_reach e s \<Longrightarrow> gbm_env_ok e s \<Longrightarrow>
    gbm_mod_alloc_gpu0 e s w h format usage = Some (err, handle, stride, s') \<Longrightarrow> gralloc_reach e s'"
| freed: "gralloc_reach e s \<Longrightarrow> handle \<in> dom (gr_map s) \<Longrightarrow> unlocked s handle \<Longrightarrow>
    gbm_mod_free_gpu0 s handle = Some (err, s') \<Longrightarrow> gralloc_reach e s'"
| locked: "gralloc_reach e s \<Longrightarrow> gbm_env_ok e s \<Longrightarrow> handle \<in> dom (gr_map s) \<Longrightarrow>
    gbm_mod_lock e s handle usage x y w h = Some (err, ptr, s') \<Longrightarrow> gralloc_reach e s'"
| unlocked: "gralloc_reach e s \<Longrightarrow> handle \<in> dom (gr_map s) \<Longrightarrow>
    gbm_mod_unlock s handle = Some (err, s') \<Longrightarrow> gralloc_reach e s'"

section \<open>The tables under the operations\<close>

lemma table_add:
  assumes "bo_tables_ok mp hs bos mps" and "bo \<notin> dom bos" and "bo \<noteq> 0" and "h \<notin> dom mp" and "insert h (dom hs) \<subseteq> dom hs'"
  shows "bo_tables_ok (mp(h \<mapsto> bo)) hs' (bos(bo \<mapsto> None)) mps"
proof -
  have t: "0 \<notin> dom bos" "dom mp \<subseteq> dom hs'" "inj_on mp (dom mp)" "ran mp = dom bos"
    "\<forall>bo d. bos bo = Some (Some d) \<longrightarrow> data_ok d" "mps = {(bo, m). m \<noteq> 0 \<and> mapping bos bo = m}"
    using assms(1,5) unfolding bo_tables_ok_def by blast+
  have "inj_on (mp(h \<mapsto> bo)) (dom (mp(h \<mapsto> bo)))"
  proof -
    have "mp a \<noteq> Some bo" for a using t(4) assms(2) by (metis ranI)
    then show ?thesis using t(3) by (auto simp: inj_on_def)
  qed
  moreover have "mapping (bos(bo \<mapsto> None)) = mapping bos"
    using assms(2) by (auto simp: mapping_def fun_eq_iff domIff)
  ultimately show ?thesis using t assms(2-5) unfolding bo_tables_ok_def by auto
qed

lemma table_remove:
  assumes "bo_tables_ok mp hs bos mps" and "mp h = Some bo" and "mapping bos bo = 0" and "dom hs - {h} \<subseteq> dom hs'"
  shows "bo_tables_ok (mp(h := None)) hs' (bos(bo := None)) mps"
proof -
  have t: "0 \<notin> dom bos" "dom mp - {h} \<subseteq> dom hs'" "inj_on mp (dom mp)" "ran mp = dom bos"
    "\<forall>bo d. bos bo = Some (Some d) \<longrightarrow> data_ok d" "mps = {(bo, m). m \<noteq> 0 \<and> mapping bos bo = m}"
    using assms(1,4) unfolding bo_tables_ok_def by blast+
  have "a = h" if "mp a = Some bo" for a using inj_onD [OF t(3), of a h] assms(2) that by auto
  then have "ran (mp(h := None)) \<subseteq> ran mp - {bo}" by (auto simp: ran_def split: if_splits)
  moreover have "x \<in> ran (mp(h := None))" if x: "x \<in> ran mp - {bo}" for x
  proof -
    obtain a where "mp a = Some x" "x \<noteq> bo" using x by (auto simp: ran_def)
    then have "(mp(h := None)) a = Some x" using assms(2) by auto
    then show ?thesis by (rule ranI)
  qed
  ultimately have "ran (mp(h := None)) = dom (bos(bo := None))" using t(4) by auto
  moreover have "inj_on (mp(h := None)) (dom (mp(h := None)))" using t(3) by (auto simp: inj_on_def)
  moreover have "mapping (bos(bo := None)) = mapping bos" using assms(3) by (auto simp: mapping_def fun_eq_iff)
  ultimately show ?thesis using t unfolding bo_tables_ok_def by auto
qed

lemma table_data:
  assumes "bo_tables_ok mp hs bos mps" and "bo \<in> dom bos" and "data_ok d"
    and "mps' = {(b, m) \<in> mps. b \<noteq> bo} \<union> (if bd_map_data d = 0 then {} else {(bo, bd_map_data d)})"
  shows "bo_tables_ok mp hs (bos(bo \<mapsto> Some d)) mps'"
  using assms by (auto simp: bo_tables_ok_def mapping_def insert_absorb)

lemma table_handles:
  assumes "bo_tables_ok mp hs bos mps" and "dom hs \<subseteq> dom hs'"
  shows "bo_tables_ok mp hs' bos mps"
  using assms unfolding bo_tables_ok_def by blast

lemma table_registered:
  assumes "bo_tables_ok mp hs bos mps" and "h \<in> dom mp"
  obtains bo hnd where "mp h = Some bo" and "bo \<noteq> 0" and "bo \<in> dom bos" and "hs h = Some hnd"
proof -
  obtain bo where bo: "mp h = Some bo" using assms(2) by blast
  then have "bo \<in> ran mp" by (rule ranI)
  moreover have "h \<in> dom hs" using assms by (auto simp: bo_tables_ok_def)
  ultimately show ?thesis using that bo assms(1) unfolding bo_tables_ok_def by (metis domD)
qed

lemma table_unlocked:
  assumes "bo_tables_ok mp hs bos mps" and "case bos bo of Some (Some d) \<Rightarrow> bd_lock_count d = 0 | _ \<Rightarrow> True"
  shows "mapping bos bo = 0"
  using assms by (auto simp: bo_tables_ok_def mapping_def data_ok_def split: option.splits)

lemma from_handle_registered [simp]: "gr_map s h = Some bo \<Longrightarrow> gralloc_gbm_bo_from_handle s h = (bo, s)"
  by (simp add: gralloc_gbm_bo_from_handle_def)

lemma mutex_fields [simp]:
  "gr_map (mutex_unlock s) = gr_map s" "gr_handles (mutex_unlock s) = gr_handles s" "gr_bos (mutex_unlock s) = gr_bos s"
  "gr_maps (mutex_unlock s) = gr_maps s" "gr_gbm (mutex_unlock s) = gr_gbm s" "gr_devices (mutex_unlock s) = gr_devices s"
  "gr_mutex (mutex_unlock s) = False"
  by (simp_all add: mutex_unlock_def)

lemma set_data_fields [simp]:
  "gr_map (set_data s bo d) = gr_map s" "gr_handles (set_data s bo d) = gr_handles s"
  "gr_bos (set_data s bo d) = (gr_bos s)(bo \<mapsto> Some d)" "gr_maps (set_data s bo d) = gr_maps s"
  "gr_gbm (set_data s bo d) = gr_gbm s" "gr_devices (set_data s bo d) = gr_devices s"
  "gr_mutex (set_data s bo d) = gr_mutex s" "gr_requests (set_data s bo d) = gr_requests s"
  by (simp_all add: set_data_def)

text \<open>Registered handles and the data of their buffers.\<close>

definition no_data :: bo_data_t where
  "no_data = \<lparr>bd_map_data = 0, bd_lock_count = 0, bd_locked_for = 0\<rparr>"

abbreviation data_of :: "bo_data_t option \<Rightarrow> bo_data_t" where
  "data_of data \<equiv> (case data of Some d \<Rightarrow> d | None \<Rightarrow> no_data)"

lemma data_ok_of:
  assumes "bo_tables_ok mp hs bos mps" and "bos bo = Some data"
  shows "data_ok (data_of data)"
  using assms by (auto simp: bo_tables_ok_def data_ok_def no_data_def split: option.splits)

lemma table_initial:
  assumes "bo_tables_ok mp hs bos mps" and "bos bo = Some data"
  shows "bo_tables_ok mp hs (bos(bo \<mapsto> Some (data_of data))) mps"
proof (rule table_data [OF assms(1) _ data_ok_of [OF assms]])
  show "bo \<in> dom bos" using assms(2) by blast
  have "mps = {(b, m). m \<noteq> 0 \<and> mapping bos b = m}" using assms(1) by (simp add: bo_tables_ok_def)
  then show "mps = {(b, m) \<in> mps. b \<noteq> bo} \<union> (if bd_map_data (data_of data) = 0 then {} else {(bo, bd_map_data (data_of data))})"
    using assms(2) by (auto simp: mapping_def no_data_def split: option.splits if_splits)
qed

text \<open>The usage a buffer admits, and the rectangle of a lock: its arithmetic does not overflow.\<close>

definition permitted :: "gralloc_handle_t \<Rightarrow> u32 \<Rightarrow> bool" where
  "permitted hnd usage \<longleftrightarrow> gh_usage hnd AND usage = usage \<or> gh_usage hnd AND GRALLOC_USAGE_SW_READ_OFTEN \<noteq> 0 \<or>
     gh_usage hnd AND GRALLOC_USAGE_HW_FB \<noteq> 0 \<or> gh_usage hnd AND GRALLOC_USAGE_HW_TEXTURE \<noteq> 0"

definition rect_ok :: "gralloc_handle_t \<Rightarrow> int \<Rightarrow> int \<Rightarrow> int \<Rightarrow> int \<Rightarrow> bool" where
  "rect_ok hnd x y w h \<longleftrightarrow>
     (let yv12 = (gh_format hnd = HAL_PIXEL_FORMAT_YV12);
          w1 = (if yv12 then w sdiv 2 else w); h1 = (if yv12 then h + h sdiv 2 else h)
      in int_ok h1 \<and> int_ok (x + w1) \<and> int_ok (y + h1))"

text \<open>When a further lock is granted.\<close>

definition may_lock :: "bo_data_t \<Rightarrow> u32 \<Rightarrow> bool" where
  "may_lock d usage \<longleftrightarrow> bd_lock_count d = 0 \<or>
     (bd_locked_for d AND usage = usage \<and> bd_locked_for d AND SW_MASK = 0)"

lemma sub_mask: "a AND b = b \<Longrightarrow> a AND m = 0 \<Longrightarrow> (b :: u32) AND m = 0"
  by (metis and.assoc and.commute and_zero_eq)

lemma or_mask: "(a OR b) AND m = 0 \<longleftrightarrow> (a :: u32) AND m = 0 \<and> b AND m = 0"
  by (simp add: bit.conj_disj_distrib2 or_eq_0_iff)

lemma set_data_same: "gr_bos s bo = Some (Some d) \<Longrightarrow> set_data s bo d = s"
  by (simp add: set_data_def fun_upd_idem)

lemma set_data_twice [simp]: "set_data (set_data s bo d) bo d' = set_data s bo d'"
  by (simp add: set_data_def)

section \<open>Locking\<close>

definition locked_data :: "bo_data_t \<Rightarrow> u32 \<Rightarrow> nat \<Rightarrow> bo_data_t" where
  "locked_data d usage m = d\<lparr>bd_map_data := m, bd_lock_count := bd_lock_count d + 1,
     bd_locked_for := bd_locked_for d OR usage\<rparr>"

definition unlocked_data :: "bo_data_t \<Rightarrow> bo_data_t" where
  "unlocked_data d = (if bd_lock_count d = 0 then d else if bd_lock_count d = 1 then no_data
     else d\<lparr>bd_lock_count := bd_lock_count d - 1\<rparr>)"

lemma data_ok_locked:
  assumes "data_ok d" and "may_lock d usage" and "m \<noteq> 0 \<longleftrightarrow> usage AND SW_MASK \<noteq> 0"
  shows "data_ok (locked_data d usage m)"
proof (cases "bd_lock_count d = 0")
  case True
  then show ?thesis using assms by (auto simp: data_ok_def locked_data_def)
next
  case False
  then have "bd_locked_for d AND usage = usage" "bd_locked_for d AND SW_MASK = 0" using assms(2) by (auto simp: may_lock_def)
  moreover from this have "usage AND SW_MASK = 0" by (rule sub_mask)
  ultimately show ?thesis using assms False by (auto simp: data_ok_def locked_data_def or_mask)
qed

lemma data_ok_unlocked: "data_ok d \<Longrightarrow> data_ok (unlocked_data d)"
  by (auto simp: data_ok_def unlocked_data_def no_data_def)

lemma unlocked_unmapped: "data_ok d \<Longrightarrow> bd_map_data (unlocked_data d) = 0"
  by (auto simp: data_ok_def unlocked_data_def no_data_def)

text \<open>The body of a lock, by the cases of the outcome.\<close>

lemma bo_lock_data_cases:
  assumes "data_ok d" and "gr_map s handle = Some bo" and "gr_bos s bo = Some (Some d)" and "gr_handles s handle = Some hnd"
    and "ge_map e (length (gr_requests s)) = (addr, m, str)"
  shows "\<exists>flags w' h'. bo_lock_data e s handle bo d usage x y w h =
    (if \<not> may_lock d usage then Some (-EINVAL, None, s)
     else if usage AND SW_MASK = 0
       then (if int_ok (bd_lock_count d + 1) then Some (0, None, set_data s bo (locked_data d usage 0)) else None)
     else if \<not> rect_ok hnd x y w h then None
     else
       let s1 = s\<lparr>gr_requests := gr_requests s @ [(bo, w', h', flags)],
             gr_maps := (if addr = 0 then gr_maps s else insert (bo, m) (gr_maps s))\<rparr>
       in if addr = 0 then Some (-ENOMEM, Some 0, set_data s1 bo (d\<lparr>bd_map_data := m\<rparr>))
          else if str \<noteq> ge_stride e bo then None
          else if int_ok (bd_lock_count d + 1) then Some (0, Some addr, set_data s1 bo (locked_data d usage m)) else None)"
proof -
  have absorb: "bd_locked_for d OR (usage OR bd_locked_for d) = bd_locked_for d OR usage"
    by (simp add: or.left_commute or.commute)
  consider (refused) "bd_lock_count d \<noteq> 0" "bd_locked_for d AND usage \<noteq> usage"
    | (mapped) "bd_lock_count d = 0 \<or> bd_locked_for d AND usage = usage" "bd_map_data d \<noteq> 0"
    | (hw) "bd_lock_count d = 0 \<or> bd_locked_for d AND usage = usage" "bd_map_data d = 0" "usage AND SW_MASK = 0"
    | (sw) "bd_lock_count d = 0 \<or> bd_locked_for d AND usage = usage" "bd_map_data d = 0" "usage AND SW_MASK \<noteq> 0"
    by blast
  then show ?thesis
  proof cases
    case refused
    then show ?thesis by (simp add: bo_lock_data_def may_lock_def)
  next
    case mapped
    then have "bd_locked_for d AND SW_MASK \<noteq> 0" "bd_lock_count d = 1" using assms(1) by (auto simp: data_ok_def)
    then have "(usage OR bd_locked_for d) AND SW_MASK \<noteq> 0" "\<not> may_lock d usage" by (auto simp: or_mask may_lock_def)
    then show ?thesis using mapped assms(2,3) by (auto simp: bo_lock_data_def gbm_map_def)
  next
    case hw
    then have l: "bd_locked_for d AND SW_MASK = 0" using assms(1) by (simp add: data_ok_def)
    then have "(usage OR bd_locked_for d) AND SW_MASK = 0" "may_lock d usage" using hw by (auto simp: or_mask may_lock_def)
    moreover have "locked_data d usage 0 = d\<lparr>bd_lock_count := bd_lock_count d + 1, bd_locked_for := bd_locked_for d OR usage\<rparr>"
      using hw(2) by (cases d) (simp add: locked_data_def)
    ultimately show ?thesis using hw assms(3) absorb by (auto simp: bo_lock_data_def)
  next
    case sw
    then have l: "bd_locked_for d AND SW_MASK = 0" using assms(1) by (simp add: data_ok_def)
    have z: "bd_lock_count d = 0" using sw sub_mask [OF _ l] by auto
    then have "bd_locked_for d = 0" using assms(1) by (simp add: data_ok_def)
    then show ?thesis
      using sw z assms(2-5) unfolding bo_lock_data_def gbm_map_def rect_ok_def Let_def
      by (auto simp: may_lock_def locked_data_def)
  qed
qed

lemma bo_lock_eq:
  assumes "gr_map s handle = Some bo" and "bo \<noteq> 0" and "gr_bos s bo = Some data" and "gr_handles s handle = Some hnd"
  shows "gralloc_gbm_bo_lock e s handle usage x y w h =
    (if \<not> permitted hnd usage then Some (-EINVAL, None, s)
     else bo_lock_data e (set_data s bo (data_of data)) handle bo (data_of data) usage x y w h)"
  using assms by (auto simp: gralloc_gbm_bo_lock_def permitted_def no_data_def [symmetric] set_data_same split: option.splits)

lemma bo_unlock_eq:
  assumes "tables s" and "gr_map s handle = Some bo" and "bo \<noteq> 0" and "gr_bos s bo = Some (Some d)"
  shows "gralloc_gbm_bo_unlock s handle =
    Some (0, set_data (s\<lparr>gr_maps := {(b, m) \<in> gr_maps s. b \<noteq> bo}\<rparr>) bo (unlocked_data d))"
proof -
  have d: "data_ok d" and maps: "gr_maps s = {(b, m). m \<noteq> 0 \<and> mapping (gr_bos s) b = m}"
    using assms(1,4) by (auto simp: bo_tables_ok_def)
  have own: "mapping (gr_bos s) bo = bd_map_data d" using assms(4) by (simp add: mapping_def)
  show ?thesis
  proof (cases "bd_map_data d = 0")
    case True
    then have "{(b, m) \<in> gr_maps s. b \<noteq> bo} = gr_maps s" using maps own by auto
    then have same: "s\<lparr>gr_maps := {(b, m) \<in> gr_maps s. b \<noteq> bo}\<rparr> = s" by simp
    have "bd_locked_for d AND SW_MASK = 0" using d True by (simp add: data_ok_def)
    moreover have "no_data = d\<lparr>bd_lock_count := 0, bd_locked_for := 0\<rparr>" using True by (cases d) (simp add: no_data_def)
    moreover have "d\<lparr>bd_lock_count := n, bd_locked_for := bd_locked_for d\<rparr> = d\<lparr>bd_lock_count := n\<rparr>" for n by (cases d) simp
    ultimately show ?thesis
      unfolding same using assms(2-4) set_data_same [OF assms(4)]
      by (auto simp: gralloc_gbm_bo_unlock_def unlocked_data_def)
  next
    case False
    then have c: "bd_lock_count d = 1" "bd_locked_for d AND SW_MASK \<noteq> 0" using d by (auto simp: data_ok_def)
    have "(bo, bd_map_data d) \<in> gr_maps s" "gr_maps s - {(bo, bd_map_data d)} = {(b, m) \<in> gr_maps s. b \<noteq> bo}"
      using maps own False by auto
    moreover have "d\<lparr>bd_map_data := 0, bd_lock_count := 0, bd_locked_for := 0\<rparr> = no_data" by (cases d) (simp add: no_data_def)
    ultimately show ?thesis
      using assms(2-4) c by (simp add: gralloc_gbm_bo_unlock_def gbm_unmap_def unlocked_data_def)
  qed
qed

section \<open>The invariant\<close>

text \<open>What an operation under the mutex leaves alone.\<close>

definition same_device :: "gralloc_state \<Rightarrow> gralloc_state \<Rightarrow> bool" where
  "same_device s s' \<longleftrightarrow> gr_mutex s' = gr_mutex s \<and> gr_gbm s' = gr_gbm s \<and> gr_devices s' = gr_devices s"

lemma lock_tables:
  assumes "tables s" and "gr_map s handle = Some bo" and "bo \<noteq> 0" and "gr_bos s bo = Some data"
    and "gr_handles s handle = Some hnd" and "ge_map e (length (gr_requests s)) = (addr, m, str)" and "addr = 0 \<longleftrightarrow> m = 0"
    and "gralloc_gbm_bo_lock e s handle usage x y w h = Some (err, ptr, s')"
  shows "tables s' \<and> same_device s s'"
proof (cases "permitted hnd usage")
  case False
  then show ?thesis using assms bo_lock_eq [OF assms(2-5)] by (simp add: same_device_def)
next
  case True
  let ?d = "data_of data" and ?s = "set_data s bo (data_of data)"
  have d: "data_ok ?d" and t: "tables ?s" using data_ok_of [OF assms(1,4)] table_initial [OF assms(1,4)] by simp_all
  have upd: "bo_tables_ok (gr_map s) (gr_handles s) ((gr_bos s)(bo \<mapsto> Some d')) mps'"
    if "data_ok d'" "mps' = {(b, m) \<in> gr_maps s. b \<noteq> bo} \<union> (if bd_map_data d' = 0 then {} else {(bo, bd_map_data d')})" for d' mps'
    using assms(1,4) that by (intro table_data) auto
  have maps: "{(b, m) \<in> gr_maps s. b \<noteq> bo} = gr_maps s" if "bd_map_data ?d = 0"
    using that assms(1,4) by (auto simp: bo_tables_ok_def mapping_def split: option.splits)
  have free: "bd_map_data ?d = 0" if "may_lock ?d usage"
    using that d by (auto simp: may_lock_def data_ok_def)
  have ok: "data_ok (locked_data ?d usage n)" if "may_lock ?d usage" "n \<noteq> 0 \<longleftrightarrow> usage AND SW_MASK \<noteq> 0" for n
    using data_ok_locked [OF d that] .
  have same: "?d\<lparr>bd_map_data := 0\<rparr> = ?d" if "may_lock ?d usage" using free [OF that] by simp
  have lk: "bo_lock_data e ?s handle bo ?d usage x y w h = Some (err, ptr, s')"
    using bo_lock_eq [OF assms(2-5), of e usage x y w h] assms(8) True by simp
  have "gr_map ?s handle = Some bo" "gr_bos ?s bo = Some (Some ?d)" "gr_handles ?s handle = Some hnd"
      "ge_map e (length (gr_requests ?s)) = (addr, m, str)"
    using assms(2,5,6) by simp_all
  note run = bo_lock_data_cases [OF d this, of usage x y w h]
  consider (refused) "\<not> may_lock ?d usage" | (hw) "may_lock ?d usage" "usage AND SW_MASK = 0"
    | (fails) "may_lock ?d usage" "usage AND SW_MASK \<noteq> 0" "addr = 0"
    | (sw) "may_lock ?d usage" "usage AND SW_MASK \<noteq> 0" "addr \<noteq> 0" by blast
  then show ?thesis
  proof cases
    case refused
    then have "s' = ?s" using run lk by auto
    then show ?thesis using t by (simp add: same_device_def)
  next
    case hw
    then have "s' = set_data s bo (locked_data ?d usage 0)" using run lk by (auto split: if_splits)
    then show ?thesis using upd [OF ok [OF hw(1), of 0]] hw maps [OF free] by (simp add: same_device_def locked_data_def)
  next
    case fails
    then obtain reqs where "s' = set_data (?s\<lparr>gr_requests := reqs, gr_maps := gr_maps ?s\<rparr>) bo ?d"
      using run lk same assms(7) by (auto simp: Let_def split: if_splits)
    then show ?thesis using t by (simp add: same_device_def)
  next
    case sw
    then obtain reqs where "s' = set_data (?s\<lparr>gr_requests := reqs, gr_maps := insert (bo, m) (gr_maps ?s)\<rparr>) bo (locked_data ?d usage m)"
      using run lk by (auto simp: Let_def split: if_splits)
    then show ?thesis using upd [OF ok [OF sw(1), of m]] sw assms(7) maps [OF free]
      by (simp add: same_device_def locked_data_def)
  qed
qed

lemma unlock_tables:
  assumes "tables s" and "handle \<in> dom (gr_map s)" and "gralloc_gbm_bo_unlock s handle = Some (err, s')"
  shows "tables s' \<and> same_device s s'"
proof -
  obtain bo hnd where bo: "gr_map s handle = Some bo" "bo \<noteq> 0" "bo \<in> dom (gr_bos s)"
    using assms(1,2) by (rule table_registered)
  obtain d where d: "gr_bos s bo = Some (Some d)"
  proof (cases "gr_bos s bo")
    case (Some data)
    then show thesis
      using that assms(3) bo by (cases data) (simp_all add: gralloc_gbm_bo_unlock_def gralloc_gbm_bo_from_handle_def)
  qed (use bo in auto)
  have "data_ok d" using assms(1) d unfolding bo_tables_ok_def by blast
  then have "data_ok (unlocked_data d)" "bd_map_data (unlocked_data d) = 0"
    by (rule data_ok_unlocked, rule unlocked_unmapped)
  then have "bo_tables_ok (gr_map s) (gr_handles s) ((gr_bos s)(bo \<mapsto> Some (unlocked_data d))) {(b, m) \<in> gr_maps s. b \<noteq> bo}"
    using table_data [OF assms(1) bo(3), of "unlocked_data d"] by simp
  then show ?thesis using bo_unlock_eq [OF assms(1) bo(1,2) d] assms(3) by (auto simp: same_device_def)
qed

lemma free_tables:
  assumes "tables s" and "handle \<in> dom (gr_map s)" and "unlocked s handle" and "gbm_free s handle = Some s'"
    and "dom (gr_handles s) - {handle} \<subseteq> dom hs"
  shows "bo_tables_ok (gr_map s') hs (gr_bos s') (gr_maps s') \<and> gr_handles s' = gr_handles s \<and> same_device s s'"
proof -
  obtain bo hnd where bo: "gr_map s handle = Some bo" "bo \<noteq> 0" "bo \<in> dom (gr_bos s)"
    using assms(1,2) by (rule table_registered)
  have "mapping (gr_bos s) bo = 0"
    using assms(3) bo(1) by (intro table_unlocked [OF assms(1)]) (simp add: unlocked_def)
  then have "bo_tables_ok ((gr_map s)(handle := None)) hs ((gr_bos s)(bo := None)) (gr_maps s)"
    using table_remove [OF assms(1) bo(1)] assms(5) by blast
  then show ?thesis using assms(4) bo by (auto simp: gbm_free_def same_device_def split: if_splits)
qed

lemma register_tables:
  assumes "tables s" and "ge_import e (length (gr_imports s)) \<notin> dom (gr_bos s)"
    and "gralloc_gbm_handle_register e s handle gbm = Some (err, s')"
  shows "tables s' \<and> same_device s s'"
proof -
  let ?bo = "ge_import e (length (gr_imports s))"
  have add: "bo_tables_ok ((gr_map s)(handle \<mapsto> ?bo)) (gr_handles s) ((gr_bos s)(?bo \<mapsto> None)) (gr_maps s)"
    if "?bo \<noteq> 0" "handle \<notin> dom (gr_map s)" "gr_handles s handle = Some hnd" for hnd
    using assms(1,2) that by (intro table_add [where hs = "gr_handles s"]) auto
  show ?thesis
    using assms(1,3) add
    by (auto simp: gralloc_gbm_handle_register_def gbm_import_def emplace_def same_device_def Let_def
        split: if_splits bind_splits)
qed

lemma create_tables:
  assumes "tables s" and "ge_create e (length (gr_creates s)) \<notin> dom (gr_bos s)" and "ge_handle e (gr_new s) \<notin> dom (gr_handles s)"
    and "gralloc_gbm_bo_create e s gbm w h format usage = Some (handle, stride, s')"
  shows "tables s' \<and> same_device s s'"
proof -
  let ?bo = "ge_create e (length (gr_creates s))" and ?h = "ge_handle e (gr_new s)"
  have new: "?h \<notin> dom (gr_map s)" using assms(1,3) by (auto simp: bo_tables_ok_def)
  have add: "bo_tables_ok ((gr_map s)(?h \<mapsto> ?bo)) ((gr_handles s)(?h \<mapsto> hnd)) ((gr_bos s)(?bo \<mapsto> None)) (gr_maps s)"
    if "?bo \<noteq> 0" for hnd
    using assms(1,2) that new by (intro table_add [where hs = "gr_handles s"]) auto
  have "(gr_handles s)(?h := None) = gr_handles s" using assms(3) by auto
  then show ?thesis
    using assms(1,4) add new
    by (auto simp: gralloc_gbm_bo_create_def gbm_alloc_def emplace_def same_device_def Let_def
        split: if_splits bind_splits)
qed

lemma init_inv:
  assumes "gralloc_inv s" and "gbm_init e s = Some (err, s')"
  shows "gralloc_inv s' \<and> gr_map s' = gr_map s \<and> gr_handles s' = gr_handles s \<and> gr_bos s' = gr_bos s \<and>
    gr_imports s' = gr_imports s"
  using assms
  by (auto simp: gbm_init_def mutex_lock_def gbm_dev_create_def gralloc_inv_def Let_def mutex_unlock_def
      split: if_splits)

lemma invI: "tables s' \<Longrightarrow> same_device (s\<lparr>gr_mutex := True\<rparr>) s' \<Longrightarrow> gralloc_inv s \<Longrightarrow> gralloc_inv (mutex_unlock s')"
  by (auto simp: gralloc_inv_def same_device_def)

lemma inv_tables: "gralloc_inv s \<Longrightarrow> tables (s\<lparr>gr_mutex := True\<rparr>)"
  by (simp add: gralloc_inv_def)

lemma gralloc_reach_inv: "gralloc_reach e s \<Longrightarrow> gralloc_inv s"
proof (induction rule: gralloc_reach.induct)
  case start
  then show ?case by (auto simp: gralloc_start_def gralloc_inv_def bo_tables_ok_def mapping_def)
next
  case (receive s handle hnd)
  then show ?case using table_handles [of "gr_map s" "gr_handles s" _ _ "(gr_handles s)(handle \<mapsto> hnd)"]
    by (auto simp: gralloc_inv_def)
next
  case (opened s gpu0 name err s')
  then show ?case using init_inv by (auto simp: gbm_mod_open_def split: if_splits)
next
  case (registered s handle err s')
  then obtain err1 s1 where init: "gbm_init e s = Some (err1, s1)"
    by (auto simp: gbm_mod_register_buffer_def split: bind_splits)
  note i = init_inv [OF registered.IH init]
  show ?case
  proof (cases "err1 = 0")
    case False
    then show ?thesis using registered.hyps(3) init i by (simp add: gbm_mod_register_buffer_def)
  next
    case True
    then obtain s3 where s3: "gralloc_gbm_handle_register e (s1\<lparr>gr_mutex := True\<rparr>) handle (gr_gbm s1) = Some (err, s3)"
        "s' = mutex_unlock s3"
      using registered.hyps(3) init i by (auto simp: gbm_mod_register_buffer_def mutex_lock_def split: bind_splits if_splits)
    then show ?thesis
      using register_tables [OF inv_tables [OF conjunct1 [OF i]] _ s3(1)] i registered.hyps(2) invI
      by (auto simp: gbm_env_ok_def)
  qed
next
  case (unregistered s handle err s')
  then obtain s2 where s2: "gbm_free (s\<lparr>gr_mutex := True\<rparr>) handle = Some s2" "s' = mutex_unlock s2"
    by (auto simp: gbm_mod_unregister_buffer_def gralloc_gbm_handle_unregister_def mutex_lock_def split: bind_splits if_splits)
  then show ?case
    using free_tables [OF inv_tables [OF unregistered.IH] _ _ s2(1), of "gr_handles s"] unregistered.hyps unregistered.IH invI
    by (auto simp: unlocked_def)
next
  case (allocated s w h format usage err handle stride s')
  then obtain s2 where s2: "gralloc_gbm_bo_create e (s\<lparr>gr_mutex := True\<rparr>) (gr_gbm s) w h format usage = Some (handle, stride, s2)"
      "s' = mutex_unlock s2"
    by (auto simp: gbm_mod_alloc_gpu0_def mutex_lock_def split: bind_splits if_splits)
  then show ?case
    using create_tables [OF inv_tables [OF allocated.IH] _ _ s2(1)] allocated.hyps(2) allocated.IH invI
    by (auto simp: gbm_env_ok_def)
next
  case (freed s handle err s')
  then obtain s2 where s2: "gbm_free (s\<lparr>gr_mutex := True\<rparr>) handle = Some s2"
      "s' = mutex_unlock (s2\<lparr>gr_handles := (gr_handles s2)(handle := None)\<rparr>)"
    by (auto simp: gbm_mod_free_gpu0_def mutex_lock_def split: bind_splits if_splits)
  have "bo_tables_ok (gr_map s2) ((gr_handles s)(handle := None)) (gr_bos s2) (gr_maps s2) \<and> gr_handles s2 = gr_handles s \<and>
      same_device (s\<lparr>gr_mutex := True\<rparr>) s2"
    using free_tables [OF inv_tables [OF freed.IH] _ _ s2(1), of "(gr_handles s)(handle := None)"] freed.hyps
    by (auto simp: unlocked_def)
  then show ?case using s2(2) freed.IH by (auto simp: gralloc_inv_def same_device_def)
next
  case (locked s handle usage x y w h err ptr s')
  then obtain s2 where s2: "gralloc_gbm_bo_lock e (s\<lparr>gr_mutex := True\<rparr>) handle usage x y w h = Some (err, ptr, s2)"
      "s' = mutex_unlock s2"
    by (auto simp: gbm_mod_lock_def mutex_lock_def split: bind_splits if_splits)
  obtain bo hnd where bo: "gr_map s handle = Some bo" "bo \<noteq> 0" "bo \<in> dom (gr_bos s)" "gr_handles s handle = Some hnd"
    using table_registered [OF _ locked.hyps(3)] locked.IH unfolding gralloc_inv_def by blast
  then obtain data where data: "gr_bos s bo = Some data" by blast
  obtain addr m str where m: "ge_map e (length (gr_requests s)) = (addr, m, str)" by (cases "ge_map e (length (gr_requests s))")
  have "addr = 0 \<longleftrightarrow> m = 0" using locked.hyps(2) m by (simp add: gbm_env_ok_def)
  with lock_tables [OF inv_tables [OF locked.IH] _ bo(2) _ _ _ _ s2(1), of data hnd addr m str] bo data m
  show ?case using s2(2) locked.IH invI by auto
next
  case (unlocked s handle err s')
  then obtain s2 where s2: "gralloc_gbm_bo_unlock (s\<lparr>gr_mutex := True\<rparr>) handle = Some (err, s2)" "s' = mutex_unlock s2"
    by (auto simp: gbm_mod_unlock_def mutex_lock_def split: bind_splits if_splits)
  then show ?case
    using unlock_tables [OF inv_tables [OF unlocked.IH] _ s2(1)] unlocked.hyps unlocked.IH invI by auto
qed

lemma or_sub: "a AND b = b \<Longrightarrow> (a :: u32) OR b = a"
  by (auto simp: bit_eq_iff bit_simps)

lemma unlock_after_lock:
  assumes "data_ok d" and "may_lock d usage" and "m \<noteq> 0 \<longleftrightarrow> usage AND SW_MASK \<noteq> 0"
  shows "unlocked_data (locked_data d usage m) = d"
proof (cases "bd_lock_count d = 0")
  case True
  then have "d = no_data" using assms(1) by (cases d) (auto simp: data_ok_def no_data_def)
  then show ?thesis by (simp add: unlocked_data_def locked_data_def no_data_def)
next
  case False
  then have u: "bd_locked_for d AND usage = usage" "bd_locked_for d AND SW_MASK = 0" using assms(2) by (auto simp: may_lock_def)
  then have "m = 0" using sub_mask assms(3) by blast
  moreover have "bd_map_data d = 0" "0 < bd_lock_count d" using u assms(1) False by (auto simp: data_ok_def)
  ultimately show ?thesis using False or_sub [OF u(1)] by (cases d) (auto simp: unlocked_data_def locked_data_def)
qed

section \<open>Defects\<close>

text \<open>Unlocking a registered buffer that was never locked dereferences a null pointer.\<close>

lemma unlock_never_locked:
  assumes "gr_map s handle = Some bo" and "bo \<noteq> 0" and "gr_bos s bo = Some None"
  shows "gbm_mod_unlock s handle = None"
  using assms by (auto simp: gbm_mod_unlock_def mutex_lock_def gralloc_gbm_bo_unlock_def)

text \<open>A lock of a handle that is not registered is refused, but it leaves a null pointer in the map: from
  then on the handle cannot be registered.\<close>

lemma lookup_blocks_register:
  assumes "handle \<notin> dom (gr_map s)" and "\<not> gr_mutex s"
  shows "\<exists>s'. gbm_mod_lock e s handle usage x y w h = Some (-EINVAL, None, s') \<and>
    gralloc_gbm_handle_register e s' handle gbm = Some (-EINVAL, s')"
  using assms
  by (auto simp: gbm_mod_lock_def mutex_lock_def gralloc_gbm_bo_lock_def gralloc_gbm_bo_from_handle_def
      gralloc_gbm_handle_register_def domIff mutex_unlock_def)

text \<open>A buffer that is unregistered while it is locked for the CPU is destroyed, and its mapping stays.\<close>

lemma unregister_locked_leaks:
  assumes "tables s" and "\<not> gr_mutex s" and "gr_map s handle = Some bo" and "gr_bos s bo = Some (Some d)" and "bd_map_data d \<noteq> 0"
  shows "\<exists>s'. gbm_mod_unregister_buffer s handle = Some (0, s') \<and> bo \<notin> dom (gr_bos s') \<and> (bo, bd_map_data d) \<in> gr_maps s'"
proof -
  have "bo \<noteq> 0" "(bo, bd_map_data d) \<in> gr_maps s" using assms(1,4,5) by (auto simp: bo_tables_ok_def mapping_def)
  then show ?thesis
    using assms(2-4) by (auto simp: gbm_mod_unregister_buffer_def mutex_lock_def mutex_unlock_def gralloc_gbm_handle_unregister_def
        gbm_free_def gralloc_gbm_bo_from_handle_def)
qed

text \<open>Closing the device leaves the pointer to it in the module, and the next call uses it.\<close>

lemma close_leaves_device:
  assumes "gr_gbm s \<in> dom (gr_devices s)" and "gr_gbm s \<noteq> 0" and "\<not> gr_mutex s"
  shows "\<exists>s'. gbm_mod_close_gpu0 s = Some (0, s') \<and> gbm_mod_perform e s' 0x40000002 = None"
  using assms
  by (auto simp: gbm_mod_close_gpu0_def gbm_dev_destroy_def gbm_mod_perform_def gbm_init_def mutex_lock_def mutex_unlock_def)

text \<open>A failed allocation is reported as success when \<open>errno\<close> is not set.\<close>

lemma failed_alloc_is_success:
  assumes "\<not> gr_mutex s" and "ge_handle e (gr_new s) = 0" and "ge_errno e = 0"
  shows "\<exists>s'. gbm_mod_alloc_gpu0 e s w h format usage = Some (0, 0, None, s')"
  using assms by (simp add: gbm_mod_alloc_gpu0_def mutex_lock_def gralloc_gbm_bo_create_def)

text \<open>Unregistering destroys the buffer object of every registered handle, also of one that was
  allocated here.\<close>

lemma unregister_destroys:
  assumes "gr_map s handle = Some bo" and "bo \<noteq> 0" and "bo \<in> dom (gr_bos s)" and "\<not> gr_mutex s"
  shows "\<exists>s'. gbm_mod_unregister_buffer s handle = Some (0, s') \<and> bo \<notin> dom (gr_bos s') \<and> handle \<notin> dom (gr_map s')"
  using assms
  by (auto simp: gbm_mod_unregister_buffer_def mutex_lock_def gralloc_gbm_handle_unregister_def gbm_free_def domIff)

section \<open>Allocation\<close>

text \<open>Every format that the allocator passes to GBM has a size of pixels, so that the division by it is
  defined.\<close>

lemma format_has_bpp: "get_gbm_format format \<noteq> 0 \<Longrightarrow> gralloc_gbm_get_bpp format \<noteq> 0"
  by (auto simp: get_gbm_format_def gralloc_gbm_get_bpp_def split: if_splits)

lemma no_cursor: "get_pipe_bind usage AND GBM_BO_USE_CURSOR = 0"
  by (simp add: get_pipe_bind_def)

text \<open>A granted allocation asks for one buffer of this size, for the planar format with half the width and
  one and a half times the height, registers it, and returns the stride in pixels.\<close>

lemma alloc_result:
  assumes "\<not> gr_mutex s" and "gr_gbm s \<in> dom (gr_devices s)" and "get_gbm_format format \<noteq> 0" and "sint w \<ge> 0"
    and "handle = ge_handle e (gr_new s)" and "handle \<noteq> 0" and "handle \<notin> dom (gr_map s)"
    and "bo = ge_create e (length (gr_creates s))" and "bo \<noteq> 0"
  shows "\<exists>s'. gbm_mod_alloc_gpu0 e s w h format usage =
      Some (0, handle, Some (ge_stride e bo div gralloc_gbm_get_bpp format), s') \<and>
    gr_map s' = (gr_map s)(handle \<mapsto> bo) \<and>
    gr_creates s' = gr_creates s @ [if format = HAL_PIXEL_FORMAT_YV12
      then (w div 2, h + h div 2, GBM_FORMAT_GR88, get_pipe_bind usage)
      else (w, h, get_gbm_format format, get_pipe_bind usage)]"
proof -
  have "of_int (sint w sdiv 2) = w div 2"
  proof -
    have "sint w = uint w" using assms(4) sint_less [of w] by (simp add: uint_sint [of w] take_bit_int_eq_self)
    moreover have "uint w sdiv 2 = uint (w div 2)" by (cases "w = 0") (simp_all add: signed_divide_int_def uint_div)
    ultimately show ?thesis by simp
  qed
  then show ?thesis
    using assms format_has_bpp [OF assms(3)] no_cursor [of usage]
    by (auto simp: gbm_mod_alloc_gpu0_def mutex_lock_def gralloc_gbm_bo_create_def gbm_alloc_def emplace_def Let_def
        get_gbm_format_def mutex_unlock_def)
qed

text \<open>A module that has been opened and has allocated one buffer of 16 times 16 pixels.\<close>

definition demo_gbm :: gbm_env where
  "demo_gbm = \<lparr>ge_open = \<lambda>_. 3, ge_device = \<lambda>_. 1, ge_handle = \<lambda>k. 10 + k, ge_create = \<lambda>k. 20 + k, ge_import = \<lambda>k. 50 + k,
     ge_map = \<lambda>k. (100 + k, 200 + k, 64), ge_fd = \<lambda>_. 5, ge_stride = \<lambda>_. 64, ge_modifier = \<lambda>_. 0, ge_errno = 0\<rparr>"

definition demo_buffer :: gralloc_handle_t where
  "demo_buffer = \<lparr>gh_prime_fd = 5, gh_width = 16, gh_height = 16, gh_format = 1, gh_usage = 0x133, gh_stride = 64, gh_modifier = 0\<rparr>"

definition demo_gralloc :: gralloc_state where
  "demo_gralloc = \<lparr>gr_mutex = False, gr_gbm = 1, gr_devices = [1 \<mapsto> 3], gr_fds = [3], gr_tries = 1,
     gr_map = [10 \<mapsto> 20], gr_handles = [10 \<mapsto> demo_buffer], gr_new = 1, gr_bos = [20 \<mapsto> None], gr_maps = {},
     gr_creates = [(16, 16, GBM_FORMAT_ABGR8888, GBM_BO_USE_LINEAR OR GBM_BO_USE_RENDERING)],
     gr_imports = [], gr_requests = []\<rparr>"

lemma demo_gralloc_reach: "gralloc_reach demo_gbm demo_gralloc"
proof -
  let ?s = "gralloc_start\<lparr>gr_gbm := 1, gr_devices := [1 \<mapsto> 3], gr_fds := [3], gr_tries := 1\<rparr>"
  have "gbm_mod_open demo_gbm ''gpu0'' gralloc_start ''gpu0'' = Some (0, ?s)"
    by (simp add: gbm_mod_open_def gbm_init_def mutex_lock_def mutex_unlock_def gbm_dev_create_def gralloc_start_def demo_gbm_def)
  then have r: "gralloc_reach demo_gbm ?s" by (rule gralloc_reach.opened [OF gralloc_reach.start])
  have ok: "gbm_env_ok demo_gbm ?s" by (simp add: gbm_env_ok_def demo_gbm_def gralloc_start_def)
  have "gbm_mod_alloc_gpu0 demo_gbm ?s 16 16 1 0x133 = Some (0, 10, Some 16, demo_gralloc)"
    by (simp add: gbm_mod_alloc_gpu0_def mutex_lock_def mutex_unlock_def gralloc_gbm_bo_create_def gbm_alloc_def emplace_def
        gralloc_start_def demo_gbm_def demo_gralloc_def demo_buffer_def get_pipe_bind_def get_gbm_format_def gralloc_gbm_get_bpp_def)
  then show ?thesis by (rule gralloc_reach.allocated [OF r ok])
qed

section \<open>Properties\<close>

text \<open>C38: the buffers of the allocator under clients that keep to the protocol (\<open>gralloc_reach\<close>: only registered
  handles are locked, unlocked, unregistered and freed, none is unregistered or freed while it is locked, and the
  device is not closed; the code does not check this). In every state they reach, each registered handle has a buffer
  object of its own and no other buffer object is alive; exactly those buffers are mapped that are
  locked for access by the CPU, each of them locked once; and no lock of the module is held.\<close>

theorem gralloc_buffers:
  assumes "gralloc_reach e s"
  shows "inj_on (gr_map s) (dom (gr_map s)) \<and> ran (gr_map s) = dom (gr_bos s) \<and>
    gr_maps s = {(bo, m). m \<noteq> 0 \<and> (\<exists>d. gr_bos s bo = Some (Some d) \<and> bd_map_data d = m)} \<and>
    (\<forall>bo d. gr_bos s bo = Some (Some d) \<longrightarrow>
       (bd_map_data d \<noteq> 0 \<longleftrightarrow> bd_locked_for d AND SW_MASK \<noteq> 0) \<and> (bd_map_data d \<noteq> 0 \<longrightarrow> bd_lock_count d = 1)) \<and>
    \<not> gr_mutex s"
proof -
  have i: "tables s" "\<not> gr_mutex s" using gralloc_reach_inv [OF assms] by (auto simp: gralloc_inv_def)
  have "(m \<noteq> 0 \<and> mapping (gr_bos s) bo = m) \<longleftrightarrow> (m \<noteq> 0 \<and> (\<exists>d. gr_bos s bo = Some (Some d) \<and> bd_map_data d = m))" for bo m
    by (auto simp: mapping_def split: option.splits)
  then show ?thesis using i by (auto simp: bo_tables_ok_def data_ok_def)
qed

theorem gralloc_buffers_witness:
  "gralloc_reach demo_gbm demo_gralloc \<and> ran (gr_map demo_gralloc) = dom (gr_bos demo_gralloc) \<and> \<not> gr_mutex demo_gralloc"
  using gralloc_buffers [OF demo_gralloc_reach] demo_gralloc_reach by simp

text \<open>C39: locking and unlocking a registered handle, under clients as in C38. A lock is granted exactly when the
  buffer's own usage admits it (it is part of that usage, or the buffer is for frequent reading by the CPU, for the
  frame buffer or for textures), the buffer is not locked, or the new usage is part of the old one and neither is
  for the CPU, and a mapping that is needed can be made; it is refused otherwise and changes no lock and no
  mapping. After a granted lock the unlock succeeds and takes the buffer and the mappings back to
  where they were. (The rectangle and the number of locks do not overflow an \<open>int\<close>, and the GBM library maps
  with the stride it reports.)\<close>

theorem gralloc_lock_unlock:
  assumes "gralloc_reach e s" and "gbm_env_ok e s" and "gr_map s handle = Some bo" and "gr_bos s bo = Some data"
    and "gr_handles s handle = Some hnd" and "rect_ok hnd x y w h"
    and "d = (case data of Some d \<Rightarrow> d | None \<Rightarrow> no_data)" and "bd_lock_count d < 2 ^ 31 - 1"
    and "ge_map e (length (gr_requests s)) = (addr, m, ge_stride e bo)"
    and "ret = (if \<not> permitted hnd usage \<or> \<not> may_lock d usage then -EINVAL
      else if usage AND SW_MASK \<noteq> 0 \<and> addr = 0 then -ENOMEM else 0)"
  shows "\<exists>ptr s'. gbm_mod_lock e s handle usage x y w h = Some (ret, ptr, s') \<and>
    (if ret = 0
     then (usage AND SW_MASK \<noteq> 0 \<longrightarrow> ptr = Some addr \<and> (bo, m) \<in> gr_maps s') \<and>
       gr_bos s' bo = Some (Some (locked_data d usage (if usage AND SW_MASK = 0 then 0 else m))) \<and>
       (\<exists>s''. gbm_mod_unlock s' handle = Some (0, s'') \<and> gr_bos s'' bo = Some (Some d) \<and> gr_maps s'' = gr_maps s)
     else gr_map s' = gr_map s \<and> gr_maps s' = gr_maps s \<and>
       gr_bos s' = (if permitted hnd usage then (gr_bos s)(bo \<mapsto> Some d) else gr_bos s))"
proof (cases "permitted hnd usage")
  case False
  have t: "tables s" "\<not> gr_mutex s" using gralloc_reach_inv [OF assms(1)] by (auto simp: gralloc_inv_def)
  then have "bo \<noteq> 0" using assms(4) by (auto simp: bo_tables_ok_def)
  then show ?thesis
    using False assms(3,4,5,10) t(2) bo_lock_eq [of "s\<lparr>gr_mutex := True\<rparr>" handle bo data hnd e usage x y w h]
    by (simp add: gbm_mod_lock_def mutex_lock_def mutex_unlock_def)
next
  case perm: True
  then have ret: "ret = (if \<not> may_lock d usage then -EINVAL else if usage AND SW_MASK \<noteq> 0 \<and> addr = 0 then -ENOMEM else 0)"
    using assms(10) by simp
  have inv: "gralloc_inv s" by (rule gralloc_reach_inv [OF assms(1)])
  then have t: "tables s" "\<not> gr_mutex s" by (auto simp: gralloc_inv_def)
  then have bo: "bo \<noteq> 0" "data_ok d" using assms(3,4,7) data_ok_of [OF t(1) assms(4)] by (auto simp: bo_tables_ok_def)
  let ?s = "s\<lparr>gr_mutex := True\<rparr>" and ?S = "set_data (s\<lparr>gr_mutex := True\<rparr>) bo d"
  let ?n = "if usage AND SW_MASK = 0 then 0 else m"
  have am: "addr = 0 \<longleftrightarrow> m = 0" using assms(2,9) by (simp add: gbm_env_ok_def)
  have cnt: "int_ok (bd_lock_count d + 1)" using bo(2) assms(8) by (simp add: int_ok_def data_ok_def)
  have lk: "gralloc_gbm_bo_lock e ?s handle usage x y w h = bo_lock_data e ?S handle bo d usage x y w h"
    using bo_lock_eq [of ?s handle bo data hnd e usage x y w h] assms(3-5,7) perm bo(1) by simp
  have S: "gr_map ?S handle = Some bo" "gr_bos ?S bo = Some (Some d)" "gr_handles ?S handle = Some hnd"
      "ge_map e (length (gr_requests ?S)) = (addr, m, ge_stride e bo)"
    using assms(3,5,9) by simp_all
  obtain flags w' h' where run: "bo_lock_data e ?S handle bo d usage x y w h =
    (if \<not> may_lock d usage then Some (-EINVAL, None, ?S)
     else if usage AND SW_MASK = 0 then Some (0, None, set_data ?S bo (locked_data d usage 0))
     else
       let s1 = ?S\<lparr>gr_requests := gr_requests ?S @ [(bo, w', h', flags)],
             gr_maps := (if addr = 0 then gr_maps ?S else insert (bo, m) (gr_maps ?S))\<rparr>
       in if addr = 0 then Some (-ENOMEM, Some 0, set_data s1 bo (d\<lparr>bd_map_data := m\<rparr>))
          else Some (0, Some addr, set_data s1 bo (locked_data d usage m)))"
    using bo_lock_data_cases [OF bo(2) S, of usage x y w h]
    by (simp only: assms(6) cnt not_True_eq_False if_True if_False refl) blast
  show ?thesis
  proof (cases "ret = 0")
    case False
    have "d\<lparr>bd_map_data := 0\<rparr> = d" if "may_lock d usage" "usage AND SW_MASK \<noteq> 0"
      using bo(2) that by (cases d) (auto simp: may_lock_def data_ok_def)
    then show ?thesis
      using False ret perm run lk t(2) am by (auto simp: gbm_mod_lock_def mutex_lock_def Let_def)
  next
    case True
    then have g: "may_lock d usage" "usage AND SW_MASK \<noteq> 0 \<longrightarrow> addr \<noteq> 0" using ret by (auto split: if_splits)
    obtain ptr s' where s': "gbm_mod_lock e s handle usage x y w h = Some (0, ptr, s')"
      "usage AND SW_MASK \<noteq> 0 \<longrightarrow> ptr = Some addr" "gr_map s' = gr_map s" "gr_bos s' = (gr_bos s)(bo \<mapsto> Some (locked_data d usage ?n))"
      "gr_maps s' = (if usage AND SW_MASK = 0 then gr_maps s else insert (bo, m) (gr_maps s))"
      using g run lk t(2) by (auto simp: gbm_mod_lock_def mutex_lock_def Let_def split: if_splits)
    have "gralloc_reach e s'" using gralloc_reach.locked [OF assms(1,2) _ s'(1)] assms(3) by blast
    then have t': "tables (s'\<lparr>gr_mutex := True\<rparr>)" "\<not> gr_mutex s'" using gralloc_reach_inv by (auto simp: gralloc_inv_def)
    have "\<forall>n. (bo, n) \<notin> gr_maps s"
    proof -
      have "bd_map_data d = 0" using g(1) bo(2) by (auto simp: may_lock_def data_ok_def)
      then show ?thesis using t(1) assms(4,7) by (auto simp: bo_tables_ok_def mapping_def split: option.splits)
    qed
    then have maps: "{(b, k) \<in> gr_maps s'. b \<noteq> bo} = gr_maps s" using s'(5) by auto
    have "gralloc_gbm_bo_unlock (s'\<lparr>gr_mutex := True\<rparr>) handle =
        Some (0, set_data (s'\<lparr>gr_mutex := True, gr_maps := gr_maps s\<rparr>) bo d)"
      using bo_unlock_eq [OF t'(1), of handle bo "locked_data d usage ?n"] s'(3,4) assms(3) bo maps
        unlock_after_lock [OF bo(2) g(1), of ?n] am g(2) by simp
    then have "\<exists>s''. gbm_mod_unlock s' handle = Some (0, s'') \<and> gr_bos s'' bo = Some (Some d) \<and> gr_maps s'' = gr_maps s"
      using t'(2) by (simp add: gbm_mod_unlock_def mutex_lock_def)
    then show ?thesis using True s' by auto
  qed
qed

theorem gralloc_lock_unlock_witness:
  "\<exists>s' s''. gbm_mod_lock demo_gbm demo_gralloc 10 3 0 0 16 16 = Some (0, Some 100, s') \<and> (20, 200) \<in> gr_maps s' \<and>
    gbm_mod_unlock s' 10 = Some (0, s'') \<and> gr_maps s'' = {}"
proof -
  have "gbm_env_ok demo_gbm demo_gralloc" by (simp add: gbm_env_ok_def demo_gbm_def demo_gralloc_def)
  moreover have "permitted demo_buffer 3" by (simp add: permitted_def demo_buffer_def)
  moreover have "rect_ok demo_buffer 0 0 16 16" by (simp add: rect_ok_def demo_buffer_def int_ok_def)
  ultimately show ?thesis
    using gralloc_lock_unlock [OF demo_gralloc_reach, of 10 20 None demo_buffer 0 0 16 16 no_data 100 200 0 3]
    by (simp add: demo_gralloc_def demo_gbm_def no_data_def may_lock_def SW_MASK_def) blast
qed

end
