(* ===== verification/Spec2Isabelle.thy ===== *)
theory Spec2Isabelle
  imports Addr Lookup RmtfsMain PdMapper TqftpCorrect Tlv Audio Gralloc Diag
begin

text \<open>
  The userspace services of the dragonboard device tree: four processes that talk to the remote
  processors of the SoC over QRTR sockets, their tools and the libraries under them, and the
  HAL modules for audio, graphics buffers and memory tracking.

  \<^bold>\<open>The parts of the program and how they interact.\<close>
  \<^item> The name service \<^verbatim>\<open>qcom/qrtr/src/ns.c\<close> keeps the registered servers of all nodes in hash
    tables (\<^verbatim>\<open>map.c\<close>, keyed with \<^verbatim>\<open>hash.c\<close>), the observers in a linked list (\<^verbatim>\<open>list.h\<close>),
    and answers control packets. Its process is an event loop (\<^verbatim>\<open>waiter.c\<close>) over one socket.
  \<^item> The tools \<^verbatim>\<open>lookup.c\<close> (asks the name service and prints the servers) and \<^verbatim>\<open>cfg.c\<close> (sets
    the address of the node with the netlink request of \<^verbatim>\<open>addr.c\<close>, as \<^verbatim>\<open>ns.c\<close> does).
  \<^item> The library \<^verbatim>\<open>qcom/qrtr/lib\<close> has the client side of these packets (\<^verbatim>\<open>qrtr.c\<close>) and the QMI
    encoder and decoder (\<^verbatim>\<open>qmi.c\<close>), both driven by tables that describe C structures.
  \<^item> The remote file system service \<^verbatim>\<open>qcom/rmtfs\<close> serves QMI requests of the modem
    (\<^verbatim>\<open>rmtfs.c\<close>, tables in \<^verbatim>\<open>qmi_rmtfs.c\<close>): it copies sectors between shared memory
    (\<^verbatim>\<open>sharedmem.c\<close>) and the files or in-memory copies behind its handles (\<^verbatim>\<open>storage.c\<close>).
    With \<^verbatim>\<open>rproc.c\<close> it starts the modem and stops it before it ends.
  \<^item> The protection domain mapper \<^verbatim>\<open>qcom/pd-mapper\<close> answers one QMI request from a table.
  \<^item> The TFTP server \<^verbatim>\<open>qcom/tqftpserv\<close> transfers files; \<^verbatim>\<open>translate.c\<close> maps the requested paths.
  \<^item> The audio HAL \<^verbatim>\<open>audio/audio_hw.c\<close> plays the streams of the media server on one PCM device.
  \<^item> The graphics allocator \<^verbatim>\<open>gralloc\<close> keeps a GBM buffer object for every native handle, and locks
    and maps it for its users.
  \<^item> Diagnostics: the log \<^verbatim>\<open>qcom/qrtr/lib/logging.c\<close>, the hex dump \<^verbatim>\<open>qcom/rmtfs/util.c\<close>. The file
    \<^verbatim>\<open>qcom/rmtfs/qmi_tlv.c\<close> builds QMI messages item by item; no process uses it. The memory tracker
    \<^verbatim>\<open>libmemtrack\<close> has nothing but an initialisation.

  \<^bold>\<open>Theories.\<close>
  \<^item> \<open>Prelude\<close>, \<open>Cmem\<close>: machine integers, byte buffers, C objects with checked accesses and the
    strings in them. Undefined behaviour is \<^term>\<open>None\<close>; negative return codes are values.
  \<^item> \<open>Hash\<close>, \<open>Qmap\<close>: the hash functions and the open addressing table with deleted markers.
    \<open>Qmap\<close> proves insertion, removal, lookup and iteration against the table as a map, growth
    included (four units of fuel are shown to be enough), states the contracts as locales
    (tables whose keys are never re-inserted, tables without removal) and interprets them on
    the code. Insertion of a key can leave an older item with the key behind a deleted marker; the
    theorems on insertion and removal hold for such tables too, and say what they can say there.
  \<^item> \<open>LinkedLists\<close>: both list headers over a heap of nodes, with one locale as their contract,
    interpreted twice. It justifies the use of HOL lists for the observers of the name service
    and the clients of the TFTP server.
  \<^item> \<open>Qrtr\<close>: control packets, the requests of a client, its receive and poll calls, \<open>qrtr_decode\<close>.
  \<^item> \<open>Ns\<close>: node and server registry, observers and all command handlers of \<open>ns.c\<close>, with the
    reachable states of the process (\<open>ns_reach\<close>). The properties: registry invariant, isolation
    between nodes, what registration, removal, lookup and node departure do and whom they tell. They do
    not presuppose that a registration is stored once; where the result depends on it they say so.
    Every allocation is an argument of its own, named by the place in the code and the size.
  \<^item> \<open>Waiter\<close>: \<open>waiter.c\<close> over a heap of tickets and a poll array: memory safety of its
    operations, the common starting times, which tickets a wait fires. The list of tickets is
    used through the locale of \<open>LinkedLists\<close>.
  \<^item> \<open>NsMain\<close>: the name service as a process: every datagram is handled once and in order.
  \<^item> \<open>Numbers\<close>, \<open>Lookup\<close>, \<open>Addr\<close>: \<open>strtoul\<close> and decimal numbers, and the two tools. A lookup is
    followed from the command line through the name service to the printed lines. \<open>Addr\<close> also
    has the command line of the name service, with which \<open>ns_program\<close> is the whole of it.
  \<^item> \<open>Qmi\<close>, \<open>QmiDecode\<close>: \<open>qmi.c\<close> as an interpreter of element tables. The recursion over nested
    tables is bounded by their depth, which is enough by construction. Memory safety of the
    encoder for every well-formed table, of the decoder for every message.
  \<^item> \<open>QmiService\<close>: what the QMI services share: decoding a request, sending a response.
  \<^item> \<open>Storage\<close>, \<open>Sharedmem\<close>, \<open>Rmtfs\<close>, \<open>RmtfsCorrect\<close>: handles, shared memory, message handlers,
    and the proof that a transfer request has the effect of its specification on the file and
    on the memory, from the bytes of the request to the bytes of the response. Every call for a file or a
    device can fail or transfer less than it was asked for (\<open>px_io\<close>); the shared memory is
    mapped or behind a device file. Storage and the search for the memory are there for
    Android and for other systems.
  \<^item> \<open>RmtfsMain\<close>: the process of the remote file system service and the control of the modem. Its
    loops are \<open>partial_function\<close>s; the property about a graceful stop shows that they end. The threads of
    \<^verbatim>\<open>rproc.c\<close> are the writes they make, which may fail, as may their creation.
  \<^item> \<open>PdMapper\<close>: the mapper with its loop; replies for every request, survival of malformed ones.
  \<^item> \<open>Translate\<close>, \<open>Tqftp\<close>, \<open>TqftpCorrect\<close>: path translation (which file a request opens), transfers, the loop of the server.
    The loop that sends a window is a \<open>partial_function\<close>, since it need not end; it is proved
    to end with the right packets, and not to end in the remaining case. A whole read or
    write transfer is proved to transfer the data. The reachable states are \<open>tq_reach\<close>.
  \<^item> \<open>Audio\<close>: output streams with their PCM handles and locks, and the reachable states of the HAL.
    Handles that ALSA gives out are assumed not to be in use. The handles of streams that are closed while
    they run are lost, and counted as such.
  \<^item> \<open>Gralloc\<close>: the table of buffer objects, allocation, registration, locks, and the states that clients
    which keep to the protocol reach, in which every handle has a live buffer object of its own and
    mappings belong to locked buffers; lemmas show what other clients can cause, since the module checks
    nothing. GBM is assumed to give out buffers, mappings and devices that are not in use.
  \<^item> \<open>Tlv\<close>: the messages of \<^verbatim>\<open>qmi_tlv.c\<close>: what is set can be found again.
  \<^item> \<open>Diag\<close>: the hex dump, which stays inside its line buffer, the log with its threshold, and the
    memory tracker.
  \<^item> This theory: the tables of both QMI services are well-formed for the encoder and the decoder,
    with the exceptions it names, so that the safety of the codec applies to their messages; and
    a registration is followed from \<open>qrtr_publish\<close> of a client through the name service to what
    \<open>qrtr_decode\<close> of the observers makes of it.

  \<^bold>\<open>Conventions.\<close> State is a record passed through the functions, with the field names of the
  source behind a prefix. What the system decides (results of system calls, memory, values of
  uninitialised variables) is a record of arguments, so that a theorem holds for all of it
  unless it says otherwise. Structures that are encoded or decoded are byte objects with the
  arm64 layout. The lines that the programs print about errors have no effect on the model;
  those of \<open>lookup.c\<close>, of the hex dump and of the log are values.

  \<^bold>\<open>Not modelled.\<close> Everything that is not in the repository is an argument of the definitions:
  the kernel, libc with \<open>getopt\<close> and \<open>printf\<close>, libudev, tinyalsa, GBM, the creation of native handles
  and the functions of the Android headers (their constants are arguments too, or have the values
  of the headers). Calls that only delay (\<open>util_sleep\<close>) have no definition.
  The threads of the audio HAL and of the graphics allocator are ordered by their locks: the
  reachable states are those of whole operations in some order. The Python binding, the build
  files and the configuration data of the device are no programs of their own.
\<close>

section \<open>The messages of the QMI services\<close>

text \<open>The structures of \<^verbatim>\<open>qmi_rmtfs.h\<close> and of \<^verbatim>\<open>servreg_loc.h\<close>: their sizes and the tables that describe them.\<close>

definition rmtfs_messages :: "(nat \<times> qmi_elem_info list) list" where
  "rmtfs_messages =
     [(260, rmtfs_open_req_ei), (12, rmtfs_open_resp_ei), (4, rmtfs_close_req_ei), (4, rmtfs_close_resp_ei),
      (3080, rmtfs_iovec_req_ei), (4, rmtfs_iovec_resp_ei), (8, rmtfs_alloc_buf_req_ei), (16, rmtfs_alloc_buf_resp_ei),
      (4, rmtfs_dev_error_req_ei), (6, rmtfs_dev_error_resp_ei), (48, rmtfs_force_sync_ei)]"

definition servreg_messages :: "(nat \<times> qmi_elem_info list) list" where
  "servreg_messages =
     [(268, servreg_loc_get_domain_list_req_ei), (69380, servreg_loc_get_domain_list_resp_ei),
      (520, servreg_loc_pfr_req_ei), (4, servreg_loc_pfr_resp_ei)]"

definition service_messages :: "(nat \<times> qmi_elem_info list) list" where
  "service_messages = rmtfs_messages @ servreg_messages"

lemma messages_encode_typed:
  "\<forall>(sz, es) \<in> set service_messages. wf_table sz es \<longleftrightarrow> es \<noteq> servreg_loc_get_domain_list_resp_ei"
  by code_simp

lemma messages_decode_typed:
  "\<forall>(sz, es) \<in> set service_messages. dec_table sz es \<longleftrightarrow> es \<noteq> rmtfs_open_req_ei \<and> es \<noteq> servreg_loc_pfr_req_ei"
  by code_simp

text \<open>C40: the tables of the services describe their structures. With the table of any message but the
  domain list, whose entries hold strings, the encoder stays inside the packet (of less than 65543
  bytes) and the structure, if the strings in the structure are terminated; with any but the two
  requests that end in a string, the decoder stays inside the structure and inside a buffer that is larger than the
  message by at least 3 bytes and what the table can make it read (\<open>table_reads\<close>), whatever the buffer holds. (It
  does not stay inside the message: lengths in the message are not checked against its end.)\<close>

theorem service_messages_typed:
  assumes "(sz, es) \<in> set service_messages"
  shows "(es \<noteq> servreg_loc_get_domain_list_resp_ei \<and> osize src = sz \<and> strings_ok src 0 es \<and> len \<le> osize data \<and> len < 65543 \<and>
      msg_id < 65536 \<longrightarrow>
      (\<exists>rc data' len'. qmi_encode_message data len type msg_id txn (Some src) (Some es) = Some (rc, data', len') \<and>
        only_between 0 len data data' \<and> (0 \<le> rc \<longrightarrow> len' \<le> len \<and> qmi_decode_header data' len' = Some (0, Some msg_id)))) \<and>
    (es \<notin> {rmtfs_open_req_ei, servreg_loc_pfr_req_ei} \<and> osize src = sz \<and> 7 \<le> len \<and> len + 3 + table_reads es \<le> osize data \<and>
      osize data < 2 ^ 31 \<longrightarrow>
      (\<exists>rc txn' out. qmi_decode_message (Some src) (Some data) len type msg_id (Some es) = Some (rc, txn', Some out) \<and>
        osize out = sz))"
proof (intro conjI impI)
  assume a: "es \<noteq> servreg_loc_get_domain_list_resp_ei \<and> osize src = sz \<and> strings_ok src 0 es \<and> len \<le> osize data \<and> len < 65543 \<and>
      msg_id < 65536"
  then have "wf_table sz es" using messages_encode_typed assms by auto
  from encode_message_safe [OF this, of src len data msg_id type txn] a
  show "\<exists>rc data' len'. qmi_encode_message data len type msg_id txn (Some src) (Some es) = Some (rc, data', len') \<and>
      only_between 0 len data data' \<and> (0 \<le> rc \<longrightarrow> len' \<le> len \<and> qmi_decode_header data' len' = Some (0, Some msg_id))"
    by auto
next
  assume a: "es \<notin> {rmtfs_open_req_ei, servreg_loc_pfr_req_ei} \<and> osize src = sz \<and> 7 \<le> len \<and> len + 3 + table_reads es \<le> osize data \<and>
      osize data < 2 ^ 31"
  then have "dec_table sz es" using messages_decode_typed assms by auto
  from message_safe [OF this, of src len data type msg_id] a
  show "\<exists>rc txn' out. qmi_decode_message (Some src) (Some data) len type msg_id (Some es) = Some (rc, txn', Some out) \<and>
      osize out = sz"
    by auto
qed

theorem service_messages_typed_witness:
  "\<exists>rc txn' out. qmi_decode_message (Some (obj_zero 8)) (Some (obj_zero 64)) 21 0 4 (Some rmtfs_alloc_buf_req_ei) =
     Some (rc, txn', Some out) \<and> osize out = 8"
proof -
  have "(8, rmtfs_alloc_buf_req_ei) \<in> set service_messages" by (simp add: service_messages_def rmtfs_messages_def)
  moreover have "rmtfs_alloc_buf_req_ei \<notin> {rmtfs_open_req_ei, servreg_loc_pfr_req_ei}"
    "21 + 3 + table_reads rmtfs_alloc_buf_req_ei \<le> 64" by code_simp+
  ultimately show ?thesis
    using service_messages_typed [of 8 rmtfs_alloc_buf_req_ei "obj_zero 8" 21 "obj_zero 64" 4 0] by (simp add: obj_zero_def)
qed

section \<open>From a publisher to its observers\<close>



end
